(* ===== verification/Prelude.thy ===== *)
theory Prelude
  imports Main "HOL-Library.Word" "HOL-Library.Monad_Syntax"
begin

text \<open>
  Shared vocabulary of the development: the integer types of \<open>kernel/type.h\<close>, C's
  \<open>int\<close>, bounds-checked access to byte buffers, little-endian fields of packed
  structures, and the generic lemmas the component theories use.  Every access outside a
  buffer, every access to unmapped memory and every write past an array is the value
  \<open>None\<close> of an \<open>option\<close> result, so a theorem that an operation returns \<open>Some\<close> is
  also a theorem that it stays inside its buffers.
\<close>

section \<open>Integer types\<close>

type_synonym byte = "8 word"
type_synonym word16 = "16 word"
type_synonym dword = "32 word"
type_synonym qword = "64 word"
type_synonym buffer = "byte list"

unbundle bit_operations_syntax

text \<open>The value an \<open>int\<close> (32 bits, two's complement) has after holding \<open>x\<close>.\<close>

definition c_int :: "int \<Rightarrow> int" where
  "c_int x = signed_take_bit 31 x"

named_theorems buf_simps \<open>bounds-checked buffer access\<close>
named_theorems bit_facts \<open>facts on single bits of machine words\<close>

lemma c_int_id [simp]: "- 2147483648 \<le> x \<Longrightarrow> x < 2147483648 \<Longrightarrow> c_int x = x"
  by (simp add: c_int_def signed_take_bit_int_eq_self)

lemma c_int_range: "- 2147483648 \<le> c_int x \<and> c_int x < 2147483648"
  using signed_take_bit_int_greater_eq_minus_exp [of 31 x] signed_take_bit_int_less_exp [of 31 x]
  by (simp add: c_int_def)

section \<open>Buffers\<close>

definition buf_get :: "'a list \<Rightarrow> nat \<Rightarrow> 'a option" where
  "buf_get b i = (if i < length b then Some (b ! i) else None)"

definition buf_set :: "'a list \<Rightarrow> nat \<Rightarrow> 'a \<Rightarrow> 'a list option" where
  "buf_set b i v = (if i < length b then Some (b[i := v]) else None)"

lemma buf_get_in [simp, buf_simps]: "i < length b \<Longrightarrow> buf_get b i = Some (b ! i)"
  by (simp add: buf_get_def)

lemma buf_get_out [simp, buf_simps]: "length b \<le> i \<Longrightarrow> buf_get b i = None"
  by (simp add: buf_get_def)

lemma buf_set_in [simp, buf_simps]: "i < length b \<Longrightarrow> buf_set b i v = Some (b[i := v])"
  by (simp add: buf_set_def)

lemma buf_set_out [simp, buf_simps]: "length b \<le> i \<Longrightarrow> buf_set b i v = None"
  by (simp add: buf_set_def)

lemma buf_get_SomeD: "buf_get b i = Some x \<Longrightarrow> i < length b \<and> x = b ! i"
  by (auto simp: buf_get_def split: if_splits)

lemma buf_set_SomeD: "buf_set b i v = Some b' \<Longrightarrow> i < length b \<and> b' = b[i := v]"
  by (auto simp: buf_set_def split: if_splits)

text \<open>Writing the next element of a prefix that is being built.\<close>

lemma take_Suc_update:
  assumes "i < length b"
  shows "take (Suc i) (b[i := v]) = take i b @ [v]"
  using assms by (simp add: take_Suc_conv_app_nth)

section \<open>C strings in a buffer\<close>

text \<open>The characters before the first NUL.\<close>

definition cstr :: "buffer \<Rightarrow> byte list" where
  "cstr b = takeWhile (\<lambda>c. c \<noteq> 0) b"

definition terminated :: "buffer \<Rightarrow> bool" where
  "terminated b \<longleftrightarrow> 0 \<in> set b"

lemma cstr_append_NUL: "0 \<notin> set s \<Longrightarrow> cstr (s @ 0 # r) = s"
  by (auto simp: cstr_def takeWhile_tail)

lemma terminated_split:
  assumes "terminated b"
  obtains s r where "b = s @ 0 # r" and "0 \<notin> set s"
  using assms split_list_first [of 0 b] by (auto simp: terminated_def)

lemma cstr_no_NUL: "0 \<notin> set (cstr b)"
  by (auto simp: cstr_def dest: set_takeWhileD)

lemma length_cstr_less: "terminated b \<Longrightarrow> length (cstr b) < length b"
  by (erule terminated_split) (simp add: cstr_append_NUL)

section \<open>Little-endian fields\<close>

definition le16 :: "buffer \<Rightarrow> nat \<Rightarrow> word16" where
  "le16 b i = ucast (b ! i) OR push_bit 8 (ucast (b ! (i + 1)))"

definition le32 :: "buffer \<Rightarrow> nat \<Rightarrow> dword" where
  "le32 b i = ucast (le16 b i) OR push_bit 16 (ucast (le16 b (i + 2)))"

definition le64 :: "buffer \<Rightarrow> nat \<Rightarrow> qword" where
  "le64 b i = ucast (le32 b i) OR push_bit 32 (ucast (le32 b (i + 4)))"

section \<open>Machine words\<close>

lemma word_or_zero_iff: "(a :: 'a :: len word) OR b = 0 \<longleftrightarrow> a = 0 \<and> b = 0"
  by (auto simp: bit_eq_iff bit_simps)

lemma and_one_bit [bit_facts]: "(w :: 'a :: len word) AND 1 = 0 \<longleftrightarrow> \<not> bit w 0"
  by (simp add: and_one_eq bit_0 even_iff_mod_2_eq_zero)

lemma and_one_bit_ne [bit_facts]: "(w :: 'a :: len word) AND 1 \<noteq> 0 \<longleftrightarrow> bit w 0"
  by (simp add: and_one_bit)

lemma drop_bit_and_one [bit_facts]: "drop_bit j (w :: 'a :: len word) AND 1 = 0 \<longleftrightarrow> \<not> bit w j"
  by (simp add: and_one_bit bit_drop_bit_eq)

section \<open>Searching\<close>

lemma find_upt_None:
  "find P [0..<n] = None \<longleftrightarrow> (\<forall>j < n. \<not> P j)"
  by (auto simp: find_None_iff)

lemma find_upt_Some:
  "find P [0..<n] = Some j \<longleftrightarrow> j < n \<and> P j \<and> (\<forall>k < j. \<not> P k)"
proof
  assume "find P [0..<n] = Some j"
  then show "j < n \<and> P j \<and> (\<forall>k < j. \<not> P k)"
    by (auto simp: find_Some_iff)
next
  assume "j < n \<and> P j \<and> (\<forall>k < j. \<not> P k)"
  then show "find P [0..<n] = Some j"
    by (auto simp: find_Some_iff intro!: exI [of _ j])
qed

end
