(* ===== verification/Page.thy ===== *)
theory Page
  imports Prelude
begin

text \<open>
  \<open>kernel/page.c\<close>: the physical-frame bitmap and the four-level page tables.

  The state holds the contents of physical memory as the page-table code sees it, one
  64-bit entry per (frame, index); the bitmap (one bit per frame, 32768 frames); and the
  global pointers: \<open>pmlt4\<close>, \<open>frame_pt\<close> and \<open>bitmap\<close>, whose value is \<open>bitmap_addr\<close> here (the
  kernel's are the constants \<open>FRAME_PT_ADDRESS\<close> and \<open>PAGE_BITMAP_ADDRESS\<close>, those of
  \<open>boot/stage64\<close> differ).  The kernel reaches a table whose physical address it knows
  through one virtual page, \<open>PAGE_ADDRESS(0,0,511,0)\<close>, whose entry is \<open>frame_pt[0]\<close>: the window.
  \<open>page_mapframe\<close> points the window at a frame.  The tables at \<open>pmlt4\<close> and \<open>frame_pt\<close>
  and the bitmap are identity-mapped by the loader and are accessed directly.

  An access through an unmapped window, through a window onto an address that is not RAM
  (\<open>ram_end\<close> is the end of memory), or outside the bitmap is \<open>None\<close>.
\<close>

section \<open>State and constants\<close>

type_synonym pt_index = "9 word"

record pstate =
  pmem :: "qword \<Rightarrow> pt_index \<Rightarrow> qword"
  bitmap :: "nat \<Rightarrow> byte"
  pmlt4 :: qword
  frame_pt :: qword
  bitmap_addr :: qword
  ram_end :: qword

abbreviation PAGE_PRESENT :: qword where "PAGE_PRESENT \<equiv> 1"
abbreviation PAGE_READWRITE :: qword where "PAGE_READWRITE \<equiv> 2"
abbreviation PAGE_USERSPACE :: qword where "PAGE_USERSPACE \<equiv> 4"
abbreviation PAGE_SIZE :: qword where "PAGE_SIZE \<equiv> 0x1000"
abbreviation PAGE_BITMAP_SIZE :: nat where "PAGE_BITMAP_SIZE \<equiv> 0x1000"
abbreviation PMLT4_ADDRESS :: qword where "PMLT4_ADDRESS \<equiv> 0x1000"
abbreviation FRAME_PT_ADDRESS :: qword where "FRAME_PT_ADDRESS \<equiv> 0x5000"
abbreviation PAGE_BITMAP_ADDRESS :: qword where "PAGE_BITMAP_ADDRESS \<equiv> 0x6000"
abbreviation KERNEL_HIGHER_HALF_KKERNEL :: qword where
  "KERNEL_HIGHER_HALF_KKERNEL \<equiv> 0xFFFFFFFF80000000"

text \<open>The index macros keep nine bits, which is what \<open>ucast\<close> to \<open>9 word\<close> does.\<close>

definition PMLT4_INDEX :: "qword \<Rightarrow> pt_index" where
  "PMLT4_INDEX x = ucast (drop_bit 39 x)"

definition PDPT_INDEX :: "qword \<Rightarrow> pt_index" where
  "PDPT_INDEX x = ucast (drop_bit 30 x)"

definition PDT_INDEX :: "qword \<Rightarrow> pt_index" where
  "PDT_INDEX x = ucast (drop_bit 21 x)"

definition PT_INDEX :: "qword \<Rightarrow> pt_index" where
  "PT_INDEX x = ucast (drop_bit 12 x)"

definition PAGE_ADDRESS :: "pt_index \<Rightarrow> pt_index \<Rightarrow> pt_index \<Rightarrow> pt_index \<Rightarrow> qword" where
  "PAGE_ADDRESS pml4 pdpt pdt pt =
     push_bit 39 (ucast pml4) OR push_bit 30 (ucast pdpt) OR push_bit 21 (ucast pdt)
     OR push_bit 12 (ucast pt)"

section \<open>Memory, the window and the bitmap\<close>

definition poke :: "qword \<Rightarrow> pt_index \<Rightarrow> qword \<Rightarrow> pstate \<Rightarrow> pstate" where
  "poke f i v s = s\<lparr>pmem := (pmem s)(f := (pmem s f)(i := v))\<rparr>"

definition zero_frame :: "qword \<Rightarrow> pstate \<Rightarrow> pstate" where
  "zero_frame f s = s\<lparr>pmem := (pmem s)(f := (\<lambda>_. 0))\<rparr>"

definition page_mapframe :: "qword \<Rightarrow> pstate \<Rightarrow> pstate" where
  "page_mapframe address s = poke (frame_pt s) 0 (address OR 1 OR 2) s"

definition page_umapframe :: "pstate \<Rightarrow> pstate" where
  "page_umapframe s = poke (frame_pt s) 0 0 s"

text \<open>The frame behind the window: bits 12 to 51 of its entry, if that is memory.\<close>

definition window :: "pstate \<Rightarrow> qword option" where
  "window s = (let e = pmem s (frame_pt s) 0; f = e AND 0x000FFFFFFFFFF000
     in if e AND PAGE_PRESENT = 0 \<or> ram_end s \<le> f then None else Some f)"

definition win_get :: "pt_index \<Rightarrow> pstate \<Rightarrow> qword option" where
  "win_get i s = do { f \<leftarrow> window s; Some (pmem s f i) }"

definition win_set :: "pt_index \<Rightarrow> qword \<Rightarrow> pstate \<Rightarrow> pstate option" where
  "win_set i v s = do { f \<leftarrow> window s; Some (poke f i v s) }"

definition win_zero :: "pstate \<Rightarrow> pstate option" where
  "win_zero s = do { f \<leftarrow> window s; Some (zero_frame f s) }"

definition page_set_bitmap :: "qword \<Rightarrow> pstate \<Rightarrow> pstate option" where
  "page_set_bitmap address s =
     (let a = drop_bit 12 address; idx = unat (ucast (a div 8) :: dword); off = unat (a mod 8)
      in if idx < PAGE_BITMAP_SIZE
         then Some (s\<lparr>bitmap := (bitmap s)(idx := bitmap s idx OR push_bit off 1)\<rparr>)
         else None)"

definition page_clear_bitmap :: "qword \<Rightarrow> pstate \<Rightarrow> pstate option" where
  "page_clear_bitmap address s =
     (let a = drop_bit 12 address; idx = unat (ucast (a div 8) :: dword); off = unat (a mod 8)
      in if idx < PAGE_BITMAP_SIZE
         then Some (s\<lparr>bitmap := (bitmap s)(idx := bitmap s idx AND NOT (push_bit off 1))\<rparr>)
         else None)"

section \<open>The frame allocator\<close>

text \<open>The two nested loops of \<open>page_getframe\<close>: the first clear bit \<open>j\<close> of byte \<open>i\<close>.\<close>

function getframe_scan :: "(nat \<Rightarrow> byte) \<Rightarrow> nat \<Rightarrow> (nat \<times> nat) option" where
  "getframe_scan bm i =
     (if i < PAGE_BITMAP_SIZE
      then (if bm i = 0xFF then getframe_scan bm (i + 1)
            else case find (\<lambda>j. drop_bit j (bm i) AND 1 = 0) [0..<8] of
                   Some j \<Rightarrow> Some (i, j)
                 | None \<Rightarrow> getframe_scan bm (i + 1))
      else None)"
  by pat_completeness auto
termination by (relation "measure (\<lambda>(bm, i). PAGE_BITMAP_SIZE - i)") auto

declare getframe_scan.simps [simp del]

text \<open>When every bit is set the function returns \<open>-1\<close>; its callers do not test for it.\<close>

definition page_getframe :: "pstate \<Rightarrow> (qword \<times> pstate) option" where
  "page_getframe s =
     (case getframe_scan (bitmap s) 0 of
        None \<Rightarrow> Some (- 1, s)
      | Some (i, j) \<Rightarrow> do {
          let addr = of_nat ((j + i * 8) * 0x1000);
          let s1 = s\<lparr>bitmap := (bitmap s)(i := bitmap s i OR push_bit j 1)\<rparr>;
          s2 \<leftarrow> win_zero (page_mapframe addr s1);
          Some (addr, page_umapframe s2) })"

section \<open>Mapping\<close>

text \<open>
  The walk the mapping functions share.  \<open>page_next_root\<close> is the step from the PML4 (which
  is accessed directly), \<open>page_next\<close> the steps from a PDPT or PDT (through the window):
  a missing table is allocated, linked and zero; the result is the next table's address.
\<close>

definition page_next_root :: "pt_index \<Rightarrow> word16 \<Rightarrow> pstate \<Rightarrow> (qword \<times> pstate) option" where
  "page_next_root i flags s = do {
     s' \<leftarrow> (if pmem s (pmlt4 s) i AND PAGE_PRESENT = 0
            then do { (frame, s1) \<leftarrow> page_getframe s; Some (poke (pmlt4 s1) i (frame OR ucast flags) s1) }
            else Some s);
     Some (pmem s' (pmlt4 s') i AND NOT 0x1FF, s') }"

definition page_next :: "qword \<Rightarrow> pt_index \<Rightarrow> word16 \<Rightarrow> pstate \<Rightarrow> (qword \<times> pstate) option" where
  "page_next addr i flags s = do {
     let s1 = page_mapframe addr s;
     e \<leftarrow> win_get i s1;
     s' \<leftarrow> (if e AND PAGE_PRESENT = 0
            then do { (frame, s2) \<leftarrow> page_getframe s1;
                      win_set i (frame OR ucast flags) (page_mapframe addr s2) }
            else Some s1);
     e' \<leftarrow> win_get i s';
     Some (e' AND NOT 0x1FF, s') }"

definition page_tables :: "qword \<Rightarrow> word16 \<Rightarrow> pstate \<Rightarrow> (qword \<times> pstate) option" where
  "page_tables virt flags s = do {
     (pdpt_addr, s1) \<leftarrow> page_next_root (PMLT4_INDEX virt) flags s;
     (pdt_addr, s2) \<leftarrow> page_next pdpt_addr (PDPT_INDEX virt) flags s1;
     page_next pdt_addr (PDT_INDEX virt) flags s2 }"

definition page_alloc4K :: "word16 \<Rightarrow> pstate \<Rightarrow> (qword \<times> pstate) option" where
  "page_alloc4K flags s = do {
     (phys, s1) \<leftarrow> page_getframe s;
     (pt_addr, s2) \<leftarrow> page_tables phys flags s1;
     s3 \<leftarrow> win_set (PT_INDEX phys) (phys OR ucast flags) (page_mapframe pt_addr s2);
     Some (phys, page_umapframe s3) }"

text \<open>One page of \<open>page_mapv\<close>: an entry in use is skipped with the window still mapped.\<close>

definition page_mapv_page :: "qword \<Rightarrow> word16 \<Rightarrow> pstate \<Rightarrow> pstate option" where
  "page_mapv_page virt flags s = do {
     (pt_addr, s1) \<leftarrow> page_tables virt flags s;
     (phy_addr, s2) \<leftarrow> page_getframe s1;
     let s3 = page_mapframe pt_addr s2;
     e \<leftarrow> win_get (PT_INDEX virt) s3;
     if e \<noteq> 0 then Some s3
     else do { s4 \<leftarrow> win_set (PT_INDEX virt) (phy_addr OR ucast flags) s3;
               Some (page_umapframe s4) } }"

definition page_mapvp_page :: "qword \<Rightarrow> qword \<Rightarrow> word16 \<Rightarrow> pstate \<Rightarrow> pstate option" where
  "page_mapvp_page virt phys flags s = do {
     (pt_addr, s1) \<leftarrow> page_tables virt flags s;
     let s2 = page_mapframe pt_addr s1;
     e \<leftarrow> win_get (PT_INDEX virt) s2;
     if e \<noteq> 0 then Some (page_umapframe s2)
     else do { s3 \<leftarrow> win_set (PT_INDEX virt) (phys OR ucast flags) s2;
               Some (page_umapframe s3) } }"

text \<open>\<open>continue\<close> on a missing table leaves the window as the walk left it.\<close>

definition page_umapv_page :: "qword \<Rightarrow> pstate \<Rightarrow> pstate option" where
  "page_umapv_page virt s =
     (let e4 = pmem s (pmlt4 s) (PMLT4_INDEX virt) in
      if e4 AND PAGE_PRESENT = 0 then Some s
      else do {
        let s1 = page_mapframe (e4 AND NOT 0x1FF) s;
        e3 \<leftarrow> win_get (PDPT_INDEX virt) s1;
        if e3 AND PAGE_PRESENT = 0 then Some s1
        else do {
          let s2 = page_mapframe (e3 AND NOT 0x1FF) s1;
          e2 \<leftarrow> win_get (PDT_INDEX virt) s2;
          if e2 AND PAGE_PRESENT = 0 then Some s2
          else do {
            let s3 = page_mapframe (e2 AND NOT 0x1FF) s2;
            e1 \<leftarrow> win_get (PT_INDEX virt) s3;
            s4 \<leftarrow> win_set (PT_INDEX virt) 0 s3;
            s5 \<leftarrow> page_clear_bitmap (e1 AND NOT 0x1FF) s4;
            Some (page_umapframe s5) } } })"

text \<open>
  The number of pages a length covers, and the loops over them.  The counter and the
  offset \<open>i * PAGE_SIZE\<close> are \<open>int\<close>: page \<open>0x80000\<close> would overflow it, which is
  undefined and \<open>None\<close> here.
\<close>

definition page_count :: "qword \<Rightarrow> nat" where
  "page_count len = unat (len div PAGE_SIZE + (if len mod PAGE_SIZE > 0 then 1 else 0))"

primrec page_loop :: "(qword \<Rightarrow> pstate \<Rightarrow> pstate option) \<Rightarrow> nat \<Rightarrow> pstate \<Rightarrow> pstate option" where
  "page_loop f 0 s = Some s"
| "page_loop f (Suc n) s = do {
     s' \<leftarrow> page_loop f n s;
     if n < 0x80000 then f (of_nat n * PAGE_SIZE) s' else None }"

definition page_mapv :: "qword \<Rightarrow> qword \<Rightarrow> word16 \<Rightarrow> pstate \<Rightarrow> pstate option" where
  "page_mapv virt len flags s =
     page_loop (\<lambda>off. page_mapv_page (virt + off) flags) (page_count len) s"

definition page_mapvp :: "qword \<Rightarrow> qword \<Rightarrow> qword \<Rightarrow> word16 \<Rightarrow> pstate \<Rightarrow> pstate option" where
  "page_mapvp virt phys len flags s =
     page_loop (\<lambda>off. page_mapvp_page (virt + off) (phys + off) flags) (page_count len) s"

definition page_umapv :: "qword \<Rightarrow> qword \<Rightarrow> pstate \<Rightarrow> pstate option" where
  "page_umapv virt len s =
     page_loop (\<lambda>off. page_umapv_page (virt + off)) (page_count len) s"

section \<open>New address spaces and accounting\<close>

definition page_setPMLT4 :: "qword \<Rightarrow> pstate \<Rightarrow> pstate" where
  "page_setPMLT4 a s = s\<lparr>pmlt4 := a\<rparr>"

definition page_setPMLT4Default :: "pstate \<Rightarrow> pstate" where
  "page_setPMLT4Default s = s\<lparr>pmlt4 := PMLT4_ADDRESS\<rparr>"

text \<open>
  \<open>page_init\<close> takes the root from \<open>cr3\<close>; the page count it computes from the linker
  symbols is not used.  \<open>page_create\<close> writes the new tables through the identity mapping
  \<open>page_alloc4K\<close> has just made of their frames.
\<close>

definition page_init :: "qword \<Rightarrow> pstate \<Rightarrow> pstate" where
  "page_init cr3 s = s\<lparr>pmlt4 := cr3\<rparr>"

definition direct_set :: "qword \<Rightarrow> pt_index \<Rightarrow> qword \<Rightarrow> pstate \<Rightarrow> pstate option" where
  "direct_set f i v s = (if f < ram_end s then Some (poke f i v s) else None)"

definition page_create :: "pstate \<Rightarrow> (qword \<times> pstate) option" where
  "page_create s = do {
     let flags = 1 OR 2;
     (new_pmlt4, s1) \<leftarrow> page_alloc4K flags s;
     (new_pdpt, s2) \<leftarrow> page_alloc4K flags s1;
     (new_pdt, s3) \<leftarrow> page_alloc4K flags s2;
     (new_pt, s4) \<leftarrow> page_alloc4K flags s3;
     s5 \<leftarrow> direct_set new_pmlt4 0 (new_pdpt OR 2 OR 1) s4;
     s6 \<leftarrow> direct_set new_pdpt 0 (new_pdt OR 2 OR 1) s5;
     s7 \<leftarrow> direct_set new_pdt 0 (new_pt OR 2 OR 1) s6;
     s8 \<leftarrow> direct_set new_pt 0 (PAGE_BITMAP_ADDRESS OR 2 OR 1) s7;
     let k = PMLT4_INDEX KERNEL_HIGHER_HALF_KKERNEL;
     let higher = pmem s8 (pmlt4 s8) k AND NOT 0x1FF;
     s9 \<leftarrow> direct_set new_pmlt4 k (higher OR 2 OR 1) s8;
     Some (new_pmlt4, s9) }"

primrec memuse_loop :: "(nat \<Rightarrow> byte) \<Rightarrow> nat \<Rightarrow> qword" where
  "memuse_loop bm 0 = 0"
| "memuse_loop bm (Suc i) =
     memuse_loop bm i +
     (if bm i = 0xFF then 0x1000 * 8
      else foldl (\<lambda>sz j. if drop_bit j (bm i) AND 1 \<noteq> 0 then sz + 0x1000 else sz) 0 [0..<8])"

definition page_getSizeMemoryUse :: "pstate \<Rightarrow> qword" where
  "page_getSizeMemoryUse s = memuse_loop (bitmap s) PAGE_BITMAP_SIZE"

end
