(* ===== verification/Uefi.thy ===== *)
theory Uefi
  imports Page
begin

text \<open>
  \<open>boot/UEFI\<close>: the loader that runs as a UEFI application.  \<open>page.c\<close> builds the tables the
  kernel starts with, by physical address (the firmware maps memory to itself), on the
  same memory and bitmap as \<open>kernel/page.c\<close>; \<open>main.c\<close> reads the kernel, the jump stub and
  the font, maps them, and jumps.

  The firmware is not part of the sources.  Its services are a parameter, the record
  \<open>boot_services\<close>: each takes the firmware's own state \<open>'fw\<close> and the arguments and returns
  the status in \<open>rax\<close>, a result and the new state.  \<open>SetMem\<close>, which returns nothing, is
  called through the same wrapper and its caller tests what is left in \<open>rax\<close>; it acts on
  memory.  Printing (\<open>Print\<close>, \<open>UEFI_ShowMemoryMap\<close>, \<open>Kernel_ShowPaging\<close>) is left out.

  A failed check prints the status and halts the processor for good: \<open>Halted\<close>.  A write
  past the page of the bitmap is \<open>Overrun\<close>, a table or buffer that is not memory is \<open>Fault\<close>.
\<close>

section \<open>Results, services and state\<close>

datatype boot_stop = Halted qword | Overrun | Fault

type_synonym 'a boot = "boot_stop + 'a"

primrec boot_then :: "'a boot \<Rightarrow> ('a \<Rightarrow> 'b boot) \<Rightarrow> 'b boot" where
  "boot_then (Inl e) f = Inl e"
| "boot_then (Inr a) f = f a"

datatype allocate_type = AllocateAnyPages | AllocateAddress

datatype protocol = LoadedImage | SimpleFileSystem | GraphicsOutput

record gop_mode =
  HorizontalResolution :: dword
  VerticalResolution :: dword
  FrameBufferBase :: qword
  FrameBufferSize :: qword

type_synonym ('fw, 'a) service = "'fw \<Rightarrow> qword \<times> 'a \<times> 'fw"

record 'fw boot_services =
  AllocatePages :: "allocate_type \<Rightarrow> qword \<Rightarrow> qword \<Rightarrow> ('fw, qword) service"
  SetMem :: "qword \<Rightarrow> qword \<Rightarrow> byte \<Rightarrow> pstate \<Rightarrow> qword \<times> pstate"
  HandleProtocol :: "qword \<Rightarrow> protocol \<Rightarrow> ('fw, qword) service"
  DeviceHandle :: "qword \<Rightarrow> 'fw \<Rightarrow> qword"
  OpenVolume :: "qword \<Rightarrow> ('fw, qword) service"
  Open :: "qword \<Rightarrow> string \<Rightarrow> ('fw, qword) service"
  AllocatePool :: "qword \<Rightarrow> ('fw, qword) service"
  FreePool :: "qword \<Rightarrow> ('fw, unit) service"
  GetFileSize :: "qword \<Rightarrow> qword \<Rightarrow> ('fw, qword) service"
  Read :: "qword \<Rightarrow> qword \<Rightarrow> ('fw, byte list) service"
  LocateProtocol :: "protocol \<Rightarrow> ('fw, gop_mode) service"
  GetMapKey :: "'fw \<Rightarrow> qword"
  ExitBootServices :: "qword \<Rightarrow> qword \<Rightarrow> ('fw, unit) service"

record 'fw ustate =
  pg :: pstate
  fw :: 'fw

definition efi_error :: "qword \<Rightarrow> bool" where
  "efi_error st \<longleftrightarrow> bit st 63"

text \<open>\<open>CHECK_ERROR( uefi_call_wrapper( \<dots> ) )\<close>.\<close>

definition CHECK_ERROR :: "('fw, 'a) service \<Rightarrow> 'fw ustate \<Rightarrow> ('a \<times> 'fw ustate) boot" where
  "CHECK_ERROR f s = (case f (fw s) of (status, a, w) \<Rightarrow>
     if efi_error status then Inl (Halted status) else Inr (a, s\<lparr>fw := w\<rparr>))"

definition SetMem_page :: "'fw boot_services \<Rightarrow> qword \<Rightarrow> 'fw ustate \<Rightarrow> 'fw ustate boot" where
  "SetMem_page bs a s = (case SetMem bs a 0x1000 0 (pg s) of (status, p) \<Rightarrow>
     if efi_error status then Inl (Halted status) else Inr (s\<lparr>pg := p\<rparr>))"

section \<open>\<open>page.c\<close>: building the tables\<close>

text \<open>A table is read and written through its physical address.\<close>

definition table_get :: "qword \<Rightarrow> pt_index \<Rightarrow> 'fw ustate \<Rightarrow> qword boot" where
  "table_get t i s = (if t < ram_end (pg s) then Inr (pmem (pg s) t i) else Inl Fault)"

definition table_set :: "qword \<Rightarrow> pt_index \<Rightarrow> qword \<Rightarrow> 'fw ustate \<Rightarrow> 'fw ustate boot" where
  "table_set t i v s = (if t < ram_end (pg s) then Inr (s\<lparr>pg := poke t i v (pg s)\<rparr>) else Inl Fault)"

text \<open>\<open>bitmap[idx] |= 1 << off\<close>, with a 64-bit index.\<close>

definition bitmap_or :: "qword \<Rightarrow> nat \<Rightarrow> 'fw ustate \<Rightarrow> 'fw ustate boot" where
  "bitmap_or idx off s =
     (if unat idx < PAGE_BITMAP_SIZE
      then Inr (s\<lparr>pg := (pg s)\<lparr>bitmap := (bitmap (pg s))
             (unat idx := bitmap (pg s) (unat idx) OR push_bit off 1)\<rparr>\<rparr>)
      else Inl Overrun)"

definition alloc_fixed :: "'fw boot_services \<Rightarrow> qword \<Rightarrow> 'fw ustate \<Rightarrow> (qword \<times> 'fw ustate) boot" where
  "alloc_fixed bs a = CHECK_ERROR (AllocatePages bs AllocateAddress 1 a)"

text \<open>The loop over the first seven pages.\<close>

primrec identity_loop :: "qword \<Rightarrow> nat \<Rightarrow> 'fw ustate \<Rightarrow> 'fw ustate boot" where
  "identity_loop pt 0 s = Inr s"
| "identity_loop pt (Suc i) s =
     boot_then (identity_loop pt i s) (\<lambda>s1.
     boot_then (table_set pt (of_nat i) ((of_nat i * 0x1000) OR 2 OR 1) s1) (\<lambda>s2.
     bitmap_or (of_nat (i div 8)) (i mod 8) s2))"

definition Kernel_createNewPage :: "'fw boot_services \<Rightarrow> qword \<Rightarrow> 'fw ustate \<Rightarrow> 'fw ustate boot" where
  "Kernel_createNewPage bs imageHandle s =
     boot_then (CHECK_ERROR (HandleProtocol bs imageHandle LoadedImage) s) (\<lambda>(_, s).
     boot_then (alloc_fixed bs 0x1000 s) (\<lambda>(pml4_table, s).
     boot_then (alloc_fixed bs 0x2000 s) (\<lambda>(pdpt_table, s).
     boot_then (alloc_fixed bs 0x3000 s) (\<lambda>(pdt_table, s).
     boot_then (alloc_fixed bs 0x4000 s) (\<lambda>(pt_table, s).
     boot_then (alloc_fixed bs 0x5000 s) (\<lambda>(frame_table, s).
     boot_then (alloc_fixed bs 0x6000 s) (\<lambda>(bm, s).
     let s = s\<lparr>pg := (pg s)\<lparr>pmlt4 := pml4_table, frame_pt := frame_table, bitmap_addr := bm\<rparr>\<rparr> in
     boot_then (SetMem_page bs pml4_table s) (\<lambda>s.
     boot_then (SetMem_page bs pdpt_table s) (\<lambda>s.
     boot_then (SetMem_page bs pdt_table s) (\<lambda>s.
     boot_then (SetMem_page bs pt_table s) (\<lambda>s.
     boot_then (SetMem_page bs frame_table s) (\<lambda>s.
     boot_then (SetMem_page bs bm s) (\<lambda>s.
     boot_then (table_set pml4_table 0 (pdpt_table OR 1 OR 2) s) (\<lambda>s.
     boot_then (table_set pdpt_table 0 (pdt_table OR 1 OR 2) s) (\<lambda>s.
     boot_then (table_set pdt_table 0 (pt_table OR 2 OR 1) s) (\<lambda>s.
     boot_then (identity_loop pt_table 7 s) (\<lambda>s.
     table_set pdt_table 511 (frame_table OR 2 OR 1) s)))))))))))))))))"

text \<open>
  The lowest clear bit of the bitmap names the page.  With every bit set the result is
  \<open>-1\<close>, which the callers do not test.
\<close>

definition Kernel_Alloc4KPage :: "'fw boot_services \<Rightarrow> 'fw ustate \<Rightarrow> (qword \<times> 'fw ustate) boot" where
  "Kernel_Alloc4KPage bs s = (case getframe_scan (bitmap (pg s)) 0 of
       None \<Rightarrow> Inr (- 1, s)
     | Some (i, j) \<Rightarrow>
         boot_then (alloc_fixed bs (of_nat ((i * 8 + j) * 0x1000)) s) (\<lambda>(phys, s1).
         boot_then (SetMem_page bs phys s1) (\<lambda>s2.
         boot_then (bitmap_or (of_nat i) j s2) (\<lambda>s3. Inr (phys, s3)))))"

definition CHECK_AND_CREATE_FRAME ::
  "'fw boot_services \<Rightarrow> dword \<Rightarrow> qword \<Rightarrow> pt_index \<Rightarrow> 'fw ustate \<Rightarrow> (qword \<times> 'fw ustate) boot" where
  "CHECK_AND_CREATE_FRAME bs flags t i s =
     boot_then (table_get t i s) (\<lambda>x.
     boot_then (if x AND 1 = 0
                then boot_then (Kernel_Alloc4KPage bs s) (\<lambda>(phys, s1). table_set t i (phys OR ucast flags) s1)
                else Inr s) (\<lambda>s'.
     boot_then (table_get t i s') (\<lambda>x'. Inr (x' AND NOT 0xFFF, s'))))"

definition Kernel_tables :: "'fw boot_services \<Rightarrow> qword \<Rightarrow> dword \<Rightarrow> 'fw ustate \<Rightarrow> (qword \<times> 'fw ustate) boot" where
  "Kernel_tables bs virt flags s =
     boot_then (CHECK_AND_CREATE_FRAME bs flags (pmlt4 (pg s)) (PMLT4_INDEX virt) s) (\<lambda>(pdpt_table, s).
     boot_then (CHECK_AND_CREATE_FRAME bs flags pdpt_table (PDPT_INDEX virt) s) (\<lambda>(pdt_table, s).
     CHECK_AND_CREATE_FRAME bs flags pdt_table (PDT_INDEX virt) s))"

definition MapPagePhysical_page ::
  "'fw boot_services \<Rightarrow> qword \<Rightarrow> qword \<Rightarrow> dword \<Rightarrow> 'fw ustate \<Rightarrow> 'fw ustate boot" where
  "MapPagePhysical_page bs virt physc flags s =
     boot_then (Kernel_tables bs virt flags s) (\<lambda>(pt_table, s).
     boot_then (table_set pt_table (PT_INDEX virt) (physc OR ucast flags) s) (\<lambda>s.
     bitmap_or (drop_bit 12 physc div 8) (unat (drop_bit 12 physc mod 8)) s))"

definition MapPage_page :: "'fw boot_services \<Rightarrow> qword \<Rightarrow> dword \<Rightarrow> 'fw ustate \<Rightarrow> 'fw ustate boot" where
  "MapPage_page bs virt flags s =
     boot_then (Kernel_tables bs virt flags s) (\<lambda>(pt_table, s).
     boot_then (Kernel_Alloc4KPage bs s) (\<lambda>(phys, s).
     table_set pt_table (PT_INDEX virt) (phys OR ucast flags) s))"

primrec boot_loop :: "(qword \<Rightarrow> 'fw ustate \<Rightarrow> 'fw ustate boot) \<Rightarrow> nat \<Rightarrow> 'fw ustate \<Rightarrow> 'fw ustate boot" where
  "boot_loop f 0 s = Inr s"
| "boot_loop f (Suc n) s = boot_then (boot_loop f n s) (f (of_nat n * 0x1000))"

definition Kernel_MapPagePhysical ::
  "'fw boot_services \<Rightarrow> qword \<Rightarrow> qword \<Rightarrow> qword \<Rightarrow> dword \<Rightarrow> 'fw ustate \<Rightarrow> 'fw ustate boot" where
  "Kernel_MapPagePhysical bs virt phys sz flags s =
     boot_loop (\<lambda>off. MapPagePhysical_page bs (virt + off) (phys + off) flags) (page_count sz) s"

definition Kernel_MapPage ::
  "'fw boot_services \<Rightarrow> qword \<Rightarrow> qword \<Rightarrow> dword \<Rightarrow> 'fw ustate \<Rightarrow> 'fw ustate boot" where
  "Kernel_MapPage bs virt sz flags s =
     boot_loop (\<lambda>off. MapPage_page bs (virt + off) flags) (page_count sz) s"

section \<open>\<open>main.c\<close>: bytes of memory\<close>

text \<open>Byte \<open>a\<close> is the byte \<open>a mod 8\<close> of the entry at \<open>a\<close>; fields are little-endian.\<close>

definition get_byte :: "qword \<Rightarrow> pstate \<Rightarrow> byte" where
  "get_byte a s = ucast (drop_bit (8 * unat (a AND 7)) (pmem s (a AND NOT 0xFFF) (ucast (drop_bit 3 a))))"

definition put_byte :: "qword \<Rightarrow> byte \<Rightarrow> pstate \<Rightarrow> pstate" where
  "put_byte a b s =
     (let f = a AND NOT 0xFFF; i = ucast (drop_bit 3 a); k = 8 * unat (a AND 7)
      in poke f i ((pmem s f i AND NOT (push_bit k 0xFF)) OR push_bit k (ucast b)) s)"

primrec put_bytes :: "qword \<Rightarrow> byte list \<Rightarrow> pstate \<Rightarrow> pstate" where
  "put_bytes a [] s = s"
| "put_bytes a (b # bs) s = put_bytes (a + 1) bs (put_byte a b s)"

definition bytes_of :: "nat \<Rightarrow> qword \<Rightarrow> byte list" where
  "bytes_of n w = [ucast (drop_bit (8 * i) w). i \<leftarrow> [0..<n]]"

definition get_qword :: "qword \<Rightarrow> pstate \<Rightarrow> qword" where
  "get_qword a s = le64 [get_byte (a + of_nat i) s. i \<leftarrow> [0..<8]] 0"

text \<open>The fields of \<open>kernel_header_info_t\<close>, which is packed.\<close>

abbreviation address_start :: "qword \<Rightarrow> qword" where "address_start h \<equiv> h + 11"
abbreviation address_end :: "qword \<Rightarrow> qword" where "address_end h \<equiv> h + 19"
abbreviation entry_start :: "qword \<Rightarrow> qword" where "entry_start h \<equiv> h + 27"
abbreviation font_data :: "qword \<Rightarrow> qword" where "font_data h \<equiv> h + 35"

definition put_mem :: "qword \<Rightarrow> byte list \<Rightarrow> 'fw ustate \<Rightarrow> 'fw ustate boot" where
  "put_mem a bs s = (if a \<le> ram_end (pg s) \<and> length bs \<le> unat (ram_end (pg s) - a)
     then Inr (s\<lparr>pg := put_bytes a bs (pg s)\<rparr>) else Inl Fault)"

section \<open>\<open>main.c\<close>: loading the kernel\<close>

definition GetRoot :: "'fw boot_services \<Rightarrow> qword \<Rightarrow> 'fw ustate \<Rightarrow> (qword \<times> 'fw ustate) boot" where
  "GetRoot bs handle s =
     boot_then (CHECK_ERROR (HandleProtocol bs handle LoadedImage) s) (\<lambda>(image_loaded, s).
     boot_then (CHECK_ERROR (HandleProtocol bs (DeviceHandle bs image_loaded (fw s)) SimpleFileSystem) s)
       (\<lambda>(filesystem, s).
     CHECK_ERROR (OpenVolume bs filesystem) s))"

definition OpenFile :: "'fw boot_services \<Rightarrow> qword \<Rightarrow> string \<Rightarrow> 'fw ustate \<Rightarrow> (qword \<times> 'fw ustate) boot" where
  "OpenFile bs root filename s = CHECK_ERROR (Open bs root filename) s"

definition read_to ::
  "'fw boot_services \<Rightarrow> qword \<Rightarrow> qword \<Rightarrow> qword \<Rightarrow> 'fw ustate \<Rightarrow> 'fw ustate boot" where
  "read_to bs file sz a s =
     boot_then (CHECK_ERROR (Read bs file sz) s) (\<lambda>(bytes, s). put_mem a bytes s)"

text \<open>
  \<open>LoadKernel\<close> in two parts: up to the opened font file, and from the call that places the
  font on.
\<close>

definition LoadKernel_files ::
  "'fw boot_services \<Rightarrow> qword \<Rightarrow> string \<Rightarrow> 'fw ustate \<Rightarrow> ((qword \<times> qword) \<times> 'fw ustate) boot" where
  "LoadKernel_files bs handle filename s =
     boot_then (GetRoot bs handle s) (\<lambda>(root, s).
     boot_then (OpenFile bs root filename s) (\<lambda>(file, s).
     boot_then (CHECK_ERROR (AllocatePool bs 512) s) (\<lambda>(fileInfo, s).
     boot_then (CHECK_ERROR (GetFileSize bs file fileInfo) s) (\<lambda>(FileSize, s).
     boot_then (Kernel_createNewPage bs handle s) (\<lambda>s.
     let kernel_virt_address = 0xFFFFFFFF80100000; fileSize = FileSize + 256 in
     boot_then (CHECK_ERROR (AllocatePages bs AllocateAddress (of_nat (page_count fileSize)) 0x100000) s)
       (\<lambda>(kernelInfo, s).
     boot_then (read_to bs file fileSize kernelInfo s) (\<lambda>s.
     let kernelSize = get_qword (address_end kernelInfo) (pg s) - get_qword (address_start kernelInfo) (pg s) in
     boot_then (Kernel_MapPagePhysical bs kernel_virt_address kernelInfo kernelSize 3 s) (\<lambda>s.
     boot_then (CHECK_ERROR (FreePool bs fileInfo) s) (\<lambda>(_, s).
     boot_then (OpenFile bs root ''gkrnl.bin'' s) (\<lambda>(gkrnlfile, s).
     boot_then (read_to bs gkrnlfile 512 0x15000 s) (\<lambda>s.
     boot_then (Kernel_MapPagePhysical bs 0x15000 0x15000 0x1000 3 s) (\<lambda>s.
     boot_then (OpenFile bs root ''font.map'' s) (\<lambda>(fontFile, s).
     Inr ((kernelInfo, fontFile), s))))))))))))))"

definition LoadKernel_font :: "'fw boot_services \<Rightarrow> qword \<Rightarrow> qword \<Rightarrow> 'fw ustate \<Rightarrow> (qword \<times> 'fw ustate) boot" where
  "LoadKernel_font bs kernelInfo fontFile s =
     boot_then (CHECK_ERROR (AllocatePages bs AllocateAnyPages 2 0) s) (\<lambda>(fontData, s).
     boot_then (read_to bs fontFile 0x2000 fontData s) (\<lambda>s.
     boot_then (put_mem (font_data kernelInfo) (bytes_of 8 fontData) s) (\<lambda>s.
     boot_then (Kernel_MapPagePhysical bs fontData fontData 0x2000 3 s) (\<lambda>s.
     Inr (kernelInfo, s)))))"

definition LoadKernel :: "'fw boot_services \<Rightarrow> qword \<Rightarrow> string \<Rightarrow> 'fw ustate \<Rightarrow> (qword \<times> 'fw ustate) boot" where
  "LoadKernel bs handle filename s =
     boot_then (LoadKernel_files bs handle filename s) (\<lambda>((kernelInfo, fontFile), s).
     LoadKernel_font bs kernelInfo fontFile s)"

text \<open>
  \<open>efi_main\<close> ends in \<open>go_jump\<close> with the new root and the kernel's entry point; the result
  is that pair.  \<open>LibMemoryMap\<close> supplies the map key.
\<close>

definition efi_main :: "'fw boot_services \<Rightarrow> qword \<Rightarrow> 'fw ustate \<Rightarrow> ((qword \<times> qword) \<times> 'fw ustate) boot" where
  "efi_main bs image_handle s =
     boot_then (LoadKernel bs image_handle ''kernel.bin'' s) (\<lambda>(infoKernel, s).
     boot_then (CHECK_ERROR (LocateProtocol bs GraphicsOutput) s) (\<lambda>(mode, s).
     boot_then (put_mem (infoKernel + 43) (bytes_of 4 (ucast (HorizontalResolution mode))
          @ bytes_of 4 (ucast (VerticalResolution mode)) @ [32] @ bytes_of 8 (FrameBufferBase mode)
          @ bytes_of 4 (FrameBufferSize mode)) s) (\<lambda>s.
     let mapKey = GetMapKey bs (fw s); entry = get_qword (entry_start infoKernel) (pg s) in
     boot_then (CHECK_ERROR (ExitBootServices bs image_handle mapKey) s) (\<lambda>(_, s).
     boot_then (put_mem 0x880000 (bytes_of 8 0xDEAD1234) s) (\<lambda>s.
     Inr ((0x1000, entry), s))))))"

end
