(* ===== verification/Page_Inv.thy ===== *)
theory Page_Inv
  imports Page
begin

text \<open>
  The page tables as a tree and the invariant of \<open>kernel/page.c\<close>.  \<open>tab s p\<close> is the
  table reached from \<open>pmlt4\<close> by the indices \<open>p\<close>; \<open>page_inv\<close> says that the tables form
  a tree of distinct, allocated frames in which the window's table has its place, and that
  the frames the loader reserved stay marked.  \<open>vmap\<close> is the abstract view of the tables:
  the leaf entry of each virtual page, 0 where there is none; the window page itself is
  left out, since every operation moves it.
\<close>

section \<open>Frames and bitmap bits\<close>

definition used_no :: "(nat \<Rightarrow> byte) \<Rightarrow> nat \<Rightarrow> bool" where
  "used_no bm n \<longleftrightarrow> bit (bm (n div 8)) (n mod 8)"

definition frame_of :: "nat \<Rightarrow> qword" where
  "frame_of n = push_bit 12 (of_nat n)"

definition mark :: "nat \<Rightarrow> (nat \<Rightarrow> byte) \<Rightarrow> nat \<Rightarrow> byte" where
  "mark n bm = bm(n div 8 := bm (n div 8) OR push_bit (n mod 8) 1)"

definition free_count :: "pstate \<Rightarrow> nat" where
  "free_count s = card {n. n < 32768 \<and> \<not> used_no (bitmap s) n}"

named_theorems page_simps \<open>rewriting of page-table states\<close>

lemma not_bit_nat: "n < 2 ^ m \<Longrightarrow> m \<le> k \<Longrightarrow> \<not> bit (n :: nat) k"
  by (metis bit_take_bit_iff leD take_bit_nat_eq_self_iff)

lemma bit_frame_of [bit_facts]:
  assumes "n < 32768"
  shows "bit (frame_of n) k \<longleftrightarrow> 12 \<le> k \<and> k < 27 \<and> bit n (k - 12)"
proof (cases "k < 27")
  case True
  then show ?thesis by (auto simp: frame_of_def bit_simps)
next
  case False
  then have "\<not> bit n (k - 12)" using assms by (intro not_bit_nat [of n 15]) auto
  with False show ?thesis by (auto simp: frame_of_def bit_simps)
qed

lemma frame_of_mult: "of_nat (n * 0x1000) = frame_of n"
  by (simp add: frame_of_def push_bit_eq_mult)

lemma unat_frame_of:
  assumes "n < 32768"
  shows "unat (frame_of n) = n * 0x1000"
proof -
  have "n * 0x1000 < 2 ^ LENGTH(64)" using assms by simp
  then show ?thesis
    unfolding frame_of_mult [symmetric] by (simp only: unsigned_of_nat take_bit_nat_eq_self of_nat_id)
qed

lemma frame_of_less: "n < 32768 \<Longrightarrow> frame_of n < 0x8000000"
  by (simp add: word_less_nat_alt unat_frame_of)

lemma frame_of_inject [simp]:
  assumes "n < 32768" and "m < 32768"
  shows "frame_of n = frame_of m \<longleftrightarrow> n = m"
proof
  assume "frame_of n = frame_of m"
  then have "n * 0x1000 = m * 0x1000" using assms unat_frame_of by metis
  then show "n = m" by simp
qed simp

lemma frame_consts: "PMLT4_ADDRESS = frame_of 1" "FRAME_PT_ADDRESS = frame_of 5"
  "PAGE_BITMAP_ADDRESS = frame_of 6"
  by (simp_all add: frame_of_def)

text \<open>The masks of the code as bit patterns.\<close>

lemma mask_phys: "(0x000FFFFFFFFFF000 :: qword) = push_bit 12 (mask 40)"
  by (simp add: mask_eq_exp_minus_1)

lemma mask_low9: "(0x1FF :: qword) = mask 9"
  by (simp add: mask_eq_exp_minus_1)

lemma or_three: "(a :: qword) OR 1 OR 2 = a OR mask 2"
proof -
  have "(1 :: qword) OR 2 = mask 2" by (simp add: mask_eq_exp_minus_1)
  then show ?thesis by (simp add: or.assoc)
qed

lemma frame_entry_window [page_simps]:
  assumes "n < 32768"
  shows "(frame_of n OR 1 OR 2) AND 0x000FFFFFFFFFF000 = frame_of n"
    and "(frame_of n OR 1 OR 2) AND 1 = 1"
  unfolding or_three mask_phys
  by (rule bit_eqI, use assms in \<open>auto simp: bit_simps bit_frame_of\<close>)+

text \<open>A table entry made from a frame and flags below \<open>0x200\<close> with the present bit.\<close>

definition ok_flags :: "word16 \<Rightarrow> bool" where
  "ok_flags flags \<longleftrightarrow> bit flags 0 \<and> flags < 0x200"

lemma ok_flags_high: "ok_flags flags \<Longrightarrow> 9 \<le> k \<Longrightarrow> \<not> bit flags k"
proof -
  assume "ok_flags flags" "9 \<le> k"
  then have "unat flags < 2 ^ 9" by (simp add: ok_flags_def word_less_nat_alt)
  from not_bit_nat [OF this \<open>9 \<le> k\<close>] show ?thesis by (simp add: bit_unsigned_iff)
qed

lemma frame_entry_base [page_simps]:
  assumes "n < 32768" and "ok_flags flags"
  shows "(frame_of n OR ucast flags) AND NOT 0x1FF = frame_of n"
  unfolding mask_low9
  using assms ok_flags_high [OF assms(2)]
  by (intro bit_eqI) (auto simp: bit_simps bit_frame_of)

lemmas frame_entry_base' [page_simps] = frame_entry_base [simplified]

lemma frame_entry_present [page_simps]:
  assumes "n < 32768" and "ok_flags flags"
  shows "(frame_of n OR ucast flags) AND 1 \<noteq> 0"
  unfolding and_one_bit_ne
  using assms by (auto simp: ok_flags_def bit_simps bit_frame_of)

section \<open>The frame allocator\<close>

lemma bit_set_one: "bit ((b :: byte) OR push_bit k 1) j \<longleftrightarrow> bit b j \<or> (j = k \<and> k < 8)"
  by (auto simp: bit_simps)

lemmas bit_set_pow = bit_set_one [unfolded push_bit_of_1]

lemma used_no_mark: "used_no (mark n bm) m \<longleftrightarrow> n = m \<or> used_no bm m"
proof (cases "n div 8 = m div 8")
  case True
  then have "n mod 8 = m mod 8 \<longleftrightarrow> n = m" by (metis div_mult_mod_eq)
  with True show ?thesis by (auto simp: used_no_def mark_def bit_set_pow)
next
  case False
  then show ?thesis by (auto simp: used_no_def mark_def)
qed

lemma scan_step:
  "getframe_scan bm i = (if i < PAGE_BITMAP_SIZE
     then (case find (\<lambda>j. \<not> bit (bm i) j) [0..<8] of
             Some j \<Rightarrow> Some (i, j) | None \<Rightarrow> getframe_scan bm (i + 1)) else None)"
proof -
  have "(255 :: byte) = - 1" by simp
  then have "bm i = 0xFF \<Longrightarrow> find (\<lambda>j. \<not> bit (bm i) j) [0..<8] = None"
    by (simp only: find_upt_None bit_minus_1_iff) simp
  then show ?thesis by (subst getframe_scan.simps) (simp add: drop_bit_and_one)
qed

lemma scan_SomeD:
  "getframe_scan bm i0 = Some (i, j) \<Longrightarrow>
   j < 8 \<and> i < PAGE_BITMAP_SIZE \<and> \<not> used_no bm (j + i * 8)
   \<and> (\<forall>n. i0 * 8 \<le> n \<and> n < j + i * 8 \<longrightarrow> used_no bm n)"
proof (induction bm i0 rule: getframe_scan.induct)
  case (1 bm i0)
  show ?case
  proof (cases "find (\<lambda>j. \<not> bit (bm i0) j) [0..<8]")
    case None
    then have all: "\<forall>j < 8. bit (bm i0) j" by (simp add: find_upt_None)
    then have byte: "used_no bm n" if "i0 * 8 \<le> n" "n < (i0 + 1) * 8" for n
    proof -
      have "n div 8 = i0" by (rule div_nat_eqI) (use that in auto)
      with all show ?thesis by (simp add: used_no_def)
    qed
    have rest: "i0 < PAGE_BITMAP_SIZE" "getframe_scan bm (i0 + 1) = Some (i, j)"
      using None 1(3) by (auto simp: scan_step [of bm i0] split: if_splits)
    have "j < 8 \<and> i < PAGE_BITMAP_SIZE \<and> \<not> used_no bm (j + i * 8)
        \<and> (\<forall>n. (i0 + 1) * 8 \<le> n \<and> n < j + i * 8 \<longrightarrow> used_no bm n)"
      using 1(1,2) rest all
      by (cases "bm i0 = 0xFF") (auto simp: drop_bit_and_one find_upt_None)
    with byte show ?thesis by (metis not_le)
  next
    case (Some k)
    then have k: "k < 8" "\<not> bit (bm i0) k" "\<forall>l < k. bit (bm i0) l"
      by (simp_all add: find_upt_Some)
    have ij: "i = i0" "j = k" "i0 < PAGE_BITMAP_SIZE"
      using Some 1(3) by (auto simp: scan_step [of bm i0] split: if_splits)
    have "used_no bm n" if "i0 * 8 \<le> n" "n < k + i0 * 8" for n
    proof -
      have d: "n div 8 = i0" by (rule div_nat_eqI) (use that k(1) in auto)
      then have "n mod 8 < k" using that(2) by (metis add.commute add_less_cancel_left div_mult_mod_eq)
      with k(3) d show ?thesis by (simp add: used_no_def)
    qed
    with ij k show ?thesis by (simp add: used_no_def)
  qed
qed


lemma scan_NoneD:
  "getframe_scan bm i0 = None \<Longrightarrow> i0 * 8 \<le> n \<Longrightarrow> n < 32768 \<Longrightarrow> used_no bm n"
proof (induction bm i0 rule: getframe_scan.induct)
  case (1 bm i0)
  have lt: "i0 < PAGE_BITMAP_SIZE" using 1(4,5) by linarith
  then have none: "find (\<lambda>j. \<not> bit (bm i0) j) [0..<8] = None" "getframe_scan bm (i0 + 1) = None"
    using 1(3) by (auto simp: scan_step [of bm i0] split: option.splits)
  show ?case
  proof (cases "(i0 + 1) * 8 \<le> n")
    case True
    then show ?thesis
      using 1(1,2,5) none lt by (cases "bm i0 = 0xFF") (auto simp: drop_bit_and_one)
  next
    case False
    then have "n div 8 = i0" by (intro div_nat_eqI) (use 1(4) in auto)
    then show ?thesis using none(1) by (simp add: find_upt_None used_no_def)
  qed
qed

lemma scan_least:
  assumes "\<exists>n < 32768. \<not> used_no bm n"
  obtains i j n where "getframe_scan bm 0 = Some (i, j)" and "n = j + i * 8" and "n < 32768"
    and "\<not> used_no bm n" and "\<forall>m < n. used_no bm m" and "i = n div 8" and "j = n mod 8"
proof -
  obtain i j where ij: "getframe_scan bm 0 = Some (i, j)"
    using assms scan_NoneD [of bm 0] by (cases "getframe_scan bm 0") auto
  from scan_SomeD [OF ij] show ?thesis
    by (intro that [OF ij, of "j + i * 8"]) auto
qed

lemma free_count_pos: "0 < free_count s \<longleftrightarrow> (\<exists>n < 32768. \<not> used_no (bitmap s) n)"
  by (auto simp: free_count_def card_gt_0_iff)

lemma free_count_mark:
  assumes "n < 32768" and "\<not> used_no (bitmap s) n" and "bitmap s' = mark n (bitmap s)"
  shows "Suc (free_count s') = free_count s"
proof -
  let ?F = "{m. m < 32768 \<and> \<not> used_no (bitmap s) m}"
  have "{m. m < 32768 \<and> \<not> used_no (bitmap s') m} = ?F - {n}"
    using assms(3) by (auto simp: used_no_mark)
  moreover have "n \<in> ?F" using assms(1,2) by simp
  moreover have "finite ?F" by simp
  ultimately show ?thesis using card_Suc_Diff1 [of ?F n] by (simp only: free_count_def)
qed

section \<open>Walking the tables\<close>

definition child :: "(qword \<Rightarrow> pt_index \<Rightarrow> qword) \<Rightarrow> qword \<Rightarrow> pt_index \<Rightarrow> qword option" where
  "child m f i = (if m f i AND PAGE_PRESENT = 0 then None else Some (m f i AND NOT 0x1FF))"

primrec walk :: "(qword \<Rightarrow> pt_index \<Rightarrow> qword) \<Rightarrow> qword \<Rightarrow> pt_index list \<Rightarrow> qword option" where
  "walk m r [] = Some r"
| "walk m r (i # p) = do { f \<leftarrow> child m r i; walk m f p }"

lemma walk_append: "walk m r (p @ q) = do { f \<leftarrow> walk m r p; walk m f q }"
  by (induction p arbitrary: r) (auto split: bind_splits)

lemma walk_snoc: "walk m r (p @ [i]) = do { f \<leftarrow> walk m r p; child m f i }"
  by (simp add: walk_append)

text \<open>A walk depends only on the entries it reads.\<close>

lemma walk_cong:
  assumes "\<And>p1 i p2 f. p = p1 @ i # p2 \<Longrightarrow> walk m r p1 = Some f \<Longrightarrow> child m' f i = child m f i"
  shows "walk m' r p = walk m r p"
  using assms
proof (induction p rule: rev_induct)
  case (snoc i p)
  have "walk m' r p = walk m r p"
  proof (rule snoc.IH)
    fix p1 j p2 f assume "p = p1 @ j # p2" "walk m r p1 = Some f"
    then show "child m' f j = child m f j" using snoc.prems [of p1 j "p2 @ [i]" f] by simp
  qed
  then show ?case
    using snoc.prems [of p i "[]"] by (cases "walk m r p") (auto simp: walk_snoc)
qed simp

definition tab :: "pstate \<Rightarrow> pt_index list \<Rightarrow> qword option" where
  "tab s p = walk (pmem s) (pmlt4 s) p"

definition window_page :: "pt_index \<times> pt_index \<times> pt_index \<times> pt_index" where
  "window_page = (0, 0, 511, 0)"

definition page_inv :: "pstate \<Rightarrow> bool" where
  "page_inv s \<longleftrightarrow>
     (\<forall>n < 7. used_no (bitmap s) n) \<and> 0x8000000 \<le> ram_end s
     \<and> tab s [0, 0, 511] = Some (frame_pt s) \<and> (\<exists>b < 7. bitmap_addr s = frame_of b)
     \<and> (\<forall>p f. length p \<le> 3 \<longrightarrow> tab s p = Some f \<longrightarrow>
          (\<exists>n < 32768. f = frame_of n \<and> used_no (bitmap s) n \<and> f \<noteq> bitmap_addr s))
     \<and> (\<forall>p q f. length p \<le> 3 \<longrightarrow> length q \<le> 3 \<longrightarrow> tab s p = Some f \<longrightarrow> tab s q = Some f \<longrightarrow> p = q)"

definition pte :: "pstate \<Rightarrow> pt_index list \<Rightarrow> pt_index \<Rightarrow> qword" where
  "pte s p i = (case tab s p of None \<Rightarrow> 0 | Some f \<Rightarrow> pmem s f i)"

definition vmap :: "pstate \<Rightarrow> pt_index \<times> pt_index \<times> pt_index \<times> pt_index \<Rightarrow> qword" where
  "vmap s v = (if v = window_page then 0 else case v of (a, b, c, d) \<Rightarrow> pte s [a, b, c] d)"

definition vpage :: "qword \<Rightarrow> pt_index \<times> pt_index \<times> pt_index \<times> pt_index" where
  "vpage x = (PMLT4_INDEX x, PDPT_INDEX x, PDT_INDEX x, PT_INDEX x)"

text \<open>\<open>ext s s'\<close>: \<open>s'\<close> has at least the tables and marks of \<open>s\<close> and the same mappings.\<close>

definition ext :: "pstate \<Rightarrow> pstate \<Rightarrow> bool" where
  "ext s s' \<longleftrightarrow> page_inv s' \<and> pmlt4 s' = pmlt4 s \<and> frame_pt s' = frame_pt s \<and> bitmap_addr s' = bitmap_addr s
     \<and> ram_end s' = ram_end s \<and> vmap s' = vmap s
     \<and> (\<forall>p f. length p \<le> 3 \<longrightarrow> tab s p = Some f \<longrightarrow> tab s' p = Some f)
     \<and> (\<forall>n. used_no (bitmap s) n \<longrightarrow> used_no (bitmap s') n)"

lemma ext_refl: "page_inv s \<Longrightarrow> ext s s"
  by (simp add: ext_def)

lemma ext_trans: "ext s s' \<Longrightarrow> ext s' s'' \<Longrightarrow> ext s s''"
  by (simp add: ext_def)

lemma page_inv_tabD:
  assumes "page_inv s" and "length p \<le> 3" and "tab s p = Some f"
  obtains n where "n < 32768" and "f = frame_of n" and "used_no (bitmap s) n" and "f \<noteq> bitmap_addr s"
  using assms unfolding page_inv_def by blast

lemma page_inv_inj:
  "page_inv s \<Longrightarrow> tab s p = Some f \<Longrightarrow> tab s q = Some f \<Longrightarrow> length p \<le> 3 \<Longrightarrow> length q \<le> 3 \<Longrightarrow> p = q"
  unfolding page_inv_def by blast

lemma tab_root [simp]: "tab s [] = Some (pmlt4 s)"
  by (simp add: tab_def)

lemma tab_snoc: "tab s (p @ [i]) = do { f \<leftarrow> tab s p; child (pmem s) f i }"
  by (simp add: tab_def walk_snoc)


lemma page_inv_window_tab: "page_inv s \<Longrightarrow> tab s [0, 0, 511] = Some (frame_pt s)"
  by (simp add: page_inv_def)

lemma page_inv_ram: "page_inv s \<Longrightarrow> 0x8000000 \<le> ram_end s"
  by (simp add: page_inv_def)

lemma page_inv_bitmap_low: "page_inv s \<Longrightarrow> \<exists>b < 7. bitmap_addr s = frame_of b"
  by (simp add: page_inv_def)

lemma page_inv_bitmap: "page_inv s \<Longrightarrow> 7 \<le> n \<Longrightarrow> n < 32768 \<Longrightarrow> frame_of n \<noteq> bitmap_addr s"
  unfolding page_inv_def by fastforce

lemma page_inv_reserved: "page_inv s \<Longrightarrow> n < 7 \<Longrightarrow> used_no (bitmap s) n"
  by (simp add: page_inv_def)

text \<open>The frame rule: changing entries outside the tree keeps the invariant and the map.\<close>

lemma tab_frame:
  assumes "pmlt4 s' = pmlt4 s"
    and "\<And>p i f. length p \<le> 2 \<Longrightarrow> tab s p = Some f \<Longrightarrow> pmem s' f i = pmem s f i"
    and "length p \<le> 3"
  shows "tab s' p = tab s p"
  unfolding tab_def assms(1)
proof (rule walk_cong)
  fix p1 i p2 f assume p: "p = p1 @ i # p2" and f: "walk (pmem s) (pmlt4 s) p1 = Some f"
  have "length p1 \<le> 2" using assms(3) p by simp
  then show "child (pmem s') f i = child (pmem s) f i"
    using assms(2) [of p1 f i] f by (simp add: child_def tab_def)
qed

lemma page_inv_cong:
  assumes inv: "page_inv s" and same: "pmlt4 s' = pmlt4 s" "frame_pt s' = frame_pt s" "bitmap_addr s' = bitmap_addr s" "ram_end s' = ram_end s"
    and mono: "\<And>n. used_no (bitmap s) n \<Longrightarrow> used_no (bitmap s') n"
    and tabs: "\<And>p. length p \<le> 3 \<Longrightarrow> tab s' p = tab s p"
  shows "page_inv s'"
  using inv tabs mono unfolding page_inv_def same
  by (simp; metis)

lemma vmap_cong:
  assumes "\<And>p i. length p = 3 \<Longrightarrow> (p, i) \<noteq> ([0, 0, 511], 0) \<Longrightarrow> pte s' p i = pte s p i"
  shows "vmap s' = vmap s"
proof
  fix v show "vmap s' v = vmap s v"
    using assms by (cases v) (auto simp: vmap_def window_page_def)
qed

lemma ext_frame:
  assumes inv: "page_inv s" and same: "pmlt4 s' = pmlt4 s" "frame_pt s' = frame_pt s" "bitmap_addr s' = bitmap_addr s" "ram_end s' = ram_end s"
    and mono: "\<And>n. used_no (bitmap s) n \<Longrightarrow> used_no (bitmap s') n"
    and mem: "\<And>p i f. length p \<le> 3 \<Longrightarrow> tab s p = Some f \<Longrightarrow> (p, i) \<noteq> ([0, 0, 511], 0) \<Longrightarrow>
      pmem s' f i = pmem s f i"
  shows "ext s s'" and "length p \<le> 3 \<Longrightarrow> tab s' p = tab s p"
proof -
  have tabs: "tab s' q = tab s q" if "length q \<le> 3" for q
    by (rule tab_frame [OF same(1) _ that]) (auto intro!: mem)
  then show "length p \<le> 3 \<Longrightarrow> tab s' p = tab s p" .
  have "page_inv s'" using inv same mono tabs by (rule page_inv_cong)
  moreover have "vmap s' = vmap s"
    by (rule vmap_cong) (auto simp: pte_def tabs split: option.splits intro!: mem)
  ultimately show "ext s s'" using same mono tabs by (simp add: ext_def)
qed

lemma poke_simps [simp]:
  "pmlt4 (poke f i v s) = pmlt4 s" "frame_pt (poke f i v s) = frame_pt s"
  "bitmap_addr (poke f i v s) = bitmap_addr s" "ram_end (poke f i v s) = ram_end s"
  "bitmap (poke f i v s) = bitmap s"
  "pmem (poke f i v s) g j = (if g = f \<and> j = i then v else pmem s g j)"
  by (auto simp: poke_def)

lemma zero_frame_simps [simp]:
  "pmlt4 (zero_frame f s) = pmlt4 s" "frame_pt (zero_frame f s) = frame_pt s"
  "bitmap_addr (zero_frame f s) = bitmap_addr s" "ram_end (zero_frame f s) = ram_end s"
  "bitmap (zero_frame f s) = bitmap s"
  "pmem (zero_frame f s) g j = (if g = f then 0 else pmem s g j)"
  by (auto simp: zero_frame_def)

lemma free_count_cong: "bitmap s' = bitmap s \<Longrightarrow> free_count s' = free_count s"
  by (simp add: free_count_def)

lemma ext_window:
  assumes "page_inv s"
  shows "ext s (poke (frame_pt s) 0 v s)"
    and "length p \<le> 3 \<Longrightarrow> tab (poke (frame_pt s) 0 v s) p = tab s p"
  by (rule ext_frame [OF assms];
      use page_inv_inj [OF assms page_inv_window_tab [OF assms]] in \<open>auto; blast\<close>)+

lemma ext_mapframe:
  assumes "page_inv s"
  shows "ext s (page_mapframe a s)" and "ext s (page_umapframe s)"
    and "length p \<le> 3 \<Longrightarrow> tab (page_mapframe a s) p = tab s p"
    and "length p \<le> 3 \<Longrightarrow> tab (page_umapframe s) p = tab s p"
  using ext_window [OF assms] by (simp_all add: page_mapframe_def page_umapframe_def)

lemma window_mapframe:
  assumes "page_inv s" and "n < 32768"
  shows "window (page_mapframe (frame_of n) s) = Some (frame_of n)"
proof -
  have "frame_of n < ram_end s"
    using frame_of_less [OF assms(2)] page_inv_ram [OF assms(1)] by (rule less_le_trans)
  then show ?thesis
    using frame_entry_window [OF assms(2)] by (simp add: window_def page_mapframe_def Let_def)
qed

end
