(* ===== verification/Page_Map.thy ===== *)
theory Page_Map
  imports Page_Inv
begin

text \<open>
  What the operations of \<open>kernel/page.c\<close> do, on the tree and on the abstract map: the
  frame allocator hands out the lowest free frame, zeroed; the table walk creates missing
  tables without touching a mapping; \<open>page_mapvp\<close>, \<open>page_mapv\<close>, \<open>page_alloc4K\<close> and
  \<open>page_umapv\<close> are updates of the abstract map.
\<close>

section \<open>The frame allocator\<close>

text \<open>\<open>fresh s n s'\<close>: in \<open>s'\<close> the lowest free frame \<open>n\<close> of \<open>s\<close> is marked and zeroed.\<close>

definition fresh :: "pstate \<Rightarrow> nat \<Rightarrow> pstate \<Rightarrow> bool" where
  "fresh s n s' \<longleftrightarrow> n < 32768 \<and> 7 \<le> n \<and> \<not> used_no (bitmap s) n \<and> (\<forall>m < n. used_no (bitmap s) m)
     \<and> bitmap s' = mark n (bitmap s) \<and> ext s s'
     \<and> (\<forall>p. length p \<le> 3 \<longrightarrow> tab s' p = tab s p \<and> tab s p \<noteq> Some (frame_of n))
     \<and> (\<forall>f i. pmem s' f i = (if f = frame_of n then 0
           else if f = frame_pt s \<and> i = 0 then 0 else pmem s f i))"

lemma getframe_ok:
  assumes inv: "page_inv s" and free: "0 < free_count s"
  shows "\<exists>n s'. page_getframe s = Some (frame_of n, s') \<and> fresh s n s'"
proof -
  from free obtain i j n where scan: "getframe_scan (bitmap s) 0 = Some (i, j)"
    and n: "n = j + i * 8" "n < 32768" "\<not> used_no (bitmap s) n" "\<forall>m < n. used_no (bitmap s) m"
    and ij: "i = n div 8" "j = n mod 8"
    unfolding free_count_pos by (rule scan_least)
  let ?s1 = "s\<lparr>bitmap := mark n (bitmap s)\<rparr>"
  let ?s2 = "page_mapframe (frame_of n) ?s1"
  let ?s3 = "page_umapframe (zero_frame (frame_of n) ?s2)"
  have e1: "ext s ?s1" and t1: "\<And>p. length p \<le> 3 \<Longrightarrow> tab ?s1 p = tab s p"
    by (rule ext_frame [OF inv]; simp add: used_no_mark)+
  have inv1: "page_inv ?s1" using e1 by (simp add: ext_def)
  have unlinked: "tab s p \<noteq> Some (frame_of n)" if "length p \<le> 3" for p
    using page_inv_tabD [OF inv that] n(2,3) frame_of_inject by metis
  have inv2: "page_inv ?s2" using ext_mapframe(1) [OF inv1] by (simp add: ext_def)
  have t2: "\<And>p. length p \<le> 3 \<Longrightarrow> tab ?s2 p = tab s p"
    using ext_mapframe(3) [OF inv1] t1 by simp
  have e3: "ext ?s2 (zero_frame (frame_of n) ?s2)"
    and t3: "\<And>p. length p \<le> 3 \<Longrightarrow> tab (zero_frame (frame_of n) ?s2) p = tab ?s2 p"
    by (rule ext_frame [OF inv2]; use unlinked t2 in \<open>force simp: page_mapframe_def\<close>)+
  have inv3: "page_inv (zero_frame (frame_of n) ?s2)" using e3 by (simp add: ext_def)
  have seven: "7 \<le> n" using page_inv_reserved [OF inv] n(3) by (meson not_le)
  have "frame_of n \<noteq> frame_pt s" using unlinked [of "[0, 0, 511]"] page_inv_window_tab [OF inv] by auto
  then have mem: "pmem ?s3 f k = (if f = frame_of n then 0
           else if f = frame_pt s \<and> k = 0 then 0 else pmem s f k)" for f k
    by (simp add: page_umapframe_def page_mapframe_def)
  have zero: "win_zero ?s2 = Some (zero_frame (frame_of n) ?s2)"
    using window_mapframe [OF inv1 n(2)] by (simp add: win_zero_def)
  have set: "(bitmap s)(i := bitmap s i OR push_bit j 1) = mark n (bitmap s)"
    by (simp only: mark_def ij)
  have get: "page_getframe s = Some (frame_of n, ?s3)"
    unfolding page_getframe_def scan option.case prod.case Let_def set n(1) [symmetric] frame_of_mult zero
    by simp
  have ext: "ext s ?s3"
    using e1 ext_mapframe(1) [OF inv1] e3 ext_mapframe(2) [OF inv3] ext_trans by blast
  have tabs: "tab ?s3 p = tab s p" if "length p \<le> 3" for p
    using ext_mapframe(4) [OF inv3] t3 t2 that by simp
  have bm: "bitmap ?s3 = mark n (bitmap s)" by (simp add: page_umapframe_def page_mapframe_def)
  show ?thesis
    using get n seven bm ext tabs unlinked mem by (auto simp: fresh_def)
qed

lemma freshD:
  assumes "fresh s n s'"
  shows "n < 32768" "7 \<le> n" "\<not> used_no (bitmap s) n" "bitmap s' = mark n (bitmap s)"
    and "used_no (bitmap s') n" "ext s s'" "page_inv s'" "pmlt4 s' = pmlt4 s"
    and "\<forall>p. length p \<le> 3 \<longrightarrow> tab s' p = tab s p"
    and "\<forall>p. length p \<le> 3 \<longrightarrow> tab s' p \<noteq> Some (frame_of n)"
    and "pmem s' f i = (if f = frame_of n then 0
           else if f = frame_pt s \<and> i = 0 then 0 else pmem s f i)"
    and "free_count s = Suc (free_count s')"
  using assms free_count_mark [of n s s'] by (auto simp: fresh_def ext_def used_no_mark)

section \<open>Linking a new table\<close>

lemma tab_link:
  assumes inv: "page_inv s" and p: "length p \<le> 2" "tab s p = Some f"
    and empty: "pmem s f i AND PAGE_PRESENT = 0"
    and g: "\<And>q. length q \<le> 3 \<Longrightarrow> tab s q \<noteq> Some g" "\<And>j. pmem s g j = 0"
    and e: "e AND PAGE_PRESENT \<noteq> 0" "e AND NOT 0x1FF = g"
    and q: "length q \<le> 3"
  shows "tab (poke f i e s) q = (if q = p @ [i] then Some g else tab s q)"
  using q
proof (induction q rule: rev_induct)
  case Nil
  then show ?case by simp
next
  case (snoc j q)
  let ?s = "poke f i e s"
  have fg: "f \<noteq> g" using g(1) [of p] p by auto
  have IH: "tab ?s q = (if q = p @ [i] then Some g else tab s q)"
    using snoc by simp
  show ?case
  proof (cases "q = p @ [i]")
    case True
    then have "tab s q = None" "tab ?s q = Some g" "q @ [j] \<noteq> p @ [i]"
      using p(2) empty IH by (simp_all add: tab_snoc child_def)
    then show ?thesis using fg g(2) by (simp add: tab_snoc child_def)
  next
    case False
    show ?thesis
    proof (cases "tab s q")
      case None
      then show ?thesis using False IH p(2) by (auto simp: tab_snoc)
    next
      case (Some h)
      have "h = f \<longleftrightarrow> q = p"
        using page_inv_inj [OF inv, of q f p] p Some snoc.prems by auto
      then show ?thesis
        using False IH Some e by (auto simp: tab_snoc child_def)
    qed
  qed
qed

lemma ext_link:
  assumes inv: "page_inv s" and p: "length p \<le> 2" "tab s p = Some f"
    and empty: "pmem s f i AND PAGE_PRESENT = 0"
    and n: "n < 32768" "used_no (bitmap s) n" "7 \<le> n"
    and g: "\<forall>q. length q \<le> 3 \<longrightarrow> tab s q \<noteq> Some (frame_of n)" "\<forall>j. pmem s (frame_of n) j = 0"
    and e: "e AND PAGE_PRESENT \<noteq> 0" "e AND NOT 0x1FF = frame_of n"
  shows "ext s (poke f i e s)" and "tab (poke f i e s) (p @ [i]) = Some (frame_of n)"
    and "\<forall>q. length q \<le> 3 \<longrightarrow>
      tab (poke f i e s) q = (if q = p @ [i] then Some (frame_of n) else tab s q)"
proof -
  let ?s = "poke f i e s"
  have link: "tab ?s q = (if q = p @ [i] then Some (frame_of n) else tab s q)" if "length q \<le> 3" for q
    by (rule tab_link [OF inv p empty _ _ e that]) (use g in auto)
  then show "tab ?s (p @ [i]) = Some (frame_of n)" using p(1) by simp
  show "\<forall>q. length q \<le> 3 \<longrightarrow> tab ?s q = (if q = p @ [i] then Some (frame_of n) else tab s q)"
    using link by blast
  have none: "tab s (p @ [i]) = None" using p(2) empty by (simp add: tab_snoc child_def)
  have mono: "tab ?s q = Some h" if "length q \<le> 3" "tab s q = Some h" for q h
    using link [OF that(1)] that(2) none by auto
  have new: "q = p @ [i] \<and> h = frame_of n \<or> tab s q = Some h" if "length q \<le> 3" "tab ?s q = Some h" for q h
    using link [OF that(1)] that(2) by (auto split: if_splits)
  have frames: "\<exists>m < 32768. h = frame_of m \<and> used_no (bitmap s) m \<and> h \<noteq> bitmap_addr s"
    if "length q \<le> 3" "tab ?s q = Some h" for q h
    using new [OF that] n page_inv_bitmap [OF inv n(3,1)] page_inv_tabD [OF inv that(1)] by metis
  have inj: "q = r" if "length q \<le> 3" "length r \<le> 3" "tab ?s q = Some h" "tab ?s r = Some h" for q r h
    using new [OF that(1,3)] new [OF that(2,4)] g(1) that(1,2) page_inv_inj [OF inv] by blast
  have "page_inv ?s"
    unfolding page_inv_def
    using page_inv_reserved [OF inv] page_inv_ram [OF inv] mono page_inv_window_tab [OF inv] frames inj
      page_inv_bitmap_low [OF inv]
    by auto
  moreover have "vmap ?s = vmap s"
  proof (rule vmap_cong)
    fix q :: "pt_index list" and j assume q: "length q = 3"
    show "pte ?s q j = pte s q j"
    proof (cases "q = p @ [i]")
      case True
      have "f \<noteq> frame_of n" using g(1) p by auto
      then show ?thesis using True link [of q] q none g(2) by (simp add: pte_def)
    next
      case False
      have "h \<noteq> f" if "tab s q = Some h" for h
        using page_inv_inj [OF inv, of q f p] that p q by auto
      then show ?thesis using False link [of q] q by (auto simp: pte_def split: option.splits)
    qed
  qed
  ultimately show "ext s ?s" using mono by (simp add: ext_def)
qed


section \<open>The walk of the mapping functions\<close>

lemma interior_not_window:
  assumes "page_inv s" and "tab s p = Some f" and "length p \<le> 2"
  shows "f \<noteq> frame_pt s"
  using page_inv_inj [OF assms(1) _ page_inv_window_tab [OF assms(1)], of p] assms(2,3) by auto

text \<open>
  A data frame is allocated and not a table; \<open>keeps\<close> says its contents are not touched.
\<close>

definition data_frame :: "pstate \<Rightarrow> nat \<Rightarrow> bool" where
  "data_frame s n \<longleftrightarrow> n < 32768 \<and> used_no (bitmap s) n
     \<and> (\<forall>p. length p \<le> 3 \<longrightarrow> tab s p \<noteq> Some (frame_of n))"

definition keeps :: "pstate \<Rightarrow> pstate \<Rightarrow> bool" where
  "keeps s s' \<longleftrightarrow> (\<forall>n. data_frame s n \<longrightarrow>
     data_frame s' n \<and> (\<forall>i. pmem s' (frame_of n) i = pmem s (frame_of n) i))"

lemma keeps_refl: "keeps s s"
  by (simp add: keeps_def)

lemma keeps_trans: "keeps s s' \<Longrightarrow> keeps s' s'' \<Longrightarrow> keeps s s''"
  by (simp add: keeps_def)

lemma data_frame_not_tab: "data_frame s n \<Longrightarrow> tab s p = Some f \<Longrightarrow> length p \<le> 3 \<Longrightarrow> frame_of n \<noteq> f"
  by (auto simp: data_frame_def)

lemma data_frame_not_window:
  "page_inv s \<Longrightarrow> data_frame s n \<Longrightarrow> frame_of n \<noteq> frame_pt s"
  by (rule data_frame_not_tab [OF _ page_inv_window_tab]) auto

lemma keeps_window: "page_inv s \<Longrightarrow> keeps s (poke (frame_pt s) 0 v s)"
  using data_frame_not_window ext_window(2) by (auto simp: keeps_def data_frame_def)

lemma keeps_mapframe: "page_inv s \<Longrightarrow> keeps s (page_mapframe a s)" "page_inv s \<Longrightarrow> keeps s (page_umapframe s)"
  by (simp_all add: keeps_window page_mapframe_def page_umapframe_def)

lemma keeps_fresh:
  assumes "page_inv s" and "fresh s n s'"
  shows "keeps s s'"
  unfolding keeps_def
proof (intro allI impI)
  fix m assume m: "data_frame s m"
  note f = freshD [OF assms(2)]
  have "m \<noteq> n" using m f(3) by (auto simp: data_frame_def)
  then have "frame_of m \<noteq> frame_of n" using m f(1) by (simp add: data_frame_def)
  then show "data_frame s' m \<and> (\<forall>i. pmem s' (frame_of m) i = pmem s (frame_of m) i)"
    using m f(4,9,11) data_frame_not_window [OF assms(1) m]
    by (simp add: data_frame_def used_no_mark)
qed

text \<open>Linking the frame that has just been allocated keeps the frames that were data before.\<close>

lemma keeps_link:
  assumes k: "keeps s s'" and new: "\<not> data_frame s n" "n < 32768" and tabf: "tab s' p = Some f" "length p \<le> 3"
    and link: "\<forall>q. length q \<le> 3 \<longrightarrow>
      tab (poke f i e s') q = (if q = r then Some (frame_of n) else tab s' q)"
  shows "keeps s (poke f i e s')"
  unfolding keeps_def
proof (intro allI impI)
  fix m assume m: "data_frame s m"
  then have d: "data_frame s' m" and mem: "\<forall>i. pmem s' (frame_of m) i = pmem s (frame_of m) i"
    using k by (simp_all add: keeps_def)
  have "m \<noteq> n" using m new(1) by auto
  then have "frame_of n \<noteq> frame_of m" using d new(2) by (simp add: data_frame_def)
  then show "data_frame (poke f i e s') m \<and> (\<forall>j. pmem (poke f i e s') (frame_of m) j = pmem s (frame_of m) j)"
    using d mem link data_frame_not_tab [OF d tabf] by (auto simp: data_frame_def)
qed

text \<open>What one step of the walk establishes.\<close>

definition step_to :: "pstate \<Rightarrow> pt_index list \<Rightarrow> qword \<Rightarrow> pstate \<Rightarrow> bool" where
  "step_to s p f s' \<longleftrightarrow> ext s s' \<and> keeps s s' \<and> tab s' p = Some f \<and> free_count s \<le> Suc (free_count s')"

lemma page_next_root_ok:
  assumes inv: "page_inv s" and fl: "ok_flags flags" and free: "0 < free_count s"
  shows "\<exists>f s'. page_next_root i flags s = Some (f, s') \<and> step_to s [i] f s'"
proof (cases "pmem s (pmlt4 s) i AND PAGE_PRESENT = 0")
  case False
  have "tab s [i] = Some (pmem s (pmlt4 s) i AND NOT 0x1FF)"
    using False tab_snoc [of s "[]" i] by (simp add: child_def)
  with False inv show ?thesis by (simp add: page_next_root_def step_to_def ext_refl keeps_refl)
next
  case True
  obtain n s1 where get: "page_getframe s = Some (frame_of n, s1)" and fr: "fresh s n s1"
    using getframe_ok [OF inv free] by blast
  note n = freshD(1,2) [OF fr] and ext = freshD(6) [OF fr] and inv1 = freshD(7) [OF fr]
    and same = freshD(8) [OF fr] and mem = freshD(11) [OF fr]
  let ?s2 = "poke (pmlt4 s1) i (frame_of n OR ucast flags) s1"
  have empty: "pmem s1 (pmlt4 s1) i AND PAGE_PRESENT = 0"
    using True by (simp add: mem same)
  have len: "length ([] :: pt_index list) \<le> 2" by simp
  have zero: "\<forall>j. pmem s1 (frame_of n) j = 0" by (simp add: mem)
  note link = ext_link [OF inv1 len tab_root empty n(1) freshD(5) [OF fr] n(2) freshD(10) [OF fr] zero
      frame_entry_present [OF n(1) fl] frame_entry_base [OF n(1) fl]]
  have "free_count s \<le> Suc (free_count ?s2)"
    using freshD(12) [OF fr] free_count_cong [of ?s2 s1] by simp
  then have "step_to s [i] (frame_of n) ?s2"
    using ext_trans [OF ext link(1)] link(2)
      keeps_link [OF keeps_fresh [OF inv fr] _ n(1) tab_root _ link(3)] freshD(3) [OF fr]
    by (simp add: step_to_def data_frame_def)
  then show ?thesis
    using True get frame_entry_base [OF n(1) fl] by (simp add: page_next_root_def)
qed

lemma page_next_ok:
  assumes inv: "page_inv s" and fl: "ok_flags flags" and free: "0 < free_count s"
    and p: "length p \<le> 2" "tab s p = Some f"
  shows "\<exists>f' s'. page_next f i flags s = Some (f', s') \<and> step_to s (p @ [i]) f' s'"
proof -
  obtain k where k: "k < 32768" "f = frame_of k"
    using page_inv_tabD [OF inv _ p(2)] p(1) by (metis le_SucI numeral_3_eq_3 numeral_2_eq_2)
  let ?s1 = "page_mapframe f s"
  have ext1: "ext s ?s1" and tabs1: "\<And>q. length q \<le> 3 \<Longrightarrow> tab ?s1 q = tab s q"
    using ext_mapframe [OF inv] by simp_all
  have inv1: "page_inv ?s1" using ext1 by (simp add: ext_def)
  have f1: "tab ?s1 p = Some f" using tabs1 p by simp
  have f_ne: "f \<noteq> frame_pt s" using interior_not_window [OF inv p(2,1)] .
  have mem1: "pmem ?s1 f i = pmem s f i" using f_ne by (simp add: page_mapframe_def)
  have get1: "win_get i ?s1 = Some (pmem s f i)"
    using window_mapframe [OF inv k(1)] mem1 by (simp add: win_get_def k(2))
  have fc1: "free_count ?s1 = free_count s" by (rule free_count_cong) (simp add: page_mapframe_def)
  show ?thesis
  proof (cases "pmem s f i AND PAGE_PRESENT = 0")
    case False
    have "tab ?s1 (p @ [i]) = Some (pmem s f i AND NOT 0x1FF)"
      using False f1 mem1 by (simp add: tab_snoc child_def)
    then show ?thesis
      using False get1 ext1 fc1 keeps_mapframe(1) [OF inv]
      by (simp add: page_next_def step_to_def Let_def)
  next
    case True
    obtain n s2 where get: "page_getframe ?s1 = Some (frame_of n, s2)" and fr: "fresh ?s1 n s2"
      using getframe_ok [OF inv1] free fc1 by auto
    note n = freshD(1,2) [OF fr] and ext = freshD(6) [OF fr] and inv2 = freshD(7) [OF fr]
      and mem = freshD(11) [OF fr] and tabs = freshD(9) [OF fr] and unlinked = freshD(10) [OF fr]
    let ?s3 = "page_mapframe f s2" and ?e = "frame_of n OR ucast flags"
    have ext3: "ext s2 ?s3" and tabs3: "\<And>q. length q \<le> 3 \<Longrightarrow> tab ?s3 q = tab s2 q"
      using ext_mapframe [OF inv2] by simp_all
    have inv3: "page_inv ?s3" using ext3 by (simp add: ext_def)
    have fp: "frame_pt s2 = frame_pt s" using ext by (simp add: ext_def page_mapframe_def)
    have f3: "tab ?s3 p = Some f" using tabs3 tabs f1 p(1) by simp
    have fn: "f \<noteq> frame_of n" using unlinked tabs f1 p(1) by auto
    have empty: "pmem ?s3 f i AND PAGE_PRESENT = 0"
      using True f_ne fn fp mem mem1 by (simp add: page_mapframe_def)
    have zero: "\<forall>j. pmem ?s3 (frame_of n) j = 0"
      using mem unlinked [THEN spec, of "[0, 0, 511]"] page_inv_window_tab [OF inv2] by (simp add: page_mapframe_def)
    have used: "used_no (bitmap ?s3) n" using freshD(5) [OF fr] by (simp add: page_mapframe_def)
    have unl: "\<forall>q. length q \<le> 3 \<longrightarrow> tab ?s3 q \<noteq> Some (frame_of n)"
      using unlinked tabs3 by simp
    note link = ext_link [OF inv3 p(1) f3 empty n(1) used n(2) unl zero
        frame_entry_present [OF n(1) fl] frame_entry_base [OF n(1) fl]]
    have "free_count s \<le> Suc (free_count (poke f i ?e ?s3))"
      using freshD(12) [OF fr] fc1 free_count_cong [of "poke f i ?e ?s3" s2]
      by (simp add: page_mapframe_def)
    moreover have "keeps s ?s3"
      using keeps_mapframe(1) [OF inv] keeps_fresh [OF inv1 fr] keeps_mapframe(1) [OF inv2]
      by (blast intro: keeps_trans)
    then have "keeps s (poke f i ?e ?s3)"
    proof (rule keeps_link [OF _ _ n(1) f3 _ link(3)])
      show "\<not> data_frame s n"
        using freshD(3) [OF fr] by (simp add: data_frame_def page_mapframe_def)
    qed (use p(1) in simp)
    ultimately have step: "step_to s (p @ [i]) (frame_of n) (poke f i ?e ?s3)"
      using ext_trans [OF ext_trans [OF ext_trans [OF ext1 ext] ext3] link(1)] link(2)
      by (simp add: step_to_def)
    have w3: "window ?s3 = Some f" using window_mapframe [OF inv2 k(1)] k(2) by simp
    have w4: "window (poke f i ?e ?s3) = Some f"
      using w3 f_ne fp by (simp add: window_def page_mapframe_def)
    have "win_set i ?e ?s3 = Some (poke f i ?e ?s3)" "win_get i (poke f i ?e ?s3) = Some ?e"
      using w3 w4 by (simp_all add: win_set_def win_get_def)
    then show ?thesis
      using step True get1 get frame_entry_base [OF n(1) fl]
      by (simp add: page_next_def Let_def)
  qed
qed

lemma page_tables_ok:
  assumes inv: "page_inv s" and fl: "ok_flags flags" and free: "3 \<le> free_count s"
  shows "\<exists>pt s'. page_tables virt flags s = Some (pt, s') \<and> ext s s' \<and> keeps s s'
    \<and> tab s' [PMLT4_INDEX virt, PDPT_INDEX virt, PDT_INDEX virt] = Some pt
    \<and> free_count s \<le> free_count s' + 3"
proof -
  obtain f1 s1 where 1: "page_next_root (PMLT4_INDEX virt) flags s = Some (f1, s1)"
    "step_to s [PMLT4_INDEX virt] f1 s1"
    using page_next_root_ok [OF inv fl] free by (metis not_numeral_le_zero neq0_conv)
  then have inv1: "page_inv s1" and fc1: "2 \<le> free_count s1" and t1: "tab s1 [PMLT4_INDEX virt] = Some f1"
    using free by (auto simp: step_to_def ext_def)
  obtain f2 s2 where 2: "page_next f1 (PDPT_INDEX virt) flags s1 = Some (f2, s2)"
    "step_to s1 ([PMLT4_INDEX virt] @ [PDPT_INDEX virt]) f2 s2"
    using page_next_ok [OF inv1 fl _ _ t1] fc1 by fastforce
  then have inv2: "page_inv s2" and fc2: "1 \<le> free_count s2"
    and t2: "tab s2 [PMLT4_INDEX virt, PDPT_INDEX virt] = Some f2"
    using fc1 by (auto simp: step_to_def ext_def)
  obtain f3 s3 where 3: "page_next f2 (PDT_INDEX virt) flags s2 = Some (f3, s3)"
    "step_to s2 ([PMLT4_INDEX virt, PDPT_INDEX virt] @ [PDT_INDEX virt]) f3 s3"
    using page_next_ok [OF inv2 fl _ _ t2] fc2 by fastforce
  have "ext s s3" "keeps s s3"
    using 1(2) 2(2) 3(2) unfolding step_to_def by (blast intro: ext_trans keeps_trans)+
  moreover have "page_tables virt flags s = Some (f3, s3)"
    using 1(1) 2(1) 3(1) by (simp add: page_tables_def)
  moreover have "free_count s \<le> free_count s3 + 3" using 1(2) 2(2) 3(2) by (auto simp: step_to_def)
  moreover have "tab s3 [PMLT4_INDEX virt, PDPT_INDEX virt, PDT_INDEX virt] = Some f3"
    using 3(2) by (simp add: step_to_def)
  ultimately show ?thesis by blast
qed


section \<open>Leaf entries\<close>

lemma poke_leaf:
  assumes inv: "page_inv s" and q: "tab s [a, b, c] = Some f"
  shows "page_inv (poke f d e s)"
    and "\<And>p. length p \<le> 3 \<Longrightarrow> tab (poke f d e s) p = tab s p"
    and "vmap (poke f d e s) = (if (a, b, c, d) = window_page then vmap s else (vmap s)((a, b, c, d) := e))"
    and "keeps s (poke f d e s)"
proof -
  let ?s = "poke f d e s"
  have tabs: "tab ?s p = tab s p" if "length p \<le> 3" for p
  proof (rule tab_frame [OF _ _ that])
    fix p i g assume "length p \<le> 2" "tab s p = Some g"
    then have "g = f \<Longrightarrow> p = [a, b, c]" by (intro page_inv_inj [OF inv _ q]) auto
    then have "g \<noteq> f" using \<open>length p \<le> 2\<close> by auto
    then show "pmem ?s g i = pmem s g i" by simp
  qed simp
  then show "\<And>p. length p \<le> 3 \<Longrightarrow> tab ?s p = tab s p" .
  show "keeps s ?s"
    using data_frame_not_tab [OF _ q] by (auto simp: keeps_def data_frame_def tabs)
  show "page_inv ?s" by (rule page_inv_cong [OF inv]) (simp_all add: tabs)
  have pte: "pte ?s [w, x, y] z = (if ([w, x, y], z) = ([a, b, c], d) then e else pte s [w, x, y] z)"
    for w x y z
  proof (cases "tab s [w, x, y]")
    case None
    then have "[w, x, y] \<noteq> [a, b, c]" using q by auto
    with None show ?thesis by (auto simp: pte_def tabs)
  next
    case (Some g)
    have "g = f \<longleftrightarrow> [w, x, y] = [a, b, c]"
      using page_inv_inj [OF inv Some, of "[a, b, c]"] Some q by auto
    with Some show ?thesis by (simp add: pte_def tabs)
  qed
  show "vmap ?s = (if (a, b, c, d) = window_page then vmap s else (vmap s)((a, b, c, d) := e))"
    by (rule ext) (auto simp: vmap_def pte split: prod.splits)
qed

text \<open>Reaching the leaf table of a virtual page through the window.\<close>

lemma leaf_window:
  assumes inv: "page_inv s" and pt: "tab s [a, b, c] = Some f" and nw: "(a, b, c, d) \<noteq> window_page"
  shows "window (page_mapframe f s) = Some f"
    and "win_get d (page_mapframe f s) = Some (vmap s (a, b, c, d))"
    and "ext s (page_mapframe f s)"
    and "tab (page_mapframe f s) [a, b, c] = Some f"
proof -
  obtain k where k: "k < 32768" "f = frame_of k"
    using page_inv_tabD [OF inv _ pt] by auto
  show w: "window (page_mapframe f s) = Some f"
    using window_mapframe [OF inv k(1)] k(2) by simp
  have "f = frame_pt s \<Longrightarrow> d \<noteq> 0"
    using page_inv_inj [OF inv pt, of "[0, 0, 511]"] page_inv_window_tab [OF inv] nw
    by (auto simp: window_page_def)
  then have "pmem (page_mapframe f s) f d = pmem s f d" by (auto simp: page_mapframe_def)
  then show "win_get d (page_mapframe f s) = Some (vmap s (a, b, c, d))"
    using w nw pt by (simp add: win_get_def vmap_def pte_def)
  show "ext s (page_mapframe f s)" "tab (page_mapframe f s) [a, b, c] = Some f"
    using ext_mapframe [OF inv] pt by simp_all
qed

text \<open>Writing the leaf entry and unmapping the window.\<close>

lemma leaf_write:
  assumes inv: "page_inv s" and pt: "tab s [a, b, c] = Some f" and nw: "(a, b, c, d) \<noteq> window_page"
  shows "\<exists>s'. win_set d e (page_mapframe f s) = Some s' \<and> page_inv (page_umapframe s')
    \<and> vmap (page_umapframe s') = (vmap s)((a, b, c, d) := e) \<and> bitmap (page_umapframe s') = bitmap s
    \<and> (\<forall>p. length p \<le> 3 \<longrightarrow> tab (page_umapframe s') p = tab s p) \<and> keeps s (page_umapframe s')
    \<and> s' = poke f d e (page_mapframe f s)"
proof -
  let ?w = "page_mapframe f s" and ?s = "poke f d e (page_mapframe f s)"
  note w = leaf_window [OF inv pt nw]
  have inv_w: "page_inv ?w" and vm: "vmap ?w = vmap s" using w(3) by (simp_all add: ext_def)
  note leaf = poke_leaf [OF inv_w w(4), where d = d and e = e]
  have "ext ?s (page_umapframe ?s)" using ext_mapframe(2) [OF leaf(1)] .
  then have "page_inv (page_umapframe ?s)" "vmap (page_umapframe ?s) = (vmap s)((a, b, c, d) := e)"
    using leaf(3) vm nw by (simp_all add: ext_def)
  moreover have "tab (page_umapframe ?s) p = tab s p" if "length p \<le> 3" for p
    using ext_mapframe(4) [OF leaf(1) that] leaf(2) [OF that] ext_mapframe(3) [OF inv that] by simp
  moreover have "keeps s (page_umapframe ?s)"
    using keeps_mapframe(1) [OF inv] leaf(4) keeps_mapframe(2) [OF leaf(1)] keeps_trans by blast
  ultimately show ?thesis
    using w(1) by (simp add: win_set_def page_umapframe_def page_mapframe_def)
qed

section \<open>Mapping a page\<close>

lemma mapvp_page_ok:
  assumes inv: "page_inv s" and fl: "ok_flags flags" and free: "3 \<le> free_count s"
    and nw: "vpage virt \<noteq> window_page"
  shows "\<exists>s'. page_mapvp_page virt phys flags s = Some s' \<and> page_inv s'
    \<and> vmap s' = (if vmap s (vpage virt) = 0 then (vmap s)(vpage virt := phys OR ucast flags) else vmap s)
    \<and> free_count s \<le> free_count s' + 3 \<and> keeps s s'
    \<and> (\<forall>n. used_no (bitmap s) n \<longrightarrow> used_no (bitmap s') n)"
proof -
  let ?a = "PMLT4_INDEX virt" and ?b = "PDPT_INDEX virt" and ?c = "PDT_INDEX virt" and ?d = "PT_INDEX virt"
  obtain pt s1 where tables: "page_tables virt flags s = Some (pt, s1)" and ext1: "ext s s1"
    and k1: "keeps s s1" and pt: "tab s1 [?a, ?b, ?c] = Some pt" and fc: "free_count s \<le> free_count s1 + 3"
    using page_tables_ok [OF inv fl free] by blast
  have inv1: "page_inv s1" and vm: "vmap s1 = vmap s"
    and mono: "\<forall>n. used_no (bitmap s) n \<longrightarrow> used_no (bitmap s1) n"
    using ext1 by (simp_all add: ext_def)
  have nw': "(?a, ?b, ?c, ?d) \<noteq> window_page" using nw by (simp add: vpage_def)
  note w = leaf_window [OF inv1 pt nw']
  show ?thesis
  proof (cases "vmap s (vpage virt) = 0")
    case True
    obtain s3 where s3: "win_set ?d (phys OR ucast flags) (page_mapframe pt s1) = Some s3"
      "page_inv (page_umapframe s3)" "bitmap (page_umapframe s3) = bitmap s1"
      "vmap (page_umapframe s3) = (vmap s1)((?a, ?b, ?c, ?d) := phys OR ucast flags)"
      "keeps s1 (page_umapframe s3)"
      using leaf_write [OF inv1 pt nw'] by blast
    then show ?thesis
      using True tables w(2) vm fc mono free_count_cong [OF s3(3)] keeps_trans [OF k1 s3(5)]
      by (simp add: page_mapvp_page_def Let_def vpage_def)
  next
    case False
    have inv_w: "page_inv (page_mapframe pt s1)" using w(3) by (simp add: ext_def)
    let ?s' = "page_umapframe (page_mapframe pt s1)"
    have e: "ext s1 ?s'" using ext_trans [OF w(3) ext_mapframe(2) [OF inv_w]] .
    have bm: "bitmap ?s' = bitmap s1" by (simp add: page_umapframe_def page_mapframe_def)
    have "keeps s ?s'"
      using k1 keeps_mapframe(1) [OF inv1] keeps_mapframe(2) [OF inv_w] keeps_trans by blast
    then show ?thesis
      using False tables w(2) vm fc mono e free_count_cong [OF bm]
      by (simp add: page_mapvp_page_def Let_def vpage_def ext_def)
  qed
qed


text \<open>
  One page of \<open>page_mapv\<close>.  The frame \<open>n\<close> is taken before the entry is tested: where
  the page is already mapped it is lost, and the window stays on the page table.
\<close>

lemma mapv_page_ok:
  assumes inv: "page_inv s" and fl: "ok_flags flags" and free: "4 \<le> free_count s"
    and nw: "vpage virt \<noteq> window_page"
  shows "\<exists>n s'. page_mapv_page virt flags s = Some s' \<and> page_inv s' \<and> keeps s s'
    \<and> n < 32768 \<and> \<not> used_no (bitmap s) n \<and> used_no (bitmap s') n
    \<and> (\<forall>p. length p \<le> 3 \<longrightarrow> tab s' p \<noteq> Some (frame_of n))
    \<and> vmap s' = (if vmap s (vpage virt) = 0 then (vmap s)(vpage virt := frame_of n OR ucast flags) else vmap s)
    \<and> free_count s \<le> free_count s' + 4
    \<and> (\<forall>m. used_no (bitmap s) m \<longrightarrow> used_no (bitmap s') m)"
proof -
  let ?a = "PMLT4_INDEX virt" and ?b = "PDPT_INDEX virt" and ?c = "PDT_INDEX virt" and ?d = "PT_INDEX virt"
  obtain pt s1 where tables: "page_tables virt flags s = Some (pt, s1)" and ext1: "ext s s1"
    and k1: "keeps s s1" and pt: "tab s1 [?a, ?b, ?c] = Some pt" and fc: "free_count s \<le> free_count s1 + 3"
    using page_tables_ok [OF inv fl] free by fastforce
  have inv1: "page_inv s1" and vm: "vmap s1 = vmap s"
    and mono: "\<forall>n. used_no (bitmap s) n \<longrightarrow> used_no (bitmap s1) n"
    using ext1 by (simp_all add: ext_def)
  obtain n s2 where get: "page_getframe s1 = Some (frame_of n, s2)" and fr: "fresh s1 n s2"
    using getframe_ok [OF inv1] fc free by auto
  note f = freshD [OF fr]
  have vm2: "vmap s2 = vmap s" and mono2: "\<forall>n. used_no (bitmap s) n \<longrightarrow> used_no (bitmap s2) n"
    using f(6) vm mono by (simp_all add: ext_def)
  have pt2: "tab s2 [?a, ?b, ?c] = Some pt" using pt f(9) by simp
  have nw': "(?a, ?b, ?c, ?d) \<noteq> window_page" using nw by (simp add: vpage_def)
  note w = leaf_window [OF f(7) pt2 nw']
  have k2: "keeps s s2" using keeps_trans [OF k1 keeps_fresh [OF inv1 fr]] .
  have unused: "\<not> used_no (bitmap s) n" using f(3) mono by blast
  show ?thesis
  proof (cases "vmap s (vpage virt) = 0")
    case True
    obtain s3 where s3: "win_set ?d (frame_of n OR ucast flags) (page_mapframe pt s2) = Some s3"
      "page_inv (page_umapframe s3)" "bitmap (page_umapframe s3) = bitmap s2"
      "vmap (page_umapframe s3) = (vmap s2)((?a, ?b, ?c, ?d) := frame_of n OR ucast flags)"
      "keeps s2 (page_umapframe s3)"
      "\<forall>p. length p \<le> 3 \<longrightarrow> tab (page_umapframe s3) p = tab s2 p"
      using leaf_write [OF f(7) pt2 nw'] by blast
    then show ?thesis
      using True tables get w(2) vm2 fc f(1,5,10,12) unused mono2 free_count_cong [OF s3(3)]
        keeps_trans [OF k2 s3(5)]
      by (intro exI [of _ n]) (simp add: page_mapv_page_def Let_def vpage_def)
  next
    case False
    let ?s' = "page_mapframe pt s2"
    have bm: "bitmap ?s' = bitmap s2" by (simp add: page_mapframe_def)
    have "keeps s ?s'" using keeps_trans [OF k2 keeps_mapframe(1) [OF f(7)]] .
    then show ?thesis
      using False tables get w(2,3) vm2 fc f(1,5,10,12) unused mono2 free_count_cong [OF bm]
        ext_mapframe(3) [OF f(7)] bm
      by (intro exI [of _ n]) (simp add: page_mapv_page_def Let_def vpage_def ext_def)
  qed
qed

text \<open>A frame below 128 MiB is never in the 2 MiB region of the window.\<close>

lemma frame_not_window: "n < 32768 \<Longrightarrow> vpage (frame_of n) \<noteq> window_page"
proof
  assume n: "n < 32768" and "vpage (frame_of n) = window_page"
  then have "PDT_INDEX (frame_of n) = 511" by (simp add: vpage_def window_page_def)
  moreover have "\<not> bit (PDT_INDEX (frame_of n)) 8"
    using n by (simp add: PDT_INDEX_def bit_simps bit_frame_of)
  moreover have "bit (511 :: pt_index) 8" by (simp add: bit_iff_odd_drop_bit)
  ultimately show False by simp
qed

lemma alloc4K_ok:
  assumes inv: "page_inv s" and fl: "ok_flags flags" and free: "4 \<le> free_count s"
  shows "\<exists>n s'. page_alloc4K flags s = Some (frame_of n, s') \<and> page_inv s' \<and> keeps s s'
    \<and> n < 32768 \<and> \<not> used_no (bitmap s) n \<and> (\<forall>m < n. used_no (bitmap s) m) \<and> data_frame s' n
    \<and> (\<forall>i. pmem s' (frame_of n) i = 0)
    \<and> vmap s' = (vmap s)(vpage (frame_of n) := frame_of n OR ucast flags)
    \<and> free_count s \<le> free_count s' + 4
    \<and> (\<forall>p f. length p \<le> 3 \<longrightarrow> tab s p = Some f \<longrightarrow> tab s' p = Some f)
    \<and> (\<forall>m. used_no (bitmap s) m \<longrightarrow> used_no (bitmap s') m)"
proof -
  obtain n s1 where get: "page_getframe s = Some (frame_of n, s1)" and fr: "fresh s n s1"
    using getframe_ok [OF inv] free by auto
  note f = freshD [OF fr]
  let ?v = "frame_of n"
  let ?a = "PMLT4_INDEX ?v" and ?b = "PDPT_INDEX ?v" and ?c = "PDT_INDEX ?v" and ?d = "PT_INDEX ?v"
  obtain pt s2 where tables: "page_tables ?v flags s1 = Some (pt, s2)" and ext1: "ext s1 s2"
    and k1: "keeps s1 s2" and pt: "tab s2 [?a, ?b, ?c] = Some pt" and fc: "free_count s1 \<le> free_count s2 + 3"
    using page_tables_ok [OF f(7) fl] free f(12) by fastforce
  have inv2: "page_inv s2" and vm: "vmap s2 = vmap s"
    using ext1 f(6) by (simp_all add: ext_def)
  have nw: "(?a, ?b, ?c, ?d) \<noteq> window_page" using frame_not_window [OF f(1)] by (simp add: vpage_def)
  obtain s3 where s3: "win_set ?d (frame_of n OR ucast flags) (page_mapframe pt s2) = Some s3"
    "page_inv (page_umapframe s3)" "bitmap (page_umapframe s3) = bitmap s2"
    "vmap (page_umapframe s3) = (vmap s2)((?a, ?b, ?c, ?d) := frame_of n OR ucast flags)"
    "keeps s2 (page_umapframe s3)" "\<forall>p. length p \<le> 3 \<longrightarrow> tab (page_umapframe s3) p = tab s2 p"
    using leaf_write [OF inv2 pt nw] by blast
  have tabs: "\<forall>p f. length p \<le> 3 \<longrightarrow> tab s p = Some f \<longrightarrow> tab (page_umapframe s3) p = Some f"
    using s3(6) ext1 f(9) by (simp add: ext_def)
  have mono: "\<forall>m. used_no (bitmap s) m \<longrightarrow> used_no (bitmap (page_umapframe s3)) m"
    using s3(3) ext1 f(6) by (simp add: ext_def)
  have kept: "keeps s1 (page_umapframe s3)" using keeps_trans [OF k1 s3(5)] .
  have "data_frame s1 n" using f(1,5,10) by (simp add: data_frame_def)
  then have "data_frame (page_umapframe s3) n" "\<forall>i. pmem (page_umapframe s3) (frame_of n) i = 0"
    using kept f(11) by (auto simp: keeps_def)
  then show ?thesis
    using get tables s3(1,2,4) vm fc f(1,3,12) fr free_count_cong [OF s3(3)]
      keeps_trans [OF keeps_fresh [OF inv fr] kept] tabs mono
    by (intro exI [of _ n]) (simp add: page_alloc4K_def vpage_def fresh_def)
qed

end
