(* ===== verification/Page_Range.thy ===== *)
theory Page_Range
  imports Page_Map
begin

text \<open>
  Unmapping, and the loops of \<open>page_mapv\<close>, \<open>page_mapvp\<close> and \<open>page_umapv\<close> over the
  pages of a range.
\<close>

section \<open>Pages of a range\<close>

definition vp :: "qword \<Rightarrow> nat \<Rightarrow> pt_index \<times> pt_index \<times> pt_index \<times> pt_index" where
  "vp virt k = vpage (virt + of_nat k * PAGE_SIZE)"

lemma vpage_eqD:
  assumes "vpage x = vpage y"
  shows "take_bit 36 (drop_bit 12 x) = take_bit 36 (drop_bit 12 y)"
proof (rule bit_eqI)
  fix i assume "possible_bit TYPE(64 word) i"
  have eqs: "bit x (39 + j) = bit y (39 + j)" "bit x (30 + j) = bit y (30 + j)"
    "bit x (21 + j) = bit y (21 + j)" "bit x (12 + j) = bit y (12 + j)" if "j < 9" for j
  proof -
    have "bit (PMLT4_INDEX x) j = bit (PMLT4_INDEX y) j" "bit (PDPT_INDEX x) j = bit (PDPT_INDEX y) j"
      "bit (PDT_INDEX x) j = bit (PDT_INDEX y) j" "bit (PT_INDEX x) j = bit (PT_INDEX y) j"
      using assms by (simp_all add: vpage_def)
    then show "bit x (39 + j) = bit y (39 + j)" "bit x (30 + j) = bit y (30 + j)"
      "bit x (21 + j) = bit y (21 + j)" "bit x (12 + j) = bit y (12 + j)"
      using that by (simp_all add: PMLT4_INDEX_def PDPT_INDEX_def PDT_INDEX_def PT_INDEX_def bit_simps)
  qed
  consider "i < 9" | "9 \<le> i" "i < 18" | "18 \<le> i" "i < 27" | "27 \<le> i" "i < 36" | "36 \<le> i" by linarith
  then show "bit (take_bit 36 (drop_bit 12 x)) i = bit (take_bit 36 (drop_bit 12 y)) i"
  proof cases
    case 1 then show ?thesis using eqs(4) [of i] by (simp add: bit_simps)
  next
    case 2 then show ?thesis using eqs(3) [of "i - 9"] by (simp add: bit_simps)
  next
    case 3 then show ?thesis using eqs(2) [of "i - 18"] by (simp add: bit_simps)
  next
    case 4 then show ?thesis using eqs(1) [of "i - 27"] by (simp add: bit_simps)
  next
    case 5 then show ?thesis by (simp add: bit_simps)
  qed
qed

lemma page_number:
  assumes "k < 2 ^ 36"
  shows "unat (take_bit 36 (drop_bit 12 (virt + of_nat k * PAGE_SIZE :: qword)))
    = (unat virt div 4096 + k) mod 2 ^ 36"
proof -
  have k: "unat (of_nat k :: qword) = k"
    using assms by (simp add: unat_of_nat)
  have "unat (virt + of_nat k * PAGE_SIZE) = (unat virt + k * 4096) mod 2 ^ 64"
    by (simp add: unat_word_ariths k mod_simps)
  then have "unat (drop_bit 12 (virt + of_nat k * PAGE_SIZE)) = drop_bit 12 (take_bit 64 (unat virt + k * 4096))"
    by (simp add: unsigned_drop_bit_eq take_bit_eq_mod)
  also have "\<dots> = take_bit 52 (drop_bit 12 (unat virt + k * 4096))"
    by (simp add: drop_bit_take_bit)
  also have "drop_bit 12 (unat virt + k * 4096) = unat virt div 4096 + k"
    by (simp add: drop_bit_eq_div)
  finally have "unat (take_bit 36 (drop_bit 12 (virt + of_nat k * PAGE_SIZE)))
    = take_bit 36 (take_bit 52 (unat virt div 4096 + k))"
    by (simp only: unsigned_take_bit_eq)
  then show ?thesis by (simp only: take_bit_take_bit) (simp add: take_bit_eq_mod)
qed

lemma mod_add_cancel:
  fixes a k j m :: nat
  assumes "(a + k) mod m = (a + j) mod m" and "k < m" and "j < m"
  shows "k = j"
proof -
  have "int m dvd (int k - int j)"
    using assms(1) mod_eq_dvd_iff [of "int (a + k)" "int m" "int (a + j)"]
    by (simp only: of_nat_mod [symmetric]) simp
  then show ?thesis
    using assms(2,3) zdvd_not_zless [of "int k - int j" "int m"] zdvd_not_zless [of "int j - int k" "int m"]
    by (cases k j rule: linorder_cases) (auto simp: dvd_diff_commute)
qed

lemma vp_inject:
  assumes "k < 2 ^ 36" and "j < 2 ^ 36"
  shows "vp virt k = vp virt j \<longleftrightarrow> k = j"
proof
  assume "vp virt k = vp virt j"
  then have same: "vpage (virt + of_nat k * PAGE_SIZE) = vpage (virt + of_nat j * PAGE_SIZE)"
    by (simp only: vp_def)
  have "(unat virt div 4096 + k) mod 2 ^ 36 = (unat virt div 4096 + j) mod 2 ^ 36"
    using arg_cong [OF vpage_eqD [OF same], of unat]
    by (simp only: page_number [OF assms(1)] page_number [OF assms(2)])
  then show "k = j" using mod_add_cancel assms by blast
qed simp

lemma vpage_frame_eq: "n < 32768 \<Longrightarrow> m < 32768 \<Longrightarrow> vpage (frame_of n) = vpage (frame_of m) \<longleftrightarrow> n = m"
  using vp_inject [of n m 0] by (simp add: vp_def frame_of_def push_bit_eq_mult mult.commute)

lemma vpage_low: "vpage (frame_of (unat (d :: pt_index))) = (0, 0, 0, d)"
proof -
  have d: "unat d < 512" using unsigned_less [of d] by simp
  then have "\<not> bit (unat d) k" if "9 \<le> k" for k using not_bit_nat [of "unat d" 9 k] that by simp
  then show ?thesis
    using d by (auto simp: vpage_def PMLT4_INDEX_def PDPT_INDEX_def PDT_INDEX_def PT_INDEX_def
        bit_eq_iff bit_simps bit_frame_of bit_unsigned_iff)
qed

lemma vp_fresh:
  assumes "k < n" and "n < 0x80000"
  shows "vp virt n \<noteq> vp virt k" and "vp virt k \<noteq> vp virt n"
  using vp_inject [of n k virt] assms by auto

section \<open>The mapping loops\<close>

lemma mapvp_loop:
  assumes inv: "page_inv s" and fl: "ok_flags flags"
  shows "3 * n \<le> free_count s \<Longrightarrow> n \<le> 0x80000 \<Longrightarrow> \<forall>k < n. vp virt k \<noteq> window_page \<Longrightarrow>
    \<exists>s'. page_loop (\<lambda>off. page_mapvp_page (virt + off) (phys + off) flags) n s = Some s'
    \<and> page_inv s' \<and> keeps s s' \<and> free_count s \<le> free_count s' + 3 * n
    \<and> (\<forall>k < n. vmap s' (vp virt k) =
          (if vmap s (vp virt k) = 0 then (phys + of_nat k * PAGE_SIZE) OR ucast flags
           else vmap s (vp virt k)))
    \<and> (\<forall>v. (\<forall>k < n. v \<noteq> vp virt k) \<longrightarrow> vmap s' v = vmap s v)"
proof (induction n)
  case 0
  then show ?case using inv by (simp add: keeps_refl)
next
  case (Suc n)
  then obtain s1 where s1: "page_loop (\<lambda>off. page_mapvp_page (virt + off) (phys + off) flags) n s = Some s1"
    "page_inv s1" "keeps s s1" "free_count s \<le> free_count s1 + 3 * n"
    "\<forall>k < n. vmap s1 (vp virt k) = (if vmap s (vp virt k) = 0
       then (phys + of_nat k * PAGE_SIZE) OR ucast flags else vmap s (vp virt k))"
    "\<forall>v. (\<forall>k < n. v \<noteq> vp virt k) \<longrightarrow> vmap s1 v = vmap s v"
    by auto
  have small: "n < 0x80000" using Suc.prems by simp
  have old: "vmap s1 (vp virt n) = vmap s (vp virt n)" using s1(6) vp_fresh(1) [OF _ small] by blast
  obtain s' where s': "page_mapvp_page (virt + of_nat n * PAGE_SIZE) (phys + of_nat n * PAGE_SIZE) flags s1 = Some s'"
    "page_inv s'" "keeps s1 s'" "free_count s1 \<le> free_count s' + 3"
    "vmap s' = (if vmap s1 (vp virt n) = 0
       then (vmap s1)(vp virt n := (phys + of_nat n * PAGE_SIZE) OR ucast flags) else vmap s1)"
    using mapvp_page_ok [OF s1(2) fl, of "virt + of_nat n * PAGE_SIZE" "phys + of_nat n * PAGE_SIZE"]
      s1(4) Suc.prems unfolding vp_def by auto
  have "page_loop (\<lambda>off. page_mapvp_page (virt + off) (phys + off) flags) (Suc n) s = Some s'"
    using s1(1) s'(1) small by simp
  moreover have "\<forall>k < Suc n. vmap s' (vp virt k) = (if vmap s (vp virt k) = 0
       then (phys + of_nat k * PAGE_SIZE) OR ucast flags else vmap s (vp virt k))"
    using s'(5) old s1(5) vp_fresh(2) [OF _ small] by (auto simp: less_Suc_eq)
  moreover have "\<forall>v. (\<forall>k < Suc n. v \<noteq> vp virt k) \<longrightarrow> vmap s' v = vmap s v"
    using s'(5) s1(6) by (auto simp: less_Suc_eq)
  ultimately show ?case
    using s'(2-4) s1(3,4) by (intro exI [of _ s']) (auto intro: keeps_trans)
qed

text \<open>\<open>fr k\<close> is the frame the loop gives to page \<open>k\<close>.\<close>

lemma mapv_loop:
  assumes inv: "page_inv s" and fl: "ok_flags flags"
  shows "4 * n \<le> free_count s \<Longrightarrow> n \<le> 0x80000 \<Longrightarrow> \<forall>k < n. vp virt k \<noteq> window_page \<Longrightarrow>
    \<exists>fr s'. page_loop (\<lambda>off. page_mapv_page (virt + off) flags) n s = Some s'
    \<and> page_inv s' \<and> keeps s s' \<and> free_count s \<le> free_count s' + 4 * n
    \<and> (\<forall>k < n. \<not> used_no (bitmap s) (fr k) \<and> data_frame s' (fr k))
    \<and> inj_on fr {..<n}
    \<and> (\<forall>k < n. vmap s' (vp virt k) =
          (if vmap s (vp virt k) = 0 then frame_of (fr k) OR ucast flags else vmap s (vp virt k)))
    \<and> (\<forall>v. (\<forall>k < n. v \<noteq> vp virt k) \<longrightarrow> vmap s' v = vmap s v)
    \<and> (\<forall>m. used_no (bitmap s) m \<longrightarrow> used_no (bitmap s') m)"
proof (induction n)
  case 0
  then show ?case using inv by (simp add: keeps_refl)
next
  case (Suc n)
  then obtain fr s1 where s1: "page_loop (\<lambda>off. page_mapv_page (virt + off) flags) n s = Some s1"
    "page_inv s1" "keeps s s1" "free_count s \<le> free_count s1 + 4 * n"
    "\<forall>k < n. \<not> used_no (bitmap s) (fr k) \<and> data_frame s1 (fr k)" "inj_on fr {..<n}"
    "\<forall>k < n. vmap s1 (vp virt k) = (if vmap s (vp virt k) = 0
       then frame_of (fr k) OR ucast flags else vmap s (vp virt k))"
    "\<forall>v. (\<forall>k < n. v \<noteq> vp virt k) \<longrightarrow> vmap s1 v = vmap s v"
    "\<forall>m. used_no (bitmap s) m \<longrightarrow> used_no (bitmap s1) m"
    by auto
  have small: "n < 0x80000" using Suc.prems by simp
  have old: "vmap s1 (vp virt n) = vmap s (vp virt n)" using s1(8) vp_fresh(1) [OF _ small] by blast
  have free: "4 \<le> free_count s1" using s1(4) Suc.prems by simp
  have nw: "vpage (virt + of_nat n * PAGE_SIZE) \<noteq> window_page" using Suc.prems by (simp add: vp_def)
  obtain m s' where s': "page_mapv_page (virt + of_nat n * PAGE_SIZE) flags s1 = Some s'"
    "page_inv s'" "keeps s1 s'" "free_count s1 \<le> free_count s' + 4"
    "\<not> used_no (bitmap s1) m" "data_frame s' m"
    "vmap s' = (if vmap s1 (vp virt n) = 0
       then (vmap s1)(vp virt n := frame_of m OR ucast flags) else vmap s1)"
    "\<forall>k. used_no (bitmap s1) k \<longrightarrow> used_no (bitmap s') k"
    using mapv_page_ok [OF s1(2) fl free nw] unfolding vp_def data_frame_def by blast
  let ?fr = "fr(n := m)"
  have new: "\<forall>k < n. fr k \<noteq> m"
    using s1(5) s'(5) by (auto simp: data_frame_def)
  have "page_loop (\<lambda>off. page_mapv_page (virt + off) flags) (Suc n) s = Some s'"
    using s1(1) s'(1) small by simp
  moreover have "\<forall>k < Suc n. vmap s' (vp virt k) = (if vmap s (vp virt k) = 0
       then frame_of (?fr k) OR ucast flags else vmap s (vp virt k))"
    using s'(7) old s1(7) vp_fresh(2) [OF _ small] by (auto simp: less_Suc_eq)
  moreover have "\<forall>v. (\<forall>k < Suc n. v \<noteq> vp virt k) \<longrightarrow> vmap s' v = vmap s v"
    using s'(7) s1(8) by (auto simp: less_Suc_eq)
  moreover have "\<forall>k < Suc n. \<not> used_no (bitmap s) (?fr k) \<and> data_frame s' (?fr k)"
    using s1(5,9) s'(3,5,6) by (auto simp: less_Suc_eq keeps_def)
  moreover have "inj_on ?fr {..<Suc n}"
    using s1(6) new unfolding inj_on_def by (auto simp: less_Suc_eq)
  moreover have "keeps s s'" using keeps_trans [OF s1(3) s'(3)] .
  moreover have "free_count s \<le> free_count s' + 4 * Suc n" using s1(4) s'(4) by simp
  moreover have "\<forall>m. used_no (bitmap s) m \<longrightarrow> used_no (bitmap s') m" using s1(9) s'(8) by blast
  ultimately show ?case using s'(2) by blast
qed

section \<open>Unmapping\<close>

definition unmark :: "nat \<Rightarrow> (nat \<Rightarrow> byte) \<Rightarrow> nat \<Rightarrow> byte" where
  "unmark n bm = bm(n div 8 := bm (n div 8) AND NOT (push_bit (n mod 8) 1))"

lemma bit_clear_one: "j < 8 \<Longrightarrow> bit ((b :: byte) AND NOT (push_bit k 1)) j \<longleftrightarrow> bit b j \<and> j \<noteq> k"
  by (auto simp: bit_simps)

lemma used_no_unmark: "used_no (unmark n bm) m \<longleftrightarrow> used_no bm m \<and> m \<noteq> n"
proof (cases "n div 8 = m div 8")
  case True
  then have "n mod 8 = m mod 8 \<longleftrightarrow> n = m" by (metis div_mult_mod_eq)
  with True show ?thesis
    by (simp add: used_no_def unmark_def bit_clear_one del: push_bit_of_1) auto
next
  case False
  then show ?thesis by (auto simp: used_no_def unmark_def)
qed

lemma clear_bitmap:
  assumes "m < 32768"
  shows "page_clear_bitmap (frame_of m) s = Some (s\<lparr>bitmap := unmark m (bitmap s)\<rparr>)"
proof -
  have "unat (drop_bit 12 (frame_of m)) = m"
    using assms by (simp add: drop_bit_eq_div unat_div unat_frame_of)
  then have "unat (ucast (drop_bit 12 (frame_of m) div 8) :: dword) = m div 8"
    and "unat (drop_bit 12 (frame_of m) mod 8) = m mod 8"
    using assms by (simp_all add: unat_div unat_mod unsigned_ucast_eq take_bit_nat_eq_self)
  then show ?thesis
    using assms by (simp add: page_clear_bitmap_def Let_def unmark_def)
qed

lemma mapframe_twice: "page_mapframe g (page_mapframe f s) = page_mapframe g s"
  by (simp add: page_mapframe_def poke_def)

lemma walk_window:
  assumes inv: "page_inv s" and p: "length p \<le> 2" "tab s p = Some f"
  shows "win_get i (page_mapframe f s) = Some (pmem s f i)"
proof -
  obtain k where k: "k < 32768" "f = frame_of k"
    using page_inv_tabD [OF inv _ p(2)] p(1) by (metis le_SucI numeral_3_eq_3 numeral_2_eq_2)
  have "f \<noteq> frame_pt s" using interior_not_window [OF inv p(2,1)] .
  then have "pmem (page_mapframe f s) f i = pmem s f i" by (simp add: page_mapframe_def)
  then show ?thesis
    using window_mapframe [OF inv k(1)] by (simp add: win_get_def k(2))
qed

lemma tab_path:
  "tab s [a] = child (pmem s) (pmlt4 s) a"
  "tab s [a, b] = do { f \<leftarrow> tab s [a]; child (pmem s) f b }"
  "tab s [a, b, c] = do { f \<leftarrow> tab s [a, b]; child (pmem s) f c }"
  using tab_snoc [of s "[]" a] tab_snoc [of s "[a]" b] tab_snoc [of s "[a, b]" c] by simp_all

text \<open>Where a table on the way is missing, only the window moves.\<close>

lemma umapv_page_missing:
  assumes inv: "page_inv s" and none: "tab s [PMLT4_INDEX virt, PDPT_INDEX virt, PDT_INDEX virt] = None"
  shows "page_umapv_page virt s = Some s \<or> (\<exists>f. page_umapv_page virt s = Some (page_mapframe f s))"
proof -
  let ?a = "PMLT4_INDEX virt" and ?b = "PDPT_INDEX virt" and ?c = "PDT_INDEX virt"
  consider "tab s [?a] = None"
    | f1 where "tab s [?a] = Some f1" "tab s [?a, ?b] = None"
    | f1 f2 where "tab s [?a] = Some f1" "tab s [?a, ?b] = Some f2"
    by fastforce
  then show ?thesis
  proof cases
    case 1
    then show ?thesis by (auto simp: page_umapv_page_def tab_path child_def split: if_splits)
  next
    case 2
    then have "win_get ?b (page_mapframe f1 s) = Some (pmem s f1 ?b)" "pmem s f1 ?b AND 1 = 0"
      using walk_window [OF inv, of "[?a]"] by (auto simp: tab_path child_def split: if_splits)
    then show ?thesis
      using 2 by (auto simp: page_umapv_page_def tab_path child_def Let_def split: if_splits)
  next
    case 3
    then have "win_get ?b (page_mapframe f1 s) = Some (pmem s f1 ?b)"
      "win_get ?c (page_mapframe f2 s) = Some (pmem s f2 ?c)" "pmem s f2 ?c AND 1 = 0"
      using walk_window [OF inv, of "[?a]"] walk_window [OF inv, of "[?a, ?b]"] none
      by (auto simp: tab_path(3) child_def split: if_splits)
    then show ?thesis
      using 3 by (auto simp: page_umapv_page_def tab_path child_def Let_def mapframe_twice split: if_splits)
  qed
qed

lemma umapv_page_leaf:
  assumes inv: "page_inv s" and nw: "vpage virt \<noteq> window_page"
    and pt: "tab s [PMLT4_INDEX virt, PDPT_INDEX virt, PDT_INDEX virt] = Some pt"
  shows "page_umapv_page virt s =
    do { s' \<leftarrow> page_clear_bitmap (vmap s (vpage virt) AND NOT 0x1FF)
                (poke pt (PT_INDEX virt) 0 (page_mapframe pt s));
         Some (page_umapframe s') }"
proof -
  let ?a = "PMLT4_INDEX virt" and ?b = "PDPT_INDEX virt" and ?c = "PDT_INDEX virt" and ?d = "PT_INDEX virt"
  obtain f1 f2 where f: "tab s [?a] = Some f1" "tab s [?a, ?b] = Some f2"
    using pt by (auto simp: tab_path(2,3) bind_eq_Some_conv)
  have e: "pmem s (pmlt4 s) ?a AND 1 \<noteq> 0" "pmem s (pmlt4 s) ?a AND NOT 0x1FF = f1"
    "pmem s f1 ?b AND 1 \<noteq> 0" "pmem s f1 ?b AND NOT 0x1FF = f2"
    "pmem s f2 ?c AND 1 \<noteq> 0" "pmem s f2 ?c AND NOT 0x1FF = pt"
    using f pt by (auto simp: tab_path child_def split: if_splits)
  have g: "win_get ?b (page_mapframe f1 s) = Some (pmem s f1 ?b)"
    "win_get ?c (page_mapframe f2 s) = Some (pmem s f2 ?c)"
    using walk_window [OF inv _ f(1)] walk_window [OF inv _ f(2)] by simp_all
  have nw': "(?a, ?b, ?c, ?d) \<noteq> window_page" using nw by (simp add: vpage_def)
  note w = leaf_window [OF inv pt nw']
  show ?thesis
    unfolding page_umapv_page_def Let_def e(2)
    by (simp add: e(1,3,5) g w(1,2) e(4,6) [simplified] mapframe_twice win_set_def vpage_def)
qed

lemma unmark_inv:
  assumes inv: "page_inv s" and m: "7 \<le> m" "\<forall>p. length p \<le> 3 \<longrightarrow> tab s p \<noteq> Some (frame_of m)"
  shows "page_inv (s\<lparr>bitmap := unmark m (bitmap s)\<rparr>)"
proof -
  have "\<exists>n < 32768. f = frame_of n \<and> (used_no (bitmap s) n \<and> n \<noteq> m) \<and> f \<noteq> bitmap_addr s"
    if "length p \<le> 3" "tab s p = Some f" for p f
    using page_inv_tabD [OF inv that] m(2) that by metis
  then show ?thesis
    using inv m(1) unfolding page_inv_def tab_def by (simp add: used_no_unmark)
qed

lemma mapped_tab:
  assumes "vmap s (vpage virt) \<noteq> 0"
  obtains pt where "tab s [PMLT4_INDEX virt, PDPT_INDEX virt, PDT_INDEX virt] = Some pt"
  using assms by (auto simp: vmap_def vpage_def pte_def split: if_splits option.splits)

lemma window_bitmap [simp]:
  "bitmap (page_mapframe f s) = bitmap s" "bitmap (page_umapframe s) = bitmap s"
  by (simp_all add: page_mapframe_def page_umapframe_def)

lemma tab_bitmap [simp]: "tab (s\<lparr>bitmap := b\<rparr>) = tab s"
  by (simp add: tab_def fun_eq_iff)

lemma vmap_bitmap [simp]: "vmap (s\<lparr>bitmap := b\<rparr>) = vmap s"
  by (auto simp: vmap_def pte_def fun_eq_iff split: option.split)

lemma umapframe_bitmap: "page_umapframe (s\<lparr>bitmap := b\<rparr>) = (page_umapframe s)\<lparr>bitmap := b\<rparr>"
  by (simp add: page_umapframe_def poke_def)

lemma umapv_page_ok:
  assumes inv: "page_inv s" and nw: "vpage virt \<noteq> window_page"
    and e: "vmap s (vpage virt) AND NOT 0x1FF = frame_of m" and m: "7 \<le> m" "data_frame s m"
  shows "\<exists>s'. page_umapv_page virt s = Some s' \<and> page_inv s'
    \<and> vmap s' = (vmap s)(vpage virt := 0) \<and> bitmap s' = unmark m (bitmap s)
    \<and> (\<forall>p. length p \<le> 3 \<longrightarrow> tab s' p = tab s p)"
proof -
  let ?a = "PMLT4_INDEX virt" and ?b = "PDPT_INDEX virt" and ?c = "PDT_INDEX virt" and ?d = "PT_INDEX virt"
  have m': "m < 32768" using m(2) by (simp add: data_frame_def)
  have "frame_of m \<noteq> frame_of 0" using m(1) m' by (simp only: frame_of_inject)
  then have "vmap s (vpage virt) \<noteq> 0" using e by (auto simp: frame_of_def)
  then obtain pt where pt: "tab s [?a, ?b, ?c] = Some pt" by (rule mapped_tab)
  have nw': "(?a, ?b, ?c, ?d) \<noteq> window_page" using nw by (simp add: vpage_def)
  let ?s4 = "poke pt ?d 0 (page_mapframe pt s)"
  have s4: "page_inv (page_umapframe ?s4)" "vmap (page_umapframe ?s4) = (vmap s)(vpage virt := 0)"
    "\<forall>p. length p \<le> 3 \<longrightarrow> tab (page_umapframe ?s4) p = tab s p"
    using leaf_write [OF inv pt nw', of 0] by (auto simp: vpage_def)
  let ?s' = "(page_umapframe ?s4)\<lparr>bitmap := unmark m (bitmap s)\<rparr>"
  have "page_umapv_page virt s = Some ?s'"
    using clear_bitmap [OF m', of ?s4]
    by (simp add: umapv_page_leaf [OF inv nw pt] e [simplified] umapframe_bitmap)
  moreover have "page_inv ?s'"
    using unmark_inv [OF s4(1) m(1)] s4(3) m(2) by (simp add: data_frame_def)
  moreover have "vmap ?s' = vmap (page_umapframe ?s4)" "tab ?s' = tab (page_umapframe ?s4)"
    by simp_all
  ultimately show ?thesis using s4(2,3) by auto
qed

lemma umapv_loop:
  assumes inv: "page_inv s"
  shows "n \<le> 0x80000 \<Longrightarrow> \<forall>k < n. vp virt k \<noteq> window_page \<Longrightarrow> inj_on fr {..<n} \<Longrightarrow>
    \<forall>k < n. vmap s (vp virt k) AND NOT 0x1FF = frame_of (fr k) \<and> 7 \<le> fr k \<and> data_frame s (fr k) \<Longrightarrow>
    \<exists>s'. page_loop (\<lambda>off. page_umapv_page (virt + off)) n s = Some s' \<and> page_inv s'
    \<and> (\<forall>v. vmap s' v = (if \<exists>k < n. v = vp virt k then 0 else vmap s v))
    \<and> (\<forall>m. used_no (bitmap s') m \<longleftrightarrow> used_no (bitmap s) m \<and> (\<forall>k < n. m \<noteq> fr k))
    \<and> (\<forall>p. length p \<le> 3 \<longrightarrow> tab s' p = tab s p)"
proof (induction n)
  case 0
  then show ?case using inv by simp
next
  case (Suc n)
  then obtain s1 where s1: "page_loop (\<lambda>off. page_umapv_page (virt + off)) n s = Some s1" "page_inv s1"
    "\<forall>v. vmap s1 v = (if \<exists>k < n. v = vp virt k then 0 else vmap s v)"
    "\<forall>m. used_no (bitmap s1) m \<longleftrightarrow> used_no (bitmap s) m \<and> (\<forall>k < n. m \<noteq> fr k)"
    "\<forall>p. length p \<le> 3 \<longrightarrow> tab s1 p = tab s p"
    by (auto simp: inj_on_def)
  have small: "n < 0x80000" using Suc.prems by simp
  have old: "vmap s1 (vp virt n) = vmap s (vp virt n)" using s1(3) [rule_format, of "vp virt n"] vp_fresh(1) [OF _ small] by auto
  have new: "\<forall>k < n. fr n \<noteq> fr k" using inj_onD [OF Suc.prems(3), of n] by fastforce
  have d: "data_frame s1 (fr n)"
    using Suc.prems(4) new s1(4,5) by (simp add: data_frame_def)
  obtain s' where s': "page_umapv_page (virt + of_nat n * PAGE_SIZE) s1 = Some s'" "page_inv s'"
    "vmap s' = (vmap s1)(vp virt n := 0)" "bitmap s' = unmark (fr n) (bitmap s1)"
    "\<forall>p. length p \<le> 3 \<longrightarrow> tab s' p = tab s1 p"
    using umapv_page_ok [OF s1(2) _ _ _ d, of "virt + of_nat n * PAGE_SIZE"] Suc.prems(2,4) old
    unfolding vp_def by auto
  have "page_loop (\<lambda>off. page_umapv_page (virt + off)) (Suc n) s = Some s'"
    using s1(1) s'(1) small by simp
  moreover have "\<forall>v. vmap s' v = (if \<exists>k < Suc n. v = vp virt k then 0 else vmap s v)"
    using s'(3) s1(3) by (auto simp: less_Suc_eq)
  moreover have "\<forall>m. used_no (bitmap s') m \<longleftrightarrow> used_no (bitmap s) m \<and> (\<forall>k < Suc n. m \<noteq> fr k)"
    using s'(4) s1(4) by (auto simp: less_Suc_eq used_no_unmark)
  ultimately show ?case using s'(2,5) s1(5) by auto
qed

end
