(* ===== verification/Page_Props.thy ===== *)
theory Page_Props
  imports Page_Range
begin

text \<open>
  The properties of \<open>kernel/page.c\<close>, and the tables the loader leaves (\<open>boot_tables\<close>),
  on which the witnesses run: one table per level, the window's table and the table of the
  kernel's half, with the first two mebibytes mapped to themselves and frames 0 to 7 marked.
\<close>

section \<open>The loader's tables\<close>

definition boot_mem :: "qword \<Rightarrow> pt_index \<Rightarrow> qword" where
  "boot_mem f i =
     (if f = 0x1000 then (if i = 0 then 0x2003 else if i = 511 then 0x7003 else 0)
      else if f = 0x2000 then (if i = 0 then 0x3003 else 0)
      else if f = 0x3000 then (if i = 0 then 0x4003 else if i = 511 then 0x5003 else 0)
      else if f = 0x4000 then push_bit 12 (ucast i) OR 3
      else 0)"

definition boot_tables :: pstate where
  "boot_tables = \<lparr>pmem = boot_mem, bitmap = (\<lambda>i. if i = 0 then 0xFF else 0),
     pmlt4 = PMLT4_ADDRESS, frame_pt = FRAME_PT_ADDRESS, bitmap_addr = PAGE_BITMAP_ADDRESS, ram_end = 0x8000000\<rparr>"

lemma boot_used: "used_no (bitmap boot_tables) n \<longleftrightarrow> n < 8"
proof (cases "n < 8")
  case True
  then have "n = 0 \<or> n = 1 \<or> n = 2 \<or> n = 3 \<or> n = 4 \<or> n = 5 \<or> n = 6 \<or> n = 7" by arith
  then show ?thesis by (auto simp: used_no_def boot_tables_def bit_iff_odd_drop_bit)
next
  case False
  then show ?thesis by (simp add: used_no_def boot_tables_def)
qed

lemma boot_free: "free_count boot_tables = 32760"
proof -
  have "{n. n < 32768 \<and> \<not> used_no (bitmap boot_tables) n} = {8..<32768}"
    by (auto simp: boot_used)
  then show ?thesis by (simp add: free_count_def)
qed

lemma boot_child:
  "child boot_mem 0x1000 i = (if i = 0 then Some 0x2000 else if i = 511 then Some 0x7000 else None)"
  "child boot_mem 0x2000 i = (if i = 0 then Some 0x3000 else None)"
  "child boot_mem 0x7000 i = None"
  "child boot_mem 0x3000 i = (if i = 0 then Some 0x4000 else if i = 511 then Some 0x5000 else None)"
  by (simp_all add: child_def boot_mem_def)

lemma boot_tab:
  "tab boot_tables [] = Some 0x1000"
  "tab boot_tables [a] = (if a = 0 then Some 0x2000 else if a = 511 then Some 0x7000 else None)"
  "tab boot_tables [a, b] = (if a = 0 \<and> b = 0 then Some 0x3000 else None)"
  "tab boot_tables [a, b, c] = (if a = 0 \<and> b = 0 \<and> c = 0 then Some 0x4000
     else if a = 0 \<and> b = 0 \<and> c = 511 then Some 0x5000 else None)"
  by (simp_all add: tab_def boot_tables_def boot_child)

lemma boot_root: "pmlt4 boot_tables = 0x1000"
  by (simp add: boot_tables_def)

lemma path_cases:
  assumes "length (p :: 'a list) \<le> 3"
  obtains "p = []" | a where "p = [a]" | a b where "p = [a, b]" | a b c where "p = [a, b, c]"
proof (cases p)
  case (Cons a q)
  show ?thesis
  proof (cases q)
    case (Cons b r)
    then show ?thesis using \<open>p = a # q\<close> assms that by (cases r) auto
  qed (use \<open>p = a # q\<close> that in auto)
qed (use that in auto)

lemma boot_tabD:
  assumes "length p \<le> 3" and "tab boot_tables p = Some f"
  shows "(p, f) \<in> {([], 0x1000), ([0], 0x2000), ([0, 0], 0x3000), ([0, 0, 0], 0x4000), ([0, 0, 511], 0x5000),
     ([511], 0x7000)}"
  using assms by (cases rule: path_cases [OF assms(1)]) (auto simp: boot_tab boot_root split: if_splits)

lemma boot_inv: "page_inv boot_tables"
  unfolding page_inv_def
proof (intro conjI allI impI)
  show "0x8000000 \<le> ram_end boot_tables" by (simp add: boot_tables_def)
  show "tab boot_tables [0, 0, 511] = Some (frame_pt boot_tables)" by (simp add: boot_tab) (simp add: boot_tables_def)
  show "\<exists>b < 7. bitmap_addr boot_tables = frame_of b"
    by (rule exI [of _ 6]) (simp add: boot_tables_def frame_of_def)
  show "used_no (bitmap boot_tables) n" if "n < 7" for n using that by (simp add: boot_used)
  show "\<exists>n < 32768. f = frame_of n \<and> used_no (bitmap boot_tables) n \<and> f \<noteq> bitmap_addr boot_tables"
    if "length p \<le> 3" "tab boot_tables p = Some f" for p f
  proof -
    have "f \<in> {frame_of 1, frame_of 2, frame_of 3, frame_of 4, frame_of 5, frame_of 7}"
      using boot_tabD [OF that] by (auto simp: frame_of_def)
    moreover have "bitmap_addr boot_tables = frame_of 6" by (simp add: boot_tables_def frame_of_def)
    ultimately show ?thesis
      by (elim insertE emptyE; intro exI conjI; assumption?) (auto simp: boot_used)
  qed
  show "p = q" if "length p \<le> 3" "length q \<le> 3" "tab boot_tables p = Some f" "tab boot_tables q = Some f" for p q f
    using boot_tabD [OF that(1,3)] boot_tabD [OF that(2,4)] by auto
qed

lemma boot_vmap:
  "vmap boot_tables (a, b, c, d) = (if a = 0 \<and> b = 0 \<and> c = 0 then push_bit 12 (ucast d) OR 3 else 0)"
  by (auto simp: vmap_def pte_def boot_tab window_page_def) (simp_all add: boot_tables_def boot_mem_def)

lemma free_count_le: "free_count s \<le> 32768"
proof -
  have "free_count s \<le> card {..<32768 :: nat}"
    unfolding free_count_def by (intro card_mono) auto
  then show ?thesis by simp
qed

section \<open>The frame allocator\<close>

text \<open>
  with a free frame left, \<open>page_getframe\<close> returns the address of the lowest free
  frame, marks exactly that frame, fills it with zeros, and changes no other memory but
  the window entry; every mapping stays.
\<close>

theorem page_getframe_correct:
  assumes "page_inv s" and "0 < free_count s"
  shows "\<exists>n s'. page_getframe s = Some (frame_of n, s') \<and> page_inv s'
    \<and> n < 32768 \<and> \<not> used_no (bitmap s) n \<and> (\<forall>m < n. used_no (bitmap s) m)
    \<and> (\<forall>m. used_no (bitmap s') m \<longleftrightarrow> m = n \<or> used_no (bitmap s) m)
    \<and> (\<forall>i. pmem s' (frame_of n) i = 0)
    \<and> (\<forall>f i. f \<noteq> frame_of n \<and> (f, i) \<noteq> (frame_pt s, 0) \<longrightarrow> pmem s' f i = pmem s f i)
    \<and> vmap s' = vmap s"
proof -
  obtain n s' where get: "page_getframe s = Some (frame_of n, s')" and fr: "fresh s n s'"
    using getframe_ok [OF assms] by blast
  then show ?thesis
    using freshD [OF fr] fr by (auto simp: fresh_def ext_def used_no_mark)
qed

theorem page_getframe_correct_witness:
  "\<exists>n s'. page_getframe boot_tables = Some (frame_of n, s') \<and> page_inv s'
    \<and> \<not> used_no (bitmap boot_tables) n \<and> used_no (bitmap s') n"
  using page_getframe_correct [OF boot_inv] by (auto simp: boot_free)

text \<open>
  with every frame in use \<open>page_getframe\<close> returns \<open>-1\<close> and changes nothing; the
  mapping functions use that value as an address.
\<close>

theorem page_getframe_exhausted:
  assumes "\<forall>n < 32768. used_no (bitmap s) n"
  shows "page_getframe s = Some (0xFFFFFFFFFFFFFFFF, s)"
proof -
  have "getframe_scan (bitmap s) 0 = None"
  proof (cases "getframe_scan (bitmap s) 0")
    case (Some ij)
    then show ?thesis using scan_SomeD [of "bitmap s" 0 "fst ij" "snd ij"] assms by auto
  qed
  then show ?thesis by (simp add: page_getframe_def)
qed

theorem page_getframe_exhausted_witness:
  "page_getframe (boot_tables\<lparr>bitmap := \<lambda>_. 0xFF\<rparr>)
     = Some (0xFFFFFFFFFFFFFFFF, boot_tables\<lparr>bitmap := \<lambda>_. 0xFF\<rparr>)"
proof (rule page_getframe_exhausted)
  have "(0xFF :: byte) = - 1" by simp
  then have "bit (0xFF :: byte) (n mod 8)" for n by (simp only: bit_minus_1_iff) simp
  then show "\<forall>n < 32768. used_no (bitmap (boot_tables\<lparr>bitmap := \<lambda>_. 0xFF\<rparr>)) n"
    by (simp add: used_no_def)
qed

section \<open>Mapping ranges\<close>

text \<open>
  C9: \<open>page_mapvp\<close> over a range: with three free frames per page for tables it succeeds,
  keeps the invariant, gives every unmapped page of the range the entry of its physical
  page and the flags, leaves pages already mapped and pages outside the range as they
  were, and does not touch the contents of allocated data frames.
\<close>

theorem page_mapvp_correct:
  assumes "page_inv s" and "ok_flags flags" and "3 * page_count len \<le> free_count s"
    and "\<forall>k < page_count len. vp virt k \<noteq> window_page"
  shows "\<exists>s'. page_mapvp virt phys len flags s = Some s' \<and> page_inv s' \<and> keeps s s'
    \<and> (\<forall>k < page_count len. vmap s' (vp virt k) =
          (if vmap s (vp virt k) = 0 then (phys + of_nat k * PAGE_SIZE) OR ucast flags
           else vmap s (vp virt k)))
    \<and> (\<forall>v. (\<forall>k < page_count len. v \<noteq> vp virt k) \<longrightarrow> vmap s' v = vmap s v)"
proof -
  have "page_count len \<le> 0x80000" using assms(3) free_count_le [of s] by simp
  then show ?thesis
    using mapvp_loop [OF assms(1,2,3) _ assms(4)] unfolding page_mapvp_def by blast
qed

theorem page_mapvp_correct_witness:
  "\<exists>s'. page_mapvp 0x200000 0xE0000000 0x2000 3 boot_tables = Some s'
    \<and> vmap s' (0, 0, 1, 0) = 0xE0000003 \<and> vmap s' (0, 0, 1, 1) = 0xE0001003
    \<and> vmap s' (0, 0, 0, 1) = 0x1003"
proof -
  have n: "page_count 0x2000 = 2" by (simp add: page_count_def)
  have v: "vp 0x200000 0 = (0, 0, 1, 0)" "vp 0x200000 (Suc 0) = (0, 0, 1, 1)"
    by (simp_all add: vp_def vpage_def PMLT4_INDEX_def PDPT_INDEX_def PDT_INDEX_def PT_INDEX_def)
  have fl: "ok_flags 3" by (simp add: ok_flags_def)
  obtain s' where s': "page_mapvp 0x200000 0xE0000000 0x2000 3 boot_tables = Some s'"
    "\<forall>k < 2. vmap s' (vp 0x200000 k) = (if vmap boot_tables (vp 0x200000 k) = 0
       then (0xE0000000 + of_nat k * PAGE_SIZE) OR ucast (3 :: word16) else vmap boot_tables (vp 0x200000 k))"
    "\<forall>w. (\<forall>k < 2. w \<noteq> vp 0x200000 k) \<longrightarrow> vmap s' w = vmap boot_tables w"
    using page_mapvp_correct [OF boot_inv fl, of "0x2000" "0x200000" "0xE0000000"]
    by (auto simp: n v boot_free window_page_def less_2_cases_iff)
  have "vmap s' (0, 0, 1, 0) = 0xE0000003" "vmap s' (0, 0, 1, 1) = 0xE0001003"
    using s'(2) [rule_format, of 0] s'(2) [rule_format, of 1] by (simp_all add: v boot_vmap)
  moreover have "vmap s' (0, 0, 0, 1) = 0x1003"
    using s'(3) [THEN spec, of "(0, 0, 0, 1)"] by (auto simp: v boot_vmap less_2_cases_iff)
  ultimately show ?thesis using s'(1) by blast
qed

text \<open>
  C12: \<open>page_mapv\<close> over a range of pages that are all unmapped, followed by \<open>page_umapv\<close> of
  the same range: between the two calls every page has a data frame of its own that was
  free; afterwards the abstract map is the one before, and those frames are free again.
\<close>

theorem page_mapv_umapv_roundtrip:
  assumes "page_inv s" and "ok_flags flags" and "4 * page_count len \<le> free_count s"
    and "\<forall>k < page_count len. vp virt k \<noteq> window_page \<and> vmap s (vp virt k) = 0"
  shows "\<exists>fr s1 s2. page_mapv virt len flags s = Some s1 \<and> page_umapv virt len s1 = Some s2
    \<and> page_inv s1 \<and> page_inv s2 \<and> inj_on fr {..<page_count len}
    \<and> (\<forall>k < page_count len. \<not> used_no (bitmap s) (fr k) \<and> data_frame s1 (fr k)
          \<and> vmap s1 (vp virt k) = frame_of (fr k) OR ucast flags \<and> \<not> used_no (bitmap s2) (fr k))
    \<and> (\<forall>v. (\<forall>k < page_count len. v \<noteq> vp virt k) \<longrightarrow> vmap s1 v = vmap s v)
    \<and> vmap s2 = vmap s"
proof -
  let ?n = "page_count len"
  have n: "?n \<le> 0x80000" using assms(3) free_count_le [of s] by simp
  have nw: "\<forall>k < ?n. vp virt k \<noteq> window_page" using assms(4) by blast
  obtain fr s1 where s1: "page_mapv virt len flags s = Some s1" "page_inv s1"
    "\<forall>k < ?n. \<not> used_no (bitmap s) (fr k) \<and> data_frame s1 (fr k)" "inj_on fr {..<?n}"
    "\<forall>k < ?n. vmap s1 (vp virt k) =
       (if vmap s (vp virt k) = 0 then frame_of (fr k) OR ucast flags else vmap s (vp virt k))"
    "\<forall>v. (\<forall>k < ?n. v \<noteq> vp virt k) \<longrightarrow> vmap s1 v = vmap s v"
    using mapv_loop [OF assms(1,2,3) n nw] unfolding page_mapv_def by blast
  have e: "\<forall>k < ?n. vmap s1 (vp virt k) = frame_of (fr k) OR ucast flags" using s1(5) assms(4) by simp
  have "7 \<le> fr k" if "k < ?n" for k
    using s1(3) page_inv_reserved [OF assms(1)] that by (meson not_le)
  then have "\<forall>k < ?n. vmap s1 (vp virt k) AND NOT 0x1FF = frame_of (fr k) \<and> 7 \<le> fr k \<and> data_frame s1 (fr k)"
    using e s1(3) frame_entry_base [OF _ assms(2)] by (simp add: data_frame_def)
  from umapv_loop [OF s1(2) n nw s1(4) this]
  obtain s2 where s2: "page_umapv virt len s1 = Some s2" "page_inv s2"
    "\<forall>v. vmap s2 v = (if \<exists>k < ?n. v = vp virt k then 0 else vmap s1 v)"
    "\<forall>m. used_no (bitmap s2) m \<longleftrightarrow> used_no (bitmap s1) m \<and> (\<forall>k < ?n. m \<noteq> fr k)"
    unfolding page_umapv_def by blast
  have "vmap s2 = vmap s"
  proof
    fix v show "vmap s2 v = vmap s v"
      using s2(3) [THEN spec, of v] s1(6) [THEN spec, of v] assms(4) by auto
  qed
  then show ?thesis using s1(1-4,6) s2(1,2,4) e by blast
qed

theorem page_mapv_umapv_roundtrip_witness:
  "\<exists>s1 s2. page_mapv 0x200000 0x1800 3 boot_tables = Some s1
     \<and> page_umapv 0x200000 0x1800 s1 = Some s2 \<and> vmap s1 (0, 0, 1, 1) \<noteq> 0 \<and> vmap s2 = vmap boot_tables"
proof -
  have n: "page_count 0x1800 = 2" by (simp add: page_count_def)
  have v: "vp 0x200000 0 = (0, 0, 1, 0)" "vp 0x200000 (Suc 0) = (0, 0, 1, 1)"
    by (simp_all add: vp_def vpage_def PMLT4_INDEX_def PDPT_INDEX_def PDT_INDEX_def PT_INDEX_def)
  have fl: "ok_flags 3" by (simp add: ok_flags_def)
  have r: "\<forall>k < 2. vp 0x200000 k \<noteq> window_page \<and> vmap boot_tables (vp 0x200000 k) = 0"
    by (auto simp: v boot_vmap window_page_def less_2_cases_iff)
  obtain fr s1 s2 where s: "page_mapv 0x200000 0x1800 3 boot_tables = Some s1"
    "page_umapv 0x200000 0x1800 s1 = Some s2" "vmap s2 = vmap boot_tables"
    "\<forall>k < 2. vmap s1 (vp 0x200000 k) = frame_of (fr k) OR ucast (3 :: word16)"
    using page_mapv_umapv_roundtrip [OF boot_inv fl, of "0x1800" "0x200000", unfolded n, OF _ r]
    by (auto simp: boot_free)
  have "vmap s1 (0, 0, 1, 1) \<noteq> 0"
    using s(4) [rule_format, of 1] by (simp add: v word_or_zero_iff)
  then show ?thesis using s(1-3) by blast
qed

text \<open>
  \<open>page_mapv\<close> takes a frame before it looks at the entry: on a page that is mapped
  already the map stays as it is and one more frame is marked that no page and no table
  refers to; it is lost.
\<close>

theorem page_mapv_page_leak:
  assumes "page_inv s" and "ok_flags flags" and "4 \<le> free_count s"
    and "vpage virt \<noteq> window_page" and "vmap s (vpage virt) \<noteq> 0"
  shows "\<exists>n s'. page_mapv_page virt flags s = Some s' \<and> page_inv s' \<and> vmap s' = vmap s
    \<and> \<not> used_no (bitmap s) n \<and> data_frame s' n"
  using mapv_page_ok [OF assms(1-4)] assms(5) unfolding data_frame_def by auto

theorem page_mapv_page_leak_witness:
  "\<exists>n s'. page_mapv_page 0x1000 3 boot_tables = Some s' \<and> vmap s' = vmap boot_tables
     \<and> \<not> used_no (bitmap boot_tables) n \<and> used_no (bitmap s') n"
proof -
  have v: "vpage 0x1000 = (0, 0, 0, 1)"
    by (simp add: vpage_def PMLT4_INDEX_def PDPT_INDEX_def PDT_INDEX_def PT_INDEX_def)
  have fl: "ok_flags 3" by (simp add: ok_flags_def)
  show ?thesis
    using page_mapv_page_leak [OF boot_inv fl, of "0x1000"]
    by (auto simp: boot_free v boot_vmap window_page_def word_or_zero_iff data_frame_def)
qed

section \<open>Unmapping\<close>

text \<open>
  \<open>page_umapv\<close> of a page without an entry, in a region that has a page table, clears
  the mark of frame 0; the next \<open>page_getframe\<close> then hands out address 0 and overwrites
  frame 0 with zeros.
\<close>

theorem page_umapv_frees_frame_zero:
  assumes "page_inv s" and "vpage virt \<noteq> window_page" and "vmap s (vpage virt) = 0"
    and "tab s [PMLT4_INDEX virt, PDPT_INDEX virt, PDT_INDEX virt] \<noteq> None"
  shows "\<exists>s1 s2. page_umapv_page virt s = Some s1 \<and> \<not> used_no (bitmap s1) 0
    \<and> page_getframe s1 = Some (0, s2) \<and> (\<forall>i. pmem s2 0 i = 0)"
proof -
  obtain pt where pt: "tab s [PMLT4_INDEX virt, PDPT_INDEX virt, PDT_INDEX virt] = Some pt"
    using assms(4) by auto
  let ?s4 = "poke pt (PT_INDEX virt) 0 (page_mapframe pt s)"
  let ?s1 = "page_umapframe (?s4\<lparr>bitmap := unmark 0 (bitmap s)\<rparr>)"
  have zero: "frame_of 0 = 0" by (simp add: frame_of_def)
  have one: "page_umapv_page virt s = Some ?s1"
    using clear_bitmap [of 0 ?s4]
    by (simp add: umapv_page_leaf [OF assms(1,2) pt] assms(3) zero)
  have free: "\<not> used_no (bitmap ?s1) 0" by (simp add: used_no_unmark)
  obtain i j n where scan: "getframe_scan (bitmap ?s1) 0 = Some (i, j)" and n: "n = j + i * 8"
    "\<forall>m < n. used_no (bitmap ?s1) m"
    by (rule scan_least [of "bitmap ?s1"]) (use free in force)
  then have "n = 0" using free by (meson gr0I)
  then have ij: "i = 0" "j = 0" using n(1) by auto
  have r: "ram_end ?s1 = ram_end s" by (simp add: page_umapframe_def page_mapframe_def)
  have "0 < ram_end s" using page_inv_ram [OF assms(1)] by (rule less_le_trans [rotated]) simp
  then have w: "window (page_mapframe 0 (?s1\<lparr>bitmap := b\<rparr>)) = Some 0" for b
    using r frame_entry_window [of 0] zero
    by (simp add: window_def page_mapframe_def Let_def poke_def)
  have "page_getframe ?s1 = Some (0, page_umapframe (zero_frame 0 (page_mapframe 0
      (?s1\<lparr>bitmap := (bitmap ?s1)(0 := bitmap ?s1 0 OR push_bit 0 1)\<rparr>))))"
    using scan ij w by (simp add: page_getframe_def win_zero_def)
  then show ?thesis using one free by (auto simp: page_umapframe_def)
qed

theorem page_umapv_frees_frame_zero_witness:
  "\<exists>s0 s1 s2. page_mapvp_page 0x200000 0xE0000000 3 boot_tables = Some s0
     \<and> page_umapv_page 0x201000 s0 = Some s1 \<and> page_getframe s1 = Some (0, s2)"
proof -
  have v: "vpage 0x200000 = (0, 0, 1, 0)" "vpage 0x201000 = (0, 0, 1, 1)"
    and i: "[PMLT4_INDEX 0x201000, PDPT_INDEX 0x201000, PDT_INDEX 0x201000]
      = [PMLT4_INDEX 0x200000, PDPT_INDEX 0x200000, PDT_INDEX 0x200000]"
    by (simp_all add: vpage_def PMLT4_INDEX_def PDPT_INDEX_def PDT_INDEX_def PT_INDEX_def)
  have fl: "ok_flags 3" by (simp add: ok_flags_def)
  obtain s0 where s0: "page_mapvp_page 0x200000 0xE0000000 3 boot_tables = Some s0" "page_inv s0"
    "vmap s0 = (vmap boot_tables)((0, 0, 1, 0) := 0xE0000003)"
    using mapvp_page_ok [OF boot_inv fl, of "0x200000" "0xE0000000"]
    by (auto simp: boot_free v boot_vmap window_page_def)
  have "vmap s0 (vpage 0x200000) \<noteq> 0" by (simp add: s0(3) v)
  then have "tab s0 [PMLT4_INDEX 0x201000, PDPT_INDEX 0x201000, PDT_INDEX 0x201000] \<noteq> None"
    unfolding i by (rule mapped_tab) simp
  then show ?thesis
    using page_umapv_frees_frame_zero [OF s0(2), of "0x201000"] s0(1)
    by (auto simp: v window_page_def s0(3) boot_vmap)
qed

section \<open>Identity-mapped pages and new address spaces\<close>

text \<open>
  C21: \<open>page_alloc4K\<close> returns the lowest free frame, now a data frame full of zeros and
  mapped at the virtual address equal to its physical one; no other mapping and no other
  data frame changes.
\<close>

theorem page_alloc4K_correct:
  assumes "page_inv s" and "ok_flags flags" and "4 \<le> free_count s"
  shows "\<exists>n s'. page_alloc4K flags s = Some (frame_of n, s') \<and> page_inv s' \<and> keeps s s'
    \<and> \<not> used_no (bitmap s) n \<and> (\<forall>m < n. used_no (bitmap s) m) \<and> data_frame s' n
    \<and> (\<forall>i. pmem s' (frame_of n) i = 0)
    \<and> vmap s' = (vmap s)(vpage (frame_of n) := frame_of n OR ucast flags)"
  using alloc4K_ok [OF assms] by blast

theorem page_alloc4K_correct_witness:
  "\<exists>n s'. page_alloc4K 3 boot_tables = Some (frame_of n, s') \<and> data_frame s' n
     \<and> \<not> used_no (bitmap boot_tables) n"
  using page_alloc4K_correct [OF boot_inv, of 3] by (auto simp: boot_free ok_flags_def)

lemma direct_set_data:
  assumes inv: "page_inv s" and n: "data_frame s n"
  shows "direct_set (frame_of n) i v s = Some (poke (frame_of n) i v s)"
    and "ext s (poke (frame_of n) i v s)"
    and "data_frame s m \<Longrightarrow> data_frame (poke (frame_of n) i v s) m"
proof -
  have n': "n < 32768" using n by (simp add: data_frame_def)
  have "frame_of n < ram_end s" using frame_of_less [OF n'] page_inv_ram [OF inv] by (rule less_le_trans)
  then show "direct_set (frame_of n) i v s = Some (poke (frame_of n) i v s)" by (simp add: direct_set_def)
  have fr: "pmem (poke (frame_of n) i v s) f j = pmem s f j"
    if "length p \<le> 3" "tab s p = Some f" for p f j
    using data_frame_not_tab [OF n that(2,1)] by auto
  show "ext s (poke (frame_of n) i v s)"
    by (rule ext_frame [OF inv]; use fr in \<open>simp; fail\<close>)
  have "tab (poke (frame_of n) i v s) p = tab s p" if "length p \<le> 3" for p
    using that by (intro ext_frame(2) [OF inv]; use fr in \<open>simp; fail\<close>)
  then show "data_frame s m \<Longrightarrow> data_frame (poke (frame_of n) i v s) m"
    by (simp add: data_frame_def)
qed

text \<open>The entries \<open>page_create\<close> writes.\<close>

lemma entry_rw:
  assumes "n < 32768"
  shows "(frame_of n OR 2 OR 1) AND 1 \<noteq> 0" and "(frame_of n OR 2 OR 1) AND NOT 0x1FF = frame_of n"
proof -
  have "frame_of n OR 2 OR 1 = frame_of n OR ucast (3 :: word16)"
    by (simp add: or.assoc)
  then show "(frame_of n OR 2 OR 1) AND 1 \<noteq> 0" "(frame_of n OR 2 OR 1) AND NOT 0x1FF = frame_of n"
    using frame_entry_present [OF assms, of 3] frame_entry_base [OF assms, of 3]
    by (simp_all only: ok_flags_def) simp_all
qed

text \<open>\<open>owned s ns\<close>: the distinct data frames \<open>ns\<close> are full of zeros.\<close>

definition owned :: "pstate \<Rightarrow> nat list \<Rightarrow> bool" where
  "owned s ns \<longleftrightarrow> distinct ns \<and> (\<forall>n \<in> set ns. data_frame s n \<and> (\<forall>i. pmem s (frame_of n) i = 0))"

lemma alloc_owned:
  assumes "page_inv s" and "ok_flags flags" and "4 \<le> free_count s" and "owned s ns"
  shows "\<exists>n s'. page_alloc4K flags s = Some (frame_of n, s') \<and> page_inv s' \<and> owned s' (n # ns)
    \<and> free_count s \<le> free_count s' + 4 \<and> \<not> used_no (bitmap s) n
    \<and> (\<forall>p f. length p \<le> 3 \<longrightarrow> tab s p = Some f \<longrightarrow> tab s' p = Some f)
    \<and> (\<forall>m. used_no (bitmap s) m \<longrightarrow> used_no (bitmap s') m)"
proof -
  obtain n s' where s': "page_alloc4K flags s = Some (frame_of n, s')" "page_inv s'" "keeps s s'"
    "\<not> used_no (bitmap s) n" "data_frame s' n" "\<forall>i. pmem s' (frame_of n) i = 0"
    "free_count s \<le> free_count s' + 4"
    "\<forall>p f. length p \<le> 3 \<longrightarrow> tab s p = Some f \<longrightarrow> tab s' p = Some f"
    "\<forall>m. used_no (bitmap s) m \<longrightarrow> used_no (bitmap s') m"
    using alloc4K_ok [OF assms(1-3)] by blast
  have "n \<notin> set ns" using assms(4) s'(4) by (auto simp: owned_def data_frame_def)
  then have "owned s' (n # ns)"
    using assms(4) s'(3,5,6) by (simp add: owned_def keeps_def)
  then show ?thesis using s' by blast
qed

text \<open>
  \<open>page_create\<close> builds a root in a frame that was free: page 0 of the new space is
  the bitmap, the entry of the kernel's half leads to the same table as in the current
  root, and every other entry of the root is 0; the current tables keep the invariant.
\<close>

theorem page_create_correct:
  assumes "page_inv s" and "16 \<le> free_count s" and "tab s [511] = Some hk"
  shows "\<exists>n pt s'. page_create s = Some (frame_of n, s') \<and> page_inv s' \<and> \<not> used_no (bitmap s) n
    \<and> walk (pmem s') (frame_of n) [0, 0, 0] = Some pt \<and> pmem s' pt 0 = 0x6003
    \<and> child (pmem s') (frame_of n) 511 = Some hk \<and> tab s' [511] = Some hk
    \<and> (\<forall>i. i \<noteq> 0 \<and> i \<noteq> 511 \<longrightarrow> pmem s' (frame_of n) i = 0)"
proof -
  have fl: "ok_flags (1 OR 2)" by (simp add: ok_flags_def)
  have o0: "owned s []" by (simp add: owned_def)
  obtain a s1 where s1: "page_alloc4K (1 OR 2) s = Some (frame_of a, s1)" "page_inv s1" "owned s1 [a]"
    "12 \<le> free_count s1" "\<not> used_no (bitmap s) a" "tab s1 [511] = Some hk"
    using alloc_owned [OF assms(1) fl _ o0] assms(2,3) by fastforce
  obtain b s2 where s2: "page_alloc4K (1 OR 2) s1 = Some (frame_of b, s2)" "page_inv s2" "owned s2 [b, a]"
    "8 \<le> free_count s2" "tab s2 [511] = Some hk"
    using alloc_owned [OF s1(2) fl _ s1(3)] s1(4,6) by fastforce
  obtain c s3 where s3: "page_alloc4K (1 OR 2) s2 = Some (frame_of c, s3)" "page_inv s3" "owned s3 [c, b, a]"
    "4 \<le> free_count s3" "tab s3 [511] = Some hk"
    using alloc_owned [OF s2(2) fl _ s2(3)] s2(4,5) by fastforce
  obtain d s4 where s4: "page_alloc4K (1 OR 2) s3 = Some (frame_of d, s4)" "page_inv s4"
    "owned s4 [d, c, b, a]" "tab s4 [511] = Some hk"
    using alloc_owned [OF s3(2) fl _ s3(3)] s3(4,5) by fastforce
  have dist: "distinct [d, c, b, a]" and data: "data_frame s4 a" "data_frame s4 b" "data_frame s4 c" "data_frame s4 d"
    and zero: "pmem s4 (frame_of a) = (\<lambda>_. 0)" "pmem s4 (frame_of b) = (\<lambda>_. 0)"
      "pmem s4 (frame_of c) = (\<lambda>_. 0)" "pmem s4 (frame_of d) = (\<lambda>_. 0)"
    using s4(3) by (auto simp: owned_def)
  have small: "a < 32768" "b < 32768" "c < 32768" "d < 32768" using data by (simp_all add: data_frame_def)
  have ne: "frame_of a \<noteq> frame_of b" "frame_of a \<noteq> frame_of c" "frame_of a \<noteq> frame_of d"
    "frame_of b \<noteq> frame_of c" "frame_of b \<noteq> frame_of d" "frame_of c \<noteq> frame_of d"
    using dist small by auto
  let ?s5 = "poke (frame_of a) 0 (frame_of b OR 2 OR 1) s4"
  let ?s6 = "poke (frame_of b) 0 (frame_of c OR 2 OR 1) ?s5"
  let ?s7 = "poke (frame_of c) 0 (frame_of d OR 2 OR 1) ?s6"
  let ?s8 = "poke (frame_of d) 0 (PAGE_BITMAP_ADDRESS OR 2 OR 1) ?s7"
  let ?s9 = "poke (frame_of a) 511 (hk OR 2 OR 1) ?s8"
  note w5 = direct_set_data [OF s4(2) data(1)]
  have i5: "page_inv ?s5" "tab ?s5 [511] = Some hk" using w5(2) s4(4) by (simp_all add: ext_def)
  note d5 = w5(3) [OF data(1)] w5(3) [OF data(2)] w5(3) [OF data(3)] w5(3) [OF data(4)]
  note w6 = direct_set_data [OF i5(1) d5(2)]
  have i6: "page_inv ?s6" "tab ?s6 [511] = Some hk" using w6(2) i5(2) by (simp_all add: ext_def)
  note d6 = w6(3) [OF d5(1)] w6(3) [OF d5(3)] w6(3) [OF d5(4)]
  note w7 = direct_set_data [OF i6(1) d6(2)]
  have i7: "page_inv ?s7" "tab ?s7 [511] = Some hk" using w7(2) i6(2) by (simp_all add: ext_def)
  note d7 = w7(3) [OF d6(1)] w7(3) [OF d6(3)]
  note w8 = direct_set_data [OF i7(1) d7(2)]
  have i8: "page_inv ?s8" "tab ?s8 [511] = Some hk" using w8(2) i7(2) by (simp_all add: ext_def)
  note w9 = direct_set_data [OF i8(1) w8(3) [OF d7(1)]]
  have i9: "page_inv ?s9" "tab ?s9 [511] = Some hk" using w9(2) i8(2) by (simp_all add: ext_def)
  have k: "PMLT4_INDEX KERNEL_HIGHER_HALF_KKERNEL = 511" by (simp add: PMLT4_INDEX_def)
  have hk: "pmem ?s8 (pmlt4 ?s8) 511 AND NOT 0x1FF = hk"
    using i8(2) tab_snoc [of ?s8 "[]" 511] by (simp add: child_def split: if_splits)
  obtain h where h: "h < 32768" "hk = frame_of h" by (rule page_inv_tabD [OF assms(1) _ assms(3)]) auto
  have run: "page_create s = Some (frame_of a, ?s9)"
    unfolding page_create_def Let_def
    by (simp only: s1(1) s2(1) s3(1) s4(1) w5(1) w6(1) w7(1) w8(1) w9(1) k hk bind.bind_lunit prod.case)
  have "pmem ?s9 (frame_of a) 0 = frame_of b OR 2 OR 1" "pmem ?s9 (frame_of b) 0 = frame_of c OR 2 OR 1"
    "pmem ?s9 (frame_of c) 0 = frame_of d OR 2 OR 1" "pmem ?s9 (frame_of a) 511 = hk OR 2 OR 1"
    "pmem ?s9 (frame_of d) 0 = PAGE_BITMAP_ADDRESS OR 2 OR 1"
    and rest: "i \<noteq> 0 \<and> i \<noteq> 511 \<longrightarrow> pmem ?s9 (frame_of a) i = 0" for i
    using ne ne [symmetric] zero by simp_all
  then have "child (pmem ?s9) (frame_of a) 0 = Some (frame_of b)" "child (pmem ?s9) (frame_of b) 0 = Some (frame_of c)"
    "child (pmem ?s9) (frame_of c) 0 = Some (frame_of d)" "child (pmem ?s9) (frame_of a) 511 = Some hk"
    "pmem ?s9 (frame_of d) 0 = 0x6003"
    using entry_rw [OF small(2)] entry_rw [OF small(3)] entry_rw [OF small(4)] entry_rw [OF h(1)] h(2)
    by (simp_all only: child_def if_False) simp_all
  then show ?thesis
    using run i9 rest s1(5) by (intro exI [of _ a] exI [of _ "frame_of d"] exI [of _ ?s9]) simp
qed

theorem page_create_correct_witness:
  "\<exists>n pt s'. page_create boot_tables = Some (frame_of n, s') \<and> walk (pmem s') (frame_of n) [0, 0, 0] = Some pt
     \<and> pmem s' pt 0 = 0x6003 \<and> child (pmem s') (frame_of n) 511 = Some 0x7000"
proof -
  have "tab boot_tables [511] = Some 0x7000" by (simp add: boot_tab)
  from page_create_correct [OF boot_inv _ this] show ?thesis by (auto simp: boot_free)
qed

section \<open>Accounting\<close>

lemma memuse_byte:
  "foldl (\<lambda>sz j. if drop_bit j (b :: byte) AND 1 \<noteq> 0 then sz + 0x1000 else sz) (0 :: qword) [0..<8]
     = of_nat (card {j. j < 8 \<and> bit b j}) * 0x1000"
proof -
  have "foldl (\<lambda>sz j. if drop_bit j b AND 1 \<noteq> 0 then sz + 0x1000 else sz) (0 :: qword) [0..<n]
     = of_nat (card {j. j < n \<and> bit b j}) * 0x1000" for n
  proof (induction n)
    case (Suc n)
    have "{j. j < Suc n \<and> bit b j} = (if bit b n then insert n {j. j < n \<and> bit b j} else {j. j < n \<and> bit b j})"
      by (auto simp: less_Suc_eq)
    then show ?case using Suc by (simp add: drop_bit_and_one algebra_simps)
  qed simp
  then show ?thesis .
qed

lemma used_below_Suc:
  "card {n. n < Suc i * 8 \<and> used_no bm n} = card {n. n < i * 8 \<and> used_no bm n} + card {j. j < 8 \<and> bit (bm i) j}"
proof -
  let ?A = "{n. n < i * 8 \<and> used_no bm n}" and ?B = "(\<lambda>j. i * 8 + j) ` {j. j < 8 \<and> bit (bm i) j}"
  have "n \<in> ?A \<union> ?B" if "n < Suc i * 8" "used_no bm n" "\<not> n < i * 8" for n
  proof -
    have "n div 8 = i" by (rule div_nat_eqI) (use that in auto)
    then have "n = i * 8 + n mod 8" "bit (bm i) (n mod 8)" using that(2) by (auto simp: used_no_def)
    then show ?thesis by force
  qed
  then have "{n. n < Suc i * 8 \<and> used_no bm n} = ?A \<union> ?B"
    by (auto simp: used_no_def)
  moreover have "?A \<inter> ?B = {}" by auto
  moreover have "card ?B = card {j. j < 8 \<and> bit (bm i) j}" by (rule card_image) simp
  ultimately show ?thesis by (simp add: card_Un_disjoint)
qed

text \<open>
  \<open>page_getSizeMemoryUse\<close> is 4096 times the number of frames marked in the bitmap.
\<close>

theorem page_getSizeMemoryUse_correct:
  "page_getSizeMemoryUse s = of_nat (0x1000 * card {n. n < 32768 \<and> used_no (bitmap s) n})"
proof -
  have full: "(if b = 0xFF then 0x1000 * 8 else of_nat (card {j. j < 8 \<and> bit b j}) * 0x1000)
      = (of_nat (card {j. j < 8 \<and> bit b j}) * 0x1000 :: qword)" for b :: byte
  proof -
    have "(0xFF :: byte) = - 1" by simp
    then have "{j. j < 8 \<and> bit (0xFF :: byte) j} = {..<8}" by (auto simp only: bit_minus_1_iff) auto
    then show ?thesis by simp
  qed
  have "memuse_loop (bitmap s) i = of_nat (0x1000 * card {n. n < i * 8 \<and> used_no (bitmap s) n})" for i
  proof (induction i)
    case (Suc i)
    then show ?case
      unfolding used_below_Suc memuse_loop.simps memuse_byte full by (simp add: algebra_simps)
  qed simp
  from this [of 4096] show ?thesis by (simp add: page_getSizeMemoryUse_def)
qed

end
