(* ===== verification/Page_Boot.thy ===== *)
theory Page_Boot
  imports Page_Props
begin

text \<open>
  The smallest tree of tables with a window, as both loaders build it: a root, one table on
  each level, and the window's table as entry 511 of the page directory.
\<close>

definition five_tables :: "pstate \<Rightarrow> qword \<Rightarrow> qword \<Rightarrow> qword \<Rightarrow> qword \<Rightarrow> bool" where
  "five_tables s pdpt pdt pt frames \<longleftrightarrow>
     (\<forall>i. child (pmem s) (pmlt4 s) i = (if i = 0 then Some pdpt else None))
     \<and> (\<forall>i. child (pmem s) pdpt i = (if i = 0 then Some pdt else None))
     \<and> (\<forall>i. child (pmem s) pdt i = (if i = 0 then Some pt else if i = 511 then Some frames else None))"

lemma five_tab:
  assumes "five_tables s pdpt pdt pt frames"
  shows "tab s [a] = (if a = 0 then Some pdpt else None)"
    and "tab s [a, b] = (if a = 0 \<and> b = 0 then Some pdt else None)"
    and "tab s [a, b, c] = (if a = 0 \<and> b = 0 \<and> c = 0 then Some pt
           else if a = 0 \<and> b = 0 \<and> c = 511 then Some frames else None)"
  using assms by (simp_all add: tab_def five_tables_def)

lemma five_tabD:
  assumes "five_tables s pdpt pdt pt frames" and "length p \<le> 3" and "tab s p = Some f"
  shows "(p, f) \<in> {([], pmlt4 s), ([0], pdpt), ([0, 0], pdt), ([0, 0, 0], pt), ([0, 0, 511], frames)}"
  using assms(3) by (cases rule: path_cases [OF assms(2)]) (auto simp: five_tab [OF assms(1)] split: if_splits)

lemma five_inv:
  assumes five: "five_tables s (frame_of n1) (frame_of n2) (frame_of n3) (frame_of n4)"
    and root: "pmlt4 s = frame_of n0" and frames: "frame_pt s = frame_of n4" and bm: "bitmap_addr s = frame_of b"
    and dist: "distinct [b, n0, n1, n2, n3, n4]" and low: "\<forall>n \<in> {b, n0, n1, n2, n3, n4}. n < 7"
    and used: "\<forall>n < 7. used_no (bitmap s) n" and ram: "0x8000000 \<le> ram_end s"
  shows "page_inv s"
  unfolding page_inv_def
proof (intro conjI allI impI)
  note tabD = five_tabD [OF five, unfolded root]
  have ne: "frame_of n = frame_of m \<longleftrightarrow> n = m" if "n < 7" "m < 7" for n m using that by simp
  show "tab s [0, 0, 511] = Some (frame_pt s)" by (simp add: five_tab [OF five] frames)
  show "\<exists>b < 7. bitmap_addr s = frame_of b" using bm low by auto
  show "used_no (bitmap s) n" if "n < 7" for n using that used by blast
  show "0x8000000 \<le> ram_end s" by (rule ram)
  show "\<exists>n < 32768. f = frame_of n \<and> used_no (bitmap s) n \<and> f \<noteq> bitmap_addr s"
    if "length p \<le> 3" "tab s p = Some f" for p f
  proof -
    note t = tabD [OF that]
    obtain n where n: "n \<in> {n0, n1, n2, n3, n4}" "f = frame_of n" using t by auto
    then have "n < 7" "n \<noteq> b" using low dist by auto
    then show ?thesis using n(2) used bm ne low by (intro exI [of _ n]) auto
  qed
  show "p = q" if "length p \<le> 3" "length q \<le> 3" "tab s p = Some f" "tab s q = Some f" for p q f
    using tabD [OF that(1,3)] tabD [OF that(2,4)] ne low dist by auto
qed

lemma five_vmap:
  assumes "five_tables s pdpt pdt pt frames"
  shows "vmap s (a, b, c, d) = (if a = 0 \<and> b = 0 \<and> c = 0 then pmem s pt d
     else if a = 0 \<and> b = 0 \<and> c = 511 \<and> d \<noteq> 0 then pmem s frames d else 0)"
  by (auto simp: vmap_def pte_def five_tab [OF assms] window_page_def)

end
