(* ===== verification/Uefi_Map.thy ===== *)
theory Uefi_Map
  imports Uefi Page_Boot
begin

text \<open>
  What \<open>boot/UEFI/page.c\<close> does on the tree of tables and on the abstract map: the tables
  \<open>Kernel_createNewPage\<close> leaves satisfy the invariant of \<open>kernel/page.c\<close>, and
  \<open>Kernel_MapPagePhysical\<close> keeps it.

  The hypotheses on the firmware are stated through a view of its state: the pages nobody
  has allocated, and the contents and position of each open file.
\<close>

section \<open>The firmware\<close>

record efi_view =
  free_pages :: "nat set"
  opened :: "qword \<Rightarrow> (byte list \<times> nat) option"

text \<open>
  \<open>AllocatePages\<close> at an address gives the range if all of it is free, and otherwise an
  error (UEFI specification, 7.2); \<open>SetMem\<close> fills the page, and what it leaves in \<open>rax\<close>
  does not look like an error, on which the loader relies.
\<close>

definition efi_memory :: "'fw boot_services \<Rightarrow> ('fw \<Rightarrow> efi_view) \<Rightarrow> bool" where
  "efi_memory bs view \<longleftrightarrow>
     (\<forall>w n k. n < 32768 \<longrightarrow> (case AllocatePages bs AllocateAddress k (frame_of n) w of (st, a, w') \<Rightarrow>
        (let R = {n..<n + unat k} in
         if R \<subseteq> free_pages (view w)
         then \<not> efi_error st \<and> a = frame_of n \<and> view w' = (view w)\<lparr>free_pages := free_pages (view w) - R\<rparr>
         else efi_error st)))
     \<and> (\<forall>n s. n < 32768 \<longrightarrow> (case SetMem bs (frame_of n) 0x1000 0 s of (st, s') \<Rightarrow>
         \<not> efi_error st
         \<and> s' = (if frame_of n = bitmap_addr s then s\<lparr>bitmap := \<lambda>_. 0\<rparr> else zero_frame (frame_of n) s)))"

text \<open>A service that does not fail.\<close>

definition gives :: "('fw, 'a) service \<Rightarrow> 'fw \<Rightarrow> ('a \<Rightarrow> 'fw \<Rightarrow> bool) \<Rightarrow> bool" where
  "gives f w P \<longleftrightarrow> (case f w of (st, a, w') \<Rightarrow> \<not> efi_error st \<and> P a w')"

lemma givesE:
  assumes "gives f (fw s) P"
  obtains a w where "CHECK_ERROR f s = Inr (a, s\<lparr>fw := w\<rparr>)" and "P a w"
  using assms by (cases "f (fw s)") (auto simp: gives_def CHECK_ERROR_def)

text \<open>The protocols are there, and asking for them changes nothing the loader uses.\<close>

definition efi_protocols :: "'fw boot_services \<Rightarrow> ('fw \<Rightarrow> efi_view) \<Rightarrow> bool" where
  "efi_protocols bs view \<longleftrightarrow>
     (\<forall>h p w. gives (HandleProtocol bs h p) w (\<lambda>_ w'. view w' = view w))"

lemma alloc_fixed_ok:
  assumes "efi_memory bs view" and "n < 32768" and "n \<in> free_pages (view (fw s))"
  obtains w where "alloc_fixed bs (frame_of n) s = Inr (frame_of n, s\<lparr>fw := w\<rparr>)"
    and "view w = (view (fw s))\<lparr>free_pages := free_pages (view (fw s)) - {n}\<rparr>"
proof -
  obtain st a w where call: "AllocatePages bs AllocateAddress 1 (frame_of n) (fw s) = (st, a, w)"
    by (metis surj_pair)
  have "\<not> efi_error st \<and> a = frame_of n
      \<and> view w = (view (fw s))\<lparr>free_pages := free_pages (view (fw s)) - {n..<n + unat (1 :: qword)}\<rparr>"
    using assms(1) [unfolded efi_memory_def, THEN conjunct1, rule_format, OF assms(2), of 1 "fw s"] assms(3)
    by (simp add: call Let_def)
  then show ?thesis using call by (intro that [of w]) (simp_all add: alloc_fixed_def CHECK_ERROR_def)
qed

lemma alloc_fixed_busy:
  assumes "efi_memory bs view" and "n < 32768" and "n \<notin> free_pages (view (fw s))"
  shows "\<exists>st. alloc_fixed bs (frame_of n) s = Inl (Halted st) \<and> efi_error st"
proof -
  obtain st a w where call: "AllocatePages bs AllocateAddress 1 (frame_of n) (fw s) = (st, a, w)"
    by (metis surj_pair)
  have "efi_error st"
    using assms(1) [unfolded efi_memory_def, THEN conjunct1, rule_format, OF assms(2), of 1 "fw s"] assms(3)
    by (simp add: call Let_def)
  then show ?thesis using call by (simp add: alloc_fixed_def CHECK_ERROR_def)
qed

lemma SetMem_page_ok:
  assumes "efi_memory bs view" and "n < 32768"
  shows "SetMem_page bs (frame_of n) s = Inr (s\<lparr>pg := if frame_of n = bitmap_addr (pg s)
     then (pg s)\<lparr>bitmap := \<lambda>_. 0\<rparr> else zero_frame (frame_of n) (pg s)\<rparr>)"
  using assms(1) [unfolded efi_memory_def, THEN conjunct2, rule_format, OF assms(2), of "pg s"]
  by (auto simp: SetMem_page_def split: prod.splits)

lemma boot_then_Inr: "boot_then m f = Inr y \<longleftrightarrow> (\<exists>x. m = Inr x \<and> f x = Inr y)"
  by (cases m) auto

section \<open>The first tables\<close>

definition new_mem :: "(qword \<Rightarrow> pt_index \<Rightarrow> qword) \<Rightarrow> qword \<Rightarrow> pt_index \<Rightarrow> qword" where
  "new_mem m f i =
     (if f = 0x1000 then (if i = 0 then 0x2003 else 0)
      else if f = 0x2000 then (if i = 0 then 0x3003 else 0)
      else if f = 0x3000 then (if i = 0 then 0x4003 else if i = 511 then 0x5003 else 0)
      else if f = 0x4000 then (if unat i < 7 then push_bit 12 (ucast i) OR 3 else 0)
      else if f = 0x5000 then 0
      else m f i)"

definition new_tables :: "pstate \<Rightarrow> pstate" where
  "new_tables s = s\<lparr>pmem := new_mem (pmem s), bitmap := (\<lambda>i. if i = 0 then 0x7F else 0),
     pmlt4 := 0x1000, frame_pt := 0x5000, bitmap_addr := 0x6000\<rparr>"

lemma new_simps [simp]:
  "pmlt4 (new_tables s) = 0x1000" "frame_pt (new_tables s) = 0x5000" "bitmap_addr (new_tables s) = 0x6000"
  "ram_end (new_tables s) = ram_end s" "pmem (new_tables s) = new_mem (pmem s)"
  by (simp_all add: new_tables_def)

lemma new_used: "used_no (bitmap (new_tables s)) n \<longleftrightarrow> n < 7"
proof (cases "n < 8")
  case True
  then have "n = 0 \<or> n = 1 \<or> n = 2 \<or> n = 3 \<or> n = 4 \<or> n = 5 \<or> n = 6 \<or> n = 7" by arith
  then show ?thesis by (auto simp: used_no_def new_tables_def bit_iff_odd_drop_bit)
next
  case False
  then show ?thesis by (simp add: used_no_def new_tables_def)
qed

lemma new_child:
  "child (new_mem m) 0x1000 i = (if i = 0 then Some 0x2000 else None)"
  "child (new_mem m) 0x2000 i = (if i = 0 then Some 0x3000 else None)"
  "child (new_mem m) 0x3000 i = (if i = 0 then Some 0x4000 else if i = 511 then Some 0x5000 else None)"
  by (simp_all add: child_def new_mem_def)

lemma new_tab:
  "tab (new_tables s) [a] = (if a = 0 then Some 0x2000 else None)"
  "tab (new_tables s) [a, b] = (if a = 0 \<and> b = 0 then Some 0x3000 else None)"
  "tab (new_tables s) [a, b, c] = (if a = 0 \<and> b = 0 \<and> c = 0 then Some 0x4000
     else if a = 0 \<and> b = 0 \<and> c = 511 then Some 0x5000 else None)"
  by (simp_all add: tab_def new_child)

lemma new_tabD:
  assumes "length p \<le> 3" and "tab (new_tables s) p = Some f"
  shows "(p, f) \<in> {([], 0x1000), ([0], 0x2000), ([0, 0], 0x3000), ([0, 0, 0], 0x4000), ([0, 0, 511], 0x5000)}"
  using assms by (cases rule: path_cases [OF assms(1)]) (auto simp: new_tab split: if_splits)

lemma new_five: "five_tables (new_tables s) 0x2000 0x3000 0x4000 0x5000"
  unfolding five_tables_def new_simps by (simp only: new_child simp_thms)

lemma new_inv:
  assumes "0x8000000 \<le> ram_end s"
  shows "page_inv (new_tables s)"
proof -
  have f: "frame_of 2 = 0x2000" "frame_of 3 = 0x3000" "frame_of 4 = 0x4000" "frame_of 5 = 0x5000" by (simp_all add: frame_of_def)
  show ?thesis
    by (rule five_inv [of _ 2 3 4 5 1 6]; use assms new_five [of s] in \<open>auto simp: f new_used\<close>) (simp_all add: frame_of_def)
qed

lemma new_vmap:
  "vmap (new_tables s) (a, b, c, d)
     = (if a = 0 \<and> b = 0 \<and> c = 0 \<and> unat d < 7 then push_bit 12 (ucast d) OR 3 else 0)"
  by (auto simp: vmap_def pte_def new_tab window_page_def new_mem_def)

lemma identity_loop_ok:
  assumes "n \<le> 7" and "pt < ram_end (pg s)"
  shows "identity_loop pt n s = Inr (s\<lparr>pg := (pg s)\<lparr>
     pmem := (pmem (pg s))(pt := \<lambda>i. if unat i < n then push_bit 12 (ucast i) OR 3 else pmem (pg s) pt i),
     bitmap := (bitmap (pg s))(0 := bitmap (pg s) 0 OR mask n)\<rparr>\<rparr>)"
  using assms
proof (induction n)
  case (Suc n)
  let ?i = "of_nat n :: pt_index"
  have u: "unat ?i = n" using Suc.prems(1) by (simp add: unsigned_of_nat take_bit_nat_eq_self)
  then have i: "unat (j :: pt_index) < Suc n \<longleftrightarrow> j = ?i \<or> unat j < n" for j
    by (auto simp: less_Suc_eq word_unat_eq_iff)
  have m: "b OR mask (Suc n) = b OR mask n OR push_bit n 1" for b :: byte
    by (simp add: mask_Suc_exp or.commute)
  have e: "(of_nat n * 0x1000 :: qword) OR 3 = push_bit 12 (ucast ?i) OR 3"
  proof -
    have "(of_nat n :: qword) = ucast ?i" using u by (metis of_nat_unat)
    then show ?thesis by (simp add: push_bit_eq_mult)
  qed
  have "n div 8 = 0" "n mod 8 = n" using Suc.prems(1) by auto
  then show ?case
    using Suc unfolding identity_loop.simps
    by (simp add: table_set_def bitmap_or_def poke_def m e or.assoc,
        intro arg_cong [where f = "\<lambda>p. s\<lparr>pg := p\<rparr>"] pstate.equality) (auto simp: i e fun_eq_iff)
qed simp

lemma low_frames: "frame_of 1 = 0x1000" "frame_of 2 = 0x2000" "frame_of 3 = 0x3000" "frame_of 4 = 0x4000"
  "frame_of 5 = 0x5000" "frame_of 6 = 0x6000"
  by (simp_all add: frame_of_def)

lemma createNewPage_ok:
  assumes mem: "efi_memory bs view" and prot: "efi_protocols bs view"
    and free: "{1..6} \<subseteq> free_pages (view (fw s))" and ram: "0x8000000 \<le> ram_end (pg s)"
  obtains w where "Kernel_createNewPage bs h s = Inr \<lparr>pg = new_tables (pg s), fw = w\<rparr>"
    and "view w = (view (fw s))\<lparr>free_pages := free_pages (view (fw s)) - {1..6}\<rparr>"
proof -
  obtain st r w0 where hp: "HandleProtocol bs h LoadedImage (fw s) = (st, r, w0)" "\<not> efi_error st"
    "view w0 = view (fw s)"
    using prot [unfolded efi_protocols_def gives_def, rule_format, of "fw s" h LoadedImage]
    by (cases "HandleProtocol bs h LoadedImage (fw s)") auto
  let ?F = "free_pages (view (fw s))"
  have F: "1 \<in> ?F" "2 \<in> ?F" "3 \<in> ?F" "4 \<in> ?F" "5 \<in> ?F" "6 \<in> ?F"
    by (rule subsetD [OF free], simp)+
  have step: "\<exists>w'. alloc_fixed bs (frame_of n) (s\<lparr>fw := w\<rparr>) = Inr (frame_of n, s\<lparr>fw := w'\<rparr>)
      \<and> view w' = (view (fw s))\<lparr>free_pages := ?F - insert n A\<rparr>"
    if "n < 32768" "n \<in> ?F - A" "view w = (view (fw s))\<lparr>free_pages := ?F - A\<rparr>" for n w A
  proof -
    have n: "n \<in> free_pages (view (fw (s\<lparr>fw := w\<rparr>)))" using that(2,3) by simp
    note alloc = alloc_fixed_ok [OF mem that(1) n]
    obtain w' where w': "alloc_fixed bs (frame_of n) (s\<lparr>fw := w\<rparr>) = Inr (frame_of n, s\<lparr>fw := w\<rparr>\<lparr>fw := w'\<rparr>)"
      "view w' = (view w)\<lparr>free_pages := free_pages (view w) - {n}\<rparr>"
      by (rule alloc) auto
    have "?F - insert n A = ?F - A - {n}" by blast
    with w' that(3) show ?thesis by (intro exI [of _ w']) simp
  qed
  obtain w1 where w1: "alloc_fixed bs (frame_of 1) (s\<lparr>fw := w0\<rparr>) = Inr (frame_of 1, s\<lparr>fw := w1\<rparr>)"
    "view w1 = (view (fw s))\<lparr>free_pages := ?F - {1}\<rparr>"
    using step [of 1 "{}" w0] F hp(3) by auto
  obtain w2 where w2: "alloc_fixed bs (frame_of 2) (s\<lparr>fw := w1\<rparr>) = Inr (frame_of 2, s\<lparr>fw := w2\<rparr>)"
    "view w2 = (view (fw s))\<lparr>free_pages := ?F - {2, 1}\<rparr>"
    using step [of 2 "{1}" w1] F w1(2) by auto
  obtain w3 where w3: "alloc_fixed bs (frame_of 3) (s\<lparr>fw := w2\<rparr>) = Inr (frame_of 3, s\<lparr>fw := w3\<rparr>)"
    "view w3 = (view (fw s))\<lparr>free_pages := ?F - {3, 2, 1}\<rparr>"
    using step [of 3 "{2, 1}" w2] F w2(2) by auto
  obtain w4 where w4: "alloc_fixed bs (frame_of 4) (s\<lparr>fw := w3\<rparr>) = Inr (frame_of 4, s\<lparr>fw := w4\<rparr>)"
    "view w4 = (view (fw s))\<lparr>free_pages := ?F - {4, 3, 2, 1}\<rparr>"
    using step [of 4 "{3, 2, 1}" w3] F w3(2) by auto
  obtain w5 where w5: "alloc_fixed bs (frame_of 5) (s\<lparr>fw := w4\<rparr>) = Inr (frame_of 5, s\<lparr>fw := w5\<rparr>)"
    "view w5 = (view (fw s))\<lparr>free_pages := ?F - {5, 4, 3, 2, 1}\<rparr>"
    using step [of 5 "{4, 3, 2, 1}" w4] F w4(2) by auto
  obtain w6 where w6: "alloc_fixed bs (frame_of 6) (s\<lparr>fw := w5\<rparr>) = Inr (frame_of 6, s\<lparr>fw := w6\<rparr>)"
    "view w6 = (view (fw s))\<lparr>free_pages := ?F - {6, 5, 4, 3, 2, 1}\<rparr>"
    using step [of 6 "{5, 4, 3, 2, 1}" w5] F w5(2) by auto
  have R: "t < ram_end (pg s)" if "t < 0x8000000" for t using that ram by (rule less_le_trans)
  note set = SetMem_page_ok [OF mem, of 1] SetMem_page_ok [OF mem, of 2] SetMem_page_ok [OF mem, of 3]
    SetMem_page_ok [OF mem, of 4] SetMem_page_ok [OF mem, of 5] SetMem_page_ok [OF mem, of 6]
  note run = w1(1) w2(1) w3(1) w4(1) w5(1) w6(1) set
  have mask7: "(mask 7 :: byte) = 0x7F" by (simp add: mask_eq_exp_minus_1)
  have "Kernel_createNewPage bs h s = Inr \<lparr>pg = new_tables (pg s), fw = w6\<rparr>"
    unfolding Kernel_createNewPage_def CHECK_ERROR_def hp(1)
    using run [unfolded low_frames] hp(2)
    by (simp add: identity_loop_ok table_set_def R) (simp add: new_tables_def new_mem_def poke_def zero_frame_def fun_eq_iff mask7)
  moreover have "{6, 5, 4, 3, 2, 1} = {1..6 :: nat}" by auto
  ultimately show ?thesis using w6(2) by (intro that) auto
qed

section \<open>The pool of pages\<close>

text \<open>
  \<open>pool view s F\<close>: the frames \<open>F\<close> are clear in the bitmap and free in the firmware, and
  every clear frame below one of them is one of them; these are the frames the loader
  gets.  \<open>tabs_in\<close> bounds the frames of the tables.
\<close>

definition pool :: "('fw \<Rightarrow> efi_view) \<Rightarrow> 'fw ustate \<Rightarrow> nat set \<Rightarrow> bool" where
  "pool view s F \<longleftrightarrow> (\<forall>n \<in> F. n < 32768 \<and> \<not> used_no (bitmap (pg s)) n \<and> n \<in> free_pages (view (fw s))
     \<and> (\<forall>m < n. used_no (bitmap (pg s)) m \<or> m \<in> F))"

definition tabs_in :: "pstate \<Rightarrow> nat set \<Rightarrow> bool" where
  "tabs_in s T \<longleftrightarrow> (\<forall>p f. length p \<le> 3 \<longrightarrow> tab s p = Some f \<longrightarrow> f \<in> frame_of ` T)"

text \<open>The loader clears twelve bits of an entry where the kernel clears nine.\<close>

lemma mask_page:
  assumes "n < 32768" and "e AND NOT 0x1FF = frame_of n"
  shows "e AND NOT 0xFFF = frame_of n"
proof -
  have m: "(0xFFF :: qword) = mask 12" by (simp add: mask_eq_exp_minus_1)
  have "e AND NOT (mask 12) = (e AND NOT (mask 9)) AND NOT (mask 12)"
    by (rule bit_eqI) (auto simp: bit_simps)
  also have "\<dots> = frame_of n" unfolding assms(2) [unfolded mask_low9]
    by (rule bit_eqI) (use assms(1) in \<open>auto simp: bit_simps bit_frame_of\<close>)
  finally show ?thesis by (simp only: m)
qed

definition ok_flags32 :: "dword \<Rightarrow> bool" where
  "ok_flags32 flags \<longleftrightarrow> bit flags 0 \<and> flags < 0x200"

lemma flags32:
  assumes "ok_flags32 flags"
  shows "ok_flags (ucast flags)" and "(ucast (ucast flags :: word16) :: qword) = ucast flags"
proof -
  have u: "unat (ucast flags :: word16) = unat flags"
    using assms by (simp add: ok_flags32_def word_less_nat_alt unsigned_ucast_eq take_bit_nat_eq_self)
  then show "ok_flags (ucast flags)"
    using assms by (simp add: ok_flags32_def ok_flags_def word_less_nat_alt bit_simps)
  have high: "\<not> bit flags k" if "16 \<le> k" for k
  proof -
    have "unat flags < 2 ^ 9" using assms by (simp add: ok_flags32_def word_less_nat_alt)
    then show ?thesis using not_bit_nat [of "unat flags" 9 k] that by (simp add: bit_unsigned_iff)
  qed
  show "(ucast (ucast flags :: word16) :: qword) = ucast flags"
    by (rule bit_eqI) (auto simp: bit_simps, metis high not_less)
qed

lemma frame_entry32:
  assumes "n < 32768" and "ok_flags32 flags"
  shows "(frame_of n OR ucast flags) AND NOT 0x1FF = frame_of n" and "(frame_of n OR ucast flags) AND 1 \<noteq> 0"
    and "(frame_of n OR ucast flags) AND NOT 0xFFF = frame_of n"
proof -
  note f = flags32 [OF assms(2)]
  show a: "(frame_of n OR ucast flags) AND NOT 0x1FF = frame_of n" "(frame_of n OR ucast flags) AND 1 \<noteq> 0"
    using frame_entry_base [OF assms(1) f(1)] frame_entry_present [OF assms(1) f(1)] by (simp_all only: f(2) simp_thms)
  show "(frame_of n OR ucast flags) AND NOT 0xFFF = frame_of n"
    by (rule mask_page [OF assms(1) a(1)])
qed

lemma alloc4K_page:
  assumes mem: "efi_memory bs view" and inv: "page_inv (pg s)" and pool: "pool view s F" "F \<noteq> {}"
  obtains n w where "n \<in> F" and "n < 32768" and "7 \<le> n" and "\<not> used_no (bitmap (pg s)) n"
    and "\<forall>m < n. used_no (bitmap (pg s)) m"
    and "Kernel_Alloc4KPage bs s = Inr (frame_of n, \<lparr>pg = (zero_frame (frame_of n) (pg s))
           \<lparr>bitmap := mark n (bitmap (pg s))\<rparr>, fw = w\<rparr>)"
    and "view w = (view (fw s))\<lparr>free_pages := free_pages (view (fw s)) - {n}\<rparr>"
proof -
  let ?bm = "bitmap (pg s)"
  obtain g where g: "g \<in> F" using pool(2) by blast
  then have "\<exists>n < 32768. \<not> used_no ?bm n" using pool(1) by (auto simp: pool_def)
  then obtain i j n where scan: "getframe_scan ?bm 0 = Some (i, j)" and n: "n = j + i * 8" "n < 32768"
    "\<not> used_no ?bm n" "\<forall>m < n. used_no ?bm m" and ij: "i = n div 8" "j = n mod 8"
    by (rule scan_least)
  have "\<not> g < n" using g n(4) pool(1) by (auto simp: pool_def)
  then have nF: "n \<in> F" using g n(3) pool(1) by (auto simp: pool_def not_less le_less)
  then have fr: "n \<in> free_pages (view (fw s))" using pool(1) by (simp add: pool_def)
  obtain w where w: "alloc_fixed bs (frame_of n) s = Inr (frame_of n, s\<lparr>fw := w\<rparr>)"
    "view w = (view (fw s))\<lparr>free_pages := free_pages (view (fw s)) - {n}\<rparr>"
    using alloc_fixed_ok [OF mem n(2) fr] by blast
  have seven: "7 \<le> n" using page_inv_reserved [OF inv] n(3) by (meson not_le)
  have ne: "frame_of n \<noteq> bitmap_addr (pg s)" by (rule page_inv_bitmap [OF inv seven n(2)])
  have addr: "of_nat ((i * 8 + j) * 0x1000) = frame_of n" using n(1) by (simp only: add.commute frame_of_mult)
  have i: "unat (of_nat i :: qword) = i" "i < 4096" using n(1,2) by (simp_all add: unsigned_of_nat take_bit_nat_eq_self)
  have "Kernel_Alloc4KPage bs s = Inr (frame_of n, \<lparr>pg = (zero_frame (frame_of n) (pg s))
           \<lparr>bitmap := mark n ?bm\<rparr>, fw = w\<rparr>)"
    unfolding Kernel_Alloc4KPage_def scan option.case prod.case addr w(1) boot_then.simps
      SetMem_page_ok [OF mem n(2)] bitmap_or_def i(1)
    using ne i(2) by (simp add: mark_def ij)
  then show ?thesis using that nF n(2-4) seven w(2) by blast
qed

text \<open>When the firmware holds the lowest clear frame the loader halts.\<close>

lemma alloc4K_busy:
  assumes mem: "efi_memory bs view" and n: "n < 32768" "\<not> used_no (bitmap (pg s)) n"
    "\<forall>m < n. used_no (bitmap (pg s)) m" and busy: "n \<notin> free_pages (view (fw s))"
  shows "\<exists>st. Kernel_Alloc4KPage bs s = Inl (Halted st)"
proof -
  have "\<exists>n < 32768. \<not> used_no (bitmap (pg s)) n" using n by blast
  then obtain i j k where scan: "getframe_scan (bitmap (pg s)) 0 = Some (i, j)" and k: "k = j + i * 8"
    "\<not> used_no (bitmap (pg s)) k" "\<forall>m < k. used_no (bitmap (pg s)) m"
    by (rule scan_least)
  have "k = n" using k(2,3) n(2,3) by (meson linorder_neqE_nat)
  then have "of_nat ((i * 8 + j) * 0x1000) = frame_of n" using k(1) by (simp only: add.commute frame_of_mult)
  then show ?thesis
    using alloc_fixed_busy [OF mem n(1) busy] unfolding Kernel_Alloc4KPage_def scan by (auto simp del: of_nat_mult of_nat_add)
qed

text \<open>
  What the operations do beside the map: \<open>D\<close> are the frames they take from the pool, \<open>M\<close>
  the further frames they mark.  Memory that is not a table at the end is not touched.
\<close>

definition ustep :: "('fw \<Rightarrow> efi_view) \<Rightarrow> 'fw ustate \<Rightarrow> 'fw ustate \<Rightarrow> nat set \<Rightarrow> nat set \<Rightarrow> bool" where
  "ustep view s s' D M \<longleftrightarrow> page_inv (pg s') \<and> finite D
     \<and> pmlt4 (pg s') = pmlt4 (pg s) \<and> frame_pt (pg s') = frame_pt (pg s)
     \<and> bitmap_addr (pg s') = bitmap_addr (pg s) \<and> ram_end (pg s') = ram_end (pg s)
     \<and> view (fw s') = (view (fw s))\<lparr>free_pages := free_pages (view (fw s)) - D\<rparr>
     \<and> (\<forall>n. used_no (bitmap (pg s')) n \<longleftrightarrow> n \<in> D \<or> n \<in> M \<or> used_no (bitmap (pg s)) n)
     \<and> (\<forall>p f. length p \<le> 3 \<longrightarrow> tab (pg s) p = Some f \<longrightarrow> tab (pg s') p = Some f)
     \<and> (\<forall>T. tabs_in (pg s) T \<longrightarrow> tabs_in (pg s') (T \<union> D))
     \<and> (\<forall>g. (\<forall>p. length p \<le> 3 \<longrightarrow> tab (pg s') p \<noteq> Some g) \<longrightarrow> pmem (pg s') g = pmem (pg s) g)"

lemma ustep_refl: "page_inv (pg s) \<Longrightarrow> ustep view s s {} {}"
  by (simp add: ustep_def)

lemma ustepD:
  assumes "ustep view s s' D M"
  shows "page_inv (pg s')" and "finite D" and "pmlt4 (pg s') = pmlt4 (pg s)"
    and "frame_pt (pg s') = frame_pt (pg s)" and "bitmap_addr (pg s') = bitmap_addr (pg s)"
    and "ram_end (pg s') = ram_end (pg s)"
    and "view (fw s') = (view (fw s))\<lparr>free_pages := free_pages (view (fw s)) - D\<rparr>"
    and "used_no (bitmap (pg s')) n \<longleftrightarrow> n \<in> D \<or> n \<in> M \<or> used_no (bitmap (pg s)) n"
    and "length p \<le> 3 \<Longrightarrow> tab (pg s) p = Some f \<Longrightarrow> tab (pg s') p = Some f"
    and "tabs_in (pg s) T \<Longrightarrow> tabs_in (pg s') (T \<union> D)"
    and "(\<And>p. length p \<le> 3 \<Longrightarrow> tab (pg s') p \<noteq> Some g) \<Longrightarrow> pmem (pg s') g = pmem (pg s) g"
  using assms unfolding ustep_def by simp_all

lemma ustep_trans:
  assumes 1: "ustep view s s' D M" and 2: "ustep view s' s'' E N"
  shows "ustep view s s'' (D \<union> E) (M \<union> N)"
proof -
  have "A - D - E = A - (D \<union> E)" for A by blast
  moreover have "pmem (pg s'') g = pmem (pg s) g" if g: "\<forall>p. length p \<le> 3 \<longrightarrow> tab (pg s'') p \<noteq> Some g" for g
    using ustepD(11) [OF 2, of g] ustepD(11) [OF 1, of g] ustepD(9) [OF 2] g by metis
  moreover have "tabs_in (pg s'') (T \<union> (D \<union> E))" if "tabs_in (pg s) T" for T
    using ustepD(10) [OF 2 ustepD(10) [OF 1 that]] by (simp only: Un_assoc)
  ultimately show ?thesis
    unfolding ustep_def using ustepD(1-9) [OF 1] ustepD(1-9) [OF 2] by auto
qed

lemma pool_ustep: "pool view s F \<Longrightarrow> ustep view s s' D M \<Longrightarrow> F \<inter> M = {} \<Longrightarrow> pool view s' (F - D)"
  unfolding pool_def by (auto simp: ustepD(7,8))

lemma ustep_tab: "ustep view s s' D M \<Longrightarrow> tab (pg s) p = Some f \<Longrightarrow> length p \<le> 3 \<Longrightarrow> tab (pg s') p = Some f"
  by (rule ustepD(9))

lemma ustep_inv: "ustep view s s' D M \<Longrightarrow> page_inv (pg s')"
  by (rule ustepD(1))

lemma tab_ram:
  assumes "page_inv s" and "tab s p = Some f" and "length p \<le> 3"
  obtains n where "n < 32768" and "f = frame_of n" and "used_no (bitmap s) n" and "f < ram_end s"
proof -
  obtain n where n: "n < 32768" "f = frame_of n" "used_no (bitmap s) n"
    by (rule page_inv_tabD [OF assms(1,3,2)])
  have "f < ram_end s"
    unfolding n(2) using frame_of_less [OF n(1)] page_inv_ram [OF assms(1)] by (rule less_le_trans)
  with n show ?thesis by (rule that)
qed

text \<open>A fresh page: zeroing and marking it changes neither the tree nor the map.\<close>

lemma ext_alloc:
  assumes inv: "page_inv s" and n: "n < 32768" "\<not> used_no (bitmap s) n"
  defines "s' \<equiv> (zero_frame (frame_of n) s)\<lparr>bitmap := mark n (bitmap s)\<rparr>"
  shows "ext s s'" and "\<forall>p. length p \<le> 3 \<longrightarrow> tab s' p = tab s p \<and> tab s' p \<noteq> Some (frame_of n)"
proof -
  have new: "f \<noteq> frame_of n" if "length p \<le> 3" "tab s p = Some f" for p f
    using page_inv_tabD [OF inv that] n frame_of_inject by metis
  show "ext s s'"
    by (rule ext_frame [OF inv]) (auto simp: s'_def used_no_mark dest: new)
  have "tab s' p = tab s p" if "length p \<le> 3" for p
    by (rule ext_frame(2) [OF inv _ _ _ _ _ _ that]) (auto simp: s'_def used_no_mark dest: new)
  then show "\<forall>p. length p \<le> 3 \<longrightarrow> tab s' p = tab s p \<and> tab s' p \<noteq> Some (frame_of n)"
    using new by metis
qed

lemma create_ok:
  assumes mem: "efi_memory bs view" and inv: "page_inv (pg s)" and pool: "pool view s F" and fl: "ok_flags32 flags"
    and p: "length p \<le> 2" "tab (pg s) p = Some f" and room: "F \<noteq> {} \<or> tab (pg s) (p @ [i]) \<noteq> None"
  obtains f' s' D where "CHECK_AND_CREATE_FRAME bs flags f i s = Inr (f', s')" and "ustep view s s' D {}"
    and "vmap (pg s') = vmap (pg s)"
    and "tab (pg s') (p @ [i]) = Some f'" and "D \<subseteq> F" and "card D \<le> 1"
    and "tab (pg s) (p @ [i]) \<noteq> None \<longrightarrow> D = {}"
proof -
  have p3: "length p \<le> 3" using p(1) by simp
  obtain f: "f < ram_end (pg s)" by (rule tab_ram [OF inv p(2) p3])
  have next_tab: "tab (pg s) (p @ [i])
      = (if pmem (pg s) f i AND 1 = 0 then None else Some (pmem (pg s) f i AND NOT 0x1FF))"
    using p(2) by (simp add: tab_snoc child_def)
  show ?thesis
  proof (cases "pmem (pg s) f i AND 1 = 0")
    case False
    let ?e = "pmem (pg s) f i"
    have t: "tab (pg s) (p @ [i]) = Some (?e AND NOT 0x1FF)" using next_tab False by simp
    have len: "length (p @ [i]) \<le> 3" using p(1) by simp
    obtain m where m: "m < 32768" "?e AND NOT 0x1FF = frame_of m" by (rule tab_ram [OF inv t len])
    have "CHECK_AND_CREATE_FRAME bs flags f i s = Inr (?e AND NOT 0xFFF, s)"
      using False f by (simp add: CHECK_AND_CREATE_FRAME_def table_get_def)
    then show ?thesis
      using t ustep_refl [OF inv, of view] mask_page [OF m] m(2)
      by (intro that [of "?e AND NOT 0xFFF" s "{}"]) simp_all
  next
    case True
    then have "F \<noteq> {}" using room next_tab by simp
    obtain n w where n: "n \<in> F" "n < 32768" "7 \<le> n" "\<not> used_no (bitmap (pg s)) n"
      and al: "Kernel_Alloc4KPage bs s = Inr (frame_of n, \<lparr>pg = (zero_frame (frame_of n) (pg s))
           \<lparr>bitmap := mark n (bitmap (pg s))\<rparr>, fw = w\<rparr>)"
      and w: "view w = (view (fw s))\<lparr>free_pages := free_pages (view (fw s)) - {n}\<rparr>"
      by (rule alloc4K_page [OF mem inv pool \<open>F \<noteq> {}\<close>])
    let ?p1 = "(zero_frame (frame_of n) (pg s))\<lparr>bitmap := mark n (bitmap (pg s))\<rparr>"
    let ?e = "frame_of n OR ucast flags :: qword"
    let ?s' = "\<lparr>pg = poke f i ?e ?p1, fw = w\<rparr>"
    note e = ext_alloc [OF inv n(2,4)]
    have inv1: "page_inv ?p1" using e(1) by (simp add: ext_def)
    have t1: "tab ?p1 p = Some f" using e(2) p(2) p3 by simp
    have fn: "f \<noteq> frame_of n" using e(2) t1 p3 by metis
    have empty: "pmem ?p1 f i AND PAGE_PRESENT = 0" using True fn by simp
    have used: "used_no (bitmap ?p1) n" by (simp add: used_no_mark)
    have zero: "\<forall>j. pmem ?p1 (frame_of n) j = 0" by simp
    have unl: "\<forall>q. length q \<le> 3 \<longrightarrow> tab ?p1 q \<noteq> Some (frame_of n)" using e(2) by blast
    note link = ext_link [OF inv1 p(1) t1 empty n(2) used n(3) unl zero frame_entry32(2,1) [OF n(2) fl]]
    have "tabs_in (poke f i ?e ?p1) (T \<union> {n})" if "tabs_in (pg s) T" for T
      unfolding tabs_in_def
    proof (intro allI impI)
      fix q g assume q: "length q \<le> 3" "tab (poke f i ?e ?p1) q = Some g"
      have "g = frame_of n \<or> tab (pg s) q = Some g"
        using link(3) e(2) q by (metis option.inject)
      then show "g \<in> frame_of ` (T \<union> {n})" using that q(1) by (auto simp: tabs_in_def)
    qed
    moreover have E: "ext (pg s) (poke f i ?e ?p1)" by (rule ext_trans [OF e(1) link(1)])
    moreover have "pmem (poke f i ?e ?p1) g = pmem (pg s) g"
      if "\<forall>q. length q \<le> 3 \<longrightarrow> tab (poke f i ?e ?p1) q \<noteq> Some g" for g
    proof -
      have "g \<noteq> frame_of n" using link(2) that p(1) by (metis length_append_singleton Suc_le_mono numeral_2_eq_2 numeral_3_eq_3)
      moreover have "g \<noteq> f" using E p(2) p3 that by (auto simp: ext_def)
      ultimately show ?thesis by (auto simp: fun_eq_iff)
    qed
    ultimately have "ustep view s ?s' {n} {}"
      using w unfolding ustep_def ext_def by (intro conjI) (auto simp: used_no_mark)
    moreover have "CHECK_AND_CREATE_FRAME bs flags f i s = Inr (frame_of n, ?s')"
      using True f fn frame_entry32(3) [OF n(2) fl]
      by (simp add: CHECK_AND_CREATE_FRAME_def table_get_def table_set_def al)
    moreover have "tab (pg ?s') (p @ [i]) = Some (frame_of n)" using link(2) by simp
    moreover have "vmap (pg ?s') = vmap (pg s)" using E by (simp add: ext_def)
    ultimately show ?thesis using n(1) next_tab True by (intro that [of "frame_of n" ?s' "{n}"]) simp_all
  qed
qed

section \<open>Mapping a page\<close>

abbreviation upper :: "qword \<Rightarrow> pt_index list" where
  "upper virt \<equiv> [PMLT4_INDEX virt, PDPT_INDEX virt, PDT_INDEX virt]"

text \<open>The pages the walk may take: none if the page's table exists, otherwise three.\<close>

definition table_cost :: "pstate \<Rightarrow> qword \<Rightarrow> nat" where
  "table_cost s virt = (if tab s (upper virt) = None then 3 else 0)"

lemma tab_prefix:
  "tab s [a, b, c] \<noteq> None \<Longrightarrow> tab s [a, b] \<noteq> None" "tab s [a, b] \<noteq> None \<Longrightarrow> tab s [a] \<noteq> None"
proof -
  show "tab s [a, b, c] \<noteq> None \<Longrightarrow> tab s [a, b] \<noteq> None"
    using tab_snoc [of s "[a, b]" c] by (cases "tab s [a, b]") simp_all
  show "tab s [a, b] \<noteq> None \<Longrightarrow> tab s [a] \<noteq> None"
    using tab_snoc [of s "[a]" b] by (cases "tab s [a]") simp_all
qed

lemma card_room: "finite D \<Longrightarrow> card D < card (F :: nat set) \<Longrightarrow> F - D \<noteq> {}"
  by (metis card_mono Diff_eq_empty_iff linorder_not_le)

lemma Kernel_tables_ok:
  assumes mem: "efi_memory bs view" and inv: "page_inv (pg s)" and pool: "pool view s F" and fl: "ok_flags32 flags"
    and room: "finite F" "table_cost (pg s) virt \<le> card F"
  obtains pt s' D where "Kernel_tables bs virt flags s = Inr (pt, s')" and "ustep view s s' D {}" and "vmap (pg s') = vmap (pg s)"
    and "tab (pg s') (upper virt) = Some pt" and "D \<subseteq> F" and "card D \<le> table_cost (pg s) virt"
proof -
  let ?a = "PMLT4_INDEX virt" and ?b = "PDPT_INDEX virt" and ?c = "PDT_INDEX virt"
  let ?none = "tab (pg s) [?a, ?b, ?c] = None"
  have R1: "F \<noteq> {} \<or> tab (pg s) ([] @ [?a]) \<noteq> None"
    using room tab_prefix [of "pg s" ?a ?b] tab_prefix(1) [of "pg s" ?a ?b ?c]
    by (cases ?none) (auto simp: table_cost_def)
  have l1: "length ([] :: pt_index list) \<le> 2" and l2: "length [?a] \<le> 2" and l3: "length [?a, ?b] \<le> 2" by simp_all
  obtain f1 s1 D1 where 1: "CHECK_AND_CREATE_FRAME bs flags (pmlt4 (pg s)) ?a s = Inr (f1, s1)"
    "ustep view s s1 D1 {}" "vmap (pg s1) = vmap (pg s)" "tab (pg s1) [?a] = Some f1" "D1 \<subseteq> F" "card D1 \<le> 1" "tab (pg s) [?a] \<noteq> None \<longrightarrow> D1 = {}"
    by (rule create_ok [OF mem inv pool fl l1 tab_root R1, unfolded append.simps])
  have n1: "\<not> ?none \<longrightarrow> D1 = {}" using 1(7) tab_prefix by metis
  have fin1: "finite D1" by (rule ustepD(2) [OF 1(2)])
  have R2: "F - D1 \<noteq> {} \<or> tab (pg s1) ([?a] @ [?b]) \<noteq> None"
  proof (cases ?none)
    case True
    then show ?thesis using room 1(6) by (intro disjI1 card_room [OF fin1]) (simp add: table_cost_def)
  next
    case False
    then have "tab (pg s1) [?a, ?b] \<noteq> None"
      using ustep_tab [OF 1(2), of "[?a, ?b]"] tab_prefix(1) [of "pg s" ?a ?b ?c] by auto
    then show ?thesis by simp
  qed
  obtain f2 s2 D2 where 2: "CHECK_AND_CREATE_FRAME bs flags f1 ?b s1 = Inr (f2, s2)"
    "ustep view s1 s2 D2 {}" "vmap (pg s2) = vmap (pg s1)" "tab (pg s2) [?a, ?b] = Some f2" "D2 \<subseteq> F - D1" "card D2 \<le> 1"
    "tab (pg s1) [?a, ?b] \<noteq> None \<longrightarrow> D2 = {}"
    by (rule create_ok [OF mem ustep_inv [OF 1(2)] pool_ustep [OF pool 1(2) Int_empty_right] fl l2 1(4) R2, unfolded append.simps])
  have n2: "\<not> ?none \<longrightarrow> D2 = {}"
    using 2(7) ustep_tab [OF 1(2), of "[?a, ?b]"] tab_prefix(1) [of "pg s" ?a ?b ?c] by auto
  have s2: "ustep view s s2 (D1 \<union> D2) {}" using ustep_trans [OF 1(2) 2(2)] by simp
  have fin2: "finite (D1 \<union> D2)" by (rule ustepD(2) [OF s2])
  have c2: "card (D1 \<union> D2) \<le> 2" using card_Un_le [of D1 D2] 1(6) 2(6) by linarith
  have R3: "F - (D1 \<union> D2) \<noteq> {} \<or> tab (pg s2) ([?a, ?b] @ [?c]) \<noteq> None"
  proof (cases ?none)
    case True
    then show ?thesis using room c2 by (intro disjI1 card_room [OF fin2]) (simp add: table_cost_def)
  next
    case False
    then show ?thesis using ustep_tab [OF s2, of "[?a, ?b, ?c]"] by auto
  qed
  obtain f3 s3 D3 where 3: "CHECK_AND_CREATE_FRAME bs flags f2 ?c s2 = Inr (f3, s3)"
    "ustep view s2 s3 D3 {}" "vmap (pg s3) = vmap (pg s2)" "tab (pg s3) [?a, ?b, ?c] = Some f3" "D3 \<subseteq> F - (D1 \<union> D2)" "card D3 \<le> 1"
    "tab (pg s2) [?a, ?b, ?c] \<noteq> None \<longrightarrow> D3 = {}"
    by (rule create_ok [OF mem ustep_inv [OF s2] pool_ustep [OF pool s2 Int_empty_right] fl l3 2(4) R3, unfolded append.simps])
  have n3: "\<not> ?none \<longrightarrow> D3 = {}" using 3(7) ustep_tab [OF s2, of "[?a, ?b, ?c]"] by auto
  have "Kernel_tables bs virt flags s = Inr (f3, s3)" using 1(1) 2(1) 3(1) by (simp add: Kernel_tables_def)
  moreover have "card (D1 \<union> D2 \<union> D3) \<le> 3" using card_Un_le [of "D1 \<union> D2" D3] c2 3(6) by linarith
  ultimately show ?thesis
    using ustep_trans [OF s2 3(2)] 1(3) 2(3) 3(3) 1(5) 2(5) 3(4,5) n1 n2 n3
    by (intro that [of f3 s3 "D1 \<union> D2 \<union> D3"]) (auto simp: table_cost_def)
qed

text \<open>The frame of a physical address, and its mark.\<close>

abbreviation phys_no :: "qword \<Rightarrow> nat" where
  "phys_no phys \<equiv> unat (drop_bit 12 phys)"

lemma phys_no_less: "phys < 0x8000000 \<longleftrightarrow> phys_no phys < 32768"
proof -
  have "phys_no phys = unat phys div 4096" by (simp add: drop_bit_eq_div unat_div)
  then show ?thesis by (simp add: word_less_nat_alt) linarith
qed

lemma bitmap_or_phys:
  "bitmap_or (drop_bit 12 phys div 8) (unat (drop_bit 12 phys mod 8)) s =
     (if phys < 0x8000000 then Inr (s\<lparr>pg := (pg s)\<lparr>bitmap := mark (phys_no phys) (bitmap (pg s))\<rparr>\<rparr>)
      else Inl Overrun)"
proof -
  have "unat (drop_bit 12 phys div 8) = phys_no phys div 8" by (simp add: unat_div)
  moreover have "unat (drop_bit 12 phys mod 8) = phys_no phys mod 8" by (simp add: unat_mod)
  ultimately show ?thesis unfolding phys_no_less bitmap_or_def mark_def by auto
qed

lemma ustep_leaf:
  fixes e :: qword and n :: nat
  assumes inv: "page_inv (pg s)" and q: "tab (pg s) [a, b, c] = Some f" and nw: "(a, b, c, d) \<noteq> window_page"
  defines "p \<equiv> poke f d e (pg s)"
  defines "s' \<equiv> s\<lparr>pg := p\<lparr>bitmap := mark n (bitmap p)\<rparr>\<rparr>"
  shows "ustep view s s' {} {n}" and "vmap (pg s') = (vmap (pg s))((a, b, c, d) := e)"
    and "tab (pg s') [a, b, c] = Some f"
proof -
  note leaf = poke_leaf [OF inv q, where d = d and e = e, folded p_def]
  have e: "ext p (pg s')" and tabs: "\<And>q. length q \<le> 3 \<Longrightarrow> tab (pg s') q = tab p q"
    unfolding s'_def by (simp_all, (rule ext_frame [OF leaf(1)]; simp add: used_no_mark)+)
  show t: "tab (pg s') [a, b, c] = Some f" using q leaf(2) tabs by simp
  show "vmap (pg s') = (vmap (pg s))((a, b, c, d) := e)" using e leaf(3) nw by (simp add: ext_def)
  have "pmem (pg s') g = pmem (pg s) g" if "\<forall>r. length r \<le> 3 \<longrightarrow> tab (pg s') r \<noteq> Some g" for g
  proof -
    have "g \<noteq> f" using t that by force
    then show ?thesis by (auto simp: s'_def p_def fun_eq_iff)
  qed
  moreover have "tabs_in (pg s') (T \<union> {})" if "tabs_in (pg s) T" for T
    using that tabs leaf(2) by (simp add: tabs_in_def)
  ultimately show "ustep view s s' {} {n}"
    unfolding ustep_def using e tabs leaf(2)
    by (intro conjI) (auto simp: s'_def p_def ext_def used_no_mark)
qed

lemma MapPagePhysical_page_ok:
  assumes mem: "efi_memory bs view" and inv: "page_inv (pg s)" and pool: "pool view s F" and fl: "ok_flags32 flags"
    and room: "finite F" "table_cost (pg s) virt \<le> card F"
    and nw: "vpage virt \<noteq> window_page" and phys: "phys < 0x8000000"
  obtains s' D where "MapPagePhysical_page bs virt phys flags s = Inr s'"
    and "ustep view s s' D {phys_no phys}" and "vmap (pg s') = (vmap (pg s))(vpage virt := phys OR ucast flags)"
    and "tab (pg s') (upper virt) \<noteq> None" and "D \<subseteq> F" and "card D \<le> table_cost (pg s) virt"
proof -
  obtain pt s1 D where 1: "Kernel_tables bs virt flags s = Inr (pt, s1)" "ustep view s s1 D {}"
    "vmap (pg s1) = vmap (pg s)" "tab (pg s1) (upper virt) = Some pt" "D \<subseteq> F" "card D \<le> table_cost (pg s) virt"
    by (rule Kernel_tables_ok [OF mem inv pool fl room])
  note inv1 = ustep_inv [OF 1(2)]
  have ram: "pt < ram_end (pg s1)" by (rule tab_ram [OF inv1 1(4)]) simp_all
  let ?p = "poke pt (PT_INDEX virt) (phys OR ucast flags) (pg s1)"
  let ?s' = "s1\<lparr>pg := ?p\<lparr>bitmap := mark (phys_no phys) (bitmap ?p)\<rparr>\<rparr>"
  note leaf = ustep_leaf [OF inv1 1(4) nw [unfolded vpage_def], where e = "phys OR ucast flags"
      and n = "phys_no phys"]
  have "MapPagePhysical_page bs virt phys flags s = Inr ?s'"
    using ram phys by (simp add: MapPagePhysical_page_def 1(1) table_set_def bitmap_or_phys)
  moreover have "ustep view s ?s' D {phys_no phys}" using ustep_trans [OF 1(2) leaf(1)] by simp
  ultimately show ?thesis using 1(3,5,6) leaf(2,3) by (intro that [of ?s' D]) (simp_all add: vpage_def)
qed

text \<open>Above 128 MiB the page is mapped and the mark falls outside the bitmap.\<close>

lemma MapPagePhysical_page_overrun:
  assumes mem: "efi_memory bs view" and inv: "page_inv (pg s)" and pool: "pool view s F" and fl: "ok_flags32 flags"
    and room: "finite F" "table_cost (pg s) virt \<le> card F" and phys: "0x8000000 \<le> phys"
  shows "MapPagePhysical_page bs virt phys flags s = Inl Overrun"
proof -
  obtain pt s1 D where 1: "Kernel_tables bs virt flags s = Inr (pt, s1)" "ustep view s s1 D {}"
    "vmap (pg s1) = vmap (pg s)" "tab (pg s1) (upper virt) = Some pt" "D \<subseteq> F" "card D \<le> table_cost (pg s) virt"
    by (rule Kernel_tables_ok [OF mem inv pool fl room])
  have "pt < ram_end (pg s1)" by (rule tab_ram [OF ustep_inv [OF 1(2)] 1(4)]) simp_all
  then show ?thesis
    using phys by (simp add: MapPagePhysical_page_def 1(1) table_set_def bitmap_or_phys)
qed

section \<open>Mapping a range\<close>

text \<open>The tables of a page are those of the page before it, unless its leaf index is 0.\<close>

lemma upper_next:
  assumes "PT_INDEX (x + 0x1000) \<noteq> 0"
  shows "upper (x + 0x1000) = upper x"
proof -
  have hi: "drop_bit 21 (x + 0x1000) = drop_bit 21 x"
  proof -
    let ?y = "unat (x + 0x1000)"
    have "unat (PT_INDEX (x + 0x1000)) = ?y div 0x1000 mod 512"
      by (simp add: PT_INDEX_def unsigned_ucast_eq drop_bit_eq_div take_bit_eq_mod unat_div)
    moreover have "unat (PT_INDEX (x + 0x1000)) \<noteq> 0" using assms by (simp add: unat_eq_zero)
    ultimately have nz: "?y div 0x1000 mod 512 \<noteq> 0" by simp
    then have "0x1000 \<le> ?y" by (cases "?y < 0x1000") auto
    moreover have "unat x < 18446744073709551616" using unsigned_less [of x] by simp
    ultimately have y: "?y = unat x + 0x1000"
      by (cases "unat x + 0x1000 < 18446744073709551616") (auto simp: unat_word_ariths mod_if split: if_splits)
    have "(unat x + 0x1000) div 4096 = Suc (unat x div 4096)" by simp
    then have "?y div (4096 * 512) = unat x div (4096 * 512)"
      using nz unfolding y div_mult2_eq by (simp add: div_Suc split: if_splits)
    then show ?thesis by (simp add: word_unat_eq_iff drop_bit_eq_div unat_div)
  qed
  have "drop_bit (21 + k) (x + 0x1000) = drop_bit (21 + k) x" for k
    using arg_cong [OF hi, of "drop_bit k"] by (simp add: drop_bit_drop_bit add.commute)
  from this [of 0] this [of 9] this [of 18] show ?thesis
    by (simp add: PMLT4_INDEX_def PDPT_INDEX_def PDT_INDEX_def)
qed

primrec range_cost :: "pstate \<Rightarrow> qword \<Rightarrow> nat \<Rightarrow> nat" where
  "range_cost s virt 0 = 0"
| "range_cost s virt (Suc n) = range_cost s virt n +
     (if n = 0 then table_cost s virt
      else if PT_INDEX (virt + of_nat n * 0x1000) = 0 then 3 else 0)"

definition range_mapped :: "pstate \<Rightarrow> pstate \<Rightarrow> qword \<Rightarrow> qword \<Rightarrow> dword \<Rightarrow> nat \<Rightarrow> bool" where
  "range_mapped s s' virt phys flags n \<longleftrightarrow>
     (\<forall>k < n. vmap s' (vp virt k) = (phys + of_nat k * 0x1000) OR ucast flags)
     \<and> (\<forall>v. (\<forall>k < n. v \<noteq> vp virt k) \<longrightarrow> vmap s' v = vmap s v)"

lemma phys_page:
  assumes "unat phys + Suc n * 0x1000 \<le> 0x8000000"
  shows "phys + of_nat n * 0x1000 < 0x8000000" and "phys_no (phys + of_nat n * 0x1000) = phys_no phys + n"
proof -
  have "unat (of_nat n * 0x1000 :: qword) = n * 0x1000"
    using assms unat_frame_of [of n] by (simp add: frame_of_mult [symmetric])
  then have u: "unat (phys + of_nat n * 0x1000) = unat phys + n * 0x1000"
    using assms by (subst unat_add_lem [THEN iffD1]) simp_all
  then show "phys + of_nat n * 0x1000 < 0x8000000" using assms by (simp add: word_less_nat_alt)
  show "phys_no (phys + of_nat n * 0x1000) = phys_no phys + n"
    using u by (simp add: drop_bit_eq_div unat_div)
qed

text \<open>The tables of page \<open>n\<close>, once the page before it is mapped.\<close>

lemma page_cost:
  assumes "n = 0 \<Longrightarrow> s1 = s" and "0 < n \<Longrightarrow> tab s1 (upper (virt + of_nat (n - 1) * 0x1000)) \<noteq> None"
  shows "range_cost s virt n + table_cost s1 (virt + of_nat n * 0x1000) \<le> range_cost s virt (Suc n)"
proof (cases "n = 0 \<or> PT_INDEX (virt + of_nat n * 0x1000) = 0")
  case True
  then show ?thesis using assms(1) by (cases n) (auto simp: table_cost_def)
next
  case False
  then obtain m where m: "n = Suc m" by (cases n) auto
  have next_page: "virt + of_nat n * 0x1000 = virt + of_nat m * 0x1000 + 0x1000"
    by (simp add: m algebra_simps)
  have "PT_INDEX (virt + of_nat m * 0x1000 + 0x1000) \<noteq> 0"
    using False unfolding next_page by simp
  from upper_next [OF this] have up: "upper (virt + of_nat n * 0x1000) = upper (virt + of_nat m * 0x1000)"
    unfolding next_page .
  have "table_cost s1 (virt + of_nat n * 0x1000) = 0"
    unfolding table_cost_def up using assms(2) m by simp
  then show ?thesis by simp
qed

lemma MapPagePhysical_loop:
  assumes mem: "efi_memory bs view" and inv: "page_inv (pg s)" and pool: "pool view s F" and fl: "ok_flags32 flags"
    and fin: "finite F"
  shows "range_cost (pg s) virt n \<le> card F \<Longrightarrow> unat phys + n * 0x1000 \<le> 0x8000000 \<Longrightarrow>
    F \<inter> {phys_no phys..<phys_no phys + n} = {} \<Longrightarrow> \<forall>k < n. vp virt k \<noteq> window_page \<Longrightarrow>
    \<exists>s' D. boot_loop (\<lambda>off. MapPagePhysical_page bs (virt + off) (phys + off) flags) n s = Inr s'
      \<and> ustep view s s' D {phys_no phys..<phys_no phys + n} \<and> range_mapped (pg s) (pg s') virt phys flags n
      \<and> D \<subseteq> F \<and> card D \<le> range_cost (pg s) virt n \<and> (n = 0 \<longrightarrow> s' = s)
      \<and> (0 < n \<longrightarrow> tab (pg s') (upper (virt + of_nat (n - 1) * 0x1000)) \<noteq> None)"
proof (induction n)
  case 0
  then show ?case using ustep_refl [OF inv, of view] by (intro exI [of _ s] exI [of _ "{}"]) (simp add: range_mapped_def)
next
  case (Suc n)
  let ?loop = "boot_loop (\<lambda>off. MapPagePhysical_page bs (virt + off) (phys + off) flags)"
  let ?virt = "virt + of_nat n * 0x1000" and ?phys = "phys + of_nat n * 0x1000"
  have disj: "F \<inter> {phys_no phys..<phys_no phys + n} = {}" using Suc.prems(3) by auto
  have bounds: "range_cost (pg s) virt n \<le> card F" "unat phys + n * 0x1000 \<le> 0x8000000" "n < 0x80000"
    using Suc.prems(1,2) by auto
  obtain s1 D where s1: "?loop n s = Inr s1" "ustep view s s1 D {phys_no phys..<phys_no phys + n}"
    "range_mapped (pg s) (pg s1) virt phys flags n" "D \<subseteq> F" "card D \<le> range_cost (pg s) virt n" "n = 0 \<longrightarrow> s1 = s"
    "0 < n \<longrightarrow> tab (pg s1) (upper (virt + of_nat (n - 1) * 0x1000)) \<noteq> None"
    using Suc.IH [OF bounds(1,2) disj] Suc.prems(4) by auto
  note ph = phys_page [OF Suc.prems(2)]
  have cost: "range_cost (pg s) virt n + table_cost (pg s1) ?virt \<le> range_cost (pg s) virt (Suc n)"
    by (rule page_cost) (use s1(6,7) in auto)
  have cardF: "card (F - D) = card F - card D" using s1(4) fin by (simp add: card_Diff_subset finite_subset)
  have room: "table_cost (pg s1) ?virt \<le> card (F - D)" using cost s1(5) Suc.prems(1) cardF by linarith
  have nw: "vpage ?virt \<noteq> window_page" using Suc.prems(4) by (simp add: vp_def)
  obtain s' E where s': "MapPagePhysical_page bs ?virt ?phys flags s1 = Inr s'" "ustep view s1 s' E {phys_no ?phys}"
    "vmap (pg s') = (vmap (pg s1))(vpage ?virt := ?phys OR ucast flags)" "tab (pg s') (upper ?virt) \<noteq> None"
    "E \<subseteq> F - D" "card E \<le> table_cost (pg s1) ?virt"
    by (rule MapPagePhysical_page_ok [OF mem ustep_inv [OF s1(2)] pool_ustep [OF pool s1(2) disj] fl _ room nw ph(1)])
      (use fin in auto)
  have "{phys_no phys..<phys_no phys + n} \<union> {phys_no ?phys} = {phys_no phys..<phys_no phys + Suc n}"
    unfolding ph(2) by auto
  then have step: "ustep view s s' (D \<union> E) {phys_no phys..<phys_no phys + Suc n}"
    using ustep_trans [OF s1(2) s'(2)] by (simp only:)
  have range: "range_mapped (pg s) (pg s') virt phys flags (Suc n)"
    using s1(3) vp_fresh(2) [OF _ bounds(3), of _ virt] unfolding range_mapped_def s'(3) vp_def [symmetric]
    by (auto simp: less_Suc_eq)
  have "card (D \<union> E) \<le> range_cost (pg s) virt (Suc n)" using card_Un_le [of D E] s1(5) s'(6) cost by linarith
  moreover have "?loop (Suc n) s = Inr s'" using s1(1) s'(1) by simp
  ultimately show ?case
    using step range s1(4) s'(4,5) by (intro exI [of _ s'] exI [of _ "D \<union> E"]) auto
qed

lemma MapPagePhysical_ok:
  assumes mem: "efi_memory bs view" and inv: "page_inv (pg s)" and pool: "pool view s F" and fl: "ok_flags32 flags"
    and room: "finite F" "range_cost (pg s) virt (page_count sz) \<le> card F"
    and phys: "unat phys + page_count sz * 0x1000 \<le> 0x8000000"
    and disj: "F \<inter> {phys_no phys..<phys_no phys + page_count sz} = {}"
    and nw: "\<forall>k < page_count sz. vp virt k \<noteq> window_page"
  obtains s' D where "Kernel_MapPagePhysical bs virt phys sz flags s = Inr s'"
    and "ustep view s s' D {phys_no phys..<phys_no phys + page_count sz}"
    and "range_mapped (pg s) (pg s') virt phys flags (page_count sz)"
    and "D \<subseteq> F" and "card D \<le> range_cost (pg s) virt (page_count sz)"
  using MapPagePhysical_loop [OF mem inv pool fl room(1,2) phys disj nw, folded Kernel_MapPagePhysical_def]
  by (elim exE conjE) (rule that)

end
