(* ===== verification/Uefi_Load.thy ===== *)
theory Uefi_Load
  imports Uefi_Map
begin

text \<open>
  \<open>boot/UEFI/main.c\<close>: bytes in memory, and what \<open>LoadKernel\<close> and \<open>efi_main\<close> leave to the
  kernel when the firmware does what the specification says.
\<close>

section \<open>Bytes of memory\<close>

lemma put_byte_simps [simp]:
  "pmlt4 (put_byte a b s) = pmlt4 s" "frame_pt (put_byte a b s) = frame_pt s"
  "bitmap_addr (put_byte a b s) = bitmap_addr s" "ram_end (put_byte a b s) = ram_end s"
  "bitmap (put_byte a b s) = bitmap s"
  by (simp_all add: put_byte_def Let_def)

lemma put_bytes_simps [simp]:
  "pmlt4 (put_bytes a bs s) = pmlt4 s" "frame_pt (put_bytes a bs s) = frame_pt s"
  "bitmap_addr (put_bytes a bs s) = bitmap_addr s" "ram_end (put_bytes a bs s) = ram_end s"
  "bitmap (put_bytes a bs s) = bitmap s"
  by (induction bs arbitrary: a s) simp_all

lemma length_bytes_of [simp]: "length (bytes_of n w) = n"
  by (simp add: bytes_of_def)

text \<open>The address of a byte: its frame, its entry and its place in the entry.\<close>

lemma byte_address_eq:
  assumes "x AND NOT 0xFFF = a AND NOT 0xFFF" and "(ucast (drop_bit 3 x) :: pt_index) = ucast (drop_bit 3 a)"
    and "x AND 7 = (a :: qword) AND 7"
  shows "x = a"
proof (rule bit_eqI)
  fix i assume "possible_bit TYPE(64 word) i"
  then have i: "i < 64" by simp
  have m: "(0xFFF :: qword) = mask 12" "(7 :: qword) = mask 3" by (simp_all add: mask_eq_exp_minus_1)
  consider "i < 3" | "3 \<le> i" "i < 12" | "12 \<le> i" by linarith
  then show "bit x i = bit a i"
  proof cases
    case 1
    then show ?thesis using arg_cong [OF assms(3), of "\<lambda>w. bit w i"] unfolding m by (simp add: bit_simps)
  next
    case 2
    then have "i - 3 < 9" by linarith
    then show ?thesis using 2 arg_cong [OF assms(2), of "\<lambda>w. bit w (i - 3)"] by (simp add: bit_simps)
  next
    case 3
    then show ?thesis using i arg_cong [OF assms(1), of "\<lambda>w. bit w i"] unfolding m by (auto simp: bit_simps)
  qed
qed

lemma byte_field:
  fixes k j :: nat and w :: qword
  assumes "k < 8" and "j < 8"
  shows "(ucast (drop_bit (8 * j) ((w AND NOT (push_bit (8 * k) 0xFF)) OR push_bit (8 * k) (ucast (b :: byte)))) :: byte)
     = (if j = k then b else ucast (drop_bit (8 * j) w))"
proof (rule bit_eqI)
  fix i assume "possible_bit TYPE(8 word) i"
  then have i: "i < 8" by simp
  have m: "(0xFF :: qword) = mask 8" by (simp add: mask_eq_exp_minus_1)
  consider "j < k" | "j = k" | "k < j" by linarith
  then show "bit (ucast (drop_bit (8 * j) ((w AND NOT (push_bit (8 * k) 0xFF)) OR push_bit (8 * k) (ucast b))) :: byte) i
     = bit (if j = k then b else ucast (drop_bit (8 * j) w)) i"
  proof cases
    case 1
    then have "8 * j + i < 8 * k" using i by linarith
    then show ?thesis using 1 i assms unfolding m by (simp add: bit_simps)
  next
    case 2
    then show ?thesis using i assms unfolding m by (simp add: bit_simps)
  next
    case 3
    then have "8 \<le> 8 * j + i - 8 * k" by linarith
    then have "\<not> bit b (8 * j + i - 8 * k)" using bit_imp_le_length [of b "8 * j + i - 8 * k"] by force
    then show ?thesis using 3 i assms unfolding m by (auto simp: bit_simps)
  qed
qed

lemma get_put_byte: "get_byte x (put_byte a b s) = (if x = a then b else get_byte x s)"
proof -
  have lt: "unat (y AND 7) < 8" for y :: qword
    using word_and_le1 [of y 7] by (simp add: word_le_nat_alt)
  show ?thesis
  proof (cases "x AND NOT 0xFFF = a AND NOT 0xFFF \<and> (ucast (drop_bit 3 x) :: pt_index) = ucast (drop_bit 3 a)")
    case True
    then have "x = a \<longleftrightarrow> unat (x AND 7) = unat (a AND 7)"
      using byte_address_eq [of x a] by (metis word_unat_eq_iff)
    then show ?thesis
      using True byte_field [OF lt [of a] lt [of x], of "pmem s (a AND NOT 0xFFF) (ucast (drop_bit 3 a))" b]
      by (simp add: get_byte_def put_byte_def Let_def)
  next
    case False
    then show ?thesis by (auto simp: get_byte_def put_byte_def Let_def)
  qed
qed

lemma get_put_bytes:
  "length bs < 2 ^ 64 \<Longrightarrow>
   get_byte x (put_bytes a bs s) = (if unat (x - a) < length bs then bs ! unat (x - a) else get_byte x s)"
proof (induction bs arbitrary: a s)
  case (Cons b bs)
  show ?case
  proof (cases "x = a")
    case True
    have "unat (- 1 :: qword) = 2 ^ 64 - 1" by (simp add: unsigned_minus_1_eq_mask mask_eq_exp_minus_1)
    then show ?thesis using Cons True by (simp add: get_put_byte)
  next
    case False
    then have "x - a \<noteq> 0" by simp
    then have "unat (x - a - 1) = unat (x - a) - 1" "unat (x - a) \<noteq> 0"
      by (simp_all only: unat_minus_one unat_eq_zero not_False_eq_True)
    then have "unat (x - a) = Suc (unat (x - (a + 1)))" by (simp add: diff_diff_eq)
    then show ?thesis using Cons False by (simp add: get_put_byte)
  qed
qed simp

lemma get_byte_frame: "pmem s' (a AND NOT 0xFFF) = pmem s (a AND NOT 0xFFF) \<Longrightarrow> get_byte a s' = get_byte a s"
  by (simp add: get_byte_def)

lemma frame_at: "a AND NOT 0xFFF = frame_of (phys_no a)"
proof -
  have m: "(0xFFF :: qword) = mask 12" by (simp add: mask_eq_exp_minus_1)
  have "a AND NOT (mask 12) = push_bit 12 (drop_bit 12 a)"
    by (rule bit_eqI) (auto simp: bit_simps)
  then show ?thesis by (simp only: m frame_of_def of_nat_unat ucast_id)
qed

text \<open>Writing bytes touches only the frames they lie in.\<close>

lemma put_bytes_frame:
  "(\<And>i. i < length bs \<Longrightarrow> f \<noteq> frame_of (phys_no (a + of_nat i))) \<Longrightarrow> pmem (put_bytes a bs s) f = pmem s f"
proof (induction bs arbitrary: a s)
  case (Cons b bs)
  have "f \<noteq> frame_of (phys_no (a + 1 + of_nat i))" if "i < length bs" for i
    using Cons.prems [of "Suc i"] that by (simp add: algebra_simps)
  then have "pmem (put_bytes (a + 1) bs (put_byte a b s)) f = pmem (put_byte a b s) f" by (rule Cons.IH)
  moreover have "f \<noteq> a AND NOT 0xFFF" using Cons.prems [of 0] unfolding frame_at by simp
  ultimately show ?case by (simp add: put_byte_def Let_def fun_eq_iff)
qed simp

lemma phys_no_add:
  assumes "unat a + i < 2 ^ 64"
  shows "phys_no (a + of_nat i) = (unat a + i) div 0x1000"
proof -
  have "unat (of_nat i :: qword) = i" using assms by (simp add: unsigned_of_nat take_bit_nat_eq_self)
  then have "unat (a + of_nat i) = unat a + i" using assms by (subst unat_add_lem [THEN iffD1]) simp_all
  then show ?thesis by (simp add: drop_bit_eq_div unat_div)
qed

section \<open>The state while loading\<close>

text \<open>
  The kernel's tables are where the kernel expects them, the pool is \<open>F\<close>, and the tables
  lie below \<open>0x15000\<close>.
\<close>

definition low_tables :: "nat set" where
  "low_tables = {1..5} \<union> {7..0x14}"

definition loading :: "('fw \<Rightarrow> efi_view) \<Rightarrow> nat set \<Rightarrow> 'fw ustate \<Rightarrow> bool" where
  "loading view F s \<longleftrightarrow> page_inv (pg s) \<and> pool view s F \<and> F \<subseteq> {7..0x14} \<and> tabs_in (pg s) low_tables
     \<and> pmlt4 (pg s) = PMLT4_ADDRESS \<and> frame_pt (pg s) = FRAME_PT_ADDRESS
     \<and> bitmap_addr (pg s) = PAGE_BITMAP_ADDRESS"

lemma loadingD:
  assumes "loading view F s"
  shows "page_inv (pg s)" and "pool view s F" and "F \<subseteq> {7..0x14}" and "tabs_in (pg s) low_tables"
    and "pmlt4 (pg s) = PMLT4_ADDRESS" and "frame_pt (pg s) = FRAME_PT_ADDRESS"
    and "bitmap_addr (pg s) = PAGE_BITMAP_ADDRESS"
    and "finite F"
  using assms finite_subset [of F "{7..0x14}"] by (auto simp: loading_def)

text \<open>A frame above the tables is not one of them.\<close>

lemma high_not_tab:
  assumes "loading view F s" and "0x15 \<le> n" and "n < 32768" and "length p \<le> 3"
  shows "tab (pg s) p \<noteq> Some (frame_of n)"
proof
  assume "tab (pg s) p = Some (frame_of n)"
  then have "frame_of n \<in> frame_of ` low_tables"
    using loadingD(4) [OF assms(1)] assms(4) by (auto simp: tabs_in_def)
  then obtain m where "m \<in> low_tables" "frame_of n = frame_of m" by blast
  moreover from this have "m < 0x15" by (auto simp: low_tables_def)
  ultimately show False using assms(2,3) by simp
qed

lemma loading_fw:
  assumes "loading view F s" and "F \<subseteq> free_pages (view w)"
  shows "loading view F (s\<lparr>fw := w\<rparr>)"
  using assms by (auto simp: loading_def pool_def)

text \<open>Reading a file into frames above the tables.\<close>

lemma loading_put_mem:
  assumes l: "loading view F s" and a: "0x15000 \<le> unat a" "unat a + length bs \<le> 0x8000000"
  shows "put_mem a bs s = Inr (s\<lparr>pg := put_bytes a bs (pg s)\<rparr>)"
    and "loading view F (s\<lparr>pg := put_bytes a bs (pg s)\<rparr>)"
    and "vmap (put_bytes a bs (pg s)) = vmap (pg s)"
    and "length p \<le> 3 \<Longrightarrow> tab (put_bytes a bs (pg s)) p = tab (pg s) p"
proof -
  have ram: "0x8000000 \<le> ram_end (pg s)" by (rule page_inv_ram [OF loadingD(1) [OF l]])
  have "unat a \<le> 0x8000000" using a by simp
  then have le: "a \<le> ram_end (pg s)" "unat (ram_end (pg s) - a) = unat (ram_end (pg s)) - unat a"
    using ram by (simp_all add: word_le_nat_alt unat_sub)
  then show "put_mem a bs s = Inr (s\<lparr>pg := put_bytes a bs (pg s)\<rparr>)"
    using a(2) ram by (simp add: put_mem_def word_le_nat_alt)
  have fr: "pmem (put_bytes a bs (pg s)) f = pmem (pg s) f" if f: "length p \<le> 3" "tab (pg s) p = Some f" for p f
  proof (rule put_bytes_frame)
    fix i assume i: "i < length bs"
    then have "0x15 \<le> (unat a + i) div 0x1000" "(unat a + i) div 0x1000 < 32768" using a by linarith+
    moreover have "unat a + i < 2 ^ 64" using i a(2) by simp
    ultimately show "f \<noteq> frame_of (phys_no (a + of_nat i))"
      using high_not_tab [OF l _ _ f(1)] f(2) by (simp only: phys_no_add) metis
  qed
  note inv = loadingD(1) [OF l]
  have e: "ext (pg s) (put_bytes a bs (pg s))"
    by (rule ext_frame [OF inv]) (auto dest: fr)
  show tabs: "tab (put_bytes a bs (pg s)) p = tab (pg s) p" if "length p \<le> 3" for p
    by (rule ext_frame(2) [OF inv _ _ _ _ _ _ that]) (auto dest: fr)
  show "vmap (put_bytes a bs (pg s)) = vmap (pg s)" using e by (simp add: ext_def)
  show "loading view F (s\<lparr>pg := put_bytes a bs (pg s)\<rparr>)"
    using l e tabs by (simp add: loading_def ext_def pool_def tabs_in_def)
qed

text \<open>\<open>above s s'\<close>: the frames above the tables hold the same in both states.\<close>

definition above :: "pstate \<Rightarrow> pstate \<Rightarrow> bool" where
  "above s s' \<longleftrightarrow> (\<forall>n. 0x15 \<le> n \<longrightarrow> n < 32768 \<longrightarrow> pmem s' (frame_of n) = pmem s (frame_of n))"

text \<open>From \<open>s\<close> to \<open>s'\<close> the frames of \<open>M\<close> are marked, and besides them only frames for tables.\<close>

definition marked :: "nat set \<Rightarrow> pstate \<Rightarrow> pstate \<Rightarrow> bool" where
  "marked M s s' \<longleftrightarrow> (\<forall>n. used_no (bitmap s) n \<or> n \<in> M \<longrightarrow> used_no (bitmap s') n)
     \<and> (\<forall>n. used_no (bitmap s') n \<longrightarrow> used_no (bitmap s) n \<or> n \<in> M \<or> n \<in> {7..0x14})"

lemma marked_trans: "marked M s s' \<Longrightarrow> marked N s' s'' \<Longrightarrow> marked (M \<union> N) s s''"
  unfolding marked_def by blast

lemma marked_put_bytes [simp]: "marked M (put_bytes a bs s) s' \<longleftrightarrow> marked M s s'"
  by (simp add: marked_def)

lemma ok_flags_3: "ok_flags32 3"
  by (simp add: ok_flags32_def)

lemma loading_map:
  assumes mem: "efi_memory bs view" and l: "loading view F s"
    and cost: "range_cost (pg s) virt (page_count sz) \<le> card F"
    and phys: "0x15 \<le> phys_no phys" "unat phys + page_count sz * 0x1000 \<le> 0x8000000"
    and nw: "\<forall>k < page_count sz. vp virt k \<noteq> window_page"
  obtains s' F' where "Kernel_MapPagePhysical bs virt phys sz 3 s = Inr s'" and "loading view F' s'" and "F' \<subseteq> F"
    and "card F \<le> card F' + range_cost (pg s) virt (page_count sz)"
    and "range_mapped (pg s) (pg s') virt phys 3 (page_count sz)" and "above (pg s) (pg s')"
    and "marked {phys_no phys..<phys_no phys + page_count sz} (pg s) (pg s')"
    and "view (fw s') = (view (fw s))\<lparr>free_pages := free_pages (view (fw s)) - (F - F')\<rparr>"
    and "\<forall>p f. length p \<le> 3 \<longrightarrow> tab (pg s) p = Some f \<longrightarrow> tab (pg s') p = Some f"
proof -
  note L = loadingD [OF l]
  have disj: "F \<inter> {phys_no phys..<phys_no phys + page_count sz} = {}" using L(3) phys(1) by auto
  obtain s' D where s': "Kernel_MapPagePhysical bs virt phys sz 3 s = Inr s'"
    "ustep view s s' D {phys_no phys..<phys_no phys + page_count sz}"
    "range_mapped (pg s) (pg s') virt phys 3 (page_count sz)" "D \<subseteq> F" "card D \<le> range_cost (pg s) virt (page_count sz)"
    by (rule MapPagePhysical_ok [OF mem L(1,2) ok_flags_3 L(8) cost phys(2) disj nw])
  note u = ustepD [OF s'(2)]
  have "low_tables \<union> D = low_tables" using s'(4) L(3) by (auto simp: low_tables_def)
  then have "tabs_in (pg s') low_tables" using u(10) [OF L(4)] by simp
  then have l': "loading view (F - D) s'"
    using u(1,3,4,5) pool_ustep [OF L(2) s'(2) disj] L(3,5,6,7) by (auto simp: loading_def)
  have "above (pg s) (pg s')"
    unfolding above_def using u(11) high_not_tab [OF l'] by blast
  moreover have "card F \<le> card (F - D) + range_cost (pg s) virt (page_count sz)"
    using s'(4,5) L(8) by (simp add: card_Diff_subset finite_subset)
  moreover have "F - (F - D) = D" using s'(4) by blast
  moreover have "marked {phys_no phys..<phys_no phys + page_count sz} (pg s) (pg s')"
    using u(8) s'(4) L(3) unfolding marked_def by blast
  ultimately show ?thesis using s'(1,3) l' u(7,9) by (intro that [of s' "F - D"]) auto
qed

section \<open>The files and the other services\<close>

text \<open>
  \<open>Open\<close> gives a new handle at the start of the file, \<open>Read\<close> the bytes from the position
  on and moves it, \<open>GetInfo\<close> the size; a pool of memory and the volume are to be had.
  None of these services takes pages from the free ones.
\<close>

definition efi_files :: "'fw boot_services \<Rightarrow> ('fw \<Rightarrow> efi_view) \<Rightarrow> (string \<Rightarrow> byte list option) \<Rightarrow> bool" where
  "efi_files bs view files \<longleftrightarrow>
     (\<forall>x w. gives (OpenVolume bs x) w (\<lambda>_ w'. view w' = view w))
   \<and> (\<forall>root name data w. files name = Some data \<longrightarrow> gives (Open bs root name) w (\<lambda>f w'.
        view w' = (view w)\<lparr>opened := (opened (view w))(f \<mapsto> (data, 0))\<rparr>))
   \<and> (\<forall>f n w data pos. opened (view w) f = Some (data, pos) \<longrightarrow> gives (Read bs f n) w (\<lambda>bytes w'.
        bytes = take (unat n) (drop pos data)
        \<and> view w' = (view w)\<lparr>opened := (opened (view w))(f \<mapsto> (data, min (pos + unat n) (length data)))\<rparr>))
   \<and> (\<forall>f b w data pos. opened (view w) f = Some (data, pos) \<longrightarrow> gives (GetFileSize bs f b) w (\<lambda>n w'.
        n = of_nat (length data) \<and> view w' = view w))
   \<and> (\<forall>n w. gives (AllocatePool bs n) w (\<lambda>_ w'. view w' = view w))
   \<and> (\<forall>b w. gives (FreePool bs b) w (\<lambda>_ w'. view w' = view w))"

lemma efi_filesD:
  assumes "efi_files bs view files"
  shows "gives (OpenVolume bs x) w (\<lambda>_ w'. view w' = view w)"
    and "files name = Some data \<Longrightarrow> gives (Open bs root name) w (\<lambda>f w'.
        view w' = (view w)\<lparr>opened := (opened (view w))(f \<mapsto> (data, 0))\<rparr>)"
    and "opened (view w) f = Some (data, pos) \<Longrightarrow> gives (Read bs f n) w (\<lambda>bytes w'.
        bytes = take (unat n) (drop pos data)
        \<and> view w' = (view w)\<lparr>opened := (opened (view w))(f \<mapsto> (data, min (pos + unat n) (length data)))\<rparr>)"
    and "opened (view w) f = Some (data, pos) \<Longrightarrow> gives (GetFileSize bs f b) w (\<lambda>n w'.
        n = of_nat (length data) \<and> view w' = view w)"
    and "gives (AllocatePool bs n) w (\<lambda>_ w'. view w' = view w)"
    and "gives (FreePool bs b) w (\<lambda>_ w'. view w' = view w)"
  using assms unfolding efi_files_def by simp_all

text \<open>
  \<open>AllocatePages\<close> at any address takes a run of free pages; this firmware takes one between
  the frames \<open>lo\<close> and \<open>hi\<close> when there is one.
\<close>

definition free_run :: "nat set \<Rightarrow> nat \<Rightarrow> nat \<Rightarrow> nat \<Rightarrow> nat \<Rightarrow> bool" where
  "free_run fp lo hi k m \<longleftrightarrow> lo \<le> m \<and> m + k \<le> hi \<and> {m..<m + k} \<subseteq> fp"

definition efi_places :: "'fw boot_services \<Rightarrow> ('fw \<Rightarrow> efi_view) \<Rightarrow> nat \<Rightarrow> nat \<Rightarrow> bool" where
  "efi_places bs view lo hi \<longleftrightarrow> (\<forall>k a w. (\<exists>m. free_run (free_pages (view w)) lo hi (unat k) m) \<longrightarrow>
     gives (AllocatePages bs AllocateAnyPages k a) w (\<lambda>p w'. \<exists>m. p = frame_of m
       \<and> free_run (free_pages (view w)) lo hi (unat k) m
       \<and> view w' = (view w)\<lparr>free_pages := free_pages (view w) - {m..<m + unat k}\<rparr>))"

lemma GetRoot_ok:
  assumes "efi_protocols bs view" and "efi_files bs view files"
  obtains root w where "GetRoot bs h s = Inr (root, s\<lparr>fw := w\<rparr>)" and "view w = view (fw s)"
proof -
  have P: "gives (HandleProtocol bs x y) w (\<lambda>_ w'. view w' = view w)" for x y w
    using assms(1) by (simp add: efi_protocols_def)
  obtain a w where 1: "CHECK_ERROR (HandleProtocol bs h LoadedImage) s = Inr (a, s\<lparr>fw := w\<rparr>)" "view w = view (fw s)"
    by (rule givesE [OF P])
  let ?s1 = "s\<lparr>fw := w\<rparr>"
  obtain b w2 where 2: "CHECK_ERROR (HandleProtocol bs (DeviceHandle bs a (fw ?s1)) SimpleFileSystem) ?s1
      = Inr (b, ?s1\<lparr>fw := w2\<rparr>)" "view w2 = view (fw ?s1)"
    by (rule givesE [OF P])
  let ?s2 = "?s1\<lparr>fw := w2\<rparr>"
  obtain c w3 where 3: "CHECK_ERROR (OpenVolume bs b) ?s2 = Inr (c, ?s2\<lparr>fw := w3\<rparr>)" "view w3 = view (fw ?s2)"
    by (rule givesE [OF efi_filesD(1) [OF assms(2)]])
  show ?thesis using 1 2 3 by (intro that [of c w3]) (simp_all add: GetRoot_def)
qed

lemma OpenFile_ok:
  assumes "efi_files bs view files" and "files name = Some data"
  obtains f w where "OpenFile bs root name s = Inr (f, s\<lparr>fw := w\<rparr>)"
    and "view w = (view (fw s))\<lparr>opened := (opened (view (fw s)))(f \<mapsto> (data, 0))\<rparr>"
  by (rule givesE [OF efi_filesD(2) [OF assms]]) (use that in \<open>auto simp: OpenFile_def\<close>)

lemma read_to_ok:
  assumes "efi_files bs view files" and "opened (view (fw s)) f = Some (data, pos)"
  obtains w where "read_to bs f n a s = put_mem a (take (unat n) (drop pos data)) (s\<lparr>fw := w\<rparr>)"
    and "view w = (view (fw s))\<lparr>opened := (opened (view (fw s)))(f \<mapsto> (data, min (pos + unat n) (length data)))\<rparr>"
  by (rule givesE [OF efi_filesD(3) [OF assms, where n = n]]) (use that in \<open>auto simp: read_to_def\<close>)

text \<open>A field read back from the bytes of a file.\<close>

lemma get_qword_file:
  assumes "\<forall>i < 8. get_byte (a + of_nat i) s = data ! (k + i)"
  shows "get_qword a s = le64 data k"
proof -
  have "[get_byte (a + of_nat i) s. i \<leftarrow> [0..<8]] = [data ! (k + i). i \<leftarrow> [0..<8]]"
    using assms by auto
  moreover have "le64 [data ! (k + i). i \<leftarrow> [0..<8]] 0 = le64 data k"
    by (simp add: le64_def le32_def le16_def add.commute)
  ultimately show ?thesis unfolding get_qword_def by (simp only:)
qed

section \<open>The kernel image\<close>

abbreviation kernel_virt :: qword where "kernel_virt \<equiv> 0xFFFFFFFF80100000"

lemma kernel_virt_add: "k < 0x7FF00 \<Longrightarrow> unat (kernel_virt + of_nat k * 0x1000) = 0xFFFFFFFF80100000 + k * 0x1000"
proof -
  assume k: "k < 0x7FF00"
  have "k * 0x1000 < 2 ^ LENGTH(64)" using k by simp
  then have "unat (of_nat (k * 0x1000) :: qword) = k * 0x1000"
    by (simp only: unsigned_of_nat take_bit_nat_eq_self of_nat_id)
  then have u: "unat (of_nat k * 0x1000 :: qword) = k * 0x1000" by simp
  show ?thesis using k by (subst unat_add_lem [THEN iffD1]) (simp_all add: u)
qed

lemma kernel_index:
  assumes "k < 0x7FF00"
  shows "PMLT4_INDEX (kernel_virt + of_nat k * 0x1000) = 511"
    and "PT_INDEX (kernel_virt + of_nat k * 0x1000) = 0 \<longleftrightarrow> (k + 256) mod 512 = 0"
proof -
  note u = kernel_virt_add [OF assms]
  have "(0xFFFFFFFF80100000 + k * 0x1000) div 2 ^ 39 = 33554431" by (rule div_nat_eqI) (use assms in auto)
  then have "unat (PMLT4_INDEX (kernel_virt + of_nat k * 0x1000)) = 511"
    by (simp add: PMLT4_INDEX_def unsigned_ucast_eq drop_bit_eq_div take_bit_eq_mod unat_div u)
  then show "PMLT4_INDEX (kernel_virt + of_nat k * 0x1000) = 511"
    by (simp add: word_unat_eq_iff)
  have "(0xFFFFFFFF80100000 + k * 0x1000) div 0x1000 = (k + 256) + 0x7FFFFFFFC00 * 512"
    by (rule div_nat_eqI) simp_all
  then have "(0xFFFFFFFF80100000 + k * 0x1000) div 0x1000 mod 512 = (k + 256) mod 512"
    by (simp only: mod_mult_self1)
  then have "unat (PT_INDEX (kernel_virt + of_nat k * 0x1000)) = (k + 256) mod 512"
    by (simp add: PT_INDEX_def unsigned_ucast_eq drop_bit_eq_div take_bit_eq_mod unat_div u)
  then show "PT_INDEX (kernel_virt + of_nat k * 0x1000) = 0 \<longleftrightarrow> (k + 256) mod 512 = 0"
    by (simp add: word_unat_eq_iff)
qed

text \<open>Up to three mebibytes of kernel need at most six tables.\<close>

lemma range_cost_le: "range_cost s virt n \<le> 3 + 3 * card {k. 0 < k \<and> k < n \<and> PT_INDEX (virt + of_nat k * 0x1000) = 0}"
proof (induction n)
  case (Suc n)
  let ?A = "\<lambda>n. {k. 0 < k \<and> k < n \<and> PT_INDEX (virt + of_nat k * 0x1000) = 0}"
  have "?A (Suc n) = (if 0 < n \<and> PT_INDEX (virt + of_nat n * 0x1000) = 0 then insert n (?A n) else ?A n)"
    by (auto simp: less_Suc_eq)
  moreover have "n \<notin> ?A n" "finite (?A n)" by simp_all
  ultimately show ?case using Suc by (auto simp: table_cost_def)
qed simp

lemma kernel_cost: "n \<le> 768 \<Longrightarrow> range_cost s kernel_virt n \<le> 6"
proof -
  assume n: "n \<le> 768"
  have "{k. 0 < k \<and> k < n \<and> PT_INDEX (kernel_virt + of_nat k * 0x1000) = 0} \<subseteq> {256}"
  proof
    fix k assume "k \<in> {k. 0 < k \<and> k < n \<and> PT_INDEX (kernel_virt + of_nat k * 0x1000) = 0}"
    then have "(k + 256) mod 512 = 0" "0 < k" "k < 768" using n kernel_index(2) [of k] by auto
    then have "k = 256" by presburger
    then show "k \<in> {256}" by simp
  qed
  then have "card {k. 0 < k \<and> k < n \<and> PT_INDEX (kernel_virt + of_nat k * 0x1000) = 0} \<le> 1"
    using card_mono [of "{256 :: nat}"] by simp
  then show ?thesis using range_cost_le [of s kernel_virt n] by linarith
qed

lemma kernel_page: "k < 0x7FF00 \<Longrightarrow> vp kernel_virt k \<noteq> window_page"
  using kernel_index(1) [of k] by (simp add: vp_def vpage_def window_page_def)

lemma page_count_file:
  assumes "len \<le> 0x300000"
  shows "page_count (of_nat len + 256) \<le> 769" and "unat (of_nat len + 256 :: qword) = len + 256"
    and "1 \<le> page_count (of_nat len + 256)" and "len \<le> page_count (of_nat len + 256) * 0x1000"
proof -
  show u: "unat (of_nat len + 256 :: qword) = len + 256"
    using assms by (simp add: unat_word_ariths unsigned_of_nat take_bit_nat_eq_self)
  have c: "page_count x = unat x div 0x1000 + (if unat x mod 0x1000 > 0 then 1 else 0)" if "unat x < 2 ^ 60" for x :: qword
  proof -
    have "x mod 0x1000 > 0 \<longleftrightarrow> unat x mod 0x1000 > 0" by (simp add: word_less_nat_alt unat_mod)
    moreover have "unat (x div 0x1000 + 1) = unat x div 0x1000 + 1"
      using that by (simp add: unat_word_ariths unat_div)
    ultimately show ?thesis by (simp add: page_count_def unat_div)
  qed
  have "page_count (of_nat len + 256) = (len + 256) div 0x1000 + (if (len + 256) mod 0x1000 > 0 then 1 else 0)"
    using c [of "of_nat len + 256"] assms u by simp
  then show "page_count (of_nat len + 256) \<le> 769" "1 \<le> page_count (of_nat len + 256)"
    "len \<le> page_count (of_nat len + 256) * 0x1000"
    using assms by (auto split: if_splits)
qed

text \<open>The bytes of a file at an address, and what keeps them there.\<close>

definition file_at :: "qword \<Rightarrow> byte list \<Rightarrow> pstate \<Rightarrow> bool" where
  "file_at a data s \<longleftrightarrow> (\<forall>i < length data. get_byte (a + of_nat i) s = data ! i)"

lemma file_at_put:
  assumes "length data < 2 ^ 64"
  shows "file_at a data (put_bytes a data s)"
proof -
  have "unat (of_nat i :: qword) = i" if "i < length data" for i
    using assms that by (simp add: unsigned_of_nat take_bit_nat_eq_self)
  then show ?thesis by (simp add: file_at_def get_put_bytes [OF assms])
qed

lemma file_at_field: "file_at a data s \<Longrightarrow> k + 8 \<le> length data \<Longrightarrow> get_qword (a + of_nat k) s = le64 data k"
  by (rule get_qword_file) (simp add: file_at_def add.assoc flip: of_nat_add)

lemma file_at_frames:
  assumes "file_at a data s" and "unat a + length data \<le> 0x8000000"
    and "\<And>n. unat a div 0x1000 \<le> n \<Longrightarrow> n * 0x1000 < unat a + length data \<Longrightarrow> pmem s' (frame_of n) = pmem s (frame_of n)"
  shows "file_at a data s'"
  unfolding file_at_def
proof (intro allI impI)
  fix i assume i: "i < length data"
  have "phys_no (a + of_nat i) = (unat a + i) div 0x1000" using i assms(2) by (intro phys_no_add) simp
  moreover have "unat a div 0x1000 \<le> (unat a + i) div 0x1000" by (rule div_le_mono) simp
  moreover have "(unat a + i) div 0x1000 * 0x1000 < unat a + length data"
    using i div_times_less_eq_dividend [of "unat a + i" "0x1000"] by linarith
  ultimately have "pmem s' ((a + of_nat i) AND NOT 0xFFF) = pmem s ((a + of_nat i) AND NOT 0xFFF)"
    using assms(3) unfolding frame_at by metis
  then have "get_byte (a + of_nat i) s' = get_byte (a + of_nat i) s" by (rule get_byte_frame)
  with assms(1) i show "get_byte (a + of_nat i) s' = data ! i" by (simp add: file_at_def)
qed

lemma file_at_above:
  assumes "file_at a data s" and "above s s'" and "0x15000 \<le> unat a" and "unat a + length data \<le> 0x8000000"
  shows "file_at a data s'"
proof (rule file_at_frames [OF assms(1,4)])
  fix n assume "unat a div 0x1000 \<le> n" "n * 0x1000 < unat a + length data"
  then have "0x15 \<le> n" "n < 32768" using assms(3,4) by linarith+
  then show "pmem s' (frame_of n) = pmem s (frame_of n)" using assms(2) by (simp add: above_def)
qed

text \<open>The pages of the kernel are allocated, read and mapped.\<close>

lemma alloc_range_ok:
  assumes "efi_memory bs view" and "n < 32768" and "{n..<n + unat k} \<subseteq> free_pages (view (fw s))"
  obtains w where "CHECK_ERROR (AllocatePages bs AllocateAddress k (frame_of n)) s = Inr (frame_of n, s\<lparr>fw := w\<rparr>)"
    and "view w = (view (fw s))\<lparr>free_pages := free_pages (view (fw s)) - {n..<n + unat k}\<rparr>"
proof -
  have "gives (AllocatePages bs AllocateAddress k (frame_of n)) (fw s) (\<lambda>a w'. a = frame_of n
      \<and> view w' = (view (fw s))\<lparr>free_pages := free_pages (view (fw s)) - {n..<n + unat k}\<rparr>)"
    using assms(1) [unfolded efi_memory_def, THEN conjunct1, rule_format, OF assms(2), of k "fw s"] assms(3)
    by (auto simp: gives_def Let_def split: prod.splits)
  from givesE [OF this] show ?thesis using that by blast
qed

text \<open>A file is read into frames above the tables.\<close>

lemma load_file_ok:
  assumes files: "efi_files bs view files" and l: "loading view F s" and op: "opened (view (fw s)) f = Some (data, 0)"
    and a: "0x15000 \<le> unat a" "unat a + length (take (unat n) data) \<le> 0x8000000"
  obtains s' where "read_to bs f n a s = Inr s'" and "loading view F s'"
    and "pg s' = put_bytes a (take (unat n) data) (pg s)" and "vmap (pg s') = vmap (pg s)"
    and "\<And>p. length p \<le> 3 \<Longrightarrow> tab (pg s') p = tab (pg s) p"
    and "free_pages (view (fw s')) = free_pages (view (fw s))"
proof -
  obtain w where w: "read_to bs f n a s = put_mem a (take (unat n) (drop 0 data)) (s\<lparr>fw := w\<rparr>)"
    "view w = (view (fw s))\<lparr>opened := (opened (view (fw s)))(f \<mapsto> (data, min (0 + unat n) (length data)))\<rparr>"
    by (rule read_to_ok [OF files op])
  have "F \<subseteq> free_pages (view w)" using loadingD(2) [OF l] w(2) by (auto simp: pool_def)
  then have lw: "loading view F (s\<lparr>fw := w\<rparr>)" by (rule loading_fw [OF l])
  note put = loading_put_mem [OF lw a]
  show ?thesis
    using w put by (intro that [of "s\<lparr>fw := w, pg := put_bytes a (take (unat n) data) (pg s)\<rparr>"]) simp_all
qed

lemma image_ok:
  fixes kdata :: "byte list"
  defines "pages \<equiv> page_count (of_nat (length kdata) + 256)"
    and "sz \<equiv> le64 kdata 19 - le64 kdata 11"
  assumes mem: "efi_memory bs view" and files: "efi_files bs view files"
    and l: "loading view {7..0x14} s" and op: "opened (view (fw s)) f = Some (kdata, 0)"
    and free: "{0x100..<0x100 + pages} \<subseteq> free_pages (view (fw s))"
    and len: "43 \<le> length kdata" "length kdata \<le> 0x300000" and small: "page_count sz \<le> 768"
  obtains w s1 s2 F where
    "CHECK_ERROR (AllocatePages bs AllocateAddress (of_nat pages) 0x100000) s = Inr (0x100000, s\<lparr>fw := w\<rparr>)"
    and "read_to bs f (of_nat (length kdata) + 256) 0x100000 (s\<lparr>fw := w\<rparr>) = Inr s1"
    and "get_qword (address_end 0x100000) (pg s1) - get_qword (address_start 0x100000) (pg s1) = sz"
    and "Kernel_MapPagePhysical bs kernel_virt 0x100000 sz 3 s1 = Inr s2"
    and "loading view F s2" and "F \<subseteq> {7..0x14}" and "8 \<le> card F" and "file_at 0x100000 kdata (pg s2)"
    and "range_mapped (pg s) (pg s2) kernel_virt 0x100000 3 (page_count sz)"
    and "marked {0x100..<0x100 + page_count sz} (pg s) (pg s2)"
    and "free_pages (view (fw s2)) \<inter> {0x100..<0x100 + pages} = {}"
    and "free_pages (view (fw s)) - {0x100..<0x100 + pages} - {7..0x14} \<subseteq> free_pages (view (fw s2))"
    and "\<forall>p f. length p \<le> 3 \<longrightarrow> tab (pg s) p = Some f \<longrightarrow> tab (pg s2) p = Some f"
proof -
  have fr: "frame_of 0x100 = 0x100000" by (simp add: frame_of_def)
  note pc = page_count_file [OF len(2), folded pages_def]
  have up: "unat (of_nat pages :: qword) = pages" using pc(1) by (simp add: unsigned_of_nat take_bit_nat_eq_self)
  have p100: "(0x100 :: nat) < 32768" by simp
  have free': "{0x100..<0x100 + unat (of_nat pages :: qword)} \<subseteq> free_pages (view (fw s))" using free up by simp
  obtain w where w: "CHECK_ERROR (AllocatePages bs AllocateAddress (of_nat pages) 0x100000) s = Inr (0x100000, s\<lparr>fw := w\<rparr>)"
    "view w = (view (fw s))\<lparr>free_pages := free_pages (view (fw s)) - {0x100..<0x100 + pages}\<rparr>"
    using alloc_range_ok [OF mem p100 free'] unfolding fr up by blast
  let ?sw = "s\<lparr>fw := w\<rparr>"
  have ow: "opened (view (fw ?sw)) f = Some (kdata, 0)" using w(2) op by simp
  have "{7..0x14} \<subseteq> free_pages (view w)" using loadingD(2) [OF l] w(2) by (auto simp: pool_def)
  then have lw: "loading view {7..0x14} ?sw" by (rule loading_fw [OF l])
  have a: "0x15000 \<le> unat (0x100000 :: qword)" "unat (0x100000 :: qword) + length kdata \<le> 0x8000000"
    using len(2) by simp_all
  have all: "take (unat (of_nat (length kdata) + 256 :: qword)) kdata = kdata" using pc(2) by simp
  obtain s1 where s1: "read_to bs f (of_nat (length kdata) + 256) 0x100000 ?sw = Inr s1" "loading view {7..0x14} s1"
    "pg s1 = put_bytes 0x100000 kdata (pg ?sw)" "vmap (pg s1) = vmap (pg ?sw)"
    "\<And>p. length p \<le> 3 \<Longrightarrow> tab (pg s1) p = tab (pg ?sw) p" "free_pages (view (fw s1)) = free_pages (view w)"
    by (rule load_file_ok [OF files lw ow, where a = "0x100000" and n = "of_nat (length kdata) + 256"])
      (use a in \<open>simp_all add: all\<close>)
  have at1: "file_at 0x100000 kdata (pg s1)" unfolding s1(3) using len(2) by (simp add: file_at_put)
  have sz: "get_qword (address_end 0x100000) (pg s1) - get_qword (address_start 0x100000) (pg s1) = sz"
    using file_at_field [OF at1, of 19] file_at_field [OF at1, of 11] len(1) by (simp add: sz_def)
  have cost: "range_cost (pg s1) kernel_virt (page_count sz) \<le> card {7..0x14 :: nat}"
    using kernel_cost [OF small, of "pg s1"] by simp
  have ph: "0x15 \<le> phys_no 0x100000" "unat (0x100000 :: qword) + page_count sz * 0x1000 \<le> 0x8000000"
    using small by simp_all
  have nw: "\<forall>k < page_count sz. vp kernel_virt k \<noteq> window_page" using kernel_page small by simp
  obtain s2 F where s2: "Kernel_MapPagePhysical bs kernel_virt 0x100000 sz 3 s1 = Inr s2" "loading view F s2"
    "F \<subseteq> {7..0x14}" "card {7..0x14 :: nat} \<le> card F + range_cost (pg s1) kernel_virt (page_count sz)"
    "range_mapped (pg s1) (pg s2) kernel_virt 0x100000 3 (page_count sz)" "above (pg s1) (pg s2)"
    "marked {phys_no 0x100000..<phys_no 0x100000 + page_count sz} (pg s1) (pg s2)"
    "view (fw s2) = (view (fw s1))\<lparr>free_pages := free_pages (view (fw s1)) - ({7..0x14} - F)\<rparr>"
    "\<forall>p f. length p \<le> 3 \<longrightarrow> tab (pg s1) p = Some f \<longrightarrow> tab (pg s2) p = Some f"
    by (rule loading_map [OF mem s1(2) cost ph nw])
  have "8 \<le> card F" using s2(4) kernel_cost [OF small, of "pg s1"] by simp
  moreover have "file_at 0x100000 kdata (pg s2)" by (rule file_at_above [OF at1 s2(6) a])
  moreover have "range_mapped (pg s) (pg s2) kernel_virt 0x100000 3 (page_count sz)"
    using s2(5) s1(4) by (simp add: range_mapped_def)
  moreover have "free_pages (view (fw s2)) \<inter> {0x100..<0x100 + pages} = {}" using s2(8) s1(6) w(2) by auto
  moreover have "free_pages (view (fw s)) - {0x100..<0x100 + pages} - {7..0x14} \<subseteq> free_pages (view (fw s2))"
    using s2(8) s1(6) w(2) by auto
  moreover have "\<forall>p f. length p \<le> 3 \<longrightarrow> tab (pg s) p = Some f \<longrightarrow> tab (pg s2) p = Some f"
    using s2(9) s1(5) by simp
  ultimately show ?thesis using w(1) s1(1,3) sz s2(1-3,7) by (intro that [of w s1 s2 F]) simp_all
qed

text \<open>The jump stub: read to the page \<open>0x15000\<close>, which nobody has allocated, and mapped to itself.\<close>

lemma vpage_stub: "vpage 0x15000 = (0, 0, 0, 0x15)" "vp 0x15000 0 = (0, 0, 0, 0x15)"
  by (simp_all add: vp_def vpage_def PMLT4_INDEX_def PDPT_INDEX_def PDT_INDEX_def PT_INDEX_def)

lemma stub_ok:
  assumes mem: "efi_memory bs view" and files: "efi_files bs view files" and l: "loading view F s"
    and op: "opened (view (fw s)) f = Some (g, 0)" and tab0: "tab (pg s) [0, 0, 0] \<noteq> None"
  obtains s1 s2 where "read_to bs f 512 0x15000 s = Inr s1" and "Kernel_MapPagePhysical bs 0x15000 0x15000 0x1000 3 s1 = Inr s2"
    and "loading view F s2" and "vmap (pg s2) = (vmap (pg s))((0, 0, 0, 0x15) := 0x15003)"
    and "\<forall>n. 0x16 \<le> n \<longrightarrow> n < 32768 \<longrightarrow> pmem (pg s2) (frame_of n) = pmem (pg s) (frame_of n)"
    and "marked {0x15..<0x16} (pg s) (pg s2)"
    and "free_pages (view (fw s2)) = free_pages (view (fw s))"
proof -
  obtain s1 where s1: "read_to bs f 512 0x15000 s = Inr s1" "loading view F s1"
    "pg s1 = put_bytes 0x15000 (take (unat (512 :: qword)) g) (pg s)" "vmap (pg s1) = vmap (pg s)"
    "\<And>p. length p \<le> 3 \<Longrightarrow> tab (pg s1) p = tab (pg s) p" "free_pages (view (fw s1)) = free_pages (view (fw s))"
    by (rule load_file_ok [OF files l op, where a = "0x15000" and n = 512]) simp_all
  have pc: "page_count 0x1000 = 1" by (simp add: page_count_def)
  have up: "upper 0x15000 = [0, 0, 0]" using vpage_stub(1) by (simp add: vpage_def)
  have cost: "range_cost (pg s1) 0x15000 (page_count 0x1000) = 0"
    using tab0 s1(5) [of "[0, 0, 0]"] by (simp add: pc table_cost_def up)
  obtain s2 F' where s2: "Kernel_MapPagePhysical bs 0x15000 0x15000 0x1000 3 s1 = Inr s2" "loading view F' s2" "F' \<subseteq> F"
    "card F \<le> card F' + range_cost (pg s1) 0x15000 (page_count 0x1000)"
    "range_mapped (pg s1) (pg s2) 0x15000 0x15000 3 (page_count 0x1000)" "above (pg s1) (pg s2)"
    "marked {phys_no 0x15000..<phys_no 0x15000 + page_count 0x1000} (pg s1) (pg s2)"
    "view (fw s2) = (view (fw s1))\<lparr>free_pages := free_pages (view (fw s1)) - (F - F')\<rparr>"
    "\<forall>p f. length p \<le> 3 \<longrightarrow> tab (pg s1) p = Some f \<longrightarrow> tab (pg s2) p = Some f"
    by (rule loading_map [OF mem s1(2), where virt = "0x15000" and phys = "0x15000" and sz = "0x1000"])
      (use cost in \<open>simp_all add: pc vpage_stub window_page_def\<close>)
  have F: "F' = F" using s2(3,4) cost loadingD(8) [OF l] by (simp add: card_seteq)
  have "vmap (pg s2) = (vmap (pg s))((0, 0, 0, 0x15) := 0x15003)"
    using s2(5) s1(4) by (auto simp: range_mapped_def pc vpage_stub fun_eq_iff)
  moreover have "pmem (pg s2) (frame_of n) = pmem (pg s) (frame_of n)" if "0x16 \<le> n" "n < 32768" for n
  proof -
    have "frame_of n \<noteq> frame_of (phys_no (0x15000 + of_nat i))" if "i < length (take 512 g)" for i
    proof -
      have "phys_no (0x15000 + of_nat i) = 0x15" using that by (subst phys_no_add) auto
      then show ?thesis using \<open>0x16 \<le> n\<close> \<open>n < 32768\<close> by simp
    qed
    then have "pmem (put_bytes 0x15000 (take 512 g) (pg s)) (frame_of n) = pmem (pg s) (frame_of n)"
      by (rule put_bytes_frame)
    then show ?thesis using s1(3) s2(6) that by (simp add: above_def)
  qed
  ultimately show ?thesis
    using s1(1,3,6) s2(1,2,7,8) F pc by (intro that [of s1 s2]) auto
qed

text \<open>Writing a field of a file in memory.\<close>

lemma file_at_write:
  assumes "file_at a data s" and "k + length bs \<le> length data" and "length data < 2 ^ 63"
  shows "file_at a (take k data @ bs @ drop (k + length bs) data) (put_bytes (a + of_nat k) bs s)"
  unfolding file_at_def
proof (intro allI impI)
  fix i assume "i < length (take k data @ bs @ drop (k + length bs) data)"
  then have i: "i < length data" using assms(2) by simp
  have len: "length bs < 2 ^ 64" using assms(2,3) by simp
  have x: "a + of_nat i - (a + of_nat k) = (of_nat i - of_nat k :: qword)" by simp
  have u: "unat (of_nat i :: qword) = i" "unat (of_nat k :: qword) = k"
    using i assms(2,3) by (simp_all add: unsigned_of_nat take_bit_nat_eq_self)
  have "unat (of_nat i - of_nat k :: qword) < length bs \<longleftrightarrow> k \<le> i \<and> i < k + length bs"
    and "k \<le> i \<Longrightarrow> unat (of_nat i - of_nat k :: qword) = i - k"
    using u i assms(2,3) by (auto simp: unat_sub_if' unat_sub_if_size word_size)
  then show "get_byte (a + of_nat i) (put_bytes (a + of_nat k) bs s) = (take k data @ bs @ drop (k + length bs) data) ! i"
    using assms(1,2) i by (auto simp: get_put_bytes [OF len] x nth_append file_at_def)
qed

text \<open>The font: two pages anywhere, mapped to themselves, their address in the header.\<close>

lemma vpage_frame: "n < 32768 \<Longrightarrow> vp (frame_of n) 0 = vpage (frame_of n)"
  by (simp add: vp_def)

lemma two_pages:
  assumes "i < 0x2000" and "m + 2 \<le> 32768"
  shows "phys_no (frame_of m + of_nat i) = m \<or> phys_no (frame_of m + of_nat i) = m + 1"
proof -
  have u: "unat (frame_of m) = m * 0x1000" using assms(2) by (simp add: unat_frame_of)
  then have "phys_no (frame_of m + of_nat i) = (m * 0x1000 + i) div 0x1000"
    using assms by (subst phys_no_add) auto
  then show ?thesis using assms(1) by auto
qed

text \<open>What is written outside the two pages leaves them.\<close>

lemma file_at_beside:
  assumes "file_at (frame_of m) (take 0x2000 fdata) s" and "m + 2 \<le> 32768"
    and "\<And>i. i < length bs \<Longrightarrow> frame_of (phys_no (a + of_nat i)) \<noteq> frame_of m
           \<and> frame_of (phys_no (a + of_nat i)) \<noteq> frame_of (m + 1)"
  shows "file_at (frame_of m) (take 0x2000 fdata) (put_bytes a bs s)"
proof (rule file_at_frames [OF assms(1)])
  have u: "unat (frame_of m) = m * 0x1000" using assms(2) by (simp add: unat_frame_of)
  then show "unat (frame_of m) + length (take 0x2000 fdata) \<le> 0x8000000" using assms(2) by auto
  fix k assume "unat (frame_of m) div 0x1000 \<le> k" "k * 0x1000 < unat (frame_of m) + length (take 0x2000 fdata)"
  then have "m \<le> k" "k < m + 2" using u by (auto simp: min_def split: if_splits)
  then have "k = m \<or> k = m + 1" by auto
  then have "frame_of k \<noteq> frame_of (phys_no (a + of_nat i))" if "i < length bs" for i
    using assms(3) [OF that] by auto
  then show "pmem (put_bytes a bs s) (frame_of k) = pmem s (frame_of k)" by (rule put_bytes_frame)
qed

lemma header_field_page:
  "i < 64 \<Longrightarrow> phys_no (0x100023 + of_nat i) = 0x100" "i < 64 \<Longrightarrow> phys_no (0x10002B + of_nat i) = 0x100"
  "i < 64 \<Longrightarrow> phys_no (0x880000 + of_nat i) = 0x880"
  by (subst phys_no_add; force)+

lemma font_ok:
  assumes mem: "efi_memory bs view" and files: "efi_files bs view files" and l: "loading view F s"
    and op: "opened (view (fw s)) f = Some (fdata, 0)" and six: "6 \<le> card F"
    and places: "efi_places bs view 0x16 32768"
    and kdata: "file_at 0x100000 kdata (pg s)" "43 \<le> length kdata" "length kdata \<le> 0x300000"
    and busy: "free_pages (view (fw s)) \<inter> {0x100..<0x100 + pages} = {}" "length kdata \<le> pages * 0x1000"
    and run: "free_run (free_pages (view (fw s))) 0x16 32768 2 m0"
  obtains m w s1 s2 s3 F' where
    "CHECK_ERROR (AllocatePages bs AllocateAnyPages 2 0) s = Inr (frame_of m, s\<lparr>fw := w\<rparr>)"
    and "read_to bs f 0x2000 (frame_of m) (s\<lparr>fw := w\<rparr>) = Inr s1"
    and "put_mem (font_data 0x100000) (bytes_of 8 (frame_of m)) s1 = Inr s2"
    and "Kernel_MapPagePhysical bs (frame_of m) (frame_of m) 0x2000 3 s2 = Inr s3"
    and "loading view F' s3" and "0x16 \<le> m" and "m + 2 \<le> 32768"
    and "file_at 0x100000 (take 35 kdata @ bytes_of 8 (frame_of m) @ drop 43 kdata) (pg s3)"
    and "range_mapped (pg s) (pg s3) (frame_of m) (frame_of m) 3 2"
    and "marked {m..<m + 2} (pg s) (pg s3)"
    and "file_at (frame_of m) (take 0x2000 fdata) (pg s3)" and "m \<noteq> 0x100" and "m + 1 \<noteq> 0x100"
proof -
  have two: "unat (2 :: qword) = 2" by simp
  have "gives (AllocatePages bs AllocateAnyPages 2 0) (fw s) (\<lambda>p w'. \<exists>m. p = frame_of m
      \<and> free_run (free_pages (view (fw s))) 0x16 32768 2 m
      \<and> view w' = (view (fw s))\<lparr>free_pages := free_pages (view (fw s)) - {m..<m + 2}\<rparr>)"
    using places [unfolded efi_places_def, rule_format, of "fw s" 2 0] run unfolding two by blast
  from givesE [OF this] obtain m w where m:
    "CHECK_ERROR (AllocatePages bs AllocateAnyPages 2 0) s = Inr (frame_of m, s\<lparr>fw := w\<rparr>)" "0x16 \<le> m" "m + 2 \<le> 32768"
    "{m..<m + 2} \<subseteq> free_pages (view (fw s))"
    "view w = (view (fw s))\<lparr>free_pages := free_pages (view (fw s)) - {m..<m + 2}\<rparr>"
    unfolding free_run_def by blast
  have sub: "F \<subseteq> free_pages (view (fw s))" using loadingD(2) [OF l] by (auto simp: pool_def)
  have Fm: "F \<inter> {m..<m + 2} = {}" using loadingD(3) [OF l] m(2) by fastforce
  let ?sw = "s\<lparr>fw := w\<rparr>"
  have ow: "opened (view (fw ?sw)) f = Some (fdata, 0)" using m(5) op by simp
  have "F \<subseteq> free_pages (view w)" using sub Fm m(5) by auto
  then have lw: "loading view F ?sw" by (rule loading_fw [OF l])
  have um: "unat (frame_of m) = m * 0x1000" using m(3) by (simp add: unat_frame_of)
  have a: "0x15000 \<le> unat (frame_of m)" "unat (frame_of m) + length (take (unat (0x2000 :: qword)) fdata) \<le> 0x8000000"
    using m(2,3) um by auto
  obtain s1 where s1: "read_to bs f 0x2000 (frame_of m) ?sw = Inr s1" "loading view F s1"
    "pg s1 = put_bytes (frame_of m) (take (unat (0x2000 :: qword)) fdata) (pg ?sw)" "vmap (pg s1) = vmap (pg ?sw)"
    by (rule load_file_ok [OF files lw ow a])
  have at1: "file_at 0x100000 kdata (pg s1)"
  proof (rule file_at_frames [OF kdata(1)])
    show "unat (0x100000 :: qword) + length kdata \<le> 0x8000000" using kdata(3) by simp
    fix n assume "unat (0x100000 :: qword) div 0x1000 \<le> n" "n * 0x1000 < unat (0x100000 :: qword) + length kdata"
    then have n: "0x100 \<le> n" "n < 0x100 + pages" "n < 32768" using kdata(3) busy(2) by simp_all
    have "m \<in> {m..<m + 2}" "m + 1 \<in> {m..<m + 2}" by simp_all
    then have "n \<noteq> m" "n \<noteq> m + 1" using n(1,2) m(4) busy(1) by (meson disjoint_iff subsetD atLeastLessThan_iff)+
    then have "frame_of n \<noteq> frame_of (phys_no (frame_of m + of_nat i))" if "i < 0x2000" for i
      using two_pages [OF that m(3)] n(3) m(3) by auto
    then show "pmem (pg s1) (frame_of n) = pmem (pg s) (frame_of n)"
      unfolding s1(3) by (subst put_bytes_frame) auto
  qed
  let ?b = "bytes_of 8 (frame_of m)"
  have b: "0x15000 \<le> unat (font_data 0x100000)" "unat (font_data 0x100000) + length ?b \<le> 0x8000000"
    by (simp_all add: bytes_of_def)
  note put2 = loading_put_mem [OF s1(2) b]
  let ?s2 = "s1\<lparr>pg := put_bytes (font_data 0x100000) ?b (pg s1)\<rparr>"
  have at2: "file_at 0x100000 (take 35 kdata @ ?b @ drop 43 kdata) (pg ?s2)"
    using file_at_write [OF at1, of 35 ?b] kdata(2,3) by (simp add: bytes_of_def)
  have pc: "page_count 0x2000 = 2" by (simp add: page_count_def)
  have cost: "range_cost (pg ?s2) (frame_of m) (page_count 0x2000) \<le> card F"
    using six by (simp add: pc numeral_2_eq_2 table_cost_def)
  have vp: "vp (frame_of m) k = vpage (frame_of (m + k))" for k
    by (simp add: vp_def frame_of_def push_bit_eq_mult algebra_simps)
  have ph: "phys_no (frame_of m) = m" using m(3) um by (simp add: drop_bit_eq_div unat_div)
  have ph': "0x15 \<le> phys_no (frame_of m)" "unat (frame_of m) + page_count 0x2000 * 0x1000 \<le> 0x8000000"
    using ph m(2,3) um pc by auto
  have nw: "\<forall>k < page_count 0x2000. vp (frame_of m) k \<noteq> window_page"
    using m(3) frame_not_window by (simp add: pc vp)
  obtain s3 F' where s3: "Kernel_MapPagePhysical bs (frame_of m) (frame_of m) 0x2000 3 ?s2 = Inr s3" "loading view F' s3" "F' \<subseteq> F"
    "card F \<le> card F' + range_cost (pg ?s2) (frame_of m) (page_count 0x2000)"
    "range_mapped (pg ?s2) (pg s3) (frame_of m) (frame_of m) 3 (page_count 0x2000)" "above (pg ?s2) (pg s3)"
    "marked {phys_no (frame_of m)..<phys_no (frame_of m) + page_count 0x2000} (pg ?s2) (pg s3)"
    by (rule loading_map [OF mem put2(2) cost ph' nw])
  have "file_at 0x100000 (take 35 kdata @ ?b @ drop 43 kdata) (pg s3)"
    by (rule file_at_above [OF at2 s3(6)]) (use kdata(2,3) in \<open>auto simp: bytes_of_def\<close>)
  moreover have "range_mapped (pg s) (pg s3) (frame_of m) (frame_of m) 3 2"
    using s3(5) s1(4) put2(3) by (simp add: range_mapped_def pc)
  moreover have apart: "m \<noteq> 0x100" "m + 1 \<noteq> 0x100"
  proof -
    have "0x100 \<in> {0x100..<0x100 + pages}" using kdata(2) busy(2) by (cases pages) auto
    then have "0x100 \<notin> {m..<m + 2}" using m(4) busy(1) by blast
    then show "m \<noteq> 0x100" "m + 1 \<noteq> 0x100" by auto
  qed
  moreover have "file_at (frame_of m) (take 0x2000 fdata) (pg s3)"
  proof (rule file_at_above [OF _ s3(6)])
    have font: "file_at (frame_of m) (take 0x2000 fdata) (pg s1)" by (simp add: s1(3) file_at_put)
    have out: "frame_of (phys_no (font_data 0x100000 + of_nat i)) \<noteq> frame_of m
        \<and> frame_of (phys_no (font_data 0x100000 + of_nat i)) \<noteq> frame_of (m + 1)" if "i < length ?b" for i
      using header_field_page(1) [of i] that apart m(3) by simp
    show "file_at (frame_of m) (take 0x2000 fdata) (pg ?s2)"
      using file_at_beside [OF font m(3), where bs = ?b, OF out] by simp
  qed (use um m(2,3) in auto)
  ultimately show ?thesis
    using m(1-3) s1(1,3) put2(1) s3(1,2,7) pc ph by (intro that [of m w s1 ?s2 s3 F']) simp_all
qed

end
