(* ===== verification/Uefi_Boot.thy ===== *)
theory Uefi_Boot
  imports Uefi_Load
begin

text \<open>
  \<open>LoadKernel\<close> and \<open>efi_main\<close> of \<open>boot/UEFI/main.c\<close> as a whole: the abstract map of the
  tables they leave, the kernel image and its header in memory, and the marks in the bitmap.
\<close>

section \<open>The tables the kernel gets\<close>

lemma kernel_vs_frame: "k < 0x7FF00 \<Longrightarrow> n < 32768 \<Longrightarrow> vp kernel_virt k \<noteq> vpage (frame_of n)"
proof
  assume k: "k < 0x7FF00" and n: "n < 32768" and "vp kernel_virt k = vpage (frame_of n)"
  then have "PMLT4_INDEX (frame_of n) = 511" using kernel_index(1) [OF k] by (simp add: vp_def vpage_def)
  moreover have "PMLT4_INDEX (frame_of n) = 0"
    using n by (auto simp: PMLT4_INDEX_def bit_eq_iff bit_simps bit_frame_of)
  ultimately show False by simp
qed

text \<open>
  \<open>boot_map n m s\<close>: mapped are the first seven pages, the stub's and the font's to
  themselves, \<open>n\<close> pages of the kernel, and nothing else.
\<close>

definition identity_pages :: "nat \<Rightarrow> nat set" where
  "identity_pages m = {..<7} \<union> {0x15, m, m + 1}"

definition boot_map :: "nat \<Rightarrow> nat \<Rightarrow> pstate \<Rightarrow> bool" where
  "boot_map n m s \<longleftrightarrow>
     (\<forall>k < n. vmap s (vp kernel_virt k) = (0x100000 + of_nat k * 0x1000) OR 3)
     \<and> (\<forall>k \<in> identity_pages m. vmap s (vpage (frame_of k)) = frame_of k OR 3)
     \<and> (\<forall>v. v \<notin> vp kernel_virt ` {..<n} \<longrightarrow> v \<notin> (\<lambda>k. vpage (frame_of k)) ` identity_pages m \<longrightarrow> vmap s v = 0)"

lemma new_vmap_frame:
  assumes "k < 32768"
  shows "vmap (new_tables s) (vpage (frame_of k)) = (if k < 7 then frame_of k OR 3 else 0)"
proof (cases "vpage (frame_of k)")
  case (fields a b c d)
  show ?thesis
  proof (cases "a = 0 \<and> b = 0 \<and> c = 0 \<and> unat d < 7")
    case True
    then have "k = unat d"
      using fields vpage_low [of d] vpage_frame_eq [OF assms, of "unat d"] by simp
    then show ?thesis using True fields by (simp add: new_vmap frame_of_def unsigned_of_nat)
  next
    case False
    have "\<not> k < 7"
    proof
      assume k: "k < 7"
      then have "unat (of_nat k :: pt_index) = k" by (simp add: unsigned_of_nat take_bit_nat_eq_self)
      then show False using vpage_low [of "of_nat k"] fields False k by simp
    qed
    then show ?thesis using fields by (auto simp: new_vmap False)
  qed
qed

lemma range_mappedD:
  assumes "range_mapped s s' virt phys flags n"
  shows "k < n \<Longrightarrow> vmap s' (vp virt k) = (phys + of_nat k * 0x1000) OR ucast flags"
    and "(\<And>k. k < n \<Longrightarrow> v \<noteq> vp virt k) \<Longrightarrow> vmap s' v = vmap s v"
  using assms unfolding range_mapped_def by blast+

lemma boot_map_ok:
  assumes kernel: "range_mapped (new_tables p) s1 kernel_virt 0x100000 3 n" and n: "n \<le> 768"
    and stub: "vmap s2 = (vmap s1)((0, 0, 0, 0x15) := 0x15003)"
    and font: "range_mapped s2 s3 (frame_of m) (frame_of m) 3 2" and m: "0x16 \<le> m" "m + 2 \<le> 32768"
  shows "boot_map n m s3"
proof -
  have vp: "vp (frame_of m) k = vpage (frame_of (m + k))" "frame_of m + of_nat k * 0x1000 = frame_of (m + k)" for k
    by (simp_all add: vp_def frame_of_def push_bit_eq_mult algebra_simps)
  have font': "vmap s3 (vpage (frame_of m)) = frame_of m OR 3" "vmap s3 (vpage (frame_of (m + 1))) = frame_of (m + 1) OR 3"
    using range_mappedD(1) [OF font, of 0] range_mappedD(1) [OF font, of 1] vp(1) [of 0] vp(1) [of 1] vp(2) [of 1]
    by simp_all
  have rest3: "vmap s3 v = vmap s2 v" if "v \<noteq> vpage (frame_of m)" "v \<noteq> vpage (frame_of (m + 1))" for v
    by (rule range_mappedD(2) [OF font]) (use that in \<open>auto simp: vp less_2_cases_iff\<close>)
  have "(0, 0, 0, 0x15) = vpage (frame_of (unat (0x15 :: pt_index)))" by (simp only: vpage_low)
  then have f15: "(0, 0, 0, 0x15) = vpage (frame_of 0x15)" by simp
  have rest: "vmap s3 v = vmap s1 v" if "v \<noteq> vpage (frame_of m)" "v \<noteq> vpage (frame_of (m + 1))" "v \<noteq> vpage (frame_of 0x15)" for v
    using rest3 [OF that(1,2)] that(3) by (simp add: stub f15)
  have k: "vmap s3 (vp kernel_virt k) = (0x100000 + of_nat k * 0x1000) OR 3" if "k < n" for k
    using rest [of "vp kernel_virt k"] kernel_vs_frame [of k] range_mappedD(1) [OF kernel that] that n m by simp
  have low: "vmap s3 (vpage (frame_of j)) = vmap (new_tables p) (vpage (frame_of j))"
    if "j < 32768" "j \<noteq> m" "j \<noteq> m + 1" "j \<noteq> 0x15" for j
  proof -
    have "vmap s1 (vpage (frame_of j)) = vmap (new_tables p) (vpage (frame_of j))"
    proof (rule range_mappedD(2) [OF kernel])
      fix k assume "k < n"
      then show "vpage (frame_of j) \<noteq> vp kernel_virt k" using kernel_vs_frame [of k j] n that(1) by auto
    qed
    then show ?thesis
      using rest [of "vpage (frame_of j)"] that m by (simp add: vpage_frame_eq)
  qed
  have "vmap s3 (vpage (frame_of j)) = frame_of j OR 3" if j: "j \<in> identity_pages m" for j
  proof (cases "j < 7")
    case True
    then show ?thesis using low [of j] m new_vmap_frame [of j p] by simp
  next
    case False
    then have "j = 0x15 \<or> j = m \<or> j = m + 1" using j by (auto simp: identity_pages_def)
    moreover have "vmap s3 (vpage (frame_of 0x15)) = frame_of 0x15 OR 3"
      using rest3 [of "vpage (frame_of 0x15)"] m by (simp add: vpage_frame_eq stub f15) (simp add: frame_of_def)
    ultimately show ?thesis using font' by blast
  qed
  moreover have "vmap s3 v = 0" if v: "v \<notin> vp kernel_virt ` {..<n}" "v \<notin> (\<lambda>k. vpage (frame_of k)) ` identity_pages m" for v
  proof -
    have v': "v \<noteq> vpage (frame_of j)" if "j \<in> identity_pages m" for j using v(2) that by blast
    have "vmap s3 v = vmap (new_tables p) v"
      using rest [of v] v' [of m] v' [of "m + 1"] v' [of "0x15"] range_mappedD(2) [OF kernel, of v] v(1)
      by (simp add: identity_pages_def image_iff)
    moreover have "vmap (new_tables p) v = 0"
    proof (cases v)
      case (fields a b c d)
      have "\<not> (a = 0 \<and> b = 0 \<and> c = 0 \<and> unat d < 7)"
        using v' [of "unat d"] vpage_low [of d] fields by (auto simp: identity_pages_def)
      then show ?thesis using fields by (auto simp: new_vmap)
    qed
    ultimately show ?thesis by simp
  qed
  ultimately show ?thesis using k by (simp add: boot_map_def)
qed

text \<open>The frames in use: the first seven, the stub's, the kernel's, the font's, and tables below the stub.\<close>

definition boot_marks :: "nat \<Rightarrow> nat \<Rightarrow> pstate \<Rightarrow> bool" where
  "boot_marks n m s \<longleftrightarrow>
     (\<forall>k. k \<in> identity_pages m \<or> k \<in> {0x100..<0x100 + n} \<longrightarrow> used_no (bitmap s) k)
     \<and> (\<forall>k. used_no (bitmap s) k \<longrightarrow> k < 0x16 \<or> k \<in> {0x100..<0x100 + n} \<or> k \<in> {m, m + 1})"

lemma boot_marks_put_bytes [simp]: "boot_marks n m (put_bytes a bs s) \<longleftrightarrow> boot_marks n m s"
  by (simp add: boot_marks_def)

lemma boot_marksI:
  assumes "marked {0x100..<0x100 + n} (new_tables p) s1" and "marked ({0x15..<0x16} \<union> {m..<m + 2}) s1 s2"
  shows "boot_marks n m s2"
  using marked_trans [OF assms] unfolding boot_marks_def marked_def new_used
  by (auto simp: identity_pages_def less_Suc_eq)

section \<open>\<open>LoadKernel\<close> and \<open>efi_main\<close>\<close>

text \<open>
  \<open>efi_ready\<close>: a firmware that does what the specification says, with the three files on
  the boot volume and the pages the loader asks for free; a kernel of at most three
  mebibytes with its header; two pages for the font below 128 MiB and above the stub.
\<close>

definition efi_ready ::
  "'fw boot_services \<Rightarrow> ('fw \<Rightarrow> efi_view) \<Rightarrow> byte list \<Rightarrow> byte list \<Rightarrow> byte list \<Rightarrow> 'fw ustate \<Rightarrow> bool" where
  "efi_ready bs view kdata gdata fdata s \<longleftrightarrow>
     efi_memory bs view \<and> efi_protocols bs view \<and> efi_places bs view 0x16 32768
     \<and> efi_files bs view [''kernel.bin'' \<mapsto> kdata, ''gkrnl.bin'' \<mapsto> gdata, ''font.map'' \<mapsto> fdata]
     \<and> {1..0x14} \<union> {0x100..<0x100 + page_count (of_nat (length kdata) + 256)} \<subseteq> free_pages (view (fw s))
     \<and> (\<exists>m. free_run (free_pages (view (fw s)) - {0x100..<0x100 + page_count (of_nat (length kdata) + 256)}) 0x16 32768 2 m)
     \<and> 63 < length kdata \<and> length kdata \<le> 0x300000
     \<and> page_count (le64 kdata 19 - le64 kdata 11) \<le> 768 \<and> 0x8000000 \<le> ram_end (pg s)"

lemma new_loading:
  assumes "0x8000000 \<le> ram_end p" and "{7..0x14} \<subseteq> free_pages (view w)"
  shows "loading view {7..0x14} \<lparr>pg = new_tables p, fw = w\<rparr>"
proof -
  have "f \<in> frame_of ` low_tables" if f: "length q \<le> 3" "tab (new_tables p) q = Some f" for q f
  proof -
    have "f \<in> {frame_of 1, frame_of 2, frame_of 3, frame_of 4, frame_of 5}"
      using new_tabD [OF f] low_frames by auto
    then show ?thesis by (auto simp: low_tables_def)
  qed
  then show ?thesis
    using assms new_inv [OF assms(1)] by (auto simp: loading_def pool_def tabs_in_def new_used)
qed

text \<open>The calls before the tables: the volume, the kernel's file and its size.\<close>

lemma open_kernel_ok:
  assumes prot: "efi_protocols bs view" and files: "efi_files bs view files" and name: "files nm = Some kdata"
  obtains root f b w1 w2 w3 w4 where "GetRoot bs h s = Inr (root, s\<lparr>fw := w1\<rparr>)"
    and "OpenFile bs root nm (s\<lparr>fw := w1\<rparr>) = Inr (f, s\<lparr>fw := w2\<rparr>)"
    and "CHECK_ERROR (AllocatePool bs 512) (s\<lparr>fw := w2\<rparr>) = Inr (b, s\<lparr>fw := w3\<rparr>)"
    and "CHECK_ERROR (GetFileSize bs f b) (s\<lparr>fw := w3\<rparr>) = Inr (of_nat (length kdata), s\<lparr>fw := w4\<rparr>)"
    and "free_pages (view w4) = free_pages (view (fw s))" and "opened (view w4) f = Some (kdata, 0)"
proof -
  obtain root w1 where root: "GetRoot bs h s = Inr (root, s\<lparr>fw := w1\<rparr>)" "view w1 = view (fw s)"
    by (rule GetRoot_ok [OF prot files])
  obtain f w2 where op: "OpenFile bs root nm (s\<lparr>fw := w1\<rparr>) = Inr (f, s\<lparr>fw := w1\<rparr>\<lparr>fw := w2\<rparr>)"
    "view w2 = (view (fw (s\<lparr>fw := w1\<rparr>)))\<lparr>opened := (opened (view (fw (s\<lparr>fw := w1\<rparr>))))(f \<mapsto> (kdata, 0))\<rparr>"
    by (rule OpenFile_ok [OF files name])
  obtain b w3 where pl: "CHECK_ERROR (AllocatePool bs 512) (s\<lparr>fw := w2\<rparr>) = Inr (b, s\<lparr>fw := w2\<rparr>\<lparr>fw := w3\<rparr>)"
    "view w3 = view (fw (s\<lparr>fw := w2\<rparr>))"
    by (rule givesE [OF efi_filesD(5) [OF files]])
  have o3: "opened (view (fw (s\<lparr>fw := w3\<rparr>))) f = Some (kdata, 0)" using pl(2) op(2) by simp
  obtain n w4 where info: "CHECK_ERROR (GetFileSize bs f b) (s\<lparr>fw := w3\<rparr>) = Inr (n, s\<lparr>fw := w3\<rparr>\<lparr>fw := w4\<rparr>)"
    "n = of_nat (length kdata) \<and> view w4 = view (fw (s\<lparr>fw := w3\<rparr>))"
    by (rule givesE [OF efi_filesD(4) [OF files o3]])
  show ?thesis
    using root op pl info by (intro that [of root w1 f w2 b w3 w4]) simp_all
qed

text \<open>The calls after the kernel is mapped: the stub and the font.\<close>

lemma stub_font_ok:
  assumes mem: "efi_memory bs view" and files: "efi_files bs view files" and places: "efi_places bs view 0x16 32768"
    and names: "files ''gkrnl.bin'' = Some gdata" "files ''font.map'' = Some fdata"
    and l: "loading view F7 s7" and F7: "8 \<le> card F7" and t7: "tab (pg s7) [0, 0, 0] \<noteq> None"
    and kdata: "file_at 0x100000 kdata (pg s7)" and len: "43 \<le> length kdata" "length kdata \<le> 0x300000"
    and held: "free_pages (view (fw s7)) \<inter> {0x100..<0x100 + pages} = {}" "length kdata \<le> pages * 0x1000"
    and run: "free_run (free_pages (view (fw s7))) 0x16 32768 2 m0"
  obtains u g t m w8 w9 w12 w13 s10 s11 s13 s14 s15 F where
    "CHECK_ERROR (FreePool bs b) s7 = Inr (u, s7\<lparr>fw := w8\<rparr>)"
    and "OpenFile bs root ''gkrnl.bin'' (s7\<lparr>fw := w8\<rparr>) = Inr (g, s7\<lparr>fw := w9\<rparr>)"
    and "read_to bs g 512 0x15000 (s7\<lparr>fw := w9\<rparr>) = Inr s10"
    and "Kernel_MapPagePhysical bs 0x15000 0x15000 0x1000 3 s10 = Inr s11"
    and "OpenFile bs root ''font.map'' s11 = Inr (t, s11\<lparr>fw := w12\<rparr>)"
    and "CHECK_ERROR (AllocatePages bs AllocateAnyPages 2 0) (s11\<lparr>fw := w12\<rparr>) = Inr (frame_of m, s11\<lparr>fw := w13\<rparr>)"
    and "read_to bs t 0x2000 (frame_of m) (s11\<lparr>fw := w13\<rparr>) = Inr s13"
    and "put_mem (font_data 0x100000) (bytes_of 8 (frame_of m)) s13 = Inr s14"
    and "Kernel_MapPagePhysical bs (frame_of m) (frame_of m) 0x2000 3 s14 = Inr s15"
    and "loading view F s15" and "0x16 \<le> m" and "m + 2 \<le> 32768"
    and "file_at 0x100000 (take 35 kdata @ bytes_of 8 (frame_of m) @ drop 43 kdata) (pg s15)"
    and "vmap (pg s11) = (vmap (pg s7))((0, 0, 0, 0x15) := 0x15003)"
    and "range_mapped (pg s11) (pg s15) (frame_of m) (frame_of m) 3 2"
    and "marked ({0x15..<0x16} \<union> {m..<m + 2}) (pg s7) (pg s15)"
    and "file_at (frame_of m) (take 0x2000 fdata) (pg s15)" and "m \<noteq> 0x100" and "m + 1 \<noteq> 0x100"
proof -
  obtain u w8 where fp: "CHECK_ERROR (FreePool bs b) s7 = Inr (u, s7\<lparr>fw := w8\<rparr>)" "view w8 = view (fw s7)"
    by (rule givesE [OF efi_filesD(6) [OF files]])
  obtain g w9 where og: "OpenFile bs root ''gkrnl.bin'' (s7\<lparr>fw := w8\<rparr>) = Inr (g, s7\<lparr>fw := w8\<rparr>\<lparr>fw := w9\<rparr>)"
    "view w9 = (view (fw (s7\<lparr>fw := w8\<rparr>)))\<lparr>opened := (opened (view (fw (s7\<lparr>fw := w8\<rparr>))))(g \<mapsto> (gdata, 0))\<rparr>"
    by (rule OpenFile_ok [OF files names(1)])
  let ?s9 = "s7\<lparr>fw := w9\<rparr>"
  have F9: "F7 \<subseteq> free_pages (view w9)" using loadingD(2) [OF l] og(2) fp(2) by (auto simp: pool_def)
  have o9: "opened (view (fw ?s9)) g = Some (gdata, 0)" using og(2) by simp
  have t9: "tab (pg ?s9) [0, 0, 0] \<noteq> None"
    using t7 by simp
  obtain s10 s11 where stub: "read_to bs g 512 0x15000 ?s9 = Inr s10"
    "Kernel_MapPagePhysical bs 0x15000 0x15000 0x1000 3 s10 = Inr s11" "loading view F7 s11"
    "vmap (pg s11) = (vmap (pg ?s9))((0, 0, 0, 0x15) := 0x15003)"
    "\<forall>n. 0x16 \<le> n \<longrightarrow> n < 32768 \<longrightarrow> pmem (pg s11) (frame_of n) = pmem (pg ?s9) (frame_of n)"
    "marked {0x15..<0x16} (pg ?s9) (pg s11)"
    "free_pages (view (fw s11)) = free_pages (view (fw ?s9))"
    by (rule stub_ok [OF mem files loading_fw [OF l F9] o9 t9])
  obtain t w12 where ot: "OpenFile bs root ''font.map'' s11 = Inr (t, s11\<lparr>fw := w12\<rparr>)"
    "view w12 = (view (fw s11))\<lparr>opened := (opened (view (fw s11)))(t \<mapsto> (fdata, 0))\<rparr>"
    by (rule OpenFile_ok [OF files names(2)])
  let ?s12 = "s11\<lparr>fw := w12\<rparr>"
  have F12: "F7 \<subseteq> free_pages (view w12)" using loadingD(2) [OF stub(3)] ot(2) by (auto simp: pool_def)
  have o12: "opened (view (fw ?s12)) t = Some (fdata, 0)" using ot(2) by simp
  have k12: "file_at 0x100000 kdata (pg ?s12)"
    by (rule file_at_frames [OF kdata]) (use len stub(5) in auto)
  have busy: "free_pages (view (fw ?s12)) \<inter> {0x100..<0x100 + pages} = {}"
    using held(1) ot(2) stub(7) og(2) fp(2) by simp
  have six': "6 \<le> card F7" using F7 by simp
  have run12: "free_run (free_pages (view (fw ?s12))) 0x16 32768 2 m0"
    using run ot(2) stub(7) og(2) fp(2) by simp
  obtain m w13 s13 s14 s15 F where font:
    "CHECK_ERROR (AllocatePages bs AllocateAnyPages 2 0) ?s12 = Inr (frame_of m, ?s12\<lparr>fw := w13\<rparr>)"
    "read_to bs t 0x2000 (frame_of m) (?s12\<lparr>fw := w13\<rparr>) = Inr s13"
    "put_mem (font_data 0x100000) (bytes_of 8 (frame_of m)) s13 = Inr s14"
    "Kernel_MapPagePhysical bs (frame_of m) (frame_of m) 0x2000 3 s14 = Inr s15"
    "loading view F s15" "0x16 \<le> m" "m + 2 \<le> 32768"
    "file_at 0x100000 (take 35 kdata @ bytes_of 8 (frame_of m) @ drop 43 kdata) (pg s15)"
    "range_mapped (pg ?s12) (pg s15) (frame_of m) (frame_of m) 3 2"
    "marked {m..<m + 2} (pg ?s12) (pg s15)"
    "file_at (frame_of m) (take 0x2000 fdata) (pg s15)" "m \<noteq> 0x100" "m + 1 \<noteq> 0x100"
    by (rule font_ok [OF mem files loading_fw [OF stub(3) F12] o12 six' places k12 len busy held(2) run12])
  have "marked {0x15..<0x16} (pg s7) (pg s11)" "marked {m..<m + 2} (pg s11) (pg s15)" using stub(6) font(10) by simp_all
  from marked_trans [OF this] show ?thesis
    using fp og stub ot font by (intro that [of u w8 g w9 s10 s11 t w12 m w13 s13 s14 s15 F]) simp_all
qed

lemma LoadKernel_ok:
  assumes ready: "efi_ready bs view kdata gdata fdata s"
  obtains m s' F where "LoadKernel bs h ''kernel.bin'' s = Inr (0x100000, s')" and "loading view F s'"
    and "0x16 \<le> m" and "m + 2 \<le> 32768" and "boot_map (page_count (le64 kdata 19 - le64 kdata 11)) m (pg s')"
    and "file_at 0x100000 (take 35 kdata @ bytes_of 8 (frame_of m) @ drop 43 kdata) (pg s')"
    and "boot_marks (page_count (le64 kdata 19 - le64 kdata 11)) m (pg s')"
    and "file_at (frame_of m) (take 0x2000 fdata) (pg s')" and "m \<noteq> 0x100" and "m + 1 \<noteq> 0x100"
proof -
  let ?files = "[''kernel.bin'' \<mapsto> kdata, ''gkrnl.bin'' \<mapsto> gdata, ''font.map'' \<mapsto> fdata]"
  let ?sz = "le64 kdata 19 - le64 kdata 11" and ?pages = "page_count (of_nat (length kdata) + 256)"
  have mem: "efi_memory bs view" and prot: "efi_protocols bs view" and places: "efi_places bs view 0x16 32768"
    and files: "efi_files bs view ?files" and len: "43 \<le> length kdata" "length kdata \<le> 0x300000"
    and small: "page_count ?sz \<le> 768" and ram: "0x8000000 \<le> ram_end (pg s)"
    and free: "{1..0x14} \<union> {0x100..<0x100 + ?pages} \<subseteq> free_pages (view (fw s))"
    using ready by (auto simp: efi_ready_def)
  obtain m0 where room: "free_run (free_pages (view (fw s)) - {0x100..<0x100 + ?pages}) 0x16 32768 2 m0"
    using ready unfolding efi_ready_def by blast
  have names: "?files ''kernel.bin'' = Some kdata" "?files ''gkrnl.bin'' = Some gdata" "?files ''font.map'' = Some fdata"
    by simp_all
  obtain root f b w1 w2 w3 w4 where start: "GetRoot bs h s = Inr (root, s\<lparr>fw := w1\<rparr>)"
    "OpenFile bs root ''kernel.bin'' (s\<lparr>fw := w1\<rparr>) = Inr (f, s\<lparr>fw := w2\<rparr>)"
    "CHECK_ERROR (AllocatePool bs 512) (s\<lparr>fw := w2\<rparr>) = Inr (b, s\<lparr>fw := w3\<rparr>)"
    "CHECK_ERROR (GetFileSize bs f b) (s\<lparr>fw := w3\<rparr>) = Inr (of_nat (length kdata), s\<lparr>fw := w4\<rparr>)"
    and v4: "free_pages (view w4) = free_pages (view (fw s))" "opened (view w4) f = Some (kdata, 0)"
    by (rule open_kernel_ok [OF prot files names(1)])
  have six: "{1..6} \<subseteq> free_pages (view (fw (s\<lparr>fw := w4\<rparr>)))" using free v4(1) by auto
  have ram': "0x8000000 \<le> ram_end (pg (s\<lparr>fw := w4\<rparr>))" using ram by simp
  obtain w5 where new: "Kernel_createNewPage bs h (s\<lparr>fw := w4\<rparr>) = Inr \<lparr>pg = new_tables (pg (s\<lparr>fw := w4\<rparr>)), fw = w5\<rparr>"
    "view w5 = (view (fw (s\<lparr>fw := w4\<rparr>)))\<lparr>free_pages := free_pages (view (fw (s\<lparr>fw := w4\<rparr>))) - {1..6}\<rparr>"
    by (rule createNewPage_ok [OF mem prot six ram'])
  let ?s5 = "\<lparr>pg = new_tables (pg s), fw = w5\<rparr>"
  have "{7..0x14} \<subseteq> free_pages (view w5)" using new(2) v4(1) free by auto
  then have l5: "loading view {7..0x14} ?s5" by (rule new_loading [OF ram])
  have o5: "opened (view (fw ?s5)) f = Some (kdata, 0)" using new(2) v4(2) by simp
  have free5: "{0x100..<0x100 + ?pages} \<subseteq> free_pages (view (fw ?s5))" using new(2) v4(1) free by auto
  obtain w6 s6 s7 F7 where image:
    "CHECK_ERROR (AllocatePages bs AllocateAddress (of_nat ?pages) 0x100000) ?s5 = Inr (0x100000, ?s5\<lparr>fw := w6\<rparr>)"
    "read_to bs f (of_nat (length kdata) + 256) 0x100000 (?s5\<lparr>fw := w6\<rparr>) = Inr s6"
    "get_qword (address_end 0x100000) (pg s6) - get_qword (address_start 0x100000) (pg s6) = ?sz"
    "Kernel_MapPagePhysical bs kernel_virt 0x100000 ?sz 3 s6 = Inr s7"
    "loading view F7 s7" "F7 \<subseteq> {7..0x14}" "8 \<le> card F7" "file_at 0x100000 kdata (pg s7)"
    "range_mapped (pg ?s5) (pg s7) kernel_virt 0x100000 3 (page_count ?sz)"
    "marked {0x100..<0x100 + page_count ?sz} (pg ?s5) (pg s7)"
    "free_pages (view (fw s7)) \<inter> {0x100..<0x100 + ?pages} = {}"
    "free_pages (view (fw ?s5)) - {0x100..<0x100 + ?pages} - {7..0x14} \<subseteq> free_pages (view (fw s7))"
    "\<forall>p f. length p \<le> 3 \<longrightarrow> tab (pg ?s5) p = Some f \<longrightarrow> tab (pg s7) p = Some f"
    by (rule image_ok [OF mem files l5 o5 free5 len small])
  have run7: "free_run (free_pages (view (fw s7))) 0x16 32768 2 m0"
    using room image(12) new(2) v4(1) by (auto simp: free_run_def)
  have t7: "tab (pg s7) [0, 0, 0] \<noteq> None"
    using image(13) [rule_format, of "[0, 0, 0]"] by (simp add: new_tab)
  obtain u g t m w8 w9 w12 w13 s10 s11 s13 s14 s15 F where rest:
    "CHECK_ERROR (FreePool bs b) s7 = Inr (u, s7\<lparr>fw := w8\<rparr>)"
    "OpenFile bs root ''gkrnl.bin'' (s7\<lparr>fw := w8\<rparr>) = Inr (g, s7\<lparr>fw := w9\<rparr>)"
    "read_to bs g 512 0x15000 (s7\<lparr>fw := w9\<rparr>) = Inr s10"
    "Kernel_MapPagePhysical bs 0x15000 0x15000 0x1000 3 s10 = Inr s11"
    "OpenFile bs root ''font.map'' s11 = Inr (t, s11\<lparr>fw := w12\<rparr>)"
    "CHECK_ERROR (AllocatePages bs AllocateAnyPages 2 0) (s11\<lparr>fw := w12\<rparr>) = Inr (frame_of m, s11\<lparr>fw := w13\<rparr>)"
    "read_to bs t 0x2000 (frame_of m) (s11\<lparr>fw := w13\<rparr>) = Inr s13"
    "put_mem (font_data 0x100000) (bytes_of 8 (frame_of m)) s13 = Inr s14"
    "Kernel_MapPagePhysical bs (frame_of m) (frame_of m) 0x2000 3 s14 = Inr s15"
    and final: "loading view F s15" and m: "0x16 \<le> m" "m + 2 \<le> 32768"
    and header: "file_at 0x100000 (take 35 kdata @ bytes_of 8 (frame_of m) @ drop 43 kdata) (pg s15)"
    and stub: "vmap (pg s11) = (vmap (pg s7))((0, 0, 0, 0x15) := 0x15003)"
    and font: "range_mapped (pg s11) (pg s15) (frame_of m) (frame_of m) 3 2"
    and marks: "marked ({0x15..<0x16} \<union> {m..<m + 2}) (pg s7) (pg s15)"
    and data: "file_at (frame_of m) (take 0x2000 fdata) (pg s15)" "m \<noteq> 0x100" "m + 1 \<noteq> 0x100"
    by (rule stub_font_ok [OF mem files places names(2,3) image(5,7) t7 image(8) len image(11) page_count_file(4) [OF len(2)] run7])
  have "LoadKernel bs h ''kernel.bin'' s = Inr (0x100000, s15)"
    unfolding LoadKernel_def LoadKernel_files_def LoadKernel_font_def using start new(1) image(1-4) rest by (simp add: Let_def)
  moreover have "boot_map (page_count ?sz) m (pg s15)"
    by (rule boot_map_ok [OF _ small stub font m]) (use image(9) in simp)
  moreover have "boot_marks (page_count ?sz) m (pg s15)"
    by (rule boot_marksI [OF _ marks]) (use image(10) in simp)
  ultimately show ?thesis using final m header data by (intro that [of s15 F m])
qed

text \<open>The screen, and the end of the boot services with the key of the present memory map.\<close>

definition efi_leaves :: "'fw boot_services \<Rightarrow> ('fw \<Rightarrow> efi_view) \<Rightarrow> gop_mode \<Rightarrow> bool" where
  "efi_leaves bs view mode \<longleftrightarrow>
     (\<forall>w. gives (LocateProtocol bs GraphicsOutput) w (\<lambda>m w'. m = mode \<and> view w' = view w))
     \<and> (\<forall>h w. gives (ExitBootServices bs h (GetMapKey bs w)) w (\<lambda>_ w'. view w' = view w))"

text \<open>The header as the kernel finds it: the image's, with the fields the loader fills in.\<close>

definition boot_image :: "byte list \<Rightarrow> qword \<Rightarrow> gop_mode \<Rightarrow> byte list" where
  "boot_image kdata font mode = take 35 kdata @ bytes_of 8 font
     @ bytes_of 4 (ucast (HorizontalResolution mode)) @ bytes_of 4 (ucast (VerticalResolution mode)) @ [32]
     @ bytes_of 8 (FrameBufferBase mode) @ bytes_of 4 (FrameBufferSize mode) @ drop 64 kdata"

lemma efi_main_ok:
  assumes ready: "efi_ready bs view kdata gdata fdata s" and leaves: "efi_leaves bs view mode"
  obtains m s' F where "efi_main bs h s = Inr ((0x1000, le64 kdata 27), s')" and "loading view F s'"
    and "0x16 \<le> m" and "m + 2 \<le> 32768" and "boot_map (page_count (le64 kdata 19 - le64 kdata 11)) m (pg s')"
    and "file_at 0x100000 (boot_image kdata (frame_of m) mode) (pg s')"
    and "boot_marks (page_count (le64 kdata 19 - le64 kdata 11)) m (pg s')"
    and "0x880 \<notin> {m, m + 1} \<longrightarrow> file_at (frame_of m) (take 0x2000 fdata) (pg s')"
proof -
  have len: "63 < length kdata" "length kdata \<le> 0x300000" using ready by (simp_all add: efi_ready_def)
  obtain m s1 F where load: "LoadKernel bs h ''kernel.bin'' s = Inr (0x100000, s1)" "loading view F s1"
    and m: "0x16 \<le> m" "m + 2 \<le> 32768" and bmap: "boot_map (page_count (le64 kdata 19 - le64 kdata 11)) m (pg s1)"
    and at1: "file_at 0x100000 (take 35 kdata @ bytes_of 8 (frame_of m) @ drop 43 kdata) (pg s1)"
    and marks: "boot_marks (page_count (le64 kdata 19 - le64 kdata 11)) m (pg s1)"
    and font: "file_at (frame_of m) (take 0x2000 fdata) (pg s1)" "m \<noteq> 0x100" "m + 1 \<noteq> 0x100"
    by (rule LoadKernel_ok [OF ready])
  obtain md w2 where gop: "CHECK_ERROR (LocateProtocol bs GraphicsOutput) s1 = Inr (md, s1\<lparr>fw := w2\<rparr>)"
    "md = mode \<and> view w2 = view (fw s1)"
    using leaves unfolding efi_leaves_def by (blast elim: givesE)
  let ?s2 = "s1\<lparr>fw := w2\<rparr>"
  have "F \<subseteq> free_pages (view w2)" using loadingD(2) [OF load(2)] gop(2) by (auto simp: pool_def)
  then have l2: "loading view F ?s2" by (rule loading_fw [OF load(2)])
  let ?b = "bytes_of 4 (ucast (HorizontalResolution mode)) @ bytes_of 4 (ucast (VerticalResolution mode)) @ [32]
     @ bytes_of 8 (FrameBufferBase mode) @ bytes_of 4 (FrameBufferSize mode)"
  have lb: "length ?b = 21" by simp
  have b: "0x15000 \<le> unat (0x100000 + 43 :: qword)" "unat (0x100000 + 43 :: qword) + length ?b \<le> 0x8000000"
    by simp_all
  note put = loading_put_mem [OF l2 b]
  let ?s3 = "?s2\<lparr>pg := put_bytes (0x100000 + 43) ?b (pg ?s2)\<rparr>"
  have at3: "file_at 0x100000 (boot_image kdata (frame_of m) mode) (pg ?s3)"
    using file_at_write [OF at1, of 43 ?b] len by (simp add: boot_image_def)
  have image: "length (boot_image kdata (frame_of m) mode) = length kdata" "le64 (boot_image kdata (frame_of m) mode) 27 = le64 kdata 27"
    using len by (simp_all add: boot_image_def le64_def le32_def le16_def nth_append)
  have entry: "get_qword (entry_start 0x100000) (pg ?s3) = le64 kdata 27"
    using file_at_field [OF at3, of 27] image len by simp
  obtain u w4 where ex: "CHECK_ERROR (ExitBootServices bs h (GetMapKey bs (fw ?s3))) ?s3 = Inr (u, ?s3\<lparr>fw := w4\<rparr>)"
    "view w4 = view (fw ?s3)"
    using leaves unfolding efi_leaves_def by (blast elim: givesE)
  let ?s4 = "?s3\<lparr>fw := w4\<rparr>"
  have "F \<subseteq> free_pages (view w4)" using loadingD(2) [OF put(2)] ex(2) by (auto simp: pool_def)
  then have l4: "loading view F ?s4" by (rule loading_fw [OF put(2)])
  have c: "0x15000 \<le> unat (0x880000 :: qword)" "unat (0x880000 :: qword) + length (bytes_of 8 0xDEAD1234) \<le> 0x8000000"
    by simp_all
  note put4 = loading_put_mem [OF l4 c]
  let ?s5 = "?s4\<lparr>pg := put_bytes 0x880000 (bytes_of 8 0xDEAD1234) (pg ?s4)\<rparr>"
  have "file_at 0x100000 (boot_image kdata (frame_of m) mode) (pg ?s5)"
  proof (rule file_at_frames [OF at3])
    show "unat (0x100000 :: qword) + length (boot_image kdata (frame_of m) mode) \<le> 0x8000000" using image(1) len by simp
    fix n assume "n * 0x1000 < unat (0x100000 :: qword) + length (boot_image kdata (frame_of m) mode)"
    then have n: "n < 0x400" using image(1) len by simp
    have "frame_of n \<noteq> frame_of (phys_no (0x880000 + of_nat i))" if "i < length (bytes_of 8 0xDEAD1234)" for i
    proof -
      have "phys_no (0x880000 + of_nat i) = 0x880" using that by (subst phys_no_add) auto
      then show ?thesis using n by simp
    qed
    then have "pmem (put_bytes 0x880000 (bytes_of 8 0xDEAD1234) (pg ?s4)) (frame_of n) = pmem (pg ?s4) (frame_of n)"
      by (rule put_bytes_frame)
    then show "pmem (pg ?s5) (frame_of n) = pmem (pg ?s3) (frame_of n)" by simp
  qed
  moreover have "efi_main bs h s = Inr ((0x1000, le64 kdata 27), ?s5)"
    unfolding efi_main_def using load(1) gop put(1) entry ex(1) put4(1) by (simp add: Let_def)
  moreover have "boot_map (page_count (le64 kdata 19 - le64 kdata 11)) m (pg ?s5)"
    using bmap put(3) put4(3) by (simp add: boot_map_def)
  moreover have "file_at (frame_of m) (take 0x2000 fdata) (pg ?s5)" if "0x880 \<notin> {m, m + 1}"
  proof -
    have 1: "frame_of (phys_no (0x100000 + 43 + of_nat i)) \<noteq> frame_of m
        \<and> frame_of (phys_no (0x100000 + 43 + of_nat i)) \<noteq> frame_of (m + 1)" if "i < length ?b" for i
      using header_field_page(2) [of i] that font(2,3) m(2) by simp
    have 2: "frame_of (phys_no (0x880000 + of_nat i)) \<noteq> frame_of m
        \<and> frame_of (phys_no (0x880000 + of_nat i)) \<noteq> frame_of (m + 1)" if "i < length (bytes_of 8 0xDEAD1234)" for i
      using header_field_page(3) [of i] that \<open>0x880 \<notin> {m, m + 1}\<close> m(2) by auto
    have f3: "file_at (frame_of m) (take 0x2000 fdata) (pg ?s3)"
      using file_at_beside [OF font(1) m(2), where bs = ?b, OF 1] by simp
    show ?thesis using file_at_beside [OF f3 m(2), where bs = "bytes_of 8 0xDEAD1234", OF 2] by simp
  qed
  ultimately show ?thesis using m marks put4(2) by (intro that [of ?s5 F m]) simp_all
qed

end
