(* ===== verification/Uefi_Firmware.thy ===== *)
theory Uefi_Firmware
  imports Uefi_Boot
begin

text \<open>
  The loader on any firmware that keeps to the UEFI specification.  Each service may fail,
  whatever it is asked; \<open>efi_spec\<close> says only what holds when it returns without an error.

  \<open>Uefi_Boot\<close> follows the loader on a firmware that never fails and places the font well.
  Here a run on the given firmware is compared with the run on a completed one: it passes on
  every call of the given firmware that succeeds and carries on by itself from the first
  that does not.  The completed firmware is of the first kind, and as the loader halts at the first
  failure, the two runs agree up to the halt.
\<close>

section \<open>What the specification promises\<close>

text \<open>What a service gives when its status is no error.\<close>

definition yields :: "('fw, 'a) service \<Rightarrow> 'fw \<Rightarrow> ('a \<Rightarrow> 'fw \<Rightarrow> bool) \<Rightarrow> bool" where
  "yields f w P \<longleftrightarrow> (case f w of (st, a, w') \<Rightarrow> \<not> efi_error st \<longrightarrow> P a w')"

text \<open>
  The pages \<open>m\<close> to \<open>m + k\<close> were not given to the loader before, and are now: the view's
  \<open>free_pages\<close> are the pages that the loader was not given yet, whether or not the
  firmware would give them.
\<close>

definition taken :: "efi_view \<Rightarrow> nat \<Rightarrow> nat \<Rightarrow> efi_view \<Rightarrow> bool" where
  "taken v m k v' \<longleftrightarrow> {m..<m + k} \<subseteq> free_pages v \<and> v' = v\<lparr>free_pages := free_pages v - {m..<m + k}\<rparr>"

text \<open>
  \<open>AllocatePages\<close> gives the range asked for, or at any address some range of pages, never
  the same page twice; \<open>SetMem\<close> fills memory, and nothing is said of \<open>rax\<close>; \<open>Open\<close> gives
  a handle at the start of a file that is on the volume, \<open>Read\<close> the bytes from the position on,
  and \<open>GetInfo\<close> the size; the graphics protocol tells the display's mode.  The other services
  give the loader no pages and move no file.
\<close>

definition efi_spec ::
  "'fw boot_services \<Rightarrow> ('fw \<Rightarrow> efi_view) \<Rightarrow> (string \<Rightarrow> byte list option) \<Rightarrow> gop_mode \<Rightarrow> bool" where
  "efi_spec bs view files mode \<longleftrightarrow>
     (\<forall>n k w. n < 32768 \<longrightarrow> yields (AllocatePages bs AllocateAddress k (frame_of n)) w
        (\<lambda>a w'. a = frame_of n \<and> taken (view w) n (unat k) (view w')))
   \<and> (\<forall>k a w. yields (AllocatePages bs AllocateAnyPages k a) w
        (\<lambda>p w'. \<exists>m. p = frame_of m \<and> m + unat k \<le> 2 ^ 52 \<and> taken (view w) m (unat k) (view w')))
   \<and> (\<forall>n s. n < 32768 \<longrightarrow> snd (SetMem bs (frame_of n) 0x1000 0 s)
        = (if frame_of n = bitmap_addr s then s\<lparr>bitmap := \<lambda>_. 0\<rparr> else zero_frame (frame_of n) s))
   \<and> (\<forall>h p w. yields (HandleProtocol bs h p) w (\<lambda>_ w'. view w' = view w))
   \<and> (\<forall>x w. yields (OpenVolume bs x) w (\<lambda>_ w'. view w' = view w))
   \<and> (\<forall>root name w. yields (Open bs root name) w (\<lambda>f w'. \<exists>data. files name = Some data
        \<and> view w' = (view w)\<lparr>opened := (opened (view w))(f \<mapsto> (data, 0))\<rparr>))
   \<and> (\<forall>f n w data pos. opened (view w) f = Some (data, pos) \<longrightarrow> yields (Read bs f n) w
        (\<lambda>bytes w'. bytes = take (unat n) (drop pos data)
          \<and> view w' = (view w)\<lparr>opened := (opened (view w))(f \<mapsto> (data, min (pos + unat n) (length data)))\<rparr>))
   \<and> (\<forall>f b w data pos. opened (view w) f = Some (data, pos) \<longrightarrow> yields (GetFileSize bs f b) w
        (\<lambda>n w'. n = of_nat (length data) \<and> view w' = view w))
   \<and> (\<forall>n w. yields (AllocatePool bs n) w (\<lambda>_ w'. view w' = view w))
   \<and> (\<forall>b w. yields (FreePool bs b) w (\<lambda>_ w'. view w' = view w))
   \<and> (\<forall>w. yields (LocateProtocol bs GraphicsOutput) w (\<lambda>m w'. m = mode \<and> view w' = view w))
   \<and> (\<forall>h key w. yields (ExitBootServices bs h key) w (\<lambda>_ w'. view w' = view w))"

lemma efi_specD:
  assumes "efi_spec bs view files mode"
  shows "n < 32768 \<Longrightarrow> yields (AllocatePages bs AllocateAddress k (frame_of n)) w
        (\<lambda>a w'. a = frame_of n \<and> taken (view w) n (unat k) (view w'))"
    and "yields (AllocatePages bs AllocateAnyPages k a) w
        (\<lambda>p w'. \<exists>m. p = frame_of m \<and> m + unat k \<le> 2 ^ 52 \<and> taken (view w) m (unat k) (view w'))"
    and "n < 32768 \<Longrightarrow> snd (SetMem bs (frame_of n) 0x1000 0 s)
        = (if frame_of n = bitmap_addr s then s\<lparr>bitmap := \<lambda>_. 0\<rparr> else zero_frame (frame_of n) s)"
    and "yields (HandleProtocol bs h p) w (\<lambda>_ w'. view w' = view w)"
    and "yields (OpenVolume bs x) w (\<lambda>_ w'. view w' = view w)"
    and "yields (Open bs root name) w (\<lambda>f w'. \<exists>data. files name = Some data
        \<and> view w' = (view w)\<lparr>opened := (opened (view w))(f \<mapsto> (data, 0))\<rparr>)"
    and "opened (view w) f = Some (data, pos) \<Longrightarrow> yields (Read bs f i) w
        (\<lambda>bytes w'. bytes = take (unat i) (drop pos data)
          \<and> view w' = (view w)\<lparr>opened := (opened (view w))(f \<mapsto> (data, min (pos + unat i) (length data)))\<rparr>)"
    and "opened (view w) f = Some (data, pos) \<Longrightarrow> yields (GetFileSize bs f b) w
        (\<lambda>n w'. n = of_nat (length data) \<and> view w' = view w)"
    and "yields (AllocatePool bs i) w (\<lambda>_ w'. view w' = view w)"
    and "yields (FreePool bs b) w (\<lambda>_ w'. view w' = view w)"
    and "yields (LocateProtocol bs GraphicsOutput) w (\<lambda>m w'. m = mode \<and> view w' = view w)"
    and "yields (ExitBootServices bs h key) w (\<lambda>_ w'. view w' = view w)"
  using assms unfolding efi_spec_def by simp_all

section \<open>The completed firmware\<close>

text \<open>Its state is the given firmware's, or after the first failure only the view.\<close>

primrec whole_view :: "('fw \<Rightarrow> efi_view) \<Rightarrow> 'fw + efi_view \<Rightarrow> efi_view" where
  "whole_view view (Inl w) = view w"
| "whole_view view (Inr v) = v"

definition attempt :: "('fw \<Rightarrow> efi_view) \<Rightarrow> ('a \<Rightarrow> bool) \<Rightarrow> ('fw, 'a) service \<Rightarrow> (efi_view, 'a) service
    \<Rightarrow> ('fw + efi_view, 'a) service" where
  "attempt view ok f g x =
     (let (st, a, v) = g (whole_view view x); carry = (st, a, Inr v)
      in case x of Inr _ \<Rightarrow> carry
         | Inl w \<Rightarrow> (case f w of (st', b, w') \<Rightarrow> if \<not> efi_error st' \<and> ok b then (st', b, Inl w') else carry))"

lemma attempt_gives:
  assumes "\<And>w. x = Inl w \<Longrightarrow> yields f w (\<lambda>a w'. ok a \<longrightarrow> P a (view w'))" and "gives g (whole_view view x) P"
  shows "gives (attempt view ok f g) x (\<lambda>a x'. P a (whole_view view x'))"
  using assms by (cases x) (auto simp: attempt_def gives_def yields_def Let_def split: prod.splits)

lemma attempt_error:
  assumes "\<And>w. x = Inl w \<Longrightarrow> yields f w (\<lambda>a w'. \<not> ok a)" and "efi_error (fst (g (whole_view view x)))"
  shows "efi_error (fst (attempt view ok f g x))"
  using assms by (cases x) (auto simp: attempt_def yields_def Let_def split: prod.splits)

text \<open>A call that the given firmware answers without an error is passed on.\<close>

lemma attempt_passes:
  "f w = (st, a, w') \<Longrightarrow> \<not> efi_error st \<Longrightarrow> ok a \<Longrightarrow> attempt view ok f g (Inl w) = (st, a, Inl w')"
  by (simp add: attempt_def Let_def split: prod.splits)

definition well_placed :: "nat \<Rightarrow> qword \<Rightarrow> bool" where
  "well_placed k p \<longleftrightarrow> (\<exists>m. p = frame_of m \<and> 0x16 \<le> m \<and> m + k \<le> 32768)"

definition plain_address :: "qword \<Rightarrow> qword \<Rightarrow> (efi_view, qword) service" where
  "plain_address k a v = (let n = unat (drop_bit 12 a) in
     if {n..<n + unat k} \<subseteq> free_pages v then (0, a, v\<lparr>free_pages := free_pages v - {n..<n + unat k}\<rparr>)
     else (0x800000000000000E, a, v))"

definition plain_any :: "qword \<Rightarrow> (efi_view, qword) service" where
  "plain_any k v = (case find (free_run (free_pages v) 0x16 32768 (unat k)) [0..<32769] of
       Some m \<Rightarrow> (0, frame_of m, v\<lparr>free_pages := free_pages v - {m..<m + unat k}\<rparr>)
     | None \<Rightarrow> (0x8000000000000009, 0, v))"

definition plain_open :: "(string \<Rightarrow> byte list option) \<Rightarrow> string \<Rightarrow> (efi_view, qword) service" where
  "plain_open files name v = (case files name of
       None \<Rightarrow> (0x800000000000000E, 0, v)
     | Some data \<Rightarrow> (0, 0, v\<lparr>opened := (opened v)(0 \<mapsto> (data, 0))\<rparr>))"

definition plain_read :: "qword \<Rightarrow> qword \<Rightarrow> (efi_view, byte list) service" where
  "plain_read f n v = (case opened v f of None \<Rightarrow> (0x8000000000000003, [], v)
     | Some (data, pos) \<Rightarrow> (0, take (unat n) (drop pos data),
         v\<lparr>opened := (opened v)(f \<mapsto> (data, min (pos + unat n) (length data)))\<rparr>))"

definition plain_size :: "qword \<Rightarrow> (efi_view, qword) service" where
  "plain_size f v = (case opened v f of None \<Rightarrow> (0x8000000000000003, 0, v)
     | Some (data, pos) \<Rightarrow> (0, of_nat (length data), v))"

definition completed ::
  "'fw boot_services \<Rightarrow> ('fw \<Rightarrow> efi_view) \<Rightarrow> (string \<Rightarrow> byte list option) \<Rightarrow> gop_mode \<Rightarrow> ('fw + efi_view) boot_services" where
  "completed bs view files mode = \<lparr>
     AllocatePages = (\<lambda>ty k a. case ty of
         AllocateAddress \<Rightarrow> attempt view (\<lambda>_. True) (AllocatePages bs ty k a) (plain_address k a)
       | AllocateAnyPages \<Rightarrow> attempt view (well_placed (unat k)) (AllocatePages bs ty k a) (plain_any k)),
     SetMem = (\<lambda>a n b s. (0, snd (SetMem bs a n b s))),
     HandleProtocol = (\<lambda>h p. attempt view (\<lambda>_. True) (HandleProtocol bs h p) (\<lambda>v. (0, 0, v))),
     DeviceHandle = (\<lambda>a x. case x of Inl w \<Rightarrow> DeviceHandle bs a w | Inr _ \<Rightarrow> 0),
     OpenVolume = (\<lambda>a. attempt view (\<lambda>_. True) (OpenVolume bs a) (\<lambda>v. (0, 0, v))),
     Open = (\<lambda>root name. attempt view (\<lambda>_. True) (Open bs root name) (plain_open files name)),
     AllocatePool = (\<lambda>n. attempt view (\<lambda>_. True) (AllocatePool bs n) (\<lambda>v. (0, 0, v))),
     FreePool = (\<lambda>b. attempt view (\<lambda>_. True) (FreePool bs b) (\<lambda>v. (0, (), v))),
     GetFileSize = (\<lambda>f b. attempt view (\<lambda>_. True) (GetFileSize bs f b) (plain_size f)),
     Read = (\<lambda>f n. attempt view (\<lambda>_. True) (Read bs f n) (plain_read f n)),
     LocateProtocol = (\<lambda>p. attempt view (\<lambda>_. True) (LocateProtocol bs p) (\<lambda>v. (0, mode, v))),
     GetMapKey = (\<lambda>x. case x of Inl w \<Rightarrow> GetMapKey bs w | Inr _ \<Rightarrow> 0),
     ExitBootServices = (\<lambda>h key. attempt view (\<lambda>_. True) (ExitBootServices bs h key) (\<lambda>v. (0, (), v)))\<rparr>"

lemma not_error_0: "\<not> efi_error 0"
  by (simp add: efi_error_def)

lemma phys_no_frame_of: "n < 32768 \<Longrightarrow> unat (drop_bit 12 (frame_of n)) = n"
  by (simp add: drop_bit_eq_div unat_div unat_frame_of)

lemma unat_frame_of_wide:
  assumes "n < 2 ^ 52"
  shows "unat (frame_of n) = n * 0x1000"
proof -
  have "unat (of_nat (n * 0x1000) :: qword) = n * 0x1000"
    using assms by (subst unsigned_of_nat) (simp add: take_bit_nat_eq_self)
  then show ?thesis by (simp only: frame_of_mult)
qed

lemma frame_of_wide:
  assumes "frame_of n = frame_of m" and "n < 2 ^ 52" and "m < 2 ^ 52"
  shows "n = m"
proof -
  have "n * 0x1000 = m * 0x1000"
    using arg_cong [OF assms(1), of unat] unfolding unat_frame_of_wide [OF assms(2)] unat_frame_of_wide [OF assms(3)] .
  then show ?thesis by simp
qed

lemma completed_memory:
  assumes spec: "efi_spec bs view files mode"
  shows "efi_memory (completed bs view files mode) (whole_view view)"
proof -
  let ?bs = "completed bs view files mode" and ?view = "whole_view view"
  have alloc: "case AllocatePages ?bs AllocateAddress k (frame_of n) x of (st, a, x') \<Rightarrow>
      let R = {n..<n + unat k} in if R \<subseteq> free_pages (?view x)
      then \<not> efi_error st \<and> a = frame_of n \<and> ?view x' = (?view x)\<lparr>free_pages := free_pages (?view x) - R\<rparr>
      else efi_error st" if n: "n < 32768" for n k x
  proof -
    let ?R = "{n..<n + unat k}" and ?f = "AllocatePages bs AllocateAddress k (frame_of n)"
    let ?g = "attempt view (\<lambda>_. True) ?f (plain_address k (frame_of n))"
    have call: "AllocatePages ?bs AllocateAddress k (frame_of n) = ?g" by (simp add: completed_def)
    have real: "yields ?f w (\<lambda>a w'. a = frame_of n \<and> taken (view w) n (unat k) (view w'))" for w
      by (rule efi_specD(1) [OF spec n])
    show ?thesis
    proof (cases "?R \<subseteq> free_pages (?view x)")
      case True
      have "gives ?g x (\<lambda>a x'. a = frame_of n \<and> taken (?view x) n (unat k) (?view x'))"
      proof (rule attempt_gives)
        show "gives (plain_address k (frame_of n)) (?view x) (\<lambda>a v'. a = frame_of n \<and> taken (?view x) n (unat k) v')"
          using True phys_no_frame_of [OF n] by (simp add: gives_def plain_address_def taken_def not_error_0)
      qed (use real in simp)
      then show ?thesis using True by (auto simp: call gives_def taken_def split: prod.splits)
    next
      case False
      have "efi_error (fst (?g x))"
      proof (rule attempt_error)
        show "efi_error (fst (plain_address k (frame_of n) (?view x)))"
          using False phys_no_frame_of [OF n] by (simp add: plain_address_def efi_error_def)
        show "yields ?f w (\<lambda>a w'. \<not> True)" if "x = Inl w" for w
          using real [of w] False that by (auto simp: yields_def taken_def)
      qed
      then show ?thesis using False by (auto simp: call split: prod.splits)
    qed
  qed
  have "case SetMem ?bs (frame_of n) 0x1000 0 s of (st, s') \<Rightarrow> \<not> efi_error st
      \<and> s' = (if frame_of n = bitmap_addr s then s\<lparr>bitmap := \<lambda>_. 0\<rparr> else zero_frame (frame_of n) s)"
    if "n < 32768" for n s
    using efi_specD(3) [OF spec that, of s] by (simp add: completed_def not_error_0)
  then show ?thesis unfolding efi_memory_def by (intro conjI allI impI alloc) blast+
qed

lemma completed_places:
  assumes spec: "efi_spec bs view files mode"
  shows "efi_places (completed bs view files mode) (whole_view view) 0x16 32768"
  unfolding efi_places_def
proof (intro allI impI)
  fix k a x
  let ?v = "whole_view view x" and ?f = "AllocatePages bs AllocateAnyPages k a"
  assume "\<exists>m. free_run (free_pages ?v) 0x16 32768 (unat k) m"
  then obtain m where m: "free_run (free_pages ?v) 0x16 32768 (unat k) m" by blast
  let ?P = "\<lambda>p v'. \<exists>m. p = frame_of m \<and> free_run (free_pages ?v) 0x16 32768 (unat k) m
       \<and> v' = ?v\<lparr>free_pages := free_pages ?v - {m..<m + unat k}\<rparr>"
  have "gives (plain_any k) ?v ?P"
  proof (cases "find (free_run (free_pages ?v) 0x16 32768 (unat k)) [0..<32769]")
    case None
    then show ?thesis using m by (auto simp: find_None_iff free_run_def)
  next
    case (Some n)
    then have "free_run (free_pages ?v) 0x16 32768 (unat k) n" by (auto simp: find_Some_iff)
    then show ?thesis using Some by (auto simp: gives_def plain_any_def not_error_0)
  qed
  moreover have "yields ?f w (\<lambda>p w'. well_placed (unat k) p \<longrightarrow> ?P p (view w'))" if "x = Inl w" for w
  proof -
    obtain st p w' where call: "?f w = (st, p, w')" by (metis surj_pair)
    have "?P p (view w')" if ok: "\<not> efi_error st" "well_placed (unat k) p"
    proof -
      obtain n where n: "p = frame_of n" "n + unat k \<le> 2 ^ 52" "taken (view w) n (unat k) (view w')"
        using efi_specD(2) [OF spec, of k a w] ok(1) by (auto simp: yields_def call)
      obtain j where j: "p = frame_of j" "0x16 \<le> j" "j + unat k \<le> 32768" using ok(2) by (auto simp: well_placed_def)
      have "n = j" if "unat k \<noteq> 0"
        by (rule frame_of_wide) (use n(1,2) j(1,3) that in auto)
      then show ?thesis using n(3) j \<open>x = Inl w\<close>
        by (intro exI [of _ j]) (cases "unat k = 0"; auto simp: taken_def free_run_def)
    qed
    then show ?thesis by (simp add: yields_def call)
  qed
  ultimately have "gives (attempt view (well_placed (unat k)) ?f (plain_any k)) x (\<lambda>a x'. ?P a (whole_view view x'))"
    by (intro attempt_gives) auto
  then show "gives (AllocatePages (completed bs view files mode) AllocateAnyPages k a) x (\<lambda>p w'. \<exists>m. p = frame_of m
       \<and> free_run (free_pages ?v) 0x16 32768 (unat k) m
       \<and> whole_view view w' = ?v\<lparr>free_pages := free_pages ?v - {m..<m + unat k}\<rparr>)"
    by (simp add: completed_def)
qed

lemma attempt_keeps:
  assumes "\<And>w. yields f w (\<lambda>a w'. P a \<and> view w' = view w)" and "\<not> efi_error st" and "P a"
  shows "gives (attempt view (\<lambda>_. True) f (\<lambda>v. (st, a, v))) x (\<lambda>a x'. P a \<and> whole_view view x' = whole_view view x)"
  by (rule attempt_gives) (use assms in \<open>auto simp: gives_def\<close>)

lemma attempt_same:
  assumes "\<And>w. yields f w (\<lambda>_ w'. view w' = view w)"
  shows "gives (attempt view (\<lambda>_. True) f (\<lambda>v. (0, a, v))) x (\<lambda>_ x'. whole_view view x' = whole_view view x)"
  using attempt_keeps [of f "\<lambda>_. True" view 0 a x] assms by (simp add: not_error_0)

lemma completed_protocols:
  assumes "efi_spec bs view files mode"
  shows "efi_protocols (completed bs view files mode) (whole_view view)"
  unfolding efi_protocols_def completed_def by (simp add: attempt_same [OF efi_specD(4) [OF assms]])

lemma completed_leaves:
  assumes "efi_spec bs view files mode"
  shows "efi_leaves (completed bs view files mode) (whole_view view) mode"
  unfolding efi_leaves_def completed_def
  using attempt_keeps [OF efi_specD(11) [OF assms], of 0] attempt_same [OF efi_specD(12) [OF assms]]
  by (simp add: not_error_0)

lemma completed_files:
  assumes spec: "efi_spec bs view files mode"
  shows "efi_files (completed bs view files mode) (whole_view view) files"
proof -
  let ?bs = "completed bs view files mode" and ?view = "whole_view view"
  have op: "gives (Open ?bs root name) x (\<lambda>f x'.
      ?view x' = (?view x)\<lparr>opened := (opened (?view x))(f \<mapsto> (data, 0))\<rparr>)" if "files name = Some data" for root name data x
  proof -
    have "gives (attempt view (\<lambda>_. True) (Open bs root name) (plain_open files name)) x (\<lambda>f x'.
        ?view x' = (?view x)\<lparr>opened := (opened (?view x))(f \<mapsto> (data, 0))\<rparr>)"
    proof (rule attempt_gives)
      show "yields (Open bs root name) w (\<lambda>f w'. True \<longrightarrow>
          view w' = (?view x)\<lparr>opened := (opened (?view x))(f \<mapsto> (data, 0))\<rparr>)" if "x = Inl w" for w
        using efi_specD(6) [OF spec, of root name w] \<open>files name = Some data\<close> that by (auto simp: yields_def)
    qed (use that in \<open>simp add: gives_def plain_open_def not_error_0 fun_upd_def\<close>)
    then show ?thesis by (simp add: completed_def)
  qed
  have rd: "gives (Read ?bs f n) x (\<lambda>bytes x'. bytes = take (unat n) (drop pos data)
      \<and> ?view x' = (?view x)\<lparr>opened := (opened (?view x))(f \<mapsto> (data, min (pos + unat n) (length data)))\<rparr>)"
    if "opened (?view x) f = Some (data, pos)" for f n x data pos
  proof -
    have "gives (attempt view (\<lambda>_. True) (Read bs f n) (plain_read f n)) x (\<lambda>bytes x'. bytes = take (unat n) (drop pos data)
        \<and> ?view x' = (?view x)\<lparr>opened := (opened (?view x))(f \<mapsto> (data, min (pos + unat n) (length data)))\<rparr>)"
      by (rule attempt_gives) (use efi_specD(7) [OF spec] that in \<open>auto simp: gives_def plain_read_def not_error_0 simp del: fun_upd_apply\<close>)
    then show ?thesis by (simp add: completed_def)
  qed
  have sz: "gives (GetFileSize ?bs f b) x (\<lambda>n x'. n = of_nat (length data) \<and> ?view x' = ?view x)"
    if "opened (?view x) f = Some (data, pos)" for f b x data pos
  proof -
    have "gives (attempt view (\<lambda>_. True) (GetFileSize bs f b) (plain_size f)) x
        (\<lambda>n x'. n = of_nat (length data) \<and> ?view x' = ?view x)"
      by (rule attempt_gives) (use efi_specD(8) [OF spec] that in \<open>auto simp: gives_def plain_size_def not_error_0\<close>)
    then show ?thesis by (simp add: completed_def)
  qed
  have "gives (OpenVolume ?bs a) x (\<lambda>_ x'. ?view x' = ?view x)" "gives (AllocatePool ?bs n) x (\<lambda>_ x'. ?view x' = ?view x)"
    "gives (FreePool ?bs b) x (\<lambda>_ x'. ?view x' = ?view x)" for a n b x
    using attempt_same [OF efi_specD(5) [OF spec]] attempt_same [OF efi_specD(9) [OF spec]]
      attempt_same [OF efi_specD(10) [OF spec]] by (simp_all add: completed_def)
  with op rd sz show ?thesis unfolding efi_files_def by blast
qed

section \<open>Two runs\<close>

text \<open>
  \<open>halts_or g x y\<close>: the run \<open>x\<close> halts with the status of a failed call, or \<open>y\<close> is the same run, its results
  related by \<open>g\<close>.
\<close>

definition halts_or :: "('a \<Rightarrow> 'b) \<Rightarrow> 'a boot \<Rightarrow> 'b boot \<Rightarrow> bool" where
  "halts_or g x y \<longleftrightarrow> (\<exists>st. efi_error st \<and> x = Inl (Halted st)) \<or> y = map_sum id g x"

definition whole :: "'fw ustate \<Rightarrow> ('fw + efi_view) ustate" where
  "whole s = \<lparr>pg = pg s, fw = Inl (fw s)\<rparr>"

abbreviation with_whole :: "'a \<times> 'fw ustate \<Rightarrow> 'a \<times> ('fw + efi_view) ustate" where
  "with_whole \<equiv> map_prod id whole"

lemma whole_simps [simp]: "pg (whole s) = pg s" "fw (whole s) = Inl (fw s)" "(whole s)\<lparr>pg := p\<rparr> = whole (s\<lparr>pg := p\<rparr>)"
  by (simp_all add: whole_def)

lemma halts_or_Inr: "halts_or g (Inr a) (Inr b) \<longleftrightarrow> b = g a"
  by (simp add: halts_or_def)

lemma halts_or_Inl: "halts_or g (Inl e) (Inl e)"
  by (simp add: halts_or_def)

lemma halts_or_then:
  assumes "halts_or g x y" and "\<And>a. x = Inr a \<Longrightarrow> halts_or g' (f a) (f' (g a))"
  shows "halts_or g' (boot_then x f) (boot_then y f')"
  using assms by (cases x) (auto simp: halts_or_def)

lemma halts_or_then_pair:
  assumes "halts_or with_whole x y" and "\<And>a s. x = Inr (a, s) \<Longrightarrow> halts_or g' (f a s) (f' a (whole s))"
  shows "halts_or g' (boot_then x (\<lambda>(a, s). f a s)) (boot_then y (\<lambda>(a, s). f' a s))"
  using assms by (intro halts_or_then) (auto simp: split_beta)

lemma halts_or_if: "(c \<Longrightarrow> halts_or g x y) \<Longrightarrow> (\<not> c \<Longrightarrow> halts_or g x' y') \<Longrightarrow> halts_or g (if c then x else x') (if c then y else y')"
  by simp

lemma halts_or_call:
  assumes "\<And>st a w. f (fw s) = (st, a, w) \<Longrightarrow> \<not> efi_error st \<Longrightarrow> f' (Inl (fw s)) = (st, a, Inl w)"
  shows "halts_or with_whole (CHECK_ERROR f s) (CHECK_ERROR f' (whole s))"
  using assms by (cases "f (fw s)") (auto simp: CHECK_ERROR_def halts_or_def whole_def)

text \<open>The services, and the steps of the loader, one by one.\<close>

named_theorems halting

lemma halts_or_services [halting]:
  "halts_or with_whole (CHECK_ERROR (AllocatePages bs AllocateAddress k a) s)
     (CHECK_ERROR (AllocatePages (completed bs view files mode) AllocateAddress k a) (whole s))"
  "halts_or with_whole (CHECK_ERROR (HandleProtocol bs h p) s)
     (CHECK_ERROR (HandleProtocol (completed bs view files mode) h p) (whole s))"
  "halts_or with_whole (CHECK_ERROR (OpenVolume bs x) s) (CHECK_ERROR (OpenVolume (completed bs view files mode) x) (whole s))"
  "halts_or with_whole (CHECK_ERROR (Open bs root name) s) (CHECK_ERROR (Open (completed bs view files mode) root name) (whole s))"
  "halts_or with_whole (CHECK_ERROR (AllocatePool bs n) s) (CHECK_ERROR (AllocatePool (completed bs view files mode) n) (whole s))"
  "halts_or with_whole (CHECK_ERROR (FreePool bs b) s) (CHECK_ERROR (FreePool (completed bs view files mode) b) (whole s))"
  "halts_or with_whole (CHECK_ERROR (GetFileSize bs f b) s) (CHECK_ERROR (GetFileSize (completed bs view files mode) f b) (whole s))"
  "halts_or with_whole (CHECK_ERROR (Read bs f n) s) (CHECK_ERROR (Read (completed bs view files mode) f n) (whole s))"
  "halts_or with_whole (CHECK_ERROR (LocateProtocol bs p) s) (CHECK_ERROR (LocateProtocol (completed bs view files mode) p) (whole s))"
  "halts_or with_whole (CHECK_ERROR (ExitBootServices bs h key) s)
     (CHECK_ERROR (ExitBootServices (completed bs view files mode) h key) (whole s))"
  by (rule halts_or_call, simp add: completed_def attempt_passes)+

lemma halts_or_any:
  assumes "\<And>st p w. AllocatePages bs AllocateAnyPages k a (fw s) = (st, p, w) \<Longrightarrow> \<not> efi_error st \<Longrightarrow> well_placed (unat k) p"
  shows "halts_or with_whole (CHECK_ERROR (AllocatePages bs AllocateAnyPages k a) s)
     (CHECK_ERROR (AllocatePages (completed bs view files mode) AllocateAnyPages k a) (whole s))"
  using assms by (intro halts_or_call) (simp add: completed_def attempt_passes)

lemma completed_reads [simp]:
  "DeviceHandle (completed bs view files mode) x (Inl w) = DeviceHandle bs x w"
  "GetMapKey (completed bs view files mode) (Inl w) = GetMapKey bs w"
  by (simp_all add: completed_def)

lemma halts_or_memory [halting]:
  "halts_or whole (SetMem_page bs a s) (SetMem_page (completed bs view files mode) a (whole s))"
  "halts_or id (table_get t i s) (table_get t i (whole s))"
  "halts_or whole (table_set t i v s) (table_set t i v (whole s))"
  "halts_or whole (bitmap_or idx off s) (bitmap_or idx off (whole s))"
  "halts_or whole (put_mem a data s) (put_mem a data (whole s))"
  by (auto simp: SetMem_page_def completed_def table_get_def table_set_def bitmap_or_def put_mem_def halts_or_def
      not_error_0 split: prod.splits)

lemma halts_or_alloc_fixed [halting]:
  "halts_or with_whole (alloc_fixed bs a s) (alloc_fixed (completed bs view files mode) a (whole s))"
  unfolding alloc_fixed_def by (rule halting)

lemma halts_or_identity_loop [halting]: "halts_or whole (identity_loop pt n s) (identity_loop pt n (whole s))"
  by (induction n) (auto simp: halts_or_Inr intro!: halts_or_then halting)

lemma halts_or_createNewPage [halting]:
  "halts_or whole (Kernel_createNewPage bs h s) (Kernel_createNewPage (completed bs view files mode) h (whole s))"
  unfolding Kernel_createNewPage_def Let_def
  by (rule halts_or_then_pair halts_or_then halting | simp only: whole_simps)+

lemma halts_or_Alloc4KPage [halting]:
  "halts_or with_whole (Kernel_Alloc4KPage bs s) (Kernel_Alloc4KPage (completed bs view files mode) (whole s))"
  unfolding Kernel_Alloc4KPage_def
  by (auto simp: halts_or_Inr split: option.split intro!: halts_or_then_pair halts_or_then halting)

lemma halts_or_CHECK_AND_CREATE_FRAME [halting]:
  "halts_or with_whole (CHECK_AND_CREATE_FRAME bs flags t i s)
     (CHECK_AND_CREATE_FRAME (completed bs view files mode) flags t i (whole s))"
  unfolding CHECK_AND_CREATE_FRAME_def
  by (auto simp: halts_or_Inr intro!: halts_or_then_pair halts_or_then halting)

lemma halts_or_Kernel_tables [halting]:
  "halts_or with_whole (Kernel_tables bs virt flags s) (Kernel_tables (completed bs view files mode) virt flags (whole s))"
  unfolding Kernel_tables_def by (rule halts_or_then_pair halting | simp only: whole_simps)+

lemma halts_or_MapPagePhysical_page [halting]:
  "halts_or whole (MapPagePhysical_page bs virt physc flags s)
     (MapPagePhysical_page (completed bs view files mode) virt physc flags (whole s))"
  unfolding MapPagePhysical_page_def by (rule halts_or_then_pair halts_or_then halting)+

lemma halts_or_loop:
  assumes "\<And>off s. halts_or whole (f off s) (f' off (whole s))"
  shows "halts_or whole (boot_loop f n s) (boot_loop f' n (whole s))"
  by (induction n) (auto simp: halts_or_Inr intro!: halts_or_then assms)

lemma halts_or_MapPagePhysical [halting]:
  "halts_or whole (Kernel_MapPagePhysical bs virt phys sz flags s)
     (Kernel_MapPagePhysical (completed bs view files mode) virt phys sz flags (whole s))"
  unfolding Kernel_MapPagePhysical_def by (rule halts_or_loop halting)+

lemma halts_or_GetRoot [halting]:
  "halts_or with_whole (GetRoot bs h s) (GetRoot (completed bs view files mode) h (whole s))"
  unfolding GetRoot_def by (rule halts_or_then_pair halting | simp only: whole_simps completed_reads)+

lemma halts_or_OpenFile [halting]:
  "halts_or with_whole (OpenFile bs root name s) (OpenFile (completed bs view files mode) root name (whole s))"
  unfolding OpenFile_def by (rule halting)

lemma halts_or_read_to [halting]:
  "halts_or whole (read_to bs f sz a s) (read_to (completed bs view files mode) f sz a (whole s))"
  unfolding read_to_def by (rule halts_or_then_pair halting)+

lemma halts_or_LoadKernel_files:
  "halts_or with_whole (LoadKernel_files bs h name s) (LoadKernel_files (completed bs view files mode) h name (whole s))"
  unfolding LoadKernel_files_def Let_def
  by (rule halts_or_then_pair halts_or_then halting | simp only: whole_simps | simp add: halts_or_Inr)+

lemma halts_or_LoadKernel_font:
  assumes "\<And>st p w. AllocatePages bs AllocateAnyPages 2 0 (fw s) = (st, p, w) \<Longrightarrow> \<not> efi_error st \<Longrightarrow> well_placed 2 p"
  shows "halts_or with_whole (LoadKernel_font bs ki t s) (LoadKernel_font (completed bs view files mode) ki t (whole s))"
  unfolding LoadKernel_font_def
  by (rule halts_or_then_pair halts_or_then halting halts_or_any | simp add: halts_or_Inr assms)+

text \<open>
  \<open>font_call bs h s p\<close>: \<open>LoadKernel\<close> gets to the call that places the font, which gives \<open>p\<close>.
\<close>

definition font_call :: "'fw boot_services \<Rightarrow> qword \<Rightarrow> 'fw ustate \<Rightarrow> qword \<Rightarrow> bool" where
  "font_call bs h s p \<longleftrightarrow> (\<exists>ki t s' s''. LoadKernel_files bs h ''kernel.bin'' s = Inr ((ki, t), s')
     \<and> CHECK_ERROR (AllocatePages bs AllocateAnyPages 2 0) s' = Inr (p, s''))"

lemma halts_or_efi_main:
  assumes "\<And>p. font_call bs h s p \<Longrightarrow> well_placed 2 p"
  shows "halts_or with_whole (efi_main bs h s) (efi_main (completed bs view files mode) h (whole s))"
proof -
  have font: "halts_or with_whole (LoadKernel_font bs ki t s') (LoadKernel_font (completed bs view files mode) ki t (whole s'))"
    if "LoadKernel_files bs h ''kernel.bin'' s = Inr ((ki, t), s')" for ki t s'
    by (rule halts_or_LoadKernel_font, rule assms) (use that in \<open>auto simp: font_call_def CHECK_ERROR_def\<close>)
  have "halts_or with_whole (LoadKernel bs h ''kernel.bin'' s) (LoadKernel (completed bs view files mode) h ''kernel.bin'' (whole s))"
    unfolding LoadKernel_def
    by (rule halts_or_then [OF halts_or_LoadKernel_files]) (auto intro: font)
  then show ?thesis
    unfolding efi_main_def Let_def
    by (rule halts_or_then_pair)
      (rule halts_or_then_pair halts_or_then halting | simp only: whole_simps completed_reads | simp add: halts_or_Inr)+
qed

section \<open>The loader on any firmware\<close>

text \<open>
  No page outside the first 128 MiB is ever mapped: the mark of such a page lies outside the
  bitmap.
\<close>

lemma MapPagePhysical_page_below:
  "MapPagePhysical_page bs virt phys flags s = Inr s' \<Longrightarrow> phys < 0x8000000"
  by (rule ccontr) (auto simp: MapPagePhysical_page_def boot_then_Inr bitmap_or_phys split: prod.splits)

lemma boot_loop_Inr: "boot_loop f n s = Inr s' \<Longrightarrow> k < n \<Longrightarrow> \<exists>s1 s2. f (of_nat k * 0x1000) s1 = Inr s2"
  by (induction n arbitrary: s') (auto simp: boot_then_Inr less_Suc_eq)

lemma MapPagePhysical_below:
  assumes "Kernel_MapPagePhysical bs virt phys sz flags s = Inr s'" and "k < page_count sz"
  shows "phys + of_nat k * 0x1000 < 0x8000000"
  using boot_loop_Inr [OF assms(1) [unfolded Kernel_MapPagePhysical_def] assms(2)] by (blast dest: MapPagePhysical_page_below)

lemma efi_main_font:
  assumes "efi_main bs h s = Inr r"
  obtains p where "font_call bs h s p" and "p < 0x8000000" and "p + 0x1000 < 0x8000000"
proof -
  obtain x where "LoadKernel bs h ''kernel.bin'' s = Inr x" using assms by (auto simp: efi_main_def boot_then_Inr)
  then obtain ki t s1 where files: "LoadKernel_files bs h ''kernel.bin'' s = Inr ((ki, t), s1)"
    and font: "LoadKernel_font bs ki t s1 = Inr x"
    by (auto simp: LoadKernel_def boot_then_Inr)
  then obtain p s2 s3 s4 where call: "CHECK_ERROR (AllocatePages bs AllocateAnyPages 2 0) s1 = Inr (p, s2)"
    and maps: "Kernel_MapPagePhysical bs p p 0x2000 3 s3 = Inr s4"
    by (auto simp: LoadKernel_font_def boot_then_Inr)
  have "page_count 0x2000 = 2" by (simp add: page_count_def)
  then show ?thesis
    using MapPagePhysical_below [OF maps, of 0] MapPagePhysical_below [OF maps, of 1] files call
    by (intro that [of p]) (auto simp: font_call_def)
qed

lemma font_call_unique: "font_call bs h s p \<Longrightarrow> font_call bs h s q \<Longrightarrow> p = q"
  by (auto simp: font_call_def)

lemma font_call_frame:
  assumes "efi_spec bs view files mode" and "font_call bs h s p"
  obtains m where "p = frame_of m" and "m < 2 ^ 52"
proof -
  obtain s' s'' where "CHECK_ERROR (AllocatePages bs AllocateAnyPages 2 0) s' = Inr (p, s'')"
    using assms(2) by (auto simp: font_call_def)
  then obtain m where "p = frame_of m" "m + 2 \<le> 2 ^ 52"
    using efi_specD(2) [OF assms(1), of 2 0 "fw s'"]
    by (auto simp: CHECK_ERROR_def yields_def split: prod.splits if_splits)
  then show ?thesis by (intro that [of m]) simp_all
qed

lemma unat_numeral_qword: "unat (0x8000000 :: qword) = 0x8000000" "unat (0x7FFE000 :: qword) = 0x7FFE000"
  by simp_all

text \<open>The font outside of the place where the loader can use it: over the low pages, or not below 128 MiB.\<close>

lemma badly_placed:
  assumes "m < 2 ^ 52" and "\<not> well_placed 2 (frame_of m)"
  shows "frame_of m < 0x16000 \<or> 0x7FFE000 < frame_of m"
proof -
  have "\<not> (0x16 \<le> m \<and> m + 2 \<le> 32768)" using assms(2) unfolding well_placed_def by blast
  then show ?thesis using unat_frame_of_wide [OF assms(1)] by (auto simp: word_less_nat_alt)
qed

text \<open>
  \<open>loader_start\<close>: the loader holds none of the pages below 128 MiB but page 0, all of
  which are memory; the kernel's file has a header, and neither the file nor the range in the
  header is longer than three mebibytes.
\<close>

definition loader_start :: "('fw \<Rightarrow> efi_view) \<Rightarrow> byte list \<Rightarrow> 'fw ustate \<Rightarrow> bool" where
  "loader_start view kdata s \<longleftrightarrow> {1..<32768} \<subseteq> free_pages (view (fw s)) \<and> 0x8000000 \<le> ram_end (pg s)
     \<and> 63 < length kdata \<and> length kdata \<le> 0x300000 \<and> page_count (le64 kdata 19 - le64 kdata 11) \<le> 768"

definition boot_volume :: "byte list \<Rightarrow> byte list \<Rightarrow> byte list \<Rightarrow> string \<Rightarrow> byte list option" where
  "boot_volume kdata gdata fdata = [''kernel.bin'' \<mapsto> kdata, ''gkrnl.bin'' \<mapsto> gdata, ''font.map'' \<mapsto> fdata]"

lemma completed_ready:
  assumes "efi_spec bs view (boot_volume kdata gdata fdata) mode" and "loader_start view kdata s"
  shows "efi_ready (completed bs view (boot_volume kdata gdata fdata) mode) (whole_view view) kdata gdata fdata (whole s)"
proof -
  let ?k = "page_count (of_nat (length kdata) + 256)"
  have free: "{1..<32768} \<subseteq> free_pages (view (fw s))" and len: "length kdata \<le> 0x300000"
    using assms(2) by (simp_all add: loader_start_def)
  have k: "?k \<le> 0x400" using page_count_file(1) [OF len] by simp
  have "{1..0x14} \<union> {0x100..<0x100 + ?k} \<subseteq> free_pages (view (fw s))"
    by (rule subset_trans [OF _ free]) (use k in auto)
  moreover have "free_run (free_pages (view (fw s)) - {0x100..<0x100 + ?k}) 0x16 32768 2 0x600"
  proof -
    have "{0x600..<0x600 + 2} \<subseteq> free_pages (view (fw s))" by (rule subset_trans [OF _ free]) auto
    then show ?thesis using k by (auto simp: free_run_def)
  qed
  ultimately show ?thesis
    using assms(2) completed_memory [OF assms(1)] completed_protocols [OF assms(1)] completed_places [OF assms(1)]
      completed_files [OF assms(1)]
    unfolding efi_ready_def boot_volume_def by (auto simp: loader_start_def)
qed

lemma efi_main_any:
  assumes spec: "efi_spec bs view (boot_volume kdata gdata fdata) mode" and start: "loader_start view kdata s"
  obtains (halt) st where "efi_error st" and "efi_main bs h s = Inl (Halted st)"
    | (font) p where "font_call bs h s p" and "p < 0x16000 \<or> 0x7FFE000 < p \<and> (\<forall>r. efi_main bs h s \<noteq> Inr r)"
    | (jump) m s' view' F where "efi_main bs h s = Inr ((0x1000, le64 kdata 27), s')"
      and "loading view' F (whole s')" and "0x16 \<le> m" and "m + 2 \<le> 32768" and "boot_map (page_count (le64 kdata 19 - le64 kdata 11)) m (pg s')"
      and "file_at 0x100000 (boot_image kdata (frame_of m) mode) (pg s')"
      and "boot_marks (page_count (le64 kdata 19 - le64 kdata 11)) m (pg s')"
      and "0x880 \<notin> {m, m + 1} \<longrightarrow> file_at (frame_of m) (take 0x2000 fdata) (pg s')"
proof (cases "\<forall>p. font_call bs h s p \<longrightarrow> well_placed 2 p")
  case False
  then obtain p where p: "font_call bs h s p" "\<not> well_placed 2 p" by blast
  obtain m where m: "p = frame_of m" "m < 2 ^ 52" by (rule font_call_frame [OF spec p(1)])
  have "efi_main bs h s \<noteq> Inr r" if "0x7FFE000 < p" for r
  proof
    assume "efi_main bs h s = Inr r"
    then obtain q where q: "font_call bs h s q" "q < 0x8000000" "q + 0x1000 < 0x8000000" by (rule efi_main_font)
    have u: "unat p = m * 0x1000" using unat_frame_of_wide [OF m(2)] m(1) by metis
    have q': "p < 0x8000000" "p + 0x1000 < 0x8000000" using q(2,3) font_call_unique [OF p(1) q(1)] by metis+
    have "unat p < unat (0x8000000 :: qword)" "unat (0x7FFE000 :: qword) < unat p"
      using q'(1) that by (simp_all only: word_less_nat_alt)
    then have "m * 0x1000 < 0x8000000" "0x7FFE000 < m * 0x1000" by (simp_all only: u unat_numeral_qword)
    then have "m < 32768" "32766 < m" by linarith+
    then have "m = 32767" by simp
    then have "p = 0x7FFF000" using m(1) by (simp add: frame_of_def)
    then show False using q'(2) by simp
  qed
  then show ?thesis using font [OF p(1)] badly_placed [OF m(2)] p(2) m(1) by blast
next
  case True
  obtain m s' F where s': "efi_main (completed bs view (boot_volume kdata gdata fdata) mode) h (whole s)
      = Inr ((0x1000, le64 kdata 27), s')" "loading (whole_view view) F s'"
    and m: "0x16 \<le> m" "m + 2 \<le> 32768" and rest: "boot_map (page_count (le64 kdata 19 - le64 kdata 11)) m (pg s')"
      "file_at 0x100000 (boot_image kdata (frame_of m) mode) (pg s')"
      "boot_marks (page_count (le64 kdata 19 - le64 kdata 11)) m (pg s')"
      "0x880 \<notin> {m, m + 1} \<longrightarrow> file_at (frame_of m) (take 0x2000 fdata) (pg s')"
    by (rule efi_main_ok [OF completed_ready [OF assms] completed_leaves [OF spec], where h = h])
  have "halts_or with_whole (efi_main bs h s) (efi_main (completed bs view (boot_volume kdata gdata fdata) mode) h (whole s))"
    by (rule halts_or_efi_main) (use True in blast)
  then consider st where "efi_error st" "efi_main bs h s = Inl (Halted st)"
    | s1 where "efi_main bs h s = Inr ((0x1000, le64 kdata 27), s1)" "whole s1 = s'"
    unfolding halts_or_def s'(1) by (cases "efi_main bs h s") auto
  then show ?thesis
  proof cases
    case 1
    then show ?thesis by (rule halt)
  next
    case 2
    then have "pg s' = pg s1" by auto
    then show ?thesis using jump [OF 2(1), of _ F m] s'(2) 2(2) m rest by simp
  qed
qed

end
