(* ===== verification/Uefi_Props.thy ===== *)
theory Uefi_Props
  imports Uefi_Firmware
begin

text \<open>
  The properties of the UEFI loader, and the firmware on which the witnesses run: its state
  is the view itself, with the three files of the boot volume.
\<close>

section \<open>A firmware\<close>

definition demo_kernel :: "byte list" where
  "demo_kernel = replicate 19 0 @ [0, 0x30, 0, 0, 0, 0, 0, 0] @ [0x40, 0, 0x10, 0x80, 0xFF, 0xFF, 0xFF, 0xFF] @ replicate 37 0"

definition demo_files :: "string \<Rightarrow> byte list option" where
  "demo_files = [''kernel.bin'' \<mapsto> demo_kernel, ''gkrnl.bin'' \<mapsto> [0x90], ''font.map'' \<mapsto> [1, 2, 3]]"

definition demo_mode :: gop_mode where
  "demo_mode = \<lparr>HorizontalResolution = 800, VerticalResolution = 600, FrameBufferBase = 0x80000000, FrameBufferSize = 0x1D4C00\<rparr>"

definition demo_take :: "nat \<Rightarrow> nat \<Rightarrow> efi_view \<Rightarrow> efi_view" where
  "demo_take m k w = w\<lparr>free_pages := free_pages w - {m..<m + k}\<rparr>"

definition demo_allocate :: "allocate_type \<Rightarrow> qword \<Rightarrow> qword \<Rightarrow> (efi_view, qword) service" where
  "demo_allocate ty k a w = (case ty of
       AllocateAddress \<Rightarrow> if {phys_no a..<phys_no a + unat k} \<subseteq> free_pages w
         then (0, a, demo_take (phys_no a) (unat k) w) else (0x800000000000000E, a, w)
     | AllocateAnyPages \<Rightarrow> (case find (\<lambda>m. free_run (free_pages w) 0x16 32768 (unat k) m) [0..<32769] of
         Some m \<Rightarrow> (0, frame_of m, demo_take m (unat k) w) | None \<Rightarrow> (0x8000000000000009, a, w)))"

definition demo_services :: "efi_view boot_services" where
  "demo_services = \<lparr>
     AllocatePages = demo_allocate,
     SetMem = (\<lambda>a n b s. (a, if a = bitmap_addr s then s\<lparr>bitmap := \<lambda>_. 0\<rparr> else zero_frame a s)),
     HandleProtocol = (\<lambda>h p w. (0, 1, w)), DeviceHandle = (\<lambda>x w. 2), OpenVolume = (\<lambda>x w. (0, 3, w)),
     Open = (\<lambda>root name w. case demo_files name of
         None \<Rightarrow> (0x800000000000000E, 0, w)
       | Some data \<Rightarrow> (0, of_nat (length name), w\<lparr>opened := (opened w)(of_nat (length name) \<mapsto> (data, 0))\<rparr>)),
     AllocatePool = (\<lambda>n w. (0, 4, w)), FreePool = (\<lambda>b w. (0, (), w)),
     GetFileSize = (\<lambda>f b w. case opened w f of None \<Rightarrow> (0x8000000000000003, 0, w)
       | Some (data, pos) \<Rightarrow> (0, of_nat (length data), w)),
     Read = (\<lambda>f n w. case opened w f of None \<Rightarrow> (0x8000000000000003, [], w)
       | Some (data, pos) \<Rightarrow> (0, take (unat n) (drop pos data),
           w\<lparr>opened := (opened w)(f \<mapsto> (data, min (pos + unat n) (length data)))\<rparr>)),
     LocateProtocol = (\<lambda>p w. (0, demo_mode, w)), GetMapKey = (\<lambda>w. 7),
     ExitBootServices = (\<lambda>h k w. (if k = 7 then 0 else 0x8000000000000002, (), w))\<rparr>"

definition demo_start :: "efi_view ustate" where
  "demo_start = \<lparr>pg = boot_tables, fw = \<lparr>free_pages = {1..<32768}, opened = Map.empty\<rparr>\<rparr>"

lemma phys_no_frame: "n < 32768 \<Longrightarrow> phys_no (frame_of n) = n"
  by (simp add: drop_bit_eq_div unat_div unat_frame_of)

lemma demo_error [simp]: "\<not> efi_error 0" "n < 32768 \<Longrightarrow> \<not> efi_error (frame_of n)" "efi_error 0x800000000000000E"
  by (simp_all add: efi_error_def bit_frame_of)

lemma demo_memory: "efi_memory demo_services id"
  by (auto simp: efi_memory_def demo_services_def demo_allocate_def demo_take_def phys_no_frame Let_def)

lemma demo_protocols: "efi_protocols demo_services id"
  by (simp add: efi_protocols_def gives_def demo_services_def)

lemma demo_volume: "efi_files demo_services id demo_files"
  by (auto simp: efi_files_def gives_def demo_services_def split: option.splits)

lemma demo_places: "efi_places demo_services id 0x16 32768"
  unfolding efi_places_def
proof (intro allI impI)
  fix k a :: qword and w :: efi_view
  assume "\<exists>m. free_run (free_pages (id w)) 0x16 32768 (unat k) m"
  then obtain m where m: "free_run (free_pages w) 0x16 32768 (unat k) m" by auto
  show "gives (AllocatePages demo_services AllocateAnyPages k a) w (\<lambda>p w'. \<exists>m. p = frame_of m
       \<and> free_run (free_pages (id w)) 0x16 32768 (unat k) m
       \<and> id w' = (id w)\<lparr>free_pages := free_pages (id w) - {m..<m + unat k}\<rparr>)"
  proof (cases "find (\<lambda>m. free_run (free_pages w) 0x16 32768 (unat k) m) [0..<32769]")
    case None
    then show ?thesis using m by (auto simp: find_None_iff free_run_def)
  next
    case (Some x)
    then have "free_run (free_pages w) 0x16 32768 (unat k) x" by (auto simp: find_Some_iff)
    then show ?thesis using Some by (auto simp: gives_def demo_services_def demo_allocate_def demo_take_def)
  qed
qed

lemma demo_ready: "efi_ready demo_services id demo_kernel [0x90] [1, 2, 3] demo_start"
proof -
  have len: "length demo_kernel = 72" by (simp add: demo_kernel_def)
  have le: "le64 demo_kernel 19 - le64 demo_kernel 11 = 0x3000"
    by (simp add: demo_kernel_def le64_def le32_def le16_def nth_append)
  have pc: "page_count (of_nat (length demo_kernel) + 256) = 1" "page_count 0x3000 = 3"
    by (simp_all add: len page_count_def)
  have "free_run (free_pages (fw demo_start) - {0x100..<0x100 + 1}) 0x16 32768 2 0x200"
    by (auto simp: free_run_def demo_start_def)
  then show ?thesis
    unfolding efi_ready_def le pc
    using demo_memory demo_protocols demo_places demo_volume [unfolded demo_files_def]
    by (auto simp: len demo_start_def boot_tables_def)
qed

lemma demo_leaves: "efi_leaves demo_services id demo_mode"
  by (simp add: efi_leaves_def gives_def demo_services_def)

text \<open>It keeps to the specification, and a run on it neither halts nor gets a badly placed font.\<close>

lemma demo_spec: "efi_spec demo_services id (boot_volume demo_kernel [0x90] [1, 2, 3]) demo_mode"
proof -
  have "yields (demo_allocate AllocateAnyPages k a) w (\<lambda>p w'. \<exists>m. p = frame_of m \<and> m + unat k \<le> 2 ^ 52 \<and> taken w m (unat k) w')"
    for k a w
  proof (cases "find (\<lambda>m. free_run (free_pages w) 0x16 32768 (unat k) m) [0..<32769]")
    case None
    then show ?thesis by (simp add: yields_def demo_allocate_def efi_error_def)
  next
    case (Some m)
    then have "free_run (free_pages w) 0x16 32768 (unat k) m" by (auto simp: find_Some_iff)
    then have "m + unat k \<le> 2 ^ 52" "taken w m (unat k) (demo_take m (unat k) w)"
      by (auto simp: free_run_def taken_def demo_take_def)
    then show ?thesis using Some by (auto simp: yields_def demo_allocate_def)
  qed
  moreover have "yields (demo_allocate AllocateAddress k (frame_of n)) w (\<lambda>a w'. a = frame_of n \<and> taken w n (unat k) w')"
    if "n < 32768" for n k w
    using that by (simp add: yields_def demo_allocate_def demo_take_def taken_def phys_no_frame)
  ultimately show ?thesis
    unfolding efi_spec_def
    by (simp add: demo_services_def boot_volume_def demo_files_def)
      (auto simp: yields_def efi_error_def split: option.splits)
qed

lemma demo_loader_start: "loader_start id demo_kernel demo_start"
proof -
  have "le64 demo_kernel 19 - le64 demo_kernel 11 = 0x3000" "length demo_kernel = 72"
    by (simp_all add: demo_kernel_def le64_def le32_def le16_def nth_append)
  then show ?thesis by (simp add: loader_start_def demo_start_def boot_tables_def page_count_def)
qed

lemma demo_runs:
  "efi_main demo_services h demo_start \<noteq> Inl e"
  "font_call demo_services h demo_start p \<Longrightarrow> \<not> p < 0x16000"
  "\<not> (\<forall>r. efi_main demo_services h demo_start \<noteq> Inr r)"
proof -
  obtain r where r: "efi_main demo_services h demo_start = Inr r"
    using efi_main_ok [OF demo_ready demo_leaves] by blast
  then show "efi_main demo_services h demo_start \<noteq> Inl e" "\<not> (\<forall>r. efi_main demo_services h demo_start \<noteq> Inr r)" by simp_all
  assume "font_call demo_services h demo_start p"
  then obtain s' s'' where "CHECK_ERROR (AllocatePages demo_services AllocateAnyPages 2 0) s' = Inr (p, s'')"
    unfolding font_call_def by blast
  moreover have "AllocatePages demo_services = demo_allocate" by (simp add: demo_services_def)
  ultimately obtain w st w' where "demo_allocate AllocateAnyPages 2 0 w = (st, p, w')" "\<not> efi_error st"
    by (auto simp: CHECK_ERROR_def split: prod.splits if_splits)
  then obtain m where "p = frame_of m" "free_run (free_pages w) 0x16 32768 2 m"
    by (auto simp: demo_allocate_def find_Some_iff efi_error_def split: option.splits)
  then show "\<not> p < 0x16000" by (simp add: word_less_nat_alt unat_frame_of free_run_def)
qed

section \<open>The tables\<close>

text \<open>
  when the firmware has pages 1 to 6 free, \<open>Kernel_createNewPage\<close> leaves a tree of five
  tables that satisfies the invariant of the kernel's paging code, with the root, the
  window's table and the bitmap where the kernel has them, exactly the first seven pages
  mapped, each to itself, and exactly these marked.
\<close>

theorem Kernel_createNewPage_correct:
  assumes "efi_memory bs view" and "efi_protocols bs view"
    and "{1..6} \<subseteq> free_pages (view (fw s))" and "0x8000000 \<le> ram_end (pg s)"
  shows "\<exists>s'. Kernel_createNewPage bs h s = Inr s' \<and> page_inv (pg s')
    \<and> pmlt4 (pg s') = PMLT4_ADDRESS \<and> frame_pt (pg s') = FRAME_PT_ADDRESS \<and> bitmap_addr (pg s') = PAGE_BITMAP_ADDRESS
    \<and> (\<forall>a b c d. vmap (pg s') (a, b, c, d)
          = (if a = 0 \<and> b = 0 \<and> c = 0 \<and> unat d < 7 then push_bit 12 (ucast d) OR 3 else 0))
    \<and> (\<forall>n. used_no (bitmap (pg s')) n \<longleftrightarrow> n < 7)
    \<and> free_pages (view (fw s')) = free_pages (view (fw s)) - {1..6}"
proof -
  obtain w where w: "Kernel_createNewPage bs h s = Inr \<lparr>pg = new_tables (pg s), fw = w\<rparr>"
    "view w = (view (fw s))\<lparr>free_pages := free_pages (view (fw s)) - {1..6}\<rparr>"
    by (rule createNewPage_ok [OF assms])
  show ?thesis
    by (rule exI [of _ "\<lparr>pg = new_tables (pg s), fw = w\<rparr>"])
      (use w new_inv [OF assms(4)] in \<open>simp add: new_vmap new_used\<close>)
qed

theorem Kernel_createNewPage_correct_witness:
  "\<exists>s'. Kernel_createNewPage demo_services 1 demo_start = Inr s' \<and> page_inv (pg s') \<and> vmap (pg s') (0, 0, 0, 6) = 0x6003
     \<and> vmap (pg s') (0, 0, 0, 7) = 0"
proof -
  have "{1..6} \<subseteq> free_pages (id (fw demo_start))" "0x8000000 \<le> ram_end (pg demo_start)"
    by (auto simp: demo_start_def boot_tables_def)
  from Kernel_createNewPage_correct [OF demo_memory demo_protocols this, of 1] show ?thesis by auto
qed

text \<open>
  C3: \<open>Kernel_MapPagePhysical\<close> over a range of physical memory below 128 MiB: with enough
  clear pages that the firmware has free, it maps every page of the range to its physical
  page, whatever was mapped there, changes no other mapping, marks the physical pages in
  the bitmap and takes at most the pages counted for missing tables.
\<close>

theorem Kernel_MapPagePhysical_correct:
  assumes "efi_memory bs view" and "page_inv (pg s)" and "pool view s F" and "ok_flags32 flags"
    and "finite F" and "range_cost (pg s) virt (page_count sz) \<le> card F"
    and "unat phys + page_count sz * 0x1000 \<le> 0x8000000"
    and "F \<inter> {phys_no phys..<phys_no phys + page_count sz} = {}"
    and "\<forall>k < page_count sz. vp virt k \<noteq> window_page"
  shows "\<exists>s' D. Kernel_MapPagePhysical bs virt phys sz flags s = Inr s' \<and> page_inv (pg s')
    \<and> (\<forall>k < page_count sz. vmap (pg s') (vp virt k) = (phys + of_nat k * 0x1000) OR ucast flags)
    \<and> (\<forall>v. (\<forall>k < page_count sz. v \<noteq> vp virt k) \<longrightarrow> vmap (pg s') v = vmap (pg s) v)
    \<and> D \<subseteq> F \<and> card D \<le> range_cost (pg s) virt (page_count sz)
    \<and> (\<forall>n. used_no (bitmap (pg s')) n \<longleftrightarrow>
          n \<in> D \<or> phys_no phys \<le> n \<and> n < phys_no phys + page_count sz \<or> used_no (bitmap (pg s)) n)"
proof -
  obtain s' D where s': "Kernel_MapPagePhysical bs virt phys sz flags s = Inr s'"
    "ustep view s s' D {phys_no phys..<phys_no phys + page_count sz}"
    "range_mapped (pg s) (pg s') virt phys flags (page_count sz)"
    "D \<subseteq> F" "card D \<le> range_cost (pg s) virt (page_count sz)"
    by (rule MapPagePhysical_ok [OF assms])
  then show ?thesis
    using ustepD(1,8) [OF s'(2)] unfolding range_mapped_def by (intro exI [of _ s'] exI [of _ D]) auto
qed

abbreviation demo_tables :: "efi_view ustate" where
  "demo_tables \<equiv> \<lparr>pg = new_tables boot_tables, fw = \<lparr>free_pages = {7..<32768}, opened = Map.empty\<rparr>\<rparr>"

lemma demo_pool: "pool id demo_tables {7..0x14}"
  by (auto simp: pool_def new_used)

lemma demo_tables_inv: "page_inv (pg demo_tables)"
  using new_inv [of boot_tables] by (simp add: boot_tables_def)

theorem Kernel_MapPagePhysical_correct_witness:
  "\<exists>s'. Kernel_MapPagePhysical demo_services kernel_virt 0x100000 0x1800 3 demo_tables = Inr s'
     \<and> vmap (pg s') (vp kernel_virt 1) = 0x101003 \<and> used_no (bitmap (pg s')) 0x101
     \<and> vmap (pg s') (0, 0, 0, 6) = 0x6003"
proof -
  have pc: "page_count 0x1800 = 2" by (simp add: page_count_def)
  have nw: "\<forall>k < page_count 0x1800. vp kernel_virt k \<noteq> window_page" using kernel_page by (simp add: pc)
  have c: "range_cost (pg demo_tables) kernel_virt (page_count 0x1800) \<le> card {7..0x14 :: nat}"
    using kernel_cost [of 2 "pg demo_tables"] by (simp add: pc)
  have b: "unat (0x100000 :: qword) + page_count 0x1800 * 0x1000 \<le> 0x8000000"
    "{7..0x14} \<inter> {phys_no 0x100000..<phys_no 0x100000 + page_count 0x1800} = {}"
    by (auto simp: pc)
  obtain s' D where s': "Kernel_MapPagePhysical demo_services kernel_virt 0x100000 0x1800 3 demo_tables = Inr s'"
    "\<forall>k < page_count 0x1800. vmap (pg s') (vp kernel_virt k) = (0x100000 + of_nat k * 0x1000) OR ucast (3 :: dword)"
    "\<forall>v. (\<forall>k < page_count 0x1800. v \<noteq> vp kernel_virt k) \<longrightarrow> vmap (pg s') v = vmap (pg demo_tables) v"
    "\<forall>n. used_no (bitmap (pg s')) n \<longleftrightarrow>
          n \<in> D \<or> phys_no 0x100000 \<le> n \<and> n < phys_no 0x100000 + page_count 0x1800 \<or> used_no (bitmap (pg demo_tables)) n"
    using Kernel_MapPagePhysical_correct [OF demo_memory demo_tables_inv demo_pool ok_flags_3 _ c b nw] by auto
  have "vp kernel_virt k \<noteq> (0, 0, 0, 6)" if "k < 2" for k
    using kernel_index(1) [of k] that by (simp add: vp_def vpage_def)
  then have "\<forall>k < page_count 0x1800. (0, 0, 0, 6) \<noteq> vp kernel_virt k" unfolding pc by metis
  then have "vmap (pg s') (0, 0, 0, 6) = 0x6003"
    using s'(3) [THEN spec, of "(0, 0, 0, 6)"] by (simp add: new_vmap)
  moreover have "vmap (pg s') (vp kernel_virt 1) = 0x101003" using s'(2) [rule_format, of 1] by (simp add: pc)
  moreover have "used_no (bitmap (pg s')) 0x101" using s'(4) by (simp add: pc)
  ultimately show ?thesis using s'(1) by blast
qed

section \<open>What goes wrong\<close>

lemma boot_loop_first: "f 0 s = Inl e \<Longrightarrow> 0 < n \<Longrightarrow> boot_loop f n s = Inl e"
proof (induction n)
  case (Suc n)
  then show ?case by (cases n) auto
qed simp

text \<open>
  asked to map physical memory from 128 MiB on, \<open>Kernel_MapPagePhysical\<close> sets a bit
  outside the page of the bitmap: there is no test of the index.
\<close>

theorem Kernel_MapPagePhysical_overrun:
  assumes "efi_memory bs view" and "page_inv (pg s)" and "pool view s F" and "ok_flags32 flags"
    and "finite F" and "3 \<le> card F" and "0x8000000 \<le> phys" and "0 < page_count sz"
  shows "Kernel_MapPagePhysical bs virt phys sz flags s = Inl Overrun"
proof -
  have "table_cost (pg s) virt \<le> card F" using assms(6) by (simp add: table_cost_def)
  from MapPagePhysical_page_overrun [OF assms(1-5) this assms(7)] show ?thesis
    unfolding Kernel_MapPagePhysical_def by (intro boot_loop_first [OF _ assms(8)]) simp
qed

theorem Kernel_MapPagePhysical_overrun_witness:
  "Kernel_MapPagePhysical demo_services 0x1F000000 0x1F000000 0x2000 3 demo_tables = Inl Overrun"
  by (rule Kernel_MapPagePhysical_overrun [OF demo_memory demo_tables_inv demo_pool ok_flags_3])
    (simp_all add: page_count_def)

text \<open>
  \<open>Kernel_Alloc4KPage\<close> tries only the lowest page that is clear in its own bitmap; when
  the firmware holds that page the loader halts, however many pages are free above it.
\<close>

theorem Kernel_Alloc4KPage_halts:
  assumes "efi_memory bs view" and "n < 32768" and "\<not> used_no (bitmap (pg s)) n"
    and "\<forall>m < n. used_no (bitmap (pg s)) m" and "n \<notin> free_pages (view (fw s))"
  shows "\<exists>status. Kernel_Alloc4KPage bs s = Inl (Halted status)"
  by (rule alloc4K_busy [OF assms])

theorem Kernel_Alloc4KPage_halts_witness:
  "\<exists>status. Kernel_Alloc4KPage demo_services (demo_tables\<lparr>fw := \<lparr>free_pages = {8..<32768}, opened = Map.empty\<rparr>\<rparr>)
     = Inl (Halted status)"
  by (rule Kernel_Alloc4KPage_halts [OF demo_memory, of 7]) (simp_all add: new_used)

section \<open>The hand-over\<close>

text \<open>
  C2: on a firmware that keeps to the UEFI specification, any of whose services may fail at
  any time, \<open>efi_main\<close> does one of three things.  It halts, with the status of a call that
  failed (or, after \<open>SetMem\<close>, with what it found in \<open>rax\<close>).  Or \<open>AllocateAnyPages\<close> gives
  the font a place that is not between the stub and the last two pages of the first 128 MiB;
  above them the loader does not get to the jump, as it marks pages past the end of the
  bitmap; below, over the low pages, this theorem says nothing more.  Or it jumps with the root \<open>0x1000\<close> and
  the entry point of the image's header, and what it leaves is what the kernel's paging code
  assumes: after \<open>page_init\<close> the invariant holds with the kernel's addresses of the window's
  table and of the bitmap; mapped are exactly the kernel's pages at its upper half, and the
  first seven pages, the stub and the font to themselves; all of these are marked and, behind
  the stub, nothing else; the image is in place with the fields of its header filled in, and
  so is the font, unless it lies over the page \<open>0x880000\<close> to which the loader writes at the end.
\<close>

theorem efi_main_hands_over:
  assumes "efi_spec bs view (boot_volume kdata gdata fdata) mode" and "loader_start view kdata s"
  shows "(\<exists>st. efi_error st \<and> efi_main bs h s = Inl (Halted st))
    \<or> (\<exists>p. font_call bs h s p \<and> (p < 0x16000 \<or> 0x7FFE000 < p \<and> (\<forall>r. efi_main bs h s \<noteq> Inr r)))
    \<or> (\<exists>m s'. efi_main bs h s = Inr ((0x1000, le64 kdata 27), s')
        \<and> page_inv (page_init 0x1000 (pg s')) \<and> frame_pt (pg s') = FRAME_PT_ADDRESS \<and> bitmap_addr (pg s') = PAGE_BITMAP_ADDRESS
        \<and> boot_map (page_count (le64 kdata 19 - le64 kdata 11)) m (page_init 0x1000 (pg s'))
        \<and> boot_marks (page_count (le64 kdata 19 - le64 kdata 11)) m (pg s')
        \<and> file_at 0x100000 (boot_image kdata (frame_of m) mode) (pg s')
        \<and> (0x880 \<in> {m, m + 1} \<or> file_at (frame_of m) (take 0x2000 fdata) (pg s')))"
  using assms
proof (cases rule: efi_main_any [where h = h])
  case (halt st)
  then show ?thesis by blast
next
  case (font p)
  then show ?thesis by blast
next
  case (jump m s' view' F)
  have "page_init 0x1000 (pg s') = pg s'" using loadingD(5) [OF jump(2)] by (simp add: page_init_def)
  then show ?thesis
    using jump(1,5-8) loadingD(1,6,7) [OF jump(2)] by (intro disjI2 exI [of _ m] exI [of _ s']) auto
qed

theorem efi_main_hands_over_witness:
  "\<exists>m s'. efi_main demo_services 1 demo_start = Inr ((0x1000, 0xFFFFFFFF80100040), s')
     \<and> boot_map 3 m (page_init 0x1000 (pg s')) \<and> used_no (bitmap (pg s')) 0x102"
proof -
  have le: "le64 demo_kernel 19 - le64 demo_kernel 11 = 0x3000" "le64 demo_kernel 27 = 0xFFFFFFFF80100040"
    by (simp_all add: demo_kernel_def le64_def le32_def le16_def nth_append)
  have pc: "page_count 0x3000 = 3" by (simp add: page_count_def)
  show ?thesis
    using efi_main_hands_over [OF demo_spec demo_loader_start, of 1] demo_runs [of 1] unfolding le pc
    by (auto simp: boot_marks_def)
qed

end
