(* ===== verification/Page_Device.thy ===== *)
theory Page_Device
  imports Page_Range
begin

text \<open>
  Where the memory of a device, the framebuffer, lies: its pages are not the window and not
  those of the memory that is mapped to itself.
\<close>

text \<open>Two addresses below \<open>2 ^ 48\<close> are in the same page when their page numbers agree.\<close>

lemma vpage_low_eqD:
  assumes "vpage x = vpage y" and "unat x < 2 ^ 48" and "unat y < 2 ^ 48"
  shows "unat x div 4096 = unat y div 4096"
proof -
  have "unat (take_bit 36 (drop_bit 12 z)) = unat z div 4096" if "unat z < 2 ^ 48" for z :: qword
  proof -
    have "unat z div 4096 < 2 ^ 36" using that by (intro less_mult_imp_div_less) simp
    then show ?thesis by (simp add: unsigned_take_bit_eq drop_bit_eq_div unat_div take_bit_nat_eq_self)
  qed
  then show ?thesis using arg_cong [OF vpage_eqD [OF assms(1)], of unat] assms(2,3) by simp
qed

text \<open>The framebuffer lies behind the window and below the kernel's half.\<close>

definition framebuffer_place :: "qword \<Rightarrow> nat \<Rightarrow> bool" where
  "framebuffer_place fb n \<longleftrightarrow> 0x40000000 \<le> unat fb \<and> unat fb + n * 4096 \<le> 2 ^ 47"

lemma framebuffer_byte:
  assumes "framebuffer_place fb n" and "k < n"
  shows "0x40000000 \<le> unat (fb + of_nat k * PAGE_SIZE)" and "unat (fb + of_nat k * PAGE_SIZE) < 2 ^ 47"
proof -
  have k: "k * 4096 < 2 ^ 47" "unat fb + k * 4096 < 2 ^ 47" using assms by (simp_all add: framebuffer_place_def)
  have "fb + of_nat k * PAGE_SIZE = of_nat (unat fb + k * 4096)" by simp
  then have u: "unat (fb + of_nat k * PAGE_SIZE) = unat fb + k * 4096"
    using k by (simp only: unsigned_of_nat) (simp add: take_bit_nat_eq_self)
  show "0x40000000 \<le> unat (fb + of_nat k * PAGE_SIZE)" "unat (fb + of_nat k * PAGE_SIZE) < 2 ^ 47"
    using assms(1) k by (simp_all add: u framebuffer_place_def)
qed

lemma framebuffer_page:
  assumes "framebuffer_place fb n" and "k < n"
  shows "vp fb k \<noteq> window_page" and "m < 32768 \<Longrightarrow> vp fb k \<noteq> vpage (frame_of m)"
proof -
  let ?x = "fb + of_nat k * PAGE_SIZE"
  note low = framebuffer_byte [OF assms]
  show "vp fb k \<noteq> window_page"
  proof
    assume "vp fb k = window_page"
    moreover have "window_page = vpage 0x3FE00000"
      by (simp add: window_page_def vpage_def PMLT4_INDEX_def PDPT_INDEX_def PDT_INDEX_def PT_INDEX_def)
    ultimately have "vpage ?x = vpage 0x3FE00000" by (simp add: vp_def)
    from vpage_low_eqD [OF this] low show False by simp
  qed
  show "vp fb k \<noteq> vpage (frame_of m)" if "m < 32768"
  proof
    assume "vp fb k = vpage (frame_of m)"
    moreover have "unat (frame_of m) = m * 4096"
      using that by (simp add: frame_of_def push_bit_eq_mult unat_word_ariths unat_of_nat)
    ultimately show False using vpage_low_eqD [of ?x "frame_of m"] low that by (simp add: vp_def)
  qed
qed

text \<open>Each page of the framebuffer is mapped to itself.\<close>

definition framebuffer_mapped :: "qword \<Rightarrow> nat \<Rightarrow> pstate \<Rightarrow> bool" where
  "framebuffer_mapped fb n ps \<longleftrightarrow> (\<forall>i < n. vmap ps (vp fb i) = (fb + of_nat i * PAGE_SIZE) OR 3)"

end
