(* ===== verification/CString.thy ===== *)
theory CString
  imports Prelude
begin

text \<open>
  \<open>kernel/string.c\<close> and the two memory routines of \<open>kernel/string.S\<close>.  A \<open>char*\<close> is
  the buffer it points into (up to the end of its allocation); a routine that writes
  through its pointer returns the new buffer.  \<open>None\<close> is an access outside the buffer,
  for example a \<open>strsize\<close> that finds no NUL.
\<close>

section \<open>The routines\<close>

function strsize_loop :: "buffer \<Rightarrow> nat \<Rightarrow> nat option" where
  "strsize_loop buf index =
     (if index < length buf
      then (if buf ! index \<noteq> 0 then strsize_loop buf (index + 1) else Some index)
      else None)"
  by pat_completeness auto
termination by (relation "measure (\<lambda>(buf, index). length buf - index)") auto

declare strsize_loop.simps [simp del]

definition strsize :: "buffer \<Rightarrow> nat option" where
  "strsize buf = strsize_loop buf 0"

text \<open>\<open>char\<close> is signed: the comparisons with letters are comparisons of \<open>sint\<close>.\<close>

definition upper_char :: "byte \<Rightarrow> byte" where
  "upper_char c = (if 97 \<le> sint c \<and> sint c \<le> 122 then c - 97 + 65 else c)"

definition lower_char :: "byte \<Rightarrow> byte" where
  "lower_char c = (if 65 \<le> sint c \<and> sint c \<le> 90 then c - 65 + 97 else c)"

function char_loop :: "(byte \<Rightarrow> byte) \<Rightarrow> buffer \<Rightarrow> nat \<Rightarrow> nat \<Rightarrow> buffer option" where
  "char_loop f text i sz =
     (if i < sz
      then do { c \<leftarrow> buf_get text i;
                text' \<leftarrow> buf_set text i (f c);
                char_loop f text' (i + 1) sz }
      else Some text)"
  by pat_completeness auto
termination by (relation "measure (\<lambda>(f, text, i, sz). sz - i)") auto

declare char_loop.simps [simp del]

text \<open>\<open>dword size = strsize(text)\<close> keeps the low 32 bits of the length.\<close>

definition strupper :: "buffer \<Rightarrow> buffer option" where
  "strupper text = do { n \<leftarrow> strsize text; char_loop upper_char text 0 (take_bit 32 n) }"

definition strlower :: "buffer \<Rightarrow> buffer option" where
  "strlower text = do { n \<leftarrow> strsize text; char_loop lower_char text 0 (take_bit 32 n) }"

function strncmp_loop :: "buffer \<Rightarrow> buffer \<Rightarrow> nat \<Rightarrow> nat \<Rightarrow> int option" where
  "strncmp_loop c1 c2 i sz =
     (if i < sz
      then do { a \<leftarrow> buf_get c1 i;
                b \<leftarrow> buf_get c2 i;
                if a \<noteq> b then Some 1 else strncmp_loop c1 c2 (i + 1) sz }
      else Some 0)"
  by pat_completeness auto
termination by (relation "measure (\<lambda>(c1, c2, i, sz). sz - i)") auto

declare strncmp_loop.simps [simp del]

definition strncmp :: "buffer \<Rightarrow> buffer \<Rightarrow> nat \<Rightarrow> int option" where
  "strncmp c1 c2 sz = strncmp_loop c1 c2 0 sz"

definition strcmp :: "buffer \<Rightarrow> buffer \<Rightarrow> int option" where
  "strcmp c1 c2 = do {
     s1 \<leftarrow> strsize c1;
     s2 \<leftarrow> strsize c2;
     if s1 \<noteq> s2 then Some 1 else strncmp c1 c2 s1 }"

function strrev_loop :: "buffer \<Rightarrow> int \<Rightarrow> int \<Rightarrow> buffer option" where
  "strrev_loop buf i j =
     (if i < j
      then do { tmp \<leftarrow> buf_get buf (nat i);
                y \<leftarrow> buf_get buf (nat j);
                buf1 \<leftarrow> buf_set buf (nat i) y;
                buf2 \<leftarrow> buf_set buf1 (nat j) tmp;
                strrev_loop buf2 (i + 1) (j - 1) }
      else Some buf)"
  by pat_completeness auto
termination by (relation "measure (\<lambda>(buf, i, j). nat (j - i))") auto

declare strrev_loop.simps [simp del]

text \<open>\<open>int j = strsize(buffer) - 1\<close>: the \<open>size_t\<close> difference is cut to an \<open>int\<close>.\<close>

definition strrev :: "buffer \<Rightarrow> buffer option" where
  "strrev buf = do { n \<leftarrow> strsize buf; strrev_loop buf 0 (c_int (int n - 1)) }"

function intstr_digits :: "int \<Rightarrow> buffer \<Rightarrow> nat \<Rightarrow> (buffer \<times> nat) option" where
  "intstr_digits val buf index =
     (if val > 0
      then do { buf' \<leftarrow> buf_set buf index (word_of_int (val mod 10 + 48));
                intstr_digits (val div 10) buf' (index + 1) }
      else Some (buf, index))"
  by pat_completeness auto
termination by (relation "measure (\<lambda>(val, buf, index). nat val)") auto

declare intstr_digits.simps [simp del]

text \<open>
  \<open>value * -1\<close> overflows for the least \<open>int\<close>; \<open>c_int\<close> is the wrapped result the
  compiled code produces.
\<close>

definition intstr :: "int \<Rightarrow> buffer \<Rightarrow> buffer option" where
  "intstr val buf = do {
     let sign = (val \<ge> 0);
     let v = (if \<not> sign then c_int (val * -1) else val);
     (buf1, index1) \<leftarrow> (if v \<noteq> 0 then intstr_digits v buf 0
                         else do { b \<leftarrow> buf_set buf 0 48; Some (b, 1) });
     (buf2, index2) \<leftarrow> (if \<not> sign
                         then do { b \<leftarrow> buf_set buf1 index1 45; Some (b, index1 + 1) }
                         else Some (buf1, index1));
     buf3 \<leftarrow> buf_set buf2 index2 0;
     strrev buf3 }"

definition hexw :: "byte list" where
  "hexw = [48, 49, 50, 51, 52, 53, 54, 55, 56, 57, 65, 66, 67, 68, 69, 70]"

primrec hexstr_loop :: "nat \<Rightarrow> qword \<Rightarrow> buffer \<Rightarrow> nat \<Rightarrow> (buffer \<times> nat) option" where
  "hexstr_loop 0 val buf index = Some (buf, index)"
| "hexstr_loop (Suc k) val buf index =
     (if val \<noteq> 0
      then do { c \<leftarrow> buf_get hexw (unat (val AND 15));
                buf' \<leftarrow> buf_set buf index c;
                hexstr_loop k (drop_bit 4 val) buf' (index + 1) }
      else hexstr_loop k val buf index)"

definition hexstr :: "qword \<Rightarrow> buffer \<Rightarrow> buffer option" where
  "hexstr val buf = do {
     (buf1, index1) \<leftarrow> hexstr_loop 16 val buf 0;
     (buf2, index2) \<leftarrow> (if index1 = 0
                         then do { b \<leftarrow> buf_set buf1 0 48; b' \<leftarrow> buf_set b 1 48; Some (b', 2) }
                         else Some (buf1, index1));
     buf3 \<leftarrow> buf_set buf2 index2 0;
     strrev buf3 }"

function strint_loop :: "buffer \<Rightarrow> int \<Rightarrow> int \<Rightarrow> int \<Rightarrow> int option" where
  "strint_loop text index len val =
     (if index < len
      then do { v \<leftarrow> buf_get text (nat index);
                strint_loop text (index + 1) len (c_int (c_int (val * 10) + (sint v - 48))) }
      else Some val)"
  by pat_completeness auto
termination by (relation "measure (\<lambda>(text, index, len, val). nat (len - index))") auto

declare strint_loop.simps [simp del]

definition strint :: "buffer \<Rightarrow> int option" where
  "strint text = do {
     n \<leftarrow> strsize text;
     let len = c_int (int n);
     c \<leftarrow> buf_get text 0;
     let sign = (c = 45);
     val \<leftarrow> strint_loop text (if sign then 1 else 0) len 0;
     Some (if sign then c_int (val * -1) else val) }"

text \<open>
  \<open>memzero\<close> and \<open>memcopy\<close> are assembly loops that store one byte per iteration, with
  increasing addresses, in one address space: \<open>mem\<close> is the memory both pointers point
  into, so an overlapping copy reads bytes the loop has already written.  \<open>memzero\<close> compares
  its counter with the size as 64 bits.  \<open>memcopy\<close> sets and compares only the low 32 bits of
  its counter (\<open>movl -0x08(%rbp), %eax\<close>) with the 64-bit size: from \<open>2 ^ 32\<close> bytes on the counter
  never gets there and the copy does not end, which is \<open>None\<close>.
\<close>

primrec memzero :: "buffer \<Rightarrow> nat \<Rightarrow> nat \<Rightarrow> buffer option" where
  "memzero mem dest 0 = Some mem"
| "memzero mem dest (Suc n) =
     do { mem' \<leftarrow> buf_set mem dest 0; memzero mem' (dest + 1) n }"

primrec memcopy_loop :: "buffer \<Rightarrow> nat \<Rightarrow> nat \<Rightarrow> nat \<Rightarrow> buffer option" where
  "memcopy_loop mem dest src 0 = Some mem"
| "memcopy_loop mem dest src (Suc n) =
     do { c \<leftarrow> buf_get mem src;
          mem' \<leftarrow> buf_set mem dest c;
          memcopy_loop mem' (dest + 1) (src + 1) n }"

definition memcopy :: "buffer \<Rightarrow> nat \<Rightarrow> nat \<Rightarrow> nat \<Rightarrow> buffer option" where
  "memcopy mem dest src n = (if n < 2 ^ 32 then memcopy_loop mem dest src n else None)"

section \<open>Length and comparison\<close>

lemma strsize_loop_found:
  assumes "0 \<notin> set s"
  shows "strsize_loop (p @ s @ 0 # r) (length p) = Some (length p + length s)"
  using assms
proof (induction s arbitrary: p)
  case Nil
  then show ?case by (subst strsize_loop.simps) simp
next
  case (Cons c s)
  then have "strsize_loop ((p @ [c]) @ s @ 0 # r) (length (p @ [c])) = Some (length (p @ [c]) + length s)"
    by (intro Cons.IH) simp
  with Cons.prems show ?case by (subst strsize_loop.simps) simp
qed

lemma strsize_loop_missing:
  "0 \<notin> set (drop i buf) \<Longrightarrow> strsize_loop buf i = None"
proof (induction buf i rule: strsize_loop.induct)
  case (1 buf i)
  then show ?case
    by (subst strsize_loop.simps) (auto simp flip: Cons_nth_drop_Suc)
qed

text \<open>
  \<open>strsize\<close> returns the length of the string before the first NUL, and runs out of
  the buffer exactly when there is no NUL in it.
\<close>

theorem strsize_correct:
  "strsize buf = (if terminated buf then Some (length (cstr buf)) else None)"
proof (cases "terminated buf")
  case True
  then obtain s r where "buf = s @ 0 # r" and "0 \<notin> set s" by (rule terminated_split)
  then show ?thesis
    using strsize_loop_found [of s "[]" r]
    by (simp add: strsize_def cstr_append_NUL terminated_def)
next
  case False
  then show ?thesis
    using strsize_loop_missing [of 0 buf] by (simp add: strsize_def terminated_def)
qed


lemma strsize_NUL: "0 \<notin> set s \<Longrightarrow> strsize (s @ 0 # r) = Some (length s)"
  using strsize_loop_found [of s "[]" r] by (simp add: strsize_def)

lemma char_loop_prefix:
  assumes "length p = i" and "length s = n"
  shows "char_loop f (p @ s @ r) i (i + n) = Some (p @ map f s @ r)"
  using assms
proof (induction s arbitrary: p i n)
  case Nil
  then show ?case by (subst char_loop.simps) simp
next
  case (Cons c s)
  then have "char_loop f ((p @ [f c]) @ s @ r) (Suc i) (Suc i + length s)
      = Some ((p @ [f c]) @ map f s @ r)"
    by (intro Cons.IH) auto
  with Cons.prems show ?case by (subst char_loop.simps) (auto simp: list_update_append)
qed

lemma char_loop_cstr:
  assumes "0 \<notin> set s" and "length s < 2 ^ 32"
  shows "do { n \<leftarrow> strsize (s @ 0 # r); char_loop f (s @ 0 # r) 0 (take_bit 32 n) }
    = Some (map f s @ 0 # r)"
  using assms char_loop_prefix [of "[]" 0 s "length s" f "0 # r"]
  by (simp add: strsize_NUL take_bit_nat_eq_self)

text \<open>
  \<open>strupper\<close> and \<open>strlower\<close> map the characters of the string, keep the NUL and
  everything behind it, and stay inside the buffer.
\<close>

theorem strupper_strlower:
  assumes "0 \<notin> set s" and "length s < 2 ^ 32"
  shows "strupper (s @ 0 # r) = Some (map upper_char s @ 0 # r)
    \<and> strlower (s @ 0 # r) = Some (map lower_char s @ 0 # r)"
  using char_loop_cstr [OF assms] by (simp add: strupper_def strlower_def)

theorem strupper_strlower_witness:
  "strupper [104, 105, 46, 0, 7] = Some [72, 73, 46, 0, 7]
   \<and> strlower [104, 73, 46, 0, 7] = Some [104, 105, 46, 0, 7]"
  using strupper_strlower [of "[104, 105, 46]" "[7]"] strupper_strlower [of "[104, 73, 46]" "[7]"]
  by (simp add: upper_char_def lower_char_def)

lemma strncmp_loop_eq:
  "i \<le> n \<Longrightarrow> n \<le> length c1 \<Longrightarrow> n \<le> length c2 \<Longrightarrow>
   strncmp_loop c1 c2 i n = Some (if \<forall>k. i \<le> k \<and> k < n \<longrightarrow> c1 ! k = c2 ! k then 0 else 1)"
proof (induction c1 c2 i n rule: strncmp_loop.induct)
  case (1 c1 c2 i n)
  show ?case
  proof (cases "i < n \<and> c1 ! i = c2 ! i")
    case True
    with 1 have "strncmp_loop c1 c2 (i + 1) n
        = Some (if \<forall>k. i + 1 \<le> k \<and> k < n \<longrightarrow> c1 ! k = c2 ! k then 0 else 1)"
      by simp
    with True 1(2-) show ?thesis
      by (subst strncmp_loop.simps) (auto simp: le_Suc_eq dest: Suc_leI le_neq_implies_less)
  next
    case False
    with 1(2-) show ?thesis by (subst strncmp_loop.simps) auto
  qed
qed

lemma strncmp_take:
  assumes "n \<le> length c1" and "n \<le> length c2"
  shows "strncmp c1 c2 n = Some (if take n c1 = take n c2 then 0 else 1)"
proof -
  have "take n c1 = take n c2 \<longleftrightarrow> (\<forall>k < n. c1 ! k = c2 ! k)"
    using assms by (auto simp: list_eq_iff_nth_eq)
  with assms show ?thesis
    by (simp add: strncmp_def strncmp_loop_eq)
qed

text \<open>
  \<open>strcmp\<close> is 0 exactly for equal strings and 1 otherwise, on any two terminated
  buffers (it never runs past the end of either).
\<close>

theorem strcmp_correct:
  assumes "terminated c1" and "terminated c2"
  shows "strcmp c1 c2 = Some (if cstr c1 = cstr c2 then 0 else 1)"
proof -
  obtain s r where 1: "c1 = s @ 0 # r" "0 \<notin> set s" using assms(1) by (rule terminated_split)
  obtain t q where 2: "c2 = t @ 0 # q" "0 \<notin> set t" using assms(2) by (rule terminated_split)
  show ?thesis
    by (cases "length s = length t")
       (auto simp: 1 2 strcmp_def strsize_NUL strncmp_take cstr_append_NUL)
qed

theorem strcmp_correct_witness:
  "strcmp [72, 73, 0, 9] [72, 73, 0] = Some 0 \<and> strcmp [72, 73, 0, 9] [72, 0] = Some 1"
proof -
  have t: "terminated [72, 73, 0, 9]" "terminated [72, 73, 0]" "terminated [72, 0]"
    by (simp_all add: terminated_def)
  show ?thesis
    using strcmp_correct [OF t(1) t(2)] strcmp_correct [OF t(1) t(3)] by (simp add: cstr_def)
qed

section \<open>Reversal\<close>

lemma strrev_loop_mid:
  "strrev_loop (xs @ mid @ ys) (int (length xs)) (int (length xs) + int (length mid) - 1)
   = Some (xs @ rev mid @ ys)"
proof (induction "length mid" arbitrary: xs mid ys rule: less_induct)
  case less
  show ?case
  proof (cases "length mid \<le> 1")
    case True
    then have "rev mid = mid" by (cases mid) auto
    with True show ?thesis by (subst strrev_loop.simps) simp
  next
    case False
    then obtain a m where "mid = a # m" "m \<noteq> []" by (cases mid) auto
    then obtain m' b where mid: "mid = a # m' @ [b]" by (metis rev_exhaust)
    let ?j = "Suc (length xs + length m')"
    have IH: "strrev_loop ((xs @ [b]) @ m' @ a # ys) (int (length (xs @ [b])))
        (int (length (xs @ [b])) + int (length m') - 1) = Some ((xs @ [b]) @ rev m' @ a # ys)"
      by (rule less.hyps) (simp add: mid)
    have bounds: "int (length xs) + int (length mid) - 1 = int ?j"
      "int (length xs) + 1 = int (length (xs @ [b]))"
      "int ?j - 1 = int (length (xs @ [b])) + int (length m') - 1"
      by (simp_all add: mid)
    have swap: "(xs @ mid @ ys)[length xs := b, ?j := a] = (xs @ [b]) @ m' @ a # ys"
      "(xs @ mid @ ys) ! length xs = a" "(xs @ mid @ ys) ! ?j = b" "?j < length (xs @ mid @ ys)"
      by (simp_all add: mid nth_append list_update_append)
    show ?thesis
      unfolding bounds(1)
      by (subst strrev_loop.simps)
         (use IH swap in \<open>simp add: bounds(2,3) mid del: of_nat_Suc of_nat_add append.simps append_assoc\<close>)
  qed
qed

lemma strrev_append:
  "0 \<notin> set s \<Longrightarrow> length s < 2 ^ 31 \<Longrightarrow> strrev (s @ 0 # r) = Some (rev s @ 0 # r)"
  using strrev_loop_mid [of "[]" s "0 # r"] by (simp add: strrev_def strsize_NUL)

text \<open>
  \<open>strrev\<close> reverses the string in place: the two-index swap loop computes the
  reversed string, leaves the NUL and the rest of the buffer alone, and stays in bounds.
\<close>

theorem strrev_correct:
  assumes "0 \<notin> set s" and "length s < 2 ^ 31"
  shows "strrev (s @ 0 # r) = Some (rev s @ 0 # r)"
  using assms by (rule strrev_append)

theorem strrev_correct_witness: "strrev [49, 50, 51, 0, 8] = Some [51, 50, 49, 0, 8]"
  using strrev_correct [of "[49, 50, 51]" "[8]"] by simp


section \<open>Numbers\<close>

text \<open>
  The decimal digits of a number, least significant first, and the text \<open>intstr\<close> is
  meant to produce.
\<close>

function digits_rev :: "int \<Rightarrow> byte list" where
  "digits_rev v = (if v > 0 then word_of_int (v mod 10 + 48) # digits_rev (v div 10) else [])"
  by pat_completeness auto
termination by (relation "measure nat") auto

declare digits_rev.simps [simp del]

definition dec_chars :: "int \<Rightarrow> byte list" where
  "dec_chars v =
     (if v = 0 then [48] else if v < 0 then 45 # rev (digits_rev (- v)) else rev (digits_rev v))"

lemma digits_rev_pos: "v > 0 \<Longrightarrow> digits_rev v = word_of_int (v mod 10 + 48) # digits_rev (v div 10)"
  by (subst digits_rev.simps) simp

lemma digits_rev_0 [simp]: "v \<le> 0 \<Longrightarrow> digits_rev v = []"
  by (subst digits_rev.simps) simp

lemma digit_char:
  assumes "0 \<le> d" and "d < 10"
  shows "sint (word_of_int d + 48 :: byte) = d + 48"
proof -
  have "sint (word_of_int (d + 48) :: byte) = d + 48"
    unfolding signed_of_int using assms by (simp add: signed_take_bit_int_eq_self)
  then show ?thesis by simp
qed

lemma digit_char_ne:
  assumes "sint c = d + 48" and "0 \<le> d"
  shows "c \<noteq> (0 :: byte)" and "c \<noteq> (45 :: byte)"
  using assms by auto

lemma digits_rev_chars: "c \<in> set (digits_rev v) \<Longrightarrow> \<exists>d. 0 \<le> d \<and> d < 10 \<and> sint c = d + 48"
proof (induction v rule: digits_rev.induct)
  case (1 v)
  show ?case
  proof (cases "v > 0 \<and> c \<notin> set (digits_rev (v div 10))")
    case True
    with 1(2) have "sint c = v mod 10 + 48" by (simp add: digits_rev_pos digit_char)
    then show ?thesis by (intro exI [of _ "v mod 10"]) simp
  next
    case False
    with 1 show ?thesis by (cases "v > 0") auto
  qed
qed

lemma digits_rev_no_NUL: "0 \<notin> set (digits_rev v)" "45 \<notin> set (digits_rev v)"
  using digits_rev_chars digit_char_ne by blast+

lemma length_digits_rev: "v < 10 ^ k \<Longrightarrow> length (digits_rev v) \<le> k"
proof (induction k arbitrary: v)
  case (Suc k)
  then show ?case by (cases "v > 0") (auto simp: digits_rev_pos)
qed simp

lemma length_digits_rev_int: "v < 2147483648 \<Longrightarrow> length (digits_rev v) \<le> 10"
  by (rule length_digits_rev) simp

lemma intstr_digits_ok:
  assumes "index = length p" and "length p + length (digits_rev v) \<le> length b"
    and "take (length p) b = p"
  shows "intstr_digits v b index
    = Some (p @ digits_rev v @ drop (length p + length (digits_rev v)) b,
            length p + length (digits_rev v))"
  using assms
proof (induction v arbitrary: p b index rule: digits_rev.induct)
  case (1 v)
  show ?case
  proof (cases "v > 0")
    case True
    let ?c = "word_of_int (v mod 10 + 48) :: byte"
    have len: "length p < length b" using True 1(3) by (simp add: digits_rev_pos)
    then have "intstr_digits (v div 10) (b[length p := ?c]) (length (p @ [?c]))
      = Some ((p @ [?c]) @ digits_rev (v div 10)
                @ drop (length (p @ [?c]) + length (digits_rev (v div 10))) (b[length p := ?c]),
              length (p @ [?c]) + length (digits_rev (v div 10)))"
      using True 1(3,4) by (intro 1(1)) (auto simp: digits_rev_pos take_Suc_update)
    with True len 1(2) show ?thesis
      by (subst intstr_digits.simps) (simp add: digits_rev_pos)
  next
    case False
    have "b = p @ drop (length p) b" using 1(4) by (metis append_take_drop_id)
    with False 1(2) show ?thesis by (subst intstr_digits.simps) simp
  qed
qed

text \<open>The writer, before the reversal: digits, sign and NUL behind each other.\<close>

lemma intstr_core:
  assumes "- 2147483648 < v" and "v < 2147483648" and "12 \<le> length b"
  shows "\<exists>r. intstr v b = Some (dec_chars v @ 0 # r) \<and> length r + length (dec_chars v) + 1 = length b"
proof -
  let ?a = "\<bar>v\<bar>"
  have abs: "(if \<not> v \<ge> 0 then c_int (v * - 1) else v) = ?a" using assms by auto
  have len: "length (digits_rev ?a) \<le> 10" by (rule length_digits_rev_int) (use assms in auto)
  have digs: "v \<noteq> 0 \<Longrightarrow> intstr_digits ?a b 0
      = Some (digits_rev ?a @ drop (length (digits_rev ?a)) b, length (digits_rev ?a))"
    using intstr_digits_ok [of 0 "[]" ?a b] len assms(3) by simp
  have upd: "k < length b \<Longrightarrow> (drop k b)[0 := x] = x # drop (Suc k) b" for k and x :: byte
    by (metis Cons_nth_drop_Suc list_update_code(2))
  consider "v = 0" | "v > 0" | "v < 0" by arith
  then show ?thesis
  proof cases
    case 1
    have "strrev ([48] @ 0 # drop 2 b) = Some (rev [48] @ 0 # drop 2 b)"
      by (rule strrev_append) simp_all
    moreover have "b[0 := 48, Suc 0 := 0] = 48 # 0 # drop 2 b"
      using assms(3) by (cases b; cases "tl b") auto
    moreover have "b \<noteq> []" "Suc 0 < length b" using assms(3) by auto
    ultimately show ?thesis
      using 1 by (auto simp: intstr_def dec_chars_def)
  next
    case 2
    let ?ds = "digits_rev v"
    have "strrev (?ds @ 0 # drop (Suc (length ?ds)) b) = Some (rev ?ds @ 0 # drop (Suc (length ?ds)) b)"
      by (rule strrev_append) (use len 2 in \<open>simp_all add: digits_rev_no_NUL\<close>)
    then show ?thesis
      using 2 digs abs len assms(3) upd [of "length ?ds" 0]
      by (auto simp: intstr_def dec_chars_def list_update_append)
  next
    case 3
    let ?ds = "digits_rev (- v)"
    have ab: "?a = - v" using 3 by simp
    have "strrev ((?ds @ [45]) @ 0 # drop (Suc (Suc (length ?ds))) b)
        = Some (rev (?ds @ [45]) @ 0 # drop (Suc (Suc (length ?ds))) b)"
      by (rule strrev_append) (use len 3 in \<open>simp_all add: digits_rev_no_NUL\<close>)
    moreover have "(drop (length ?ds) b)[0 := 45, Suc 0 := 0] = 45 # 0 # drop (Suc (Suc (length ?ds))) b"
      using len 3 assms(3) upd [of "length ?ds" 45] upd [of "Suc (length ?ds)" 0] by simp
    ultimately show ?thesis
      using 3 digs abs len assms(3)
      by (auto simp: intstr_def dec_chars_def list_update_append ab Let_def)
  qed
qed


definition dec_step :: "int \<Rightarrow> byte \<Rightarrow> int" where
  "dec_step acc v = c_int (c_int (acc * 10) + (sint v - 48))"

lemma strint_loop_fold:
  "length p = i \<Longrightarrow> strint_loop (p @ s @ r) (int i) (int (i + length s)) acc
   = Some (foldl dec_step acc s)"
proof (induction s arbitrary: p i acc)
  case Nil
  then show ?case by (subst strint_loop.simps) simp
next
  case (Cons c s)
  have "strint_loop ((p @ [c]) @ s @ r) (int (Suc i)) (int (Suc i + length s)) (dec_step acc c)
      = Some (foldl dec_step (dec_step acc c) s)"
    by (rule Cons.IH) (simp add: Cons.prems)
  with Cons.prems show ?case
    by (subst strint_loop.simps) (auto simp: nth_append dec_step_def algebra_simps)
qed

lemma foldl_digits:
  "v < 2147483648 \<Longrightarrow> 0 \<le> v \<Longrightarrow> foldl dec_step 0 (rev (digits_rev v)) = v"
proof (induction v rule: digits_rev.induct)
  case (1 v)
  show ?case
  proof (cases "v > 0")
    case True
    then have "foldl dec_step 0 (rev (digits_rev (v div 10))) = v div 10"
      using 1 by simp
    moreover have "dec_step (v div 10) (word_of_int (v mod 10) + 48) = v"
      using True 1(2) by (simp add: dec_step_def digit_char)
    ultimately show ?thesis
      using True by (simp add: digits_rev_pos)
  qed (use 1 in simp)
qed

lemma strint_plain:
  assumes "0 \<notin> set s" and "length s < 2 ^ 31" and "hd (s @ [0]) \<noteq> 45"
  shows "strint (s @ 0 # r) = Some (foldl dec_step 0 s)"
  using assms strint_loop_fold [of "[]" 0 s "0 # r" 0] strsize_NUL [of s r]
  by (cases s) (auto simp: strint_def Let_def)

lemma strint_minus:
  assumes "0 \<notin> set s" and "length s < 2 ^ 31 - 1"
  shows "strint (45 # s @ 0 # r) = Some (c_int (- foldl dec_step 0 s))"
proof -
  have "strsize ((45 # s) @ 0 # r) = Some (length (45 # s))"
    by (rule strsize_NUL) (use assms in auto)
  then show ?thesis
    using assms(2) strint_loop_fold [of "[45]" 1 s "0 # r" 0] by (auto simp: strint_def Let_def)
qed

lemma dec_chars_no_NUL: "0 \<notin> set (dec_chars v)"
  by (auto simp: dec_chars_def digits_rev_no_NUL)

lemma length_dec_chars: "- 2147483648 < v \<Longrightarrow> v < 2147483648 \<Longrightarrow> length (dec_chars v) \<le> 11"
  using length_digits_rev_int [of v] length_digits_rev_int [of "- v"] by (auto simp: dec_chars_def)

lemma strint_dec_chars:
  assumes "- 2147483648 < v" and "v < 2147483648"
  shows "strint (dec_chars v @ 0 # r) = Some v"
proof -
  have len: "length (digits_rev \<bar>v\<bar>) \<le> 10" by (rule length_digits_rev_int) (use assms in auto)
  have first: "hd (rev (digits_rev v) @ [0]) \<noteq> 45"
    using digits_rev_no_NUL(2) [of v] by (cases "digits_rev v" rule: rev_cases) auto
  consider "v = 0" | "v > 0" | "v < 0" by arith
  then show ?thesis
  proof cases
    case 1
    then show ?thesis
      using strint_plain [of "[48]" r] by (simp add: dec_chars_def dec_step_def)
  next
    case 2
    then show ?thesis
      using strint_plain [of "rev (digits_rev v)" r] first len assms foldl_digits [of v]
      by (simp add: dec_chars_def digits_rev_no_NUL)
  next
    case 3
    then show ?thesis
      using strint_minus [of "rev (digits_rev (- v))" r] len assms foldl_digits [of "- v"]
      by (simp add: dec_chars_def digits_rev_no_NUL)
  qed
qed

text \<open>
  C36: \<open>intstr\<close> writes the decimal text of every \<open>int\<close> but the least one into any buffer
  of at least 12 bytes, NUL-terminated and without leaving the buffer, and \<open>strint\<close>
  reads the same number back.
\<close>

theorem intstr_strint_roundtrip:
  assumes "- 2147483648 < v" and "v < 2147483648" and "12 \<le> length b"
  shows "\<exists>b'. intstr v b = Some b' \<and> length b' = length b \<and> cstr b' = dec_chars v
    \<and> strint b' = Some v"
proof -
  obtain r where "intstr v b = Some (dec_chars v @ 0 # r)"
    and "length r + length (dec_chars v) + 1 = length b"
    using intstr_core [OF assms] by blast
  then show ?thesis
    using strint_dec_chars [OF assms(1,2)] by (simp add: cstr_append_NUL dec_chars_no_NUL)
qed

theorem intstr_strint_roundtrip_witness:
  "\<exists>b'. intstr (- 42) (replicate 32 0) = Some b' \<and> length b' = 32 \<and> cstr b' = [45, 52, 50]
    \<and> strint b' = Some (- 42)"
proof -
  have "dec_chars (- 42) = [45, 52, 50]"
    by (simp add: dec_chars_def digits_rev_pos)
  then show ?thesis
    using intstr_strint_roundtrip [of "- 42" "replicate 32 0"] by simp
qed

text \<open>
  the least \<open>int\<close> is the one value \<open>intstr\<close> gets wrong: the negation wraps, no
  digit is written and the text is a lone minus sign.
\<close>

theorem intstr_least_int: "intstr (- 2147483648) (x # y # b) = Some (45 # 0 # b)"
proof -
  have "c_int 2147483648 = - 2147483648" by (simp add: c_int_def)
  then have "intstr (- 2147483648) (x # y # b) = strrev ([45] @ 0 # b)"
    by (simp add: intstr_def intstr_digits.simps)
  also have "\<dots> = Some (rev [45] @ 0 # b)" by (rule strrev_append) simp_all
  finally show ?thesis by simp
qed


subsection \<open>Hexadecimal text\<close>

definition hex_digit :: "byte \<Rightarrow> int" where
  "hex_digit c = (if uint c \<le> 57 then uint c - 48 else uint c - 55)"

definition hexval :: "byte list \<Rightarrow> int" where
  "hexval s = foldl (\<lambda>a c. 16 * a + hex_digit c) 0 s"

lemma hexval_snoc: "hexval (s @ [c]) = 16 * hexval s + hex_digit c"
  by (simp add: hexval_def)

lemma hexw_digit:
  assumes "n < 16"
  shows "hex_digit (hexw ! n) = int n" and "hexw ! n \<noteq> 0" and "hexw ! n = 48 \<longleftrightarrow> n = 0"
proof -
  have "list_all (\<lambda>n. hex_digit (hexw ! n) = int n \<and> hexw ! n \<noteq> 0 \<and> (hexw ! n = 48 \<longleftrightarrow> n = 0)) [0..<16]"
    by code_simp
  with assms show "hex_digit (hexw ! n) = int n" and "hexw ! n \<noteq> 0" and "hexw ! n = 48 \<longleftrightarrow> n = 0"
    by (simp_all only: list_all_iff set_upt) auto
qed

lemma length_hexw [simp]: "length hexw = 16"
  by (simp add: hexw_def)

lemma low_nibble: "unat ((v :: qword) AND 15) = unat v mod 16"
proof -
  have "v AND 15 = take_bit 4 v" by (simp add: take_bit_eq_mask mask_eq_exp_minus_1)
  then show ?thesis by (simp add: unsigned_take_bit_eq take_bit_nat_def)
qed

lemma high_nibbles: "unat (drop_bit 4 (v :: qword)) = unat v div 16"
  by (simp add: unat_drop_bit_eq drop_bit_nat_def)

lemma hexstr_loop_ok:
  "unat v < 16 ^ k \<Longrightarrow> length p + k \<le> length b \<Longrightarrow> take (length p) b = p \<Longrightarrow>
   \<exists>ds. hexstr_loop k v b (length p) = Some (p @ ds @ drop (length p + length ds) b, length p + length ds)
     \<and> length ds \<le> k \<and> hexval (rev ds) = int (unat v) \<and> set ds \<subseteq> set hexw
     \<and> (v = 0 \<longrightarrow> ds = []) \<and> (v \<noteq> 0 \<longrightarrow> ds \<noteq> [] \<and> last ds \<noteq> 48)"
proof (induction k arbitrary: v p b)
  case 0
  then have "b = p @ drop (length p) b" by (metis append_take_drop_id)
  with 0 show ?case by (auto simp: hexval_def unat_eq_0)
next
  case (Suc k)
  show ?case
  proof (cases "v = 0")
    case True
    then show ?thesis using Suc.IH [of 0 p b] Suc.prems by fastforce
  next
    case False
    define c where "c = hexw ! (unat v mod 16)"
    let ?v = "drop_bit 4 v" and ?b = "b[length p := c]"
    have lt: "unat v mod 16 < 16" by simp
    have get: "buf_get hexw (unat (v AND 15)) = Some c"
      using lt by (simp add: low_nibble c_def)
    have mem: "c \<in> set hexw" unfolding c_def by (rule nth_mem) simp
    have "length p < length b" and "unat v div 16 < 16 ^ k"
      using Suc.prems(1,2) by (simp_all add: less_mult_imp_div_less mult.commute)
    then obtain ds where loop: "hexstr_loop k ?v ?b (length (p @ [c]))
        = Some ((p @ [c]) @ ds @ drop (length (p @ [c]) + length ds) ?b, length (p @ [c]) + length ds)"
      and ds: "length ds \<le> k" "hexval (rev ds) = int (unat ?v)" "set ds \<subseteq> set hexw"
        "?v = 0 \<longrightarrow> ds = []" "?v \<noteq> 0 \<longrightarrow> ds \<noteq> [] \<and> last ds \<noteq> 48"
      using Suc.IH [of ?v "p @ [c]" ?b] Suc.prems by (auto simp: high_nibbles take_Suc_update)
    have "16 * int (unat v div 16) + int (unat v mod 16) = int (unat v)"
      by (metis mult_div_mod_eq of_nat_add of_nat_mult of_nat_numeral)
    then have val: "hexval (rev (c # ds)) = int (unat v)"
      using ds(2) lt by (simp add: hexval_snoc c_def hexw_digit high_nibbles)
    have last: "last (c # ds) \<noteq> 48"
    proof (cases "?v = 0")
      case True
      have "unat v div 16 = 0" using True high_nibbles [of v] by simp
      then have "unat v mod 16 \<noteq> 0"
        using False by (metis div_mult_mod_eq add.right_neutral mult_0 unat_eq_0)
      then show ?thesis using True ds(4) lt by (simp add: c_def hexw_digit)
    qed (use ds(5) in auto)
    show ?thesis
      using loop get False Suc.prems ds(1,3) mem val last
      by (intro exI [of _ "c # ds"]) simp
  qed
qed


lemma hexstr_core:
  assumes "17 \<le> length b"
  shows "\<exists>b'. hexstr v b = Some b' \<and> length b' = length b \<and> terminated b' \<and> hexval (cstr b') = uint v
    \<and> set (cstr b') \<subseteq> set hexw \<and> (if v = 0 then cstr b' = [48, 48] else hd (cstr b') \<noteq> 48)"
proof -
  have "unat v < 2 ^ LENGTH(64)" by (rule unsigned_less)
  then have "unat v < 16 ^ 16" by simp
  then obtain ds where loop: "hexstr_loop 16 v b 0 = Some (ds @ drop (length ds) b, length ds)"
    and ds: "length ds \<le> 16" "hexval (rev ds) = uint v" "set ds \<subseteq> set hexw"
      "v = 0 \<longrightarrow> ds = []" "v \<noteq> 0 \<longrightarrow> ds \<noteq> [] \<and> last ds \<noteq> 48"
    using hexstr_loop_ok [of v 16 "[]" b] assms by auto
  have nul: "0 \<notin> set s" if "set s \<subseteq> set hexw" for s using that by (auto simp: hexw_def)
  show ?thesis
  proof (cases "v = 0")
    case True
    obtain x y z r where b: "b = x # y # z # r"
      using assms by (auto simp: numeral_eq_Suc Suc_le_length_iff)
    have "strrev ([48, 48] @ 0 # r) = Some (rev [48, 48] @ 0 # r)"
      by (rule strrev_append) simp_all
    then have "hexstr v b = Some ([48, 48] @ 0 # r)"
      using True loop ds(4) by (simp add: hexstr_def b)
    then show ?thesis
      using True by (simp add: b cstr_def hexval_def hex_digit_def hexw_def terminated_def)
  next
    case False
    have upd: "(drop (length ds) b)[0 := 0] = 0 # drop (Suc (length ds)) b"
      using ds(1) assms by (metis Cons_nth_drop_Suc le_trans linorder_not_less list_update_code(2) Suc_n_not_le_n
          numeral_eq_Suc pred_numeral_simps(3))
    have "strrev (ds @ 0 # drop (Suc (length ds)) b) = Some (rev ds @ 0 # drop (Suc (length ds)) b)"
      by (rule strrev_append) (use ds(1,3) nul in auto)
    then have "hexstr v b = Some (rev ds @ 0 # drop (Suc (length ds)) b)"
      using False loop ds(1,5) assms upd by (simp add: hexstr_def list_update_append)
    moreover have "hd (rev ds) \<noteq> 48" using False ds(5) by (simp add: hd_rev)
    moreover have "cstr (rev ds @ 0 # drop (Suc (length ds)) b) = rev ds"
      by (rule cstr_append_NUL) (use ds(3) nul in auto)
    ultimately show ?thesis
      using False ds assms by (simp add: terminated_def)
  qed
qed

text \<open>
  \<open>hexstr\<close> writes, into any buffer of at least 17 bytes, a text over
  \<open>0123456789ABCDEF\<close> whose value is the argument, without leading zeros (the value 0 is
  written as two zeros).
\<close>

theorem hexstr_correct:
  assumes "17 \<le> length b"
  shows "\<exists>b'. hexstr v b = Some b' \<and> length b' = length b \<and> terminated b' \<and> hexval (cstr b') = uint v
    \<and> set (cstr b') \<subseteq> set hexw \<and> (if v = 0 then cstr b' = [48, 48] else hd (cstr b') \<noteq> 48)"
  by (rule hexstr_core [OF assms])

theorem hexstr_correct_witness:
  "\<exists>b'. hexstr 48879 (replicate 32 0) = Some b' \<and> length b' = 32 \<and> hexval (cstr b') = 48879
    \<and> hd (cstr b') \<noteq> 48"
  using hexstr_correct [of "replicate 32 0" 48879] by auto

section \<open>Block operations\<close>

lemma memzero_correct:
  "dest + n \<le> length mem \<Longrightarrow>
   memzero mem dest n = Some (take dest mem @ replicate n 0 @ drop (dest + n) mem)"
proof (induction n arbitrary: mem dest)
  case (Suc n)
  have "take (dest + 1) (mem[dest := 0]) = take dest mem @ [0]"
    using Suc.prems by (simp add: take_Suc_update)
  moreover have "drop (dest + 1 + n) (mem[dest := 0]) = drop (dest + Suc n) mem"
    by simp
  ultimately show ?case
    using Suc.IH [of "dest + 1" "mem[dest := 0]"] Suc.prems by simp
qed simp

lemma memcopy_loop_nth:
  "dest + n \<le> length mem \<Longrightarrow> src + n \<le> length mem \<Longrightarrow> dest \<le> src \<or> src + n \<le> dest \<Longrightarrow>
   \<exists>mem'. memcopy_loop mem dest src n = Some mem' \<and> length mem' = length mem
     \<and> (\<forall>i < length mem. mem' ! i = (if dest \<le> i \<and> i < dest + n then mem ! (src + (i - dest)) else mem ! i))"
proof (induction n arbitrary: mem dest src)
  case (Suc n)
  let ?m = "mem[dest := mem ! src]"
  have src: "src < length mem" using Suc.prems by linarith
  obtain mem' where mem': "memcopy_loop ?m (dest + 1) (src + 1) n = Some mem'" "length mem' = length ?m"
    and nth: "\<forall>i < length ?m. mem' ! i
      = (if dest + 1 \<le> i \<and> i < dest + 1 + n then ?m ! (src + 1 + (i - (dest + 1))) else ?m ! i)"
    using Suc.IH [of "dest + 1" ?m "src + 1"] Suc.prems by auto
  have "mem' ! i = (if dest \<le> i \<and> i < dest + Suc n then mem ! (src + (i - dest)) else mem ! i)"
    if "i < length mem" for i
  proof (cases "dest + 1 \<le> i \<and> i < dest + 1 + n")
    case True
    then have "src + 1 + (i - (dest + 1)) = src + (i - dest)" "src + (i - dest) \<noteq> dest"
      using Suc.prems by auto
    with True that nth show ?thesis by simp
  next
    case False
    with that nth Suc.prems show ?thesis by (cases "i = dest") auto
  qed
  with mem' show ?case
    using Suc.prems src by simp
qed auto

lemma memcopy_nth:
  "n < 2 ^ 32 \<Longrightarrow> dest + n \<le> length mem \<Longrightarrow> src + n \<le> length mem \<Longrightarrow> dest \<le> src \<or> src + n \<le> dest \<Longrightarrow>
   \<exists>mem'. memcopy mem dest src n = Some mem' \<and> length mem' = length mem
     \<and> (\<forall>i < length mem. mem' ! i = (if dest \<le> i \<and> i < dest + n then mem ! (src + (i - dest)) else mem ! i))"
  unfolding memcopy_def using memcopy_loop_nth [of dest n mem src] by simp

text \<open>
  \<open>memcopy\<close> of fewer than \<open>2 ^ 32\<close> bytes copies the \<open>n\<close> source bytes and changes nothing else,
  whenever the blocks are disjoint or the destination lies below the source.
\<close>

theorem memcopy_correct:
  assumes "n < 2 ^ 32" and "dest + n \<le> length mem" and "src + n \<le> length mem" and "dest \<le> src \<or> src + n \<le> dest"
  shows "memcopy mem dest src n
    = Some (take dest mem @ take n (drop src mem) @ drop (dest + n) mem)"
proof -
  obtain mem' where mem': "memcopy mem dest src n = Some mem'" "length mem' = length mem"
    and nth: "\<forall>i < length mem. mem' ! i
      = (if dest \<le> i \<and> i < dest + n then mem ! (src + (i - dest)) else mem ! i)"
    using memcopy_nth [OF assms] by blast
  have "mem' = take dest mem @ take n (drop src mem) @ drop (dest + n) mem"
  proof (rule nth_equalityI)
    have len: "length (take n (drop src mem)) = n" "length (take dest mem) = dest"
      using assms(2,3) by simp_all
    then show "length mem' = length (take dest mem @ take n (drop src mem) @ drop (dest + n) mem)"
      using mem'(2) assms(2) by simp
    fix i assume "i < length mem'"
    then show "mem' ! i = (take dest mem @ take n (drop src mem) @ drop (dest + n) mem) ! i"
      using mem'(2) nth assms(2,3) len by (auto simp: nth_append simp del: length_take length_drop)
  qed
  with mem'(1) show ?thesis by simp
qed

theorem memcopy_correct_witness:
  "memcopy [1, 2, 3, 4, 5] 0 2 3 = Some [3, 4, 5, 4, 5]"
proof -
  have "(3 :: nat) < 2 ^ 32" by simp
  from memcopy_correct [OF this, of 0 "[1, 2, 3, 4, 5]" 2] show ?thesis by simp
qed

end
