(* ===== verification/Video.thy ===== *)
theory Video
  imports Page CString
begin

text \<open>
  \<open>kernel/driver/video_driver.c\<close> and \<open>kernel/font/vga-8x16.c\<close>: pixels in the linear
  framebuffer and characters from the bitmap font.  The framebuffer is a buffer of bytes.
  \<open>font_data\<close> holds the bytes from the address \<open>header.font_data\<close> on, the font file with its
  header: \<open>vga_8x16_getbitmap\<close> reads them there.  The theorems about drawing take them as they
  come; where the kernel starts (\<open>loaded\<close> in \<open>Boot_Kernel\<close>) they are read from the memory and
  the header the loader leaves.  A write outside the framebuffer, a read outside the font and
  the overflow of an \<open>int\<close> are \<open>None\<close>.
\<close>

section \<open>State\<close>

record kernel_header_info_t =
  hdr_identifier :: buffer
  hdr_address_start :: qword
  hdr_address_end :: qword
  hdr_entry_start :: qword
  hdr_font_data :: qword
  hdr_width :: dword
  hdr_height :: dword
  hdr_bytes_per_pixel :: byte
  hdr_framebuffer :: qword
  hdr_size_of_framebuffer :: dword

record video =
  framebuffer :: buffer
  framebuffer_address :: qword
  video_width :: word16
  video_height :: word16
  video_bpp :: word16
  font_data :: buffer

definition R8G8B8 :: "dword \<Rightarrow> dword \<Rightarrow> dword \<Rightarrow> dword" where
  "R8G8B8 r g b = push_bit 16 (r AND 0xFF) OR push_bit 8 (g AND 0xFF) OR (b AND 0xFF)"

definition video_driver_init :: "kernel_header_info_t \<Rightarrow> video \<Rightarrow> video" where
  "video_driver_init hdr v =
     v\<lparr>framebuffer_address := hdr_framebuffer hdr, video_width := ucast (hdr_width hdr AND 0xFFFF),
       video_height := ucast (hdr_height hdr AND 0xFFFF), video_bpp := ucast (hdr_bytes_per_pixel hdr div 8)\<rparr>"

definition video_driver_getsize :: "video \<Rightarrow> word16 \<times> word16" where
  "video_driver_getsize v = (video_width v, video_height v)"

definition video_driver_getframebuffer :: "video \<Rightarrow> qword" where
  "video_driver_getframebuffer v = framebuffer_address v"

text \<open>The product of the sizes is an \<open>int\<close>.\<close>

definition video_driver_mapped :: "video \<Rightarrow> pstate \<Rightarrow> pstate option" where
  "video_driver_mapped v s =
     (let n = unat (video_width v) * unat (video_height v) * unat (video_bpp v) in
      if n < 2 ^ 31 then page_mapvp (framebuffer_address v) (framebuffer_address v) (of_nat n) (1 OR 2) s
      else None)"

section \<open>Pixels\<close>

definition int_ok :: "int \<Rightarrow> bool" where
  "int_ok i \<longleftrightarrow> - (2 ^ 31) \<le> i \<and> i < 2 ^ 31"

definition video_driver_putPixel :: "int \<Rightarrow> int \<Rightarrow> dword \<Rightarrow> video \<Rightarrow> video option" where
  "video_driver_putPixel x y color v =
     (let row = y * uint (video_width v); pixel = x + row; index = pixel * uint (video_bpp v);
          r8 = ucast (color AND 0xFF); g8 = ucast (drop_bit 8 color AND 0xFF);
          b8 = ucast (drop_bit 16 color AND 0xFF)
      in if int_ok row \<and> int_ok pixel \<and> int_ok index \<and> 0 \<le> index
         then do {
           f1 \<leftarrow> buf_set (framebuffer v) (nat index) b8;
           f2 \<leftarrow> buf_set f1 (nat index + 1) g8;
           f3 \<leftarrow> buf_set f2 (nat index + 2) r8;
           Some (v\<lparr>framebuffer := f3\<rparr>) }
         else None)"

text \<open>The loops over the columns of a row, and over the rows.\<close>

primrec clear_row :: "nat \<Rightarrow> nat \<Rightarrow> dword \<Rightarrow> video \<Rightarrow> video option" where
  "clear_row i 0 color v = Some v"
| "clear_row i (Suc j) color v = do {
     v' \<leftarrow> clear_row i j color v;
     video_driver_putPixel (int j) (int i) color v' }"

primrec clear_rows :: "nat \<Rightarrow> dword \<Rightarrow> video \<Rightarrow> video option" where
  "clear_rows 0 color v = Some v"
| "clear_rows (Suc i) color v = do {
     v' \<leftarrow> clear_rows i color v;
     clear_row i (unat (video_width v')) color v' }"

definition video_driver_clearScreen :: "dword \<Rightarrow> video \<Rightarrow> video option" where
  "video_driver_clearScreen color v = clear_rows (unat (video_height v)) color v"

section \<open>Characters\<close>

text \<open>\<open>char\<close> is signed: the index of a character from 128 on is negative.\<close>

definition vga_8x16_getbitmap :: "byte \<Rightarrow> int" where
  "vga_8x16_getbitmap c = 24 + sint c * 16"

definition font_row :: "byte \<Rightarrow> nat \<Rightarrow> video \<Rightarrow> byte option" where
  "font_row c i v =
     (let k = vga_8x16_getbitmap c + int i in if k < 0 then None else buf_get (font_data v) (nat k))"

primrec draw_bits :: "byte \<Rightarrow> dword \<Rightarrow> dword \<Rightarrow> nat \<Rightarrow> dword \<Rightarrow> video \<Rightarrow> video option" where
  "draw_bits b x y 0 color v = Some v"
| "draw_bits b x y (Suc j) color v = do {
     v' \<leftarrow> draw_bits b x y j color v;
     if drop_bit (7 - j) b AND 1 = 1
     then video_driver_putPixel (sint (x + of_nat j)) (sint y) color v'
     else Some v' }"

primrec draw_rows :: "byte \<Rightarrow> dword \<Rightarrow> dword \<Rightarrow> nat \<Rightarrow> dword \<Rightarrow> video \<Rightarrow> video option" where
  "draw_rows c x y 0 color v = Some v"
| "draw_rows c x y (Suc i) color v = do {
     v' \<leftarrow> draw_rows c x y i color v;
     b \<leftarrow> font_row c i v';
     draw_bits b x (y + of_nat i) 8 color v' }"

definition video_driver_drawChar :: "byte \<Rightarrow> dword \<Rightarrow> dword \<Rightarrow> dword \<Rightarrow> video \<Rightarrow> video option" where
  "video_driver_drawChar c x y color v = draw_rows c x y 16 color v"

end
