(* ===== verification/Video_Props.thy ===== *)
theory Video_Props
  imports Video
begin

text \<open>
  The screen as a grid of pixels: setting a pixel, clearing the screen and drawing a
  character, each as an update of the grid, for every framebuffer that is as large as its
  sizes say.
\<close>

section \<open>The grid\<close>

definition video_ok :: "video \<Rightarrow> bool" where
  "video_ok v \<longleftrightarrow> 3 \<le> unat (video_bpp v)
     \<and> unat (video_width v) * unat (video_height v) * unat (video_bpp v) \<le> length (framebuffer v)
     \<and> unat (video_width v) * unat (video_height v) * unat (video_bpp v) < 2 ^ 31"

definition pixel_index :: "video \<Rightarrow> nat \<Rightarrow> nat \<Rightarrow> nat" where
  "pixel_index v x y = (x + y * unat (video_width v)) * unat (video_bpp v)"

definition pixel :: "video \<Rightarrow> nat \<Rightarrow> nat \<Rightarrow> byte list" where
  "pixel v x y = (let i = pixel_index v x y in [framebuffer v ! i, framebuffer v ! (i + 1), framebuffer v ! (i + 2)])"

definition color_bytes :: "dword \<Rightarrow> byte list" where
  "color_bytes c = [ucast (drop_bit 16 c), ucast (drop_bit 8 c), ucast c]"

definition on_screen :: "video \<Rightarrow> nat \<Rightarrow> nat \<Rightarrow> bool" where
  "on_screen v x y \<longleftrightarrow> x < unat (video_width v) \<and> y < unat (video_height v)"

text \<open>\<open>v'\<close> is \<open>v\<close> with other pixels.\<close>

definition same_screen :: "video \<Rightarrow> video \<Rightarrow> bool" where
  "same_screen v v' \<longleftrightarrow> (\<exists>f. v' = v\<lparr>framebuffer := f\<rparr> \<and> length f = length (framebuffer v))"

lemma same_screen_refl [simp]: "same_screen v v"
  unfolding same_screen_def by (intro exI [of _ "framebuffer v"]) simp

lemma same_screen_trans: "same_screen u v \<Longrightarrow> same_screen v w \<Longrightarrow> same_screen u w"
  by (auto simp: same_screen_def)

lemma same_screenD:
  assumes "same_screen v v'"
  shows "video_width v' = video_width v" "video_height v' = video_height v" "video_bpp v' = video_bpp v"
    "font_data v' = font_data v" "length (framebuffer v') = length (framebuffer v)"
    "framebuffer_address v' = framebuffer_address v"
    "video_ok v' \<longleftrightarrow> video_ok v" "on_screen v' = on_screen v" "pixel_index v' = pixel_index v"
    "font_row c i v' = font_row c i v"
  using assms by (auto simp: same_screen_def video_ok_def on_screen_def pixel_index_def font_row_def Let_def fun_eq_iff)

lemma pixel_number:
  assumes "on_screen v x y"
  shows "x + y * unat (video_width v) < unat (video_width v) * unat (video_height v)"
proof -
  let ?w = "unat (video_width v)" and ?h = "unat (video_height v)"
  have "x + y * ?w < Suc y * ?w" using assms by (simp add: on_screen_def)
  also have "\<dots> \<le> ?h * ?w" using assms by (intro mult_le_mono1) (simp add: on_screen_def)
  finally show ?thesis by (simp add: mult.commute)
qed

lemma pixel_index_bound:
  assumes "video_ok v" and "on_screen v x y"
  shows "pixel_index v x y + unat (video_bpp v) \<le> length (framebuffer v)"
    and "pixel_index v x y + unat (video_bpp v) < 2 ^ 31"
proof -
  let ?n = "unat (video_width v) * unat (video_height v)" and ?b = "unat (video_bpp v)"
  have "Suc (x + y * unat (video_width v)) * ?b \<le> ?n * ?b"
    using pixel_number [OF assms(2)] by (intro mult_le_mono1) simp
  then show "pixel_index v x y + ?b \<le> length (framebuffer v)" "pixel_index v x y + ?b < 2 ^ 31"
    using assms(1) by (simp_all add: pixel_index_def video_ok_def)
qed

lemma pixel_apart:
  assumes "video_ok v" and "on_screen v x y" and "on_screen v x' y'" and "(x, y) \<noteq> (x', y')"
  shows "pixel_index v x y + 3 \<le> pixel_index v x' y' \<or> pixel_index v x' y' + 3 \<le> pixel_index v x y"
proof -
  let ?w = "unat (video_width v)" and ?b = "unat (video_bpp v)"
  have "x + y * ?w \<noteq> x' + y' * ?w"
  proof
    assume e: "x + y * ?w = x' + y' * ?w"
    have "(x + y * ?w) mod ?w = x" "(x' + y' * ?w) mod ?w = x'"
      using assms(2,3) by (simp_all add: on_screen_def)
    then show False using e assms(2-4) by (auto simp: on_screen_def)
  qed
  then have "Suc (x + y * ?w) * ?b \<le> (x' + y' * ?w) * ?b \<or> Suc (x' + y' * ?w) * ?b \<le> (x + y * ?w) * ?b"
    by (meson Suc_leI linorder_neqE_nat mult_le_mono1)
  then show ?thesis using assms(1) by (auto simp: pixel_index_def video_ok_def)
qed

section \<open>One pixel\<close>

lemma pixel_index_framebuffer: "pixel_index (v\<lparr>framebuffer := f\<rparr>) = pixel_index v"
  by (simp add: pixel_index_def fun_eq_iff)

lemma update3_apart:
  fixes i k :: nat
  assumes "i + 3 \<le> k \<or> k + 3 \<le> i"
  shows "(xs[i := a, Suc i := b, Suc (Suc i) := c]) ! k = xs ! k"
    and "(xs[i := a, Suc i := b, Suc (Suc i) := c]) ! Suc k = xs ! Suc k"
    and "(xs[i := a, Suc i := b, Suc (Suc i) := c]) ! Suc (Suc k) = xs ! Suc (Suc k)"
  using assms by auto

lemma int_okI: "0 \<le> i \<Longrightarrow> i < 2 ^ 31 \<Longrightarrow> int_ok i"
  by (simp add: int_ok_def)

lemma putPixel_run:
  assumes "(x + y * uint (video_width v)) * uint (video_bpp v) = int i"
    and "int_ok (y * uint (video_width v))" and "int_ok (x + y * uint (video_width v))" and "int_ok (int i)"
    and "i + 2 < length (framebuffer v)"
  shows "video_driver_putPixel x y c v =
    Some (v\<lparr>framebuffer := (framebuffer v)[i := ucast (drop_bit 16 c AND 0xFF), i + 1 := ucast (drop_bit 8 c AND 0xFF),
                             i + 2 := ucast (c AND 0xFF)]\<rparr>)"
  unfolding video_driver_putPixel_def Let_def assms(1) using assms(2-5) by simp

lemma putPixel_ok:
  assumes ok: "video_ok v" and on: "on_screen v x y"
  shows "\<exists>v'. video_driver_putPixel (int x) (int y) c v = Some v' \<and> same_screen v v'
    \<and> (\<forall>px py. on_screen v px py \<longrightarrow>
         pixel v' px py = (if px = x \<and> py = y then color_bytes c else pixel v px py))"
proof -
  let ?i = "pixel_index v x y" and ?w = "unat (video_width v)" and ?b = "unat (video_bpp v)"
  have b3: "3 \<le> ?b" using ok by (simp add: video_ok_def)
  note bnd = pixel_index_bound [OF ok on]
  have i: "(int x + int y * uint (video_width v)) * uint (video_bpp v) = int ?i"
    by (simp add: pixel_index_def)
  have "x + y * ?w \<le> ?i" using b3 by (simp add: pixel_index_def)
  then have "x + y * ?w < 2 ^ 31" using bnd(2) by linarith
  then have "int (x + y * ?w) < int (2 ^ 31)" by (simp only: of_nat_less_iff)
  moreover have "int (x + y * ?w) = int x + int y * uint (video_width v)" by simp
  moreover have nn: "0 \<le> int y * uint (video_width v)" by simp
  moreover have "int (2 ^ 31) = 2 ^ 31" by simp
  ultimately have small: "int y * uint (video_width v) < 2 ^ 31" "int x + int y * uint (video_width v) < 2 ^ 31"
    by linarith+
  have "int ?i < int (2 ^ 31)" using bnd(2) by (simp only: of_nat_less_iff)
  then have small3: "int ?i < 2 ^ 31" by simp
  have row: "int_ok (int y * uint (video_width v))" by (intro int_okI small nn)
  have pix: "int_ok (int x + int y * uint (video_width v))"
    by (intro int_okI small nn add_nonneg_nonneg of_nat_0_le_iff)
  have idx: "int_ok (int ?i)" by (intro int_okI small3 of_nat_0_le_iff)
  have len: "?i + 2 < length (framebuffer v)" using bnd(1) b3 by linarith
  let ?f = "(framebuffer v)[?i := ucast (drop_bit 16 c AND 0xFF), ?i + 1 := ucast (drop_bit 8 c AND 0xFF),
              ?i + 2 := ucast (c AND 0xFF)]"
  have run: "video_driver_putPixel (int x) (int y) c v = Some (v\<lparr>framebuffer := ?f\<rparr>)"
    by (intro putPixel_run [OF i row pix idx len])
  have m: "(0xFF :: dword) = mask 8" by (simp add: mask_eq_exp_minus_1)
  have bytes: "(ucast (d AND 0xFF) :: byte) = ucast d" for d :: dword
    unfolding m by (rule bit_word_eqI) (simp add: bit_simps)
  have "pixel (v\<lparr>framebuffer := ?f\<rparr>) px py = (if px = x \<and> py = y then color_bytes c else pixel v px py)"
    if "on_screen v px py" for px py
  proof (cases "px = x \<and> py = y")
    case True
    then show ?thesis
      using bnd(1) b3 by (simp add: pixel_def pixel_index_def color_bytes_def Let_def nth_list_update bytes)
  next
    case False
    then have "?i + 3 \<le> pixel_index v px py \<or> pixel_index v px py + 3 \<le> ?i"
      using pixel_apart [OF ok on that] by auto
    then show ?thesis
      unfolding pixel_def Let_def pixel_index_framebuffer if_not_P [OF False] by (simp add: update3_apart)
  qed
  then show ?thesis using run by (intro exI [of _ "v\<lparr>framebuffer := ?f\<rparr>"]) (auto simp: same_screen_def)
qed

section \<open>Clearing the screen\<close>

lemma clear_row_ok:
  assumes "video_ok v" and "i < unat (video_height v)"
  shows "n \<le> unat (video_width v) \<Longrightarrow> \<exists>v'. clear_row i n c v = Some v' \<and> same_screen v v'
    \<and> (\<forall>px py. on_screen v px py \<longrightarrow> pixel v' px py = (if py = i \<and> px < n then color_bytes c else pixel v px py))"
proof (induction n)
  case (Suc n)
  then obtain v1 where v1: "clear_row i n c v = Some v1" "same_screen v v1"
    "\<forall>px py. on_screen v px py \<longrightarrow> pixel v1 px py = (if py = i \<and> px < n then color_bytes c else pixel v px py)"
    by auto
  note s = same_screenD [OF v1(2)]
  have "on_screen v1 n i" "video_ok v1" using Suc.prems assms s by (simp_all add: on_screen_def)
  then obtain v2 where v2: "video_driver_putPixel (int n) (int i) c v1 = Some v2" "same_screen v1 v2"
    "\<forall>px py. on_screen v1 px py \<longrightarrow> pixel v2 px py = (if px = n \<and> py = i then color_bytes c else pixel v1 px py)"
    using putPixel_ok by blast
  then show ?case
    using v1 same_screen_trans [OF v1(2) v2(2)] s(8) by (auto simp: less_Suc_eq)
qed simp

lemma clear_rows_ok:
  assumes "video_ok v"
  shows "n \<le> unat (video_height v) \<Longrightarrow> \<exists>v'. clear_rows n c v = Some v' \<and> same_screen v v'
    \<and> (\<forall>px py. on_screen v px py \<longrightarrow> pixel v' px py = (if py < n then color_bytes c else pixel v px py))"
proof (induction n)
  case (Suc n)
  then obtain v1 where v1: "clear_rows n c v = Some v1" "same_screen v v1"
    "\<forall>px py. on_screen v px py \<longrightarrow> pixel v1 px py = (if py < n then color_bytes c else pixel v px py)"
    by auto
  note s = same_screenD [OF v1(2)]
  obtain v2 where v2: "clear_row n (unat (video_width v1)) c v1 = Some v2" "same_screen v1 v2"
    "\<forall>px py. on_screen v1 px py \<longrightarrow>
       pixel v2 px py = (if py = n \<and> px < unat (video_width v1) then color_bytes c else pixel v1 px py)"
    using clear_row_ok [of v1 n "unat (video_width v1)" c] s Suc.prems assms by auto
  then show ?case
    using v1 same_screen_trans [OF v1(2) v2(2)] s(1,8) by (auto simp: less_Suc_eq on_screen_def)
qed simp

section \<open>Characters\<close>

text \<open>The font has a bitmap for every character below 128.\<close>

definition font_ok :: "video \<Rightarrow> bool" where
  "font_ok v \<longleftrightarrow> 24 + 128 * 16 \<le> length (font_data v)"

definition glyph :: "video \<Rightarrow> byte \<Rightarrow> nat \<Rightarrow> byte" where
  "glyph v c i = font_data v ! (24 + unat c * 16 + i)"

lemma font_row_ok:
  assumes "font_ok v" and "c < 128" and "i < 16"
  shows "font_row c i v = Some (glyph v c i)"
proof -
  have c: "unat c < 128" using assms(2) by (simp add: word_less_nat_alt)
  have u: "uint c < 128" using assms(2) by (simp add: word_less_def)
  with c have s: "sint c = int (unat c)"
    using u by (simp add: sint_uint signed_take_bit_int_eq_self_iff order_trans [OF _ uint_ge_0])
  then have "24 + sint c * 16 + int i = int (24 + unat c * 16 + i)" unfolding s by (simp only: of_nat_add of_nat_mult of_nat_numeral)
  then have "font_row c i v = buf_get (font_data v) (24 + unat c * 16 + i)"
    unfolding font_row_def vga_8x16_getbitmap_def Let_def by (simp only: nat_int not_less [THEN iffD2, OF of_nat_0_le_iff] if_False)
  then show ?thesis using c assms(1,3) by (simp add: font_ok_def glyph_def)
qed


lemma sint_coordinate:
  assumes "n < 2 ^ 31"
  shows "sint (word_of_nat n :: dword) = int n"
  using assms by (simp add: sint_uint unsigned_of_nat take_bit_nat_eq_self take_bit_int_eq_self signed_take_bit_int_eq_self_iff)

lemma draw_bits_ok:
  assumes "video_ok v" and "Y < unat (video_height v)" and "X + 8 \<le> unat (video_width v)"
  shows "j \<le> 8 \<Longrightarrow> \<exists>v'. draw_bits b (word_of_nat X) (word_of_nat Y) j c v = Some v' \<and> same_screen v v'
    \<and> (\<forall>px py. on_screen v px py \<longrightarrow>
         pixel v' px py = (if py = Y \<and> X \<le> px \<and> px < X + j \<and> bit b (7 - (px - X)) then color_bytes c else pixel v px py))"
proof (induction j)
  case (Suc j)
  then obtain v1 where v1: "draw_bits b (word_of_nat X) (word_of_nat Y) j c v = Some v1" "same_screen v v1"
    "\<forall>px py. on_screen v px py \<longrightarrow>
       pixel v1 px py = (if py = Y \<and> X \<le> px \<and> px < X + j \<and> bit b (7 - (px - X)) then color_bytes c else pixel v px py)"
    by auto
  note s = same_screenD [OF v1(2)]
  have on: "on_screen v1 (X + j) Y" "video_ok v1" using Suc.prems assms s by (simp_all add: on_screen_def)
  have "X + j < 2 ^ 16" "Y < 2 ^ 16"
    using assms Suc.prems unsigned_less [of "video_width v", where ?'a = nat] unsigned_less [of "video_height v", where ?'a = nat] by simp_all
  then have co: "sint (word_of_nat X + word_of_nat j :: dword) = int (X + j)" "sint (word_of_nat Y :: dword) = int Y"
    using sint_coordinate [of "X + j"] sint_coordinate [of Y] by simp_all
  obtain v2 where v2: "video_driver_putPixel (int (X + j)) (int Y) c v1 = Some v2" "same_screen v1 v2"
    "\<forall>px py. on_screen v1 px py \<longrightarrow> pixel v2 px py = (if px = X + j \<and> py = Y then color_bytes c else pixel v1 px py)"
    using putPixel_ok [OF on(2,1)] by blast
  have b: "drop_bit (7 - j) b AND 1 = 1 \<longleftrightarrow> bit b (7 - j)"
    using drop_bit_and_one [of "7 - j" b] by (cases "bit b (7 - j)") (auto simp: and_one_eq odd_iff_mod_2_eq_one)
  show ?case
  proof (cases "bit b (7 - j)")
    case True
    have "draw_bits b (word_of_nat X) (word_of_nat Y) (Suc j) c v = Some v2"
      using True v1(1) v2(1) by (simp add: b co)
    moreover have "same_screen v v2" using v1(2) v2(2) by (rule same_screen_trans)
    ultimately show ?thesis
      using v1(3) v2(3) s(8) True by (intro exI [of _ v2]) (auto simp: less_Suc_eq)
  next
    case False
    have "draw_bits b (word_of_nat X) (word_of_nat Y) (Suc j) c v = Some v1"
      using False v1(1) by (simp add: b)
    then show ?thesis
      using v1 False by (intro exI [of _ v1]) (auto simp: less_Suc_eq)
  qed
qed auto

lemma glyph_same: "same_screen v v' \<Longrightarrow> glyph v' c i = glyph v c i"
  by (simp add: glyph_def same_screenD(4))

lemma font_same: "same_screen v v' \<Longrightarrow> font_ok v' = font_ok v"
  by (simp add: font_ok_def same_screenD(4))

lemma draw_rows_ok:
  assumes "video_ok v" and "font_ok v" and "k < 128"
    and "Y + 16 \<le> unat (video_height v)" and "X + 8 \<le> unat (video_width v)"
  shows "i \<le> 16 \<Longrightarrow> \<exists>v'. draw_rows k (word_of_nat X) (word_of_nat Y) i c v = Some v' \<and> same_screen v v'
    \<and> (\<forall>px py. on_screen v px py \<longrightarrow>
         pixel v' px py = (if Y \<le> py \<and> py < Y + i \<and> X \<le> px \<and> px < X + 8 \<and> bit (glyph v k (py - Y)) (7 - (px - X))
                           then color_bytes c else pixel v px py))"
proof (induction i)
  case (Suc i)
  then obtain v1 where v1: "draw_rows k (word_of_nat X) (word_of_nat Y) i c v = Some v1" "same_screen v v1"
    "\<forall>px py. on_screen v px py \<longrightarrow>
       pixel v1 px py = (if Y \<le> py \<and> py < Y + i \<and> X \<le> px \<and> px < X + 8 \<and> bit (glyph v k (py - Y)) (7 - (px - X))
                         then color_bytes c else pixel v px py)"
    by auto
  note s = same_screenD [OF v1(2)]
  have row: "font_row k i v1 = Some (glyph v k i)"
    using font_row_ok [OF assms(2,3)] Suc.prems s(10) by simp
  obtain v2 where v2: "draw_bits (glyph v k i) (word_of_nat X) (word_of_nat (Y + i)) 8 c v1 = Some v2" "same_screen v1 v2"
    "\<forall>px py. on_screen v1 px py \<longrightarrow>
       pixel v2 px py = (if py = Y + i \<and> X \<le> px \<and> px < X + 8 \<and> bit (glyph v k i) (7 - (px - X))
                         then color_bytes c else pixel v1 px py)"
    using draw_bits_ok [of v1 "Y + i" X 8 "glyph v k i" c] s Suc.prems assms by auto
  have "draw_rows k (word_of_nat X) (word_of_nat Y) (Suc i) c v = Some v2"
    using v1(1) row v2(1) by simp
  moreover have "same_screen v v2" using v1(2) v2(2) by (rule same_screen_trans)
  ultimately show ?case
    using v1(3) v2(3) s(8) by (intro exI [of _ v2]) (auto simp: less_Suc_eq)
qed auto

lemma drawChar_ok:
  assumes "video_ok v" and "font_ok v" and "k < 128"
    and "X + 8 \<le> unat (video_width v)" and "Y + 16 \<le> unat (video_height v)"
  shows "\<exists>v'. video_driver_drawChar k (word_of_nat X) (word_of_nat Y) c v = Some v' \<and> same_screen v v'
    \<and> (\<forall>px py. on_screen v px py \<longrightarrow>
         pixel v' px py = (if Y \<le> py \<and> py < Y + 16 \<and> X \<le> px \<and> px < X + 8 \<and> bit (glyph v k (py - Y)) (7 - (px - X))
                           then color_bytes c else pixel v px py))"
  unfolding video_driver_drawChar_def using assms by (intro draw_rows_ok) simp_all

text \<open>
  C33: \<open>video_driver_drawChar\<close> of a character below 128 at a place where its 8 by 16 pixels
  fit changes exactly the pixels of this cell whose bit in the character's bitmap is set, to
  the color; it stays inside the framebuffer and the font.
\<close>

theorem drawChar_correct:
  assumes "video_ok v" and "font_ok v" and "k < 128"
    and "X + 8 \<le> unat (video_width v)" and "Y + 16 \<le> unat (video_height v)"
  shows "\<exists>v'. video_driver_drawChar k (word_of_nat X) (word_of_nat Y) c v = Some v' \<and> same_screen v v'
    \<and> (\<forall>px py. on_screen v px py \<longrightarrow>
         pixel v' px py = (if Y \<le> py \<and> py < Y + 16 \<and> X \<le> px \<and> px < X + 8 \<and> bit (glyph v k (py - Y)) (7 - (px - X))
                           then color_bytes c else pixel v px py))"
  using drawChar_ok [OF assms] .

text \<open>
  \<open>video_driver_clearScreen\<close> sets every pixel of the screen to the color.
\<close>

theorem clearScreen_correct:
  assumes "video_ok v"
  shows "\<exists>v'. video_driver_clearScreen c v = Some v' \<and> same_screen v v'
    \<and> (\<forall>px py. on_screen v px py \<longrightarrow> pixel v' px py = color_bytes c)"
  using clear_rows_ok [OF assms order_refl] by (auto simp: video_driver_clearScreen_def on_screen_def)


text \<open>A screen of 16 by 32 pixels, with a font whose letter \<open>A\<close> is a filled cell.\<close>

definition small_video :: video where
  "small_video = \<lparr>framebuffer = replicate 1536 0, framebuffer_address = 0xE0000000, video_width = 16, video_height = 32,
     video_bpp = 3, font_data = replicate 1064 0 @ replicate 16 0xFF @ replicate 992 0\<rparr>"

lemma small_video_ok: "video_ok small_video" "font_ok small_video"
  by (simp_all add: small_video_def video_ok_def font_ok_def)

theorem drawChar_correct_witness:
  "\<exists>v'. video_driver_drawChar 65 8 16 0x00FFFFFF small_video = Some v' \<and> pixel v' 9 17 = [0xFF, 0xFF, 0xFF]"
proof -
  obtain v' where v': "video_driver_drawChar 65 (word_of_nat 8) (word_of_nat 16) 0x00FFFFFF small_video = Some v'"
    "\<forall>px py. on_screen small_video px py \<longrightarrow> pixel v' px py =
      (if 16 \<le> py \<and> py < 16 + 16 \<and> 8 \<le> px \<and> px < 8 + 8 \<and> bit (glyph small_video 65 (py - 16)) (7 - (px - 8))
       then color_bytes 0x00FFFFFF else pixel small_video px py)"
    using drawChar_correct [OF small_video_ok, of 65 8 16 "0x00FFFFFF"] by (auto simp: small_video_def)
  have "on_screen small_video 9 17" by (simp add: on_screen_def small_video_def)
  moreover have "glyph small_video 65 1 = 0xFF" by (simp add: glyph_def small_video_def nth_append)
  ultimately have "pixel v' 9 17 = color_bytes 0x00FFFFFF" using v'(2) by simp
  then show ?thesis using v'(1) by (simp add: color_bytes_def)
qed

theorem clearScreen_correct_witness:
  "\<exists>v'. video_driver_clearScreen 0x00640000 small_video = Some v' \<and> pixel v' 15 31 = [0x64, 0, 0]"
proof -
  have "on_screen small_video 15 31" by (simp add: on_screen_def small_video_def)
  then show ?thesis
    using clearScreen_correct [OF small_video_ok(1), of "0x00640000"] by (fastforce simp: color_bytes_def)
qed

end
