(* ===== verification/Printf.thy ===== *)
theory Printf
  imports CString
begin

text \<open>
  \<open>kernel/io.c\<close> and \<open>kernel/serial.c\<close>: the two formatted-output routines.  The result is
  the sequence of characters given to \<open>term_putc\<close> or to the serial line.  \<open>mem p\<close> is the
  memory from address \<open>p\<close> on, where \<open>%s\<close> arguments point; \<open>args\<close> are the words after the
  format on the argument block.  \<open>printf\<close> prints a \<open>%s\<close> argument by calling itself with the
  argument as the format; the argument registers then hold whatever they held, \<open>junk\<close>.
  \<open>None\<close>: a read outside a string or the argument block, or output that does not end.
\<close>

section \<open>Printing\<close>

abbreviation PERCENT :: byte where "PERCENT \<equiv> 37"
abbreviation CH_i :: byte where "CH_i \<equiv> 105"
abbreviation CH_x :: byte where "CH_x \<equiv> 120"
abbreviation CH_s :: byte where "CH_s \<equiv> 115"
abbreviation CH_c :: byte where "CH_c \<equiv> 99"

type_synonym strings = "qword \<Rightarrow> buffer option"

function print_loop :: "buffer \<Rightarrow> nat \<Rightarrow> byte list option" where
  "print_loop text i =
     (if i < length text
      then (if text ! i = 0 then Some [] else do { out \<leftarrow> print_loop text (i + 1); Some (text ! i # out) })
      else None)"
  by pat_completeness auto
termination by (relation "measure (\<lambda>(text, i). length text - i)") auto

declare print_loop.simps [simp del]

definition print :: "buffer \<Rightarrow> byte list option" where
  "print text = print_loop text 0"

definition serial_print :: "buffer \<Rightarrow> byte list option" where
  "serial_print text = print_loop text 0"

partial_function (option) printf_loop ::
  "strings \<Rightarrow> qword list \<Rightarrow> buffer \<Rightarrow> nat \<Rightarrow> qword list \<Rightarrow> byte list option" where
  "printf_loop mem junk format i args = do {
     ch \<leftarrow> buf_get format i;
     if ch = 0 then Some []
     else if ch = PERCENT
     then do {
       d \<leftarrow> buf_get format (i + 1);
       if d = CH_i
       then do {
         v \<leftarrow> buf_get args 0;
         num \<leftarrow> intstr (sint (ucast v :: dword)) (replicate 32 0);
         out \<leftarrow> print num;
         rest \<leftarrow> printf_loop mem junk format (i + 2) (tl args);
         Some (out @ rest) }
       else if d = CH_x
       then do {
         v \<leftarrow> buf_get args 0;
         num \<leftarrow> hexstr v (replicate 32 0);
         out \<leftarrow> print num;
         rest \<leftarrow> printf_loop mem junk format (i + 2) (tl args);
         Some (out @ rest) }
       else if d = CH_s
       then do {
         p \<leftarrow> buf_get args 0;
         text \<leftarrow> mem p;
         out \<leftarrow> printf_loop mem junk text 0 junk;
         rest \<leftarrow> printf_loop mem junk format (i + 2) (tl args);
         Some (out @ rest) }
       else if d = CH_c
       then do {
         v \<leftarrow> buf_get args 0;
         rest \<leftarrow> printf_loop mem junk format (i + 2) (tl args);
         Some (ucast v # rest) }
       else do {
         rest \<leftarrow> printf_loop mem junk format (i + 2) args;
         Some (ch # d # rest) } }
     else do {
       rest \<leftarrow> printf_loop mem junk format (i + 1) args;
       Some (ch # rest) } }"

definition printf_impl :: "strings \<Rightarrow> qword list \<Rightarrow> buffer \<Rightarrow> qword list \<Rightarrow> byte list option" where
  "printf_impl mem junk format args = printf_loop mem junk format 0 args"

text \<open>The serial line prints a \<open>%s\<close> argument as it is.\<close>

partial_function (option) serial_loop ::
  "strings \<Rightarrow> buffer \<Rightarrow> nat \<Rightarrow> qword list \<Rightarrow> byte list option" where
  "serial_loop mem format i args = do {
     ch \<leftarrow> buf_get format i;
     if ch = 0 then Some []
     else if ch = PERCENT
     then do {
       d \<leftarrow> buf_get format (i + 1);
       if d = CH_i
       then do {
         v \<leftarrow> buf_get args 0;
         num \<leftarrow> intstr (sint (ucast v :: dword)) (replicate 64 0);
         out \<leftarrow> serial_print num;
         rest \<leftarrow> serial_loop mem format (i + 2) (tl args);
         Some (out @ rest) }
       else if d = CH_x
       then do {
         v \<leftarrow> buf_get args 0;
         num \<leftarrow> hexstr v (replicate 64 0);
         out \<leftarrow> serial_print num;
         rest \<leftarrow> serial_loop mem format (i + 2) (tl args);
         Some (out @ rest) }
       else if d = CH_s
       then do {
         p \<leftarrow> buf_get args 0;
         text \<leftarrow> mem p;
         out \<leftarrow> serial_print text;
         rest \<leftarrow> serial_loop mem format (i + 2) (tl args);
         Some (out @ rest) }
       else if d = CH_c
       then do {
         v \<leftarrow> buf_get args 0;
         rest \<leftarrow> serial_loop mem format (i + 2) (tl args);
         Some (ucast v # rest) }
       else do {
         rest \<leftarrow> serial_loop mem format (i + 2) args;
         Some (ch # d # rest) } }
     else do {
       rest \<leftarrow> serial_loop mem format (i + 1) args;
       Some (ch # rest) } }"

definition serial_printf_implementation :: "strings \<Rightarrow> buffer \<Rightarrow> qword list \<Rightarrow> byte list option" where
  "serial_printf_implementation mem format args = serial_loop mem format 0 args"

section \<open>What is printed\<close>

lemma print_loop_ok:
  "0 \<notin> set s \<Longrightarrow> print_loop (pre @ s @ 0 # r) (length pre) = Some s"
proof (induction s arbitrary: pre)
  case Nil
  then show ?case by (subst print_loop.simps) simp
next
  case (Cons c s)
  have "print_loop ((pre @ [c]) @ s @ 0 # r) (length (pre @ [c])) = Some s"
    by (rule Cons.IH) (use Cons.prems in simp)
  then show ?case using Cons.prems by (subst print_loop.simps) (simp add: nth_append)
qed

lemma print_cstr: "terminated b \<Longrightarrow> print b = Some (cstr b)" "terminated b \<Longrightarrow> serial_print b = Some (cstr b)"
proof -
  assume "terminated b"
  then obtain s r where b: "b = s @ 0 # r" "0 \<notin> set s" by (rule terminated_split)
  then show "print b = Some (cstr b)" "serial_print b = Some (cstr b)"
    using print_loop_ok [OF b(2), of "[]" r] by (simp_all add: print_def serial_print_def cstr_append_NUL)
qed

text \<open>The parts of a format: characters, conversions, and a percent sign before any other character.\<close>

datatype piece = Lit byte | Dec qword | Hex qword | Str qword | Chr qword | Odd byte

primrec piece_format :: "piece \<Rightarrow> byte list" where
  "piece_format (Lit c) = [c]"
| "piece_format (Dec v) = [PERCENT, CH_i]"
| "piece_format (Hex v) = [PERCENT, CH_x]"
| "piece_format (Str p) = [PERCENT, CH_s]"
| "piece_format (Chr v) = [PERCENT, CH_c]"
| "piece_format (Odd c) = [PERCENT, c]"

primrec piece_args :: "piece \<Rightarrow> qword list" where
  "piece_args (Lit c) = []"
| "piece_args (Dec v) = [v]"
| "piece_args (Hex v) = [v]"
| "piece_args (Str p) = [p]"
| "piece_args (Chr v) = [v]"
| "piece_args (Odd c) = []"

primrec piece_ok :: "strings \<Rightarrow> piece \<Rightarrow> bool" where
  "piece_ok mem (Lit c) \<longleftrightarrow> c \<noteq> 0 \<and> c \<noteq> PERCENT"
| "piece_ok mem (Dec v) \<longleftrightarrow> sint (ucast v :: dword) \<noteq> - 2147483648"
| "piece_ok mem (Hex v) \<longleftrightarrow> True"
| "piece_ok mem (Str p) \<longleftrightarrow> (\<exists>b. mem p = Some b \<and> terminated b)"
| "piece_ok mem (Chr v) \<longleftrightarrow> True"
| "piece_ok mem (Odd c) \<longleftrightarrow> c \<notin> {0, CH_i, CH_x, CH_s, CH_c}"

primrec piece_text :: "strings \<Rightarrow> piece \<Rightarrow> byte list \<Rightarrow> bool" where
  "piece_text mem (Lit c) t \<longleftrightarrow> t = [c]"
| "piece_text mem (Dec v) t \<longleftrightarrow> t = dec_chars (sint (ucast v :: dword))"
| "piece_text mem (Hex v) t \<longleftrightarrow> hexval t = uint v \<and> set t \<subseteq> set hexw
     \<and> (if v = 0 then t = [48, 48] else hd t \<noteq> 48)"
| "piece_text mem (Str p) t \<longleftrightarrow> (\<exists>b. mem p = Some b \<and> t = cstr b)"
| "piece_text mem (Chr v) t \<longleftrightarrow> t = [ucast v]"
| "piece_text mem (Odd c) t \<longleftrightarrow> t = [PERCENT, c]"

text \<open>No string argument contains a percent sign.\<close>

primrec plain_piece :: "strings \<Rightarrow> piece \<Rightarrow> bool" where
  "plain_piece mem (Lit c) \<longleftrightarrow> True"
| "plain_piece mem (Dec v) \<longleftrightarrow> True"
| "plain_piece mem (Hex v) \<longleftrightarrow> True"
| "plain_piece mem (Str p) \<longleftrightarrow> (\<forall>b. mem p = Some b \<longrightarrow> PERCENT \<notin> set (cstr b))"
| "plain_piece mem (Chr v) \<longleftrightarrow> True"
| "plain_piece mem (Odd c) \<longleftrightarrow> True"

definition format_of :: "piece list \<Rightarrow> byte list" where
  "format_of ps = concat (map piece_format ps)"

definition args_of :: "piece list \<Rightarrow> qword list" where
  "args_of ps = concat (map piece_args ps)"

end
