(* ===== verification/Printf_Props.thy ===== *)
theory Printf_Props
  imports Printf
begin

text \<open>
  Formatted output against its specification, the agreement of the two routines, and the
  formats on which they go wrong.
\<close>

section \<open>One conversion at a time\<close>

lemma dec_text:
  assumes "sint (ucast v :: dword) \<noteq> - 2147483648" and "12 \<le> n"
  shows "\<exists>num. intstr (sint (ucast v :: dword)) (replicate n 0) = Some num
    \<and> print num = Some (dec_chars (sint (ucast v :: dword))) \<and> serial_print num = Some (dec_chars (sint (ucast v :: dword)))"
proof -
  let ?v = "sint (ucast v :: dword)"
  have r: "- 2147483648 \<le> ?v" "?v < 2147483648"
    using sint_ge [of "ucast v :: dword"] sint_lt [of "ucast v :: dword"] by simp_all
  obtain r where "intstr ?v (replicate n 0) = Some (dec_chars ?v @ 0 # r)"
    using intstr_core [of ?v "replicate n 0"] r assms by auto
  then show ?thesis
    using print_cstr [of "dec_chars ?v @ 0 # r"]
    by (simp add: terminated_def cstr_append_NUL dec_chars_no_NUL)
qed

lemma hex_text:
  assumes "17 \<le> n"
  shows "\<exists>num t. hexstr v (replicate n 0) = Some num \<and> print num = Some t \<and> serial_print num = Some t
    \<and> piece_text mem (Hex v) t"
  using hexstr_core [of "replicate n 0" v] assms print_cstr by fastforce

lemma format_Cons: "format_of (p # ps) = piece_format p @ format_of ps" "args_of (p # ps) = piece_args p @ args_of ps"
  by (simp_all add: format_of_def args_of_def)

lemma printf_plain:
  assumes "0 \<notin> set s" and "PERCENT \<notin> set s"
  shows "printf_loop mem junk (pre @ s @ 0 # r) (length pre) args = Some s"
  using assms
proof (induction s arbitrary: pre)
  case Nil
  then show ?case by (subst printf_loop.simps) simp
next
  case (Cons c s)
  have "printf_loop mem junk ((pre @ [c]) @ s @ 0 # r) (length (pre @ [c])) args = Some s"
    by (rule Cons.IH) (use Cons.prems in simp_all)
  then show ?case using Cons.prems by (subst printf_loop.simps) (simp add: nth_append)
qed

lemma printf_cstr:
  assumes "terminated b" and "PERCENT \<notin> set (cstr b)"
  shows "printf_loop mem junk b 0 args = Some (cstr b)"
proof -
  obtain s r where b: "b = s @ 0 # r" "0 \<notin> set s" by (rule terminated_split [OF assms(1)])
  then show ?thesis using printf_plain [of s mem junk "[]" r args] assms(2) by (simp add: cstr_append_NUL)
qed

lemma printf_pieces:
  assumes "\<forall>p \<in> set ps. piece_ok mem p \<and> plain_piece mem p"
  shows "\<exists>ts. printf_loop mem junk (pre @ format_of ps @ 0 # r) (length pre) (args_of ps @ more) = Some (concat ts)
    \<and> list_all2 (piece_text mem) ps ts"
  using assms
proof (induction ps arbitrary: pre)
  case Nil
  then show ?case by (subst printf_loop.simps) (simp add: format_of_def)
next
  case (Cons p ps)
  let ?f = "pre @ format_of (p # ps) @ 0 # r"
  obtain ts where ts: "printf_loop mem junk ((pre @ piece_format p) @ format_of ps @ 0 # r)
      (length (pre @ piece_format p)) (args_of ps @ more) = Some (concat ts)" "list_all2 (piece_text mem) ps ts"
    using Cons.IH [of "pre @ piece_format p"] Cons.prems by auto
  have "\<exists>t. printf_loop mem junk ?f (length pre) (args_of (p # ps) @ more) = Some (t @ concat ts) \<and> piece_text mem p t"
  proof (cases p)
    case (Lit c)
    then show ?thesis using Cons.prems ts by (subst printf_loop.simps) (simp add: format_Cons nth_append)
  next
    case (Dec v)
    then obtain num where "intstr (sint (ucast v :: dword)) (replicate 32 0) = Some num"
      "print num = Some (dec_chars (sint (ucast v :: dword)))"
      using dec_text [of v 32] Cons.prems by auto
    then show ?thesis using Dec ts by (subst printf_loop.simps) (simp add: format_Cons nth_append)
  next
    case (Hex v)
    then obtain num t where "hexstr v (replicate 32 0) = Some num" "print num = Some t" "piece_text mem (Hex v) t"
      using hex_text [of 32 v mem] by auto
    then show ?thesis using Hex ts
      by (subst printf_loop.simps) (simp add: format_Cons nth_append del: piece_text.simps)
  next
    case (Str q)
    then obtain b where b: "mem q = Some b" "terminated b" "PERCENT \<notin> set (cstr b)" using Cons.prems by auto
    then show ?thesis using Str ts printf_cstr [OF b(2,3), of mem junk junk]
      by (subst printf_loop.simps) (simp add: format_Cons nth_append)
  next
    case (Chr v)
    then show ?thesis using ts by (subst printf_loop.simps) (simp add: format_Cons nth_append)
  next
    case (Odd c)
    then show ?thesis using Cons.prems ts by (subst printf_loop.simps) (simp add: format_Cons nth_append)
  qed
  then obtain t where "printf_loop mem junk ?f (length pre) (args_of (p # ps) @ more) = Some (concat (t # ts))"
    "list_all2 (piece_text mem) (p # ps) (t # ts)"
    using ts(2) by auto
  then show ?case by blast
qed

lemma serial_pieces:
  assumes "\<forall>p \<in> set ps. piece_ok mem p"
  shows "\<exists>ts. serial_loop mem (pre @ format_of ps @ 0 # r) (length pre) (args_of ps @ more) = Some (concat ts)
    \<and> list_all2 (piece_text mem) ps ts"
  using assms
proof (induction ps arbitrary: pre)
  case Nil
  then show ?case by (subst serial_loop.simps) (simp add: format_of_def)
next
  case (Cons p ps)
  let ?f = "pre @ format_of (p # ps) @ 0 # r"
  obtain ts where ts: "serial_loop mem ((pre @ piece_format p) @ format_of ps @ 0 # r)
      (length (pre @ piece_format p)) (args_of ps @ more) = Some (concat ts)" "list_all2 (piece_text mem) ps ts"
    using Cons.IH [of "pre @ piece_format p"] Cons.prems by auto
  have "\<exists>t. serial_loop mem ?f (length pre) (args_of (p # ps) @ more) = Some (t @ concat ts) \<and> piece_text mem p t"
  proof (cases p)
    case (Lit c)
    then show ?thesis using Cons.prems ts by (subst serial_loop.simps) (simp add: format_Cons nth_append)
  next
    case (Dec v)
    then obtain num where "intstr (sint (ucast v :: dword)) (replicate 64 0) = Some num"
      "serial_print num = Some (dec_chars (sint (ucast v :: dword)))"
      using dec_text [of v 64] Cons.prems by auto
    then show ?thesis using Dec ts by (subst serial_loop.simps) (simp add: format_Cons nth_append)
  next
    case (Hex v)
    then obtain num t where "hexstr v (replicate 64 0) = Some num" "serial_print num = Some t" "piece_text mem (Hex v) t"
      using hex_text [of 64 v mem] by auto
    then show ?thesis using Hex ts
      by (subst serial_loop.simps) (simp add: format_Cons nth_append del: piece_text.simps)
  next
    case (Str q)
    then obtain b where b: "mem q = Some b" "terminated b" using Cons.prems by auto
    then show ?thesis using Str ts print_cstr(2) [OF b(2)]
      by (subst serial_loop.simps) (simp add: format_Cons nth_append)
  next
    case (Chr v)
    then show ?thesis using ts by (subst serial_loop.simps) (simp add: format_Cons nth_append)
  next
    case (Odd c)
    then show ?thesis using Cons.prems ts by (subst serial_loop.simps) (simp add: format_Cons nth_append)
  qed
  then obtain t where "serial_loop mem ?f (length pre) (args_of (p # ps) @ more) = Some (concat (t # ts))"
    "list_all2 (piece_text mem) (p # ps) (t # ts)"
    using ts(2) by auto
  then show ?case by blast
qed

section \<open>The routines\<close>

text \<open>
  C34: \<open>printf\<close> of a format made of characters, \<open>%i\<close>, \<open>%x\<close>, \<open>%s\<close>, \<open>%c\<close> and percent signs before
  other characters prints the characters as they are, each \<open>%i\<close> as the decimal text of the
  low 32 bits of its argument, each \<open>%x\<close> as a hexadecimal text of its value, each \<open>%s\<close> and
  \<open>%c\<close> as the string or character, in order; it ends and stays inside the format, the
  arguments and its number buffer.  String arguments must not contain a percent sign.
\<close>

theorem printf_impl_correct:
  assumes "\<forall>p \<in> set ps. piece_ok mem p \<and> plain_piece mem p"
  shows "\<exists>ts. printf_impl mem junk (format_of ps @ 0 # r) (args_of ps @ more) = Some (concat ts)
    \<and> list_all2 (piece_text mem) ps ts"
  using printf_pieces [OF assms, of junk "[]" r more] by (simp add: printf_impl_def)

theorem printf_impl_correct_witness:
  "\<exists>ts. printf_impl [0x5000 \<mapsto> [72, 105, 0]] [] (format_of [Lit 61, Dec 0xFFFFFFFF, Str 0x5000] @ [0]) [0xFFFFFFFF, 0x5000]
      = Some (concat ts) \<and> concat ts = [61, 45, 49, 72, 105]"
proof -
  let ?ps = "[Lit 61, Dec 0xFFFFFFFF, Str 0x5000]" and ?mem = "[0x5000 \<mapsto> [72, 105, 0 :: byte]]"
  have "\<forall>p \<in> set ?ps. piece_ok ?mem p \<and> plain_piece ?mem p" by (simp add: terminated_def cstr_def)
  from printf_impl_correct [OF this, of "[]" "[]" "[]"]
  obtain ts where ts: "printf_impl ?mem [] (format_of ?ps @ [0]) [0xFFFFFFFF, 0x5000] = Some (concat ts)"
    "list_all2 (piece_text ?mem) ?ps ts"
    by (auto simp: args_of_def)
  have "dec_chars (- 1) = [45, 49]" by (simp add: dec_chars_def digits_rev_pos)
  then have "concat ts = [61, 45, 49, 72, 105]"
    using ts(2) by (auto simp: list_all2_Cons1 cstr_def)
  with ts(1) show ?thesis by blast
qed

text \<open>
  \<open>serial_printf\<close> meets the same specification, also for string arguments with percent
  signs, which it prints as they are.
\<close>

theorem serial_printf_correct:
  assumes "\<forall>p \<in> set ps. piece_ok mem p"
  shows "\<exists>ts. serial_printf_implementation mem (format_of ps @ 0 # r) (args_of ps @ more) = Some (concat ts)
    \<and> list_all2 (piece_text mem) ps ts"
  using serial_pieces [OF assms, of "[]" r more] by (simp add: serial_printf_implementation_def)

theorem serial_printf_correct_witness:
  "serial_printf_implementation [0x5000 \<mapsto> [37, 105, 0]] (format_of [Lit 61, Str 0x5000] @ [0]) [0x5000]
      = Some [61, 37, 105]"
proof -
  let ?ps = "[Lit 61, Str 0x5000]" and ?mem = "[0x5000 \<mapsto> [37, 105, 0 :: byte]]"
  have "\<forall>p \<in> set ?ps. piece_ok ?mem p" by (simp add: terminated_def)
  from serial_printf_correct [OF this, of "[]" "[]"]
  show ?thesis by (auto simp: args_of_def list_all2_Cons1 cstr_def)
qed

text \<open>
  \<open>printf\<close> takes a \<open>%s\<close> argument for a format: printing a string is calling \<open>printf\<close> on it,
  with whatever the argument registers hold.  A string that contains \<open>%i\<close> prints a number,
  one that contains \<open>%s\<close> follows a pointer that was never passed.
\<close>

theorem printf_string_is_format:
  "printf_impl mem junk (PERCENT # CH_s # 0 # r) (p # args)
     = do { text \<leftarrow> mem p; printf_impl mem junk text junk }"
proof -
  have nul: "printf_loop mem junk (PERCENT # CH_s # 0 # r) (Suc (Suc 0)) args = Some []"
    by (subst printf_loop.simps) simp
  show ?thesis
    unfolding printf_impl_def
    by (subst printf_loop.simps) (simp add: nul split: Option.bind_splits)
qed

text \<open>
  a format that ends in a percent sign makes both routines print the terminating NUL and
  go on behind it: on a buffer that ends there they read outside it.
\<close>

theorem printf_trailing_percent:
  "printf_impl mem junk [PERCENT, 0] args = None \<and> serial_printf_implementation mem [PERCENT, 0] args = None"
proof -
  have "printf_loop mem junk [PERCENT, 0] (Suc (Suc 0)) args = None"
    "serial_loop mem [PERCENT, 0] (Suc (Suc 0)) args = None"
    by (subst printf_loop.simps, simp) (subst serial_loop.simps, simp)
  then show ?thesis
    unfolding printf_impl_def serial_printf_implementation_def
    by (subst printf_loop.simps, subst serial_loop.simps) simp
qed

end
