(* ===== verification/Sink.thy ===== *)
theory Sink
  imports Prelude
begin

text \<open>
  Devices that take one item at a time, a character to print or a key that was typed, and
  the interface under which any sequence of items can be given to them.
\<close>

primrec feed :: "('c \<Rightarrow> 's \<Rightarrow> 's option) \<Rightarrow> 'c list \<Rightarrow> 's \<Rightarrow> 's option" where
  "feed put [] s = Some s"
| "feed put (c # cs) s = do { s' \<leftarrow> put c s; feed put cs s' }"

lemma feed_append: "feed put (xs @ ys) s = do { s' \<leftarrow> feed put xs s; feed put ys s' }"
  by (induction xs arbitrary: s) (auto split: Option.bind_splits)

text \<open>
  \<open>good\<close> is what the device keeps, \<open>accepts\<close> the items it takes in every good state, and
  \<open>view\<close> a part of the state that no item changes.
\<close>

locale sink =
  fixes put :: "'c \<Rightarrow> 's \<Rightarrow> 's option" and good :: "'s \<Rightarrow> bool" and accepts :: "'c \<Rightarrow> bool" and view :: "'s \<Rightarrow> 'v"
  assumes put_ok: "good s \<Longrightarrow> accepts c \<Longrightarrow> \<exists>s'. put c s = Some s' \<and> good s' \<and> view s' = view s"
begin

lemma feed_ok: "good s \<Longrightarrow> \<forall>c \<in> set cs. accepts c \<Longrightarrow> \<exists>s'. feed put cs s = Some s' \<and> good s' \<and> view s' = view s"
proof (induction cs arbitrary: s)
  case (Cons c cs)
  obtain s1 where s1: "put c s = Some s1" "good s1" "view s1 = view s"
    using put_ok [of s c] Cons.prems by auto
  obtain s2 where "feed put cs s1 = Some s2" "good s2" "view s2 = view s1"
    using Cons.IH [OF s1(2)] Cons.prems by auto
  with s1 show ?case by auto
qed simp

lemma feed_keeps: "good s \<Longrightarrow> \<forall>c \<in> set cs. accepts c \<Longrightarrow> feed put cs s = Some s' \<Longrightarrow> good s' \<and> view s' = view s"
  using feed_ok [of s cs] by auto

end

end
