(* ===== verification/Term.thy ===== *)
theory Term
  imports Video_Props Printf_Props Page_Props Sink
begin

text \<open>
  \<open>kernel/term.c\<close> and \<open>kernel/driver/keyboard_driver.c\<close>: the cursor, drawing and
  scrolling, the handling of a key, and the command interpreter.  What \<open>printf\<close> prints is
  drawn on the terminal character by character.  A command that runs another part of the
  kernel returns a request that names the function and its arguments.
\<close>

section \<open>State\<close>

record term_text_cursor =
  tc_x :: dword
  tc_y :: dword
  tc_attr :: byte

record terminal =
  ttext_cursor :: term_text_cursor
  prev_ttext_cursor :: term_text_cursor
  text_color :: dword
  background_color :: dword
  max_char_width :: dword
  max_char_height :: dword
  logs :: buffer
  index_logs :: dword
  screen :: video

definition set_cursor :: "dword \<Rightarrow> dword \<Rightarrow> terminal \<Rightarrow> terminal" where
  "set_cursor x y t = t\<lparr>ttext_cursor := (ttext_cursor t)\<lparr>tc_x := x, tc_y := y\<rparr>\<rparr>"

definition term_init :: "terminal \<Rightarrow> terminal" where
  "term_init t =
     (let c = \<lparr>tc_x = 0, tc_y = 0, tc_attr = 0\<rparr>; (width, height) = video_driver_getsize (screen t)
      in t\<lparr>ttext_cursor := c, prev_ttext_cursor := c, text_color := R8G8B8 0xFF 0xFF 0xFF,
           background_color := R8G8B8 0 0 0, max_char_width := ucast (width div 8),
           max_char_height := ucast (height div 16)\<rparr>)"

section \<open>Drawing\<close>

text \<open>The loop of \<open>term_scrollup\<close>; \<open>line\<close> (\<open>size\<close>) is the number of bytes of a line of text.\<close>

primrec scroll_rows :: "nat \<Rightarrow> nat \<Rightarrow> buffer \<Rightarrow> buffer option" where
  "scroll_rows 0 line fb = Some fb"
| "scroll_rows (Suc i) line fb = do {
     fb' \<leftarrow> scroll_rows i line fb;
     if int_ok (int i + 1) \<and> int_ok (int line * (int i + 1))
     then memcopy fb' (line * i) (line * (i + 1)) line
     else None }"

text \<open>The cursor of the character number \<open>index\<close>; the divisor is 0 on a narrow screen.\<close>

definition cursor_at :: "dword \<Rightarrow> terminal \<Rightarrow> terminal option" where
  "cursor_at index t =
     (if max_char_width t = 0 then None
      else Some (set_cursor (index mod max_char_width t) (index div max_char_width t) t))"

definition term_scrollup :: "terminal \<Rightarrow> terminal option" where
  "term_scrollup t =
     (if tc_y (ttext_cursor t) < max_char_height t then Some t
      else let line = unat (video_width (screen t)) * 16 * 3 in do {
        fb \<leftarrow> scroll_rows (unat (max_char_height t - 1)) line (framebuffer (screen t));
        fb' \<leftarrow> memzero fb (unat (word_of_nat line * (max_char_height t - 1))) line;
        let t' = set_cursor (tc_x (ttext_cursor t)) (max_char_height t - 1) t
          \<lparr>screen := (screen t)\<lparr>framebuffer := fb'\<rparr>\<rparr>;
        cursor_at (tc_x (ttext_cursor t') + tc_y (ttext_cursor t') * max_char_width t') t' })"

text \<open>\<open>index\<close> is an \<open>int\<close>; \<open>index++\<close> overflows at its largest value.\<close>

definition term_newline :: "terminal \<Rightarrow> terminal option" where
  "term_newline t = term_scrollup (set_cursor 0 (tc_y (ttext_cursor t) + 1) t)"

definition term_drawChar :: "byte \<Rightarrow> dword \<Rightarrow> terminal \<Rightarrow> terminal option" where
  "term_drawChar c color t =
     (if c = 0x0A then term_newline t
      else let x = tc_x (ttext_cursor t); y = tc_y (ttext_cursor t); index = x + y * max_char_width t in do {
        v \<leftarrow> video_driver_drawChar c (x * 8) (y * 16) color (screen t);
        t' \<leftarrow> (if int_ok (sint index + 1) then cursor_at (index + 1) (t\<lparr>screen := v\<rparr>) else None);
        term_scrollup t' })"

definition term_putc :: "byte \<Rightarrow> terminal \<Rightarrow> terminal option" where
  "term_putc c t = term_drawChar c (text_color t) t"

abbreviation term_puts :: "byte list \<Rightarrow> terminal \<Rightarrow> terminal option" where
  "term_puts \<equiv> feed term_putc"

definition term_printf :: "strings \<Rightarrow> qword list \<Rightarrow> buffer \<Rightarrow> qword list \<Rightarrow> terminal \<Rightarrow> terminal option" where
  "term_printf mem junk format args t = do { out \<leftarrow> printf_impl mem junk format args; term_puts out t }"

section \<open>Commands\<close>

text \<open>A string literal of the source.\<close>

definition lit :: "string \<Rightarrow> buffer" where
  "lit s = map of_char s @ [0]"

definition MAX_ARGS :: nat where "MAX_ARGS = 64"

text \<open>
  The loop that splits the command: \<open>args\<close> holds the offsets in \<open>cmd\<close> that have been
  stored in the array of \<open>MAX_ARGS\<close> pointers so far.
\<close>

function split_args :: "buffer \<Rightarrow> nat \<Rightarrow> nat \<Rightarrow> nat \<Rightarrow> nat list \<Rightarrow> (buffer \<times> nat list) option" where
  "split_args cmd index len start_addr args =
     (if index \<le> len
      then do {
        c \<leftarrow> buf_get cmd index;
        if c = 32 \<or> c = 0
        then if length args < MAX_ARGS
             then do {
               cmd' \<leftarrow> buf_set cmd index 0;
               split_args cmd' (index + 1) len (index + 1) (args @ [start_addr]) }
             else None
        else split_args cmd (index + 1) len start_addr args }
      else Some (cmd, args))"
  by pat_completeness auto
termination by (relation "measure (\<lambda>(cmd, index, len, start_addr, args). Suc len - index)") auto

declare split_args.simps [simp del]

datatype term_request =
    Req_none
  | Req_task_print
  | Req_elf64_load buffer
  | Req_task_create_elf64_load buffer

definition help_text :: string where
  "help_text = ''Tools/Command HaOS:'' @ [CHR 0x0A] @ ''HELP -  displaying tools/command'' @ [CHR 0x0A]
     @ ''CLEAR - clear text/screen of terminal'' @ [CHR 0x0A]
     @ ''EXEC <filename> - execute ELF file target'' @ [CHR 0x0A]
     @ ''SETTEXTCOLOR <r8> <g8> <b8> - change text color'' @ [CHR 0x0A]
     @ ''MEMSIZE -[K]B - show the size of memory use'' @ [CHR 0x0A]
     @ ''LTASK - show the list of task process'' @ [CHR 0x0A]"

text \<open>
  The branches on the first argument.  \<open>arg i\<close> is the string the pointer \<open>args[i]\<close> points
  to; the \<open>byte\<close> casts keep the low 8 bits of \<open>strint\<close>.
\<close>

definition run_command ::
  "pstate \<Rightarrow> qword list \<Rightarrow> (nat \<Rightarrow> buffer) \<Rightarrow> nat \<Rightarrow> terminal \<Rightarrow> (terminal \<times> term_request) option" where
  "run_command pg junk arg argc t = do {
     help \<leftarrow> strcmp (arg 0) (lit ''HELP'');
     ltask \<leftarrow> strcmp (arg 0) (lit ''LTASK'');
     clear \<leftarrow> strcmp (arg 0) (lit ''CLEAR'');
     exec \<leftarrow> strcmp (arg 0) (lit ''EXEC'');
     task \<leftarrow> strcmp (arg 0) (lit ''TASK'');
     color \<leftarrow> strcmp (arg 0) (lit ''SETTEXTCOLOR'');
     memsize \<leftarrow> strcmp (lit ''MEMSIZE'') (arg 0);
     let pr = (\<lambda>s args. do { t' \<leftarrow> term_printf (\<lambda>p. Some (arg 0)) junk (lit s) args t; Some (t', Req_none) });
     if help = 0 then pr help_text []
     else if ltask = 0 then Some (t, Req_task_print)
     else if clear = 0
     then do {
       v \<leftarrow> video_driver_clearScreen (R8G8B8 0 0 0) (screen t);
       Some (set_cursor 0 0 t\<lparr>screen := v\<rparr>, Req_none) }
     else if exec = 0
     then if argc \<noteq> 2 then pr ''EXEC <filename>'' [] else Some (t, Req_elf64_load (arg 1))
     else if task = 0
     then if argc = 1 then pr ''Wrong Parameters: TASK <filename>'' []
          else Some (t, Req_task_create_elf64_load (arg 1))
     else if color = 0
     then if argc \<noteq> 4 then pr (''Text Color should be have r, g, and b value'' @ [CHR 0x0A]) []
          else do {
            r \<leftarrow> strint (arg 1);
            g \<leftarrow> strint (arg 2);
            b \<leftarrow> strint (arg 3);
            Some (t\<lparr>text_color := R8G8B8 (ucast (word_of_int r :: byte)) (ucast (word_of_int g :: byte))
                                        (ucast (word_of_int b :: byte))\<rparr>, Req_none) }
     else if memsize = 0
     then do {
       kb \<leftarrow> (if argc > 1 then strcmp (arg 1) (lit ''-KB'') else Some 1);
       if argc > 1 \<and> kb = 0
       then pr (''Memory Size Use: %i kb '' @ [CHR 0x0A]) [page_getSizeMemoryUse pg div 1024]
       else pr (''Memory Size Use: %i bytes '' @ [CHR 0x0A]) [page_getSizeMemoryUse pg] }
     else pr (''%s: is not an COMMAND'' @ [CHR 0x0A]) [0] }"

definition term_exec ::
  "pstate \<Rightarrow> qword list \<Rightarrow> buffer \<Rightarrow> terminal \<Rightarrow> (buffer \<times> terminal \<times> term_request) option" where
  "term_exec pg junk cmd t = do {
     len \<leftarrow> strsize cmd;
     (cmd', args) \<leftarrow> split_args cmd 0 len 0 [];
     (t', req) \<leftarrow> (if length args > 0
                    then run_command pg junk (\<lambda>i. drop (args ! i) cmd') (length args) t
                    else Some (t, Req_none));
     Some (cmd', t', req) }"

section \<open>Keys\<close>

text \<open>\<open>logs\<close> is the memory \<open>new_alloc\<close> returned; it is not cleared.\<close>

definition term_run_start :: "buffer \<Rightarrow> terminal \<Rightarrow> terminal option" where
  "term_run_start mem t =
     (let t' = t\<lparr>logs := mem, index_logs := 0\<rparr> in term_drawChar 62 (text_color t') t')"

definition key_backspace :: "terminal \<Rightarrow> terminal option" where
  "key_backspace t =
     (if index_logs t = 0 then Some t
      else let i = unat (index_logs t - 1) in do {
        c \<leftarrow> buf_get (logs t) i;
        l \<leftarrow> buf_set (logs t) i 0;
        let t1 = t\<lparr>logs := l, index_logs := index_logs t - 1\<rparr>;
        let index = tc_x (ttext_cursor t1) + tc_y (ttext_cursor t1) * max_char_width t1;
        t2 \<leftarrow> (if int_ok (sint index - 1) then cursor_at (index - 1) t1 else None);
        v \<leftarrow> video_driver_drawChar c (tc_x (ttext_cursor t2) * 8) (tc_y (ttext_cursor t2) * 16) (R8G8B8 0 0 0) (screen t2);
        Some (t2\<lparr>screen := v\<rparr>) })"

definition key_enter :: "pstate \<Rightarrow> qword list \<Rightarrow> terminal \<Rightarrow> (terminal \<times> term_request) option" where
  "key_enter pg junk t = do {
     t1 \<leftarrow> term_newline t;
     (l, t2, req) \<leftarrow> term_exec pg junk (logs t1) t1;
     l' \<leftarrow> buf_set l 0 0;
     let t3 = t2\<lparr>logs := l', index_logs := 0\<rparr>;
     t4 \<leftarrow> term_drawChar 62 (text_color t3) t3;
     Some (t4, req) }"

definition key_char :: "byte \<Rightarrow> terminal \<Rightarrow> terminal option" where
  "key_char key t =
     (if 0x20 \<le> sint key \<and> sint key < 127
      then do {
        l1 \<leftarrow> buf_set (logs t) (unat (index_logs t)) key;
        l2 \<leftarrow> buf_set l1 (unat (index_logs t + 1)) 0;
        let t' = t\<lparr>logs := l2, index_logs := index_logs t + 1\<rparr>;
        term_drawChar key (text_color t') t' }
      else Some t)"

text \<open>One pass of the loop of \<open>term_run\<close>.\<close>

definition term_key :: "pstate \<Rightarrow> qword list \<Rightarrow> byte \<Rightarrow> terminal \<Rightarrow> (terminal \<times> term_request) option" where
  "term_key pg junk key t =
     (if key = 0 then Some (t, Req_none)
      else if key = 0x08 then do { t' \<leftarrow> key_backspace t; Some (t', Req_none) }
      else if key = 0x0A then key_enter pg junk t
      else do { t' \<leftarrow> key_char key t; Some (t', Req_none) })"

section \<open>The keyboard\<close>

definition PS2_STATUS_OUTBUFBIT :: byte where "PS2_STATUS_OUTBUFBIT = 1"

text \<open>The table ends with the NUL of the literal; bit 7 of the scancode marks a release.\<close>

definition scancode_set_1 :: buffer where
  "scancode_set_1 = [0, 0x0A] @ map of_char ''1234567890-='' @ [8, 9] @ map of_char ''QWERTYUIOP[]''
     @ [0x0A, 0] @ map of_char (''ASDFGHJKL;'' @ [CHR 0x27] @ ''`'') @ [0, 0x5C] @ map of_char ''ZXCVBNM,./''
     @ [0, 42, 0, 32, 0, 0]"

definition keyboard_getchar :: "byte \<Rightarrow> byte option" where
  "keyboard_getchar scancode =
     (if scancode AND 0x80 \<noteq> 0 then Some 0 else buf_get scancode_set_1 (unat (scancode AND 0x7F)))"

definition keyboard_is_output_serve :: "byte \<Rightarrow> byte" where
  "keyboard_is_output_serve status = status AND PS2_STATUS_OUTBUFBIT"


text \<open>
  The table ends at the scancode of the space bar: the make code of every key from 60 on
  (the caps lock and function keys among them) is read behind its end; no other code is.
\<close>

theorem keyboard_getchar_bounds:
  "keyboard_getchar sc = None \<longleftrightarrow> 60 \<le> unat sc \<and> unat sc < 128"
proof -
  have len: "length scancode_set_1 = 60" by (simp add: scancode_set_1_def)
  have m: "(0x7F :: byte) = mask 7" by (simp add: mask_eq_exp_minus_1)
  have lt: "unat sc < 256" using unsigned_less [of sc, where ?'a = nat] by simp
  have "sc AND 0x80 \<noteq> 0 \<longleftrightarrow> bit sc 7" using and_exp_eq_0_iff_not_bit [of sc 7] by simp
  also have "\<dots> \<longleftrightarrow> odd (unat sc div 128)"
    using bit_unsigned_iff [where ?'a = nat, of sc 7] by (simp add: bit_iff_odd)
  also have "\<dots> \<longleftrightarrow> 128 \<le> unat sc"
  proof (cases "128 \<le> unat sc")
    case True
    then have "unat sc div 128 = 1" using lt by (intro div_nat_eqI) simp_all
    then show ?thesis using True by simp
  qed simp
  finally have b: "sc AND 0x80 \<noteq> 0 \<longleftrightarrow> 128 \<le> unat sc" .
  have "unat (sc AND 0x7F) = unat sc mod 128" unfolding m by (simp add: unat_mod unsigned_take_bit_eq take_bit_eq_mod flip: take_bit_eq_mask)
  then show ?thesis using b len by (auto simp: keyboard_getchar_def buf_get_def)
qed

end
