(* ===== verification/Term_Props.thy ===== *)
theory Term_Props
  imports Term
begin

text \<open>
  The terminal: every text is drawn inside the screen with the cursor on a character cell,
  what scrolling does to the pixels, and the line the keys edit.
\<close>

section \<open>The grid of characters\<close>

definition cursor_index :: "terminal \<Rightarrow> nat" where
  "cursor_index t = unat (tc_x (ttext_cursor t)) + unat (tc_y (ttext_cursor t)) * unat (max_char_width t)"

text \<open>The sizes are those of \<open>term_init\<close>, and there is at least one cell.\<close>

definition grid_ok :: "terminal \<Rightarrow> bool" where
  "grid_ok t \<longleftrightarrow> video_ok (screen t) \<and> font_ok (screen t)
     \<and> max_char_width t = ucast (video_width (screen t) div 8) \<and> 0 < max_char_width t
     \<and> max_char_height t = ucast (video_height (screen t) div 16) \<and> 0 < max_char_height t"

definition term_ok :: "terminal \<Rightarrow> bool" where
  "term_ok t \<longleftrightarrow> grid_ok t \<and> tc_x (ttext_cursor t) < max_char_width t \<and> tc_y (ttext_cursor t) < max_char_height t"

lemma unat_ucast16: "unat (ucast (x :: word16) :: dword) = unat x"
  by (simp add: unsigned_ucast_eq take_bit_nat_eq_self_iff order.strict_trans [OF unsigned_less])

lemma grid_sizes:
  assumes "grid_ok t"
  shows "unat (max_char_width t) * 8 \<le> unat (video_width (screen t))"
    and "unat (max_char_height t) * 16 \<le> unat (video_height (screen t))"
    and "unat (max_char_width t) < 2 ^ 13" and "unat (max_char_height t) < 2 ^ 12"
    and "0 < unat (max_char_width t)" and "0 < unat (max_char_height t)"
proof -
  have w: "unat (max_char_width t) = unat (video_width (screen t)) div 8"
    and h: "unat (max_char_height t) = unat (video_height (screen t)) div 16"
    using assms by (simp_all add: grid_ok_def unat_ucast16 unat_div)
  have "unat (video_width (screen t)) < 2 ^ 16" "unat (video_height (screen t)) < 2 ^ 16"
    using unsigned_less [of "video_width (screen t)", where ?'a = nat]
      unsigned_less [of "video_height (screen t)", where ?'a = nat] by simp_all
  then show "unat (max_char_width t) * 8 \<le> unat (video_width (screen t))"
    "unat (max_char_height t) * 16 \<le> unat (video_height (screen t))"
    "unat (max_char_width t) < 2 ^ 13" "unat (max_char_height t) < 2 ^ 12"
    by (simp_all add: w h)
  show "0 < unat (max_char_width t)" "0 < unat (max_char_height t)"
    using assms unfolding grid_ok_def by (metis unat_0 word_less_nat_alt)+
qed

text \<open>The arithmetic of the cursor on the \<open>dword\<close>s does not wrap around.\<close>

lemma unat_index:
  fixes x y w :: dword
  assumes "unat x < 2 ^ 13" and "unat y < 2 ^ 13" and "unat w < 2 ^ 13"
  shows "unat (x + y * w) = unat x + unat y * unat w" and "unat x + unat y * unat w < 2 ^ 27"
proof -
  have "unat y * unat w \<le> 2 ^ 13 * 2 ^ 13" using assms by (intro mult_le_mono) simp_all
  then show b: "unat x + unat y * unat w < 2 ^ 27" using assms(1) by simp
  then show "unat (x + y * w) = unat x + unat y * unat w"
    by (simp add: unat_word_ariths)
qed

lemma index_cell:
  fixes x y w :: nat
  assumes "x < w"
  shows "(x + y * w) mod w = x" and "(x + y * w) div w = y"
  using assms by simp_all

lemma cursor_at_ok:
  fixes n :: dword
  assumes "0 < max_char_width t"
  shows "\<exists>x y. cursor_at n t = Some (set_cursor x y t) \<and> x < max_char_width t
    \<and> unat x + unat y * unat (max_char_width t) = unat n \<and> unat y = unat n div unat (max_char_width t)"
proof -
  let ?w = "max_char_width t"
  have w: "?w \<noteq> 0" "0 < unat ?w" using assms by (auto simp: word_less_nat_alt)
  have "unat (n mod ?w) + unat (n div ?w) * unat ?w = unat n" "unat (n div ?w) = unat n div unat ?w"
    by (simp_all add: unat_mod unat_div add.commute)
  moreover have "n mod ?w < ?w" using w by (simp add: word_less_nat_alt unat_mod)
  ultimately show ?thesis
    using w(1) by (intro exI [of _ "n mod ?w"] exI [of _ "n div ?w"]) (simp add: cursor_at_def)
qed

section \<open>Scrolling\<close>

lemma scroll_rows_ok:
  assumes "Suc n * line \<le> length fb" and "Suc n * line < 2 ^ 31" and "n < 2 ^ 31 - 1"
  shows "\<exists>fb'. scroll_rows n line fb = Some fb' \<and> length fb' = length fb
    \<and> (\<forall>k < length fb. fb' ! k = (if k < n * line then fb ! (k + line) else fb ! k))"
  using assms
proof (induction n)
  case (Suc n)
  have "Suc n * line \<le> Suc (Suc n) * line" by simp
  then obtain f1 where f1: "scroll_rows n line fb = Some f1" "length f1 = length fb"
    "\<forall>k < length fb. f1 ! k = (if k < n * line then fb ! (k + line) else fb ! k)"
    using Suc.IH Suc.prems by auto
  have l32: "line < 2 ^ 32" using Suc.prems(2) by (cases "line") auto
  have dest: "line * n + line \<le> length f1" and src: "line * (n + 1) + line \<le> length f1"
    using Suc.prems(1) by (simp_all add: f1(2) algebra_simps)
  obtain f2 where f2: "memcopy f1 (line * n) (line * (n + 1)) line = Some f2" "length f2 = length f1"
    "\<forall>k < length f1. f2 ! k = (if line * n \<le> k \<and> k < line * n + line then f1 ! (line * (n + 1) + (k - line * n)) else f1 ! k)"
    using memcopy_nth [OF l32 dest src] by auto
  have "line * Suc n < 2 ^ 31" using Suc.prems(2) by (simp add: algebra_simps)
  then have "int (line * Suc n) < int (2 ^ 31)" by (simp only: of_nat_less_iff)
  then have ok: "int_ok (int n + 1)" "int_ok (int line * (int n + 1))"
    using Suc.prems(3) by (auto simp: algebra_simps intro!: int_okI)
  have "f2 ! k = (if k < Suc n * line then fb ! (k + line) else fb ! k)" if k: "k < length fb" for k
  proof (cases "line * n \<le> k \<and> k < line * n + line")
    case True
    then have i: "line * (n + 1) + (k - line * n) = k + line" by (simp add: algebra_simps)
    have "k + line < length fb" using True Suc.prems(1) by (simp add: algebra_simps)
    moreover have "\<not> k + line < n * line" using True by (simp add: algebra_simps)
    ultimately show ?thesis using f1(2,3) f2(3) True k i by (simp add: algebra_simps)
  next
    case False
    then show ?thesis using f1(2,3) f2(3) k by (auto simp: algebra_simps)
  qed
  then show ?case using f1(1,2) f2(1,2) ok by (auto simp: algebra_simps)
qed auto


text \<open>\<open>t'\<close> has other pixels and perhaps another cursor.\<close>

definition same_term :: "terminal \<Rightarrow> terminal \<Rightarrow> bool" where
  "same_term t t' \<longleftrightarrow> same_screen (screen t) (screen t')
     \<and> (\<exists>c v. t' = t\<lparr>ttext_cursor := c, screen := v\<rparr>)"

lemma same_term_refl [simp]: "same_term t t"
  unfolding same_term_def by (auto intro!: exI [of _ "ttext_cursor t"] exI [of _ "screen t"])

lemma same_term_trans: "same_term t u \<Longrightarrow> same_term u v \<Longrightarrow> same_term t v"
  by (clarsimp simp: same_term_def) (intro conjI exI, erule (1) same_screen_trans, rule refl)

lemma same_termD:
  assumes "same_term t t'"
  shows "same_screen (screen t) (screen t')" "max_char_width t' = max_char_width t"
    "max_char_height t' = max_char_height t" "logs t' = logs t" "index_logs t' = index_logs t"
    "text_color t' = text_color t" "background_color t' = background_color t"
    "grid_ok t' \<longleftrightarrow> grid_ok t"
proof -
  show s: "same_screen (screen t) (screen t')" using assms by (simp add: same_term_def)
  show "max_char_width t' = max_char_width t" "max_char_height t' = max_char_height t" "logs t' = logs t"
    "index_logs t' = index_logs t" "text_color t' = text_color t" "background_color t' = background_color t"
    using assms by (auto simp: same_term_def)
  then show "grid_ok t' \<longleftrightarrow> grid_ok t"
    using same_screenD [OF s] by (simp add: grid_ok_def font_ok_def)
qed

lemma same_term_set_cursor [simp]: "same_term t (set_cursor x y t)"
  by (auto simp: same_term_def set_cursor_def intro!: exI [of _ "screen t"])

lemma set_cursor_simps [simp]:
  "tc_x (ttext_cursor (set_cursor x y t)) = x" "tc_y (ttext_cursor (set_cursor x y t)) = y"
  "screen (set_cursor x y t) = screen t" "max_char_width (set_cursor x y t) = max_char_width t"
  "max_char_height (set_cursor x y t) = max_char_height t" "logs (set_cursor x y t) = logs t"
  "index_logs (set_cursor x y t) = index_logs t" "text_color (set_cursor x y t) = text_color t"
  "grid_ok (set_cursor x y t) \<longleftrightarrow> grid_ok t"
  by (simp_all add: set_cursor_def grid_ok_def)

text \<open>The bytes of the framebuffer a line of text is taken to have.\<close>

definition line_bytes :: "terminal \<Rightarrow> nat" where
  "line_bytes t = unat (video_width (screen t)) * 16 * 3"

lemma line_bytes_bound:
  assumes "grid_ok t"
  shows "unat (max_char_height t) * line_bytes t \<le> length (framebuffer (screen t))"
    and "unat (max_char_height t) * line_bytes t < 2 ^ 31"
proof -
  let ?w = "unat (video_width (screen t))" and ?h = "unat (video_height (screen t))"
    and ?b = "unat (video_bpp (screen t))"
  have "unat (max_char_height t) * line_bytes t = ?w * (unat (max_char_height t) * 16) * 3"
    by (simp add: line_bytes_def)
  also have "\<dots> \<le> ?w * ?h * ?b"
    using grid_sizes(2) [OF assms] assms by (intro mult_le_mono) (simp_all add: grid_ok_def video_ok_def)
  finally show "unat (max_char_height t) * line_bytes t \<le> length (framebuffer (screen t))"
    "unat (max_char_height t) * line_bytes t < 2 ^ 31"
    using assms by (simp_all add: grid_ok_def video_ok_def)
qed

lemma term_scrollup_ok:
  assumes ok: "grid_ok t" and x: "tc_x (ttext_cursor t) < max_char_width t" and y: "\<not> tc_y (ttext_cursor t) < max_char_height t"
  shows "\<exists>fb. term_scrollup t = Some (set_cursor (tc_x (ttext_cursor t)) (max_char_height t - 1) t
        \<lparr>screen := (screen t)\<lparr>framebuffer := fb\<rparr>\<rparr>)
    \<and> length fb = length (framebuffer (screen t))
    \<and> (\<forall>k < length fb. fb ! k =
         (if k < (unat (max_char_height t) - 1) * line_bytes t then framebuffer (screen t) ! (k + line_bytes t)
          else if k < unat (max_char_height t) * line_bytes t then 0 else framebuffer (screen t) ! k))"
proof -
  let ?h = "unat (max_char_height t)" and ?l = "line_bytes t" and ?fb = "framebuffer (screen t)"
  note sz = grid_sizes [OF ok] and bnd = line_bytes_bound [OF ok]
  have h1: "unat (max_char_height t - 1) = ?h - 1" using sz(6) by (simp add: unat_sub word_le_nat_alt)
  have suc: "Suc (?h - 1) = ?h" using sz(6) by simp
  obtain f1 where f1: "scroll_rows (?h - 1) ?l ?fb = Some f1" "length f1 = length ?fb"
    "\<forall>k < length ?fb. f1 ! k = (if k < (?h - 1) * ?l then ?fb ! (k + ?l) else ?fb ! k)"
    using scroll_rows_ok [of "?h - 1" ?l ?fb] bnd suc sz(4) by auto
  have last: "(?h - 1) * ?l + ?l = ?h * ?l" using suc by (metis add.commute mult_Suc)
  let ?f2 = "take ((?h - 1) * ?l) f1 @ replicate ?l 0 @ drop (?h * ?l) f1"
  have f2: "memzero f1 ((?h - 1) * ?l) ?l = Some ?f2"
    using memzero_correct [of "(?h - 1) * ?l" ?l f1] last bnd(1) f1(2) by simp
  have l32: "unat (word_of_nat ?l :: dword) = ?l" and "unat (word_of_nat ?l * (max_char_height t - 1)) = (?h - 1) * ?l"
  proof -
    have b: "?l < 2 ^ 31" "(?h - 1) * ?l < 2 ^ 31" using last bnd(2) sz(6) by (auto simp: mult_eq_if split: if_splits)
    then show l: "unat (word_of_nat ?l :: dword) = ?l" by (simp add: unsigned_of_nat take_bit_nat_eq_self)
    show "unat (word_of_nat ?l * (max_char_height t - 1)) = (?h - 1) * ?l"
      using b by (simp only: unat_word_ariths l h1) (simp add: mult.commute)
  qed
  moreover have "cursor_at (tc_x (ttext_cursor t) + (max_char_height t - 1) * max_char_width t) t'
      = Some (set_cursor (tc_x (ttext_cursor t)) (max_char_height t - 1) t')"
    if "max_char_width t' = max_char_width t" for t'
  proof -
    have u: "unat (tc_x (ttext_cursor t) + (max_char_height t - 1) * max_char_width t)
        = unat (tc_x (ttext_cursor t)) + (?h - 1) * unat (max_char_width t)"
      using x sz(3,4) by (subst unat_index) (simp_all add: word_less_nat_alt h1)
    have "(tc_x (ttext_cursor t) + (max_char_height t - 1) * max_char_width t) mod max_char_width t = tc_x (ttext_cursor t)"
      "(tc_x (ttext_cursor t) + (max_char_height t - 1) * max_char_width t) div max_char_width t = max_char_height t - 1"
      using x by (simp_all add: word_eq_iff_unsigned [where ?'a = nat] unat_mod unat_div u word_less_nat_alt h1)
    then show ?thesis using that ok by (auto simp: cursor_at_def grid_ok_def)
  qed
  ultimately have "term_scrollup t = Some (set_cursor (tc_x (ttext_cursor t)) (max_char_height t - 1) t
        \<lparr>screen := (screen t)\<lparr>framebuffer := ?f2\<rparr>\<rparr>)"
    using y f1(1) f2 by (simp add: term_scrollup_def Let_def h1 flip: line_bytes_def) (simp add: set_cursor_def)
  moreover have "length ?f2 = length ?fb" using last bnd(1) f1(2) by simp
  moreover have "?f2 ! k = (if k < (?h - 1) * ?l then ?fb ! (k + ?l) else if k < ?h * ?l then 0 else ?fb ! k)"
    if "k < length ?fb" for k
    using last bnd(1) f1(2,3) that by (auto simp: nth_append)
  ultimately show ?thesis by metis
qed


lemma term_scrollup_keeps:
  assumes ok: "grid_ok t" and x: "tc_x (ttext_cursor t) < max_char_width t"
  shows "\<exists>t'. term_scrollup t = Some t' \<and> term_ok t' \<and> same_term t t'
    \<and> (if tc_y (ttext_cursor t) < max_char_height t then t' = t
       else tc_x (ttext_cursor t') = tc_x (ttext_cursor t) \<and> tc_y (ttext_cursor t') = max_char_height t - 1)"
proof (cases "tc_y (ttext_cursor t) < max_char_height t")
  case True
  then show ?thesis using assms by (simp add: term_scrollup_def term_ok_def)
next
  case False
  obtain fb where fb: "term_scrollup t = Some (set_cursor (tc_x (ttext_cursor t)) (max_char_height t - 1) t
        \<lparr>screen := (screen t)\<lparr>framebuffer := fb\<rparr>\<rparr>)" "length fb = length (framebuffer (screen t))"
    using term_scrollup_ok [OF ok x False] by auto
  let ?t = "set_cursor (tc_x (ttext_cursor t)) (max_char_height t - 1) t\<lparr>screen := (screen t)\<lparr>framebuffer := fb\<rparr>\<rparr>"
  have same: "same_term t ?t"
    using fb(2) by (auto simp: same_term_def same_screen_def set_cursor_def)
  have "max_char_height t - 1 < max_char_height t"
    using grid_sizes(6) [OF ok] by (simp add: word_less_nat_alt unat_sub word_le_nat_alt)
  then have "term_ok ?t"
    using x same_termD(8) [OF same] ok same_termD(2,3) [OF same] by (simp add: term_ok_def)
  with same show ?thesis using fb(1) False by (intro exI [of _ ?t]) simp
qed

section \<open>Characters\<close>

lemma cell_on_screen:
  assumes "term_ok t"
  shows "unat (tc_x (ttext_cursor t)) * 8 + 8 \<le> unat (video_width (screen t))"
    and "unat (tc_y (ttext_cursor t)) * 16 + 16 \<le> unat (video_height (screen t))"
proof -
  have "unat (tc_x (ttext_cursor t)) < unat (max_char_width t)" "unat (tc_y (ttext_cursor t)) < unat (max_char_height t)"
    using assms by (simp_all add: term_ok_def word_less_nat_alt)
  then show "unat (tc_x (ttext_cursor t)) * 8 + 8 \<le> unat (video_width (screen t))"
    "unat (tc_y (ttext_cursor t)) * 16 + 16 \<le> unat (video_height (screen t))"
    using grid_sizes(1,2) [of t] assms by (simp_all add: term_ok_def)
qed

text \<open>A character in the cell of the cursor.\<close>

definition drawn_at :: "byte \<Rightarrow> dword \<Rightarrow> terminal \<Rightarrow> video \<Rightarrow> bool" where
  "drawn_at k color t v \<longleftrightarrow> same_screen (screen t) v \<and> (\<forall>px py. on_screen (screen t) px py \<longrightarrow>
     pixel v px py =
       (if py div 16 = unat (tc_y (ttext_cursor t)) \<and> px div 8 = unat (tc_x (ttext_cursor t))
           \<and> bit (glyph (screen t) k (py mod 16)) (7 - px mod 8)
        then color_bytes color else pixel (screen t) px py))"

lemma in_cell:
  fixes n d b :: nat
  assumes "0 < d"
  shows "b * d \<le> n \<and> n < b * d + d \<longleftrightarrow> n div d = b"
proof
  assume "b * d \<le> n \<and> n < b * d + d"
  then show "n div d = b" by (intro div_nat_eqI) (simp_all add: mult.commute)
next
  assume "n div d = b"
  then show "b * d \<le> n \<and> n < b * d + d"
    using assms dividend_less_div_times [of d n] div_times_less_eq_dividend [of n d] by simp
qed

lemma cell_offset: "n - n div d * d = n mod (d :: nat)"
  by (simp add: minus_div_mult_eq_mod)

lemma cell_cond:
  fixes x y px py :: nat
  shows "y * 16 \<le> py \<and> py < y * 16 + 16 \<and> x * 8 \<le> px \<and> px < x * 8 + 8 \<and> bit (g (py - y * 16) :: byte) (7 - (px - x * 8))
   \<longleftrightarrow> py div 16 = y \<and> px div 8 = x \<and> bit (g (py mod 16)) (7 - px mod 8)"
proof (cases "py div 16 = y \<and> px div 8 = x")
  case True
  then have "py - y * 16 = py mod 16" "px - x * 8 = px mod 8" by (auto simp: cell_offset)
  then show ?thesis using True in_cell [of 16 y py] in_cell [of 8 x px] by simp
next
  case False
  then show ?thesis using in_cell [of 16 y py] in_cell [of 8 x px] by auto
qed

lemma draw_cell:
  assumes ok: "term_ok t" and k: "k < 128"
  shows "\<exists>v. video_driver_drawChar k (tc_x (ttext_cursor t) * 8) (tc_y (ttext_cursor t) * 16) color (screen t) = Some v
    \<and> drawn_at k color t v"
proof -
  let ?x = "unat (tc_x (ttext_cursor t))" and ?y = "unat (tc_y (ttext_cursor t))"
  have xy: "tc_x (ttext_cursor t) * 8 = word_of_nat (?x * 8)" "tc_y (ttext_cursor t) * 16 = word_of_nat (?y * 16)"
    by simp_all
  obtain v where v: "video_driver_drawChar k (word_of_nat (?x * 8)) (word_of_nat (?y * 16)) color (screen t) = Some v"
    "same_screen (screen t) v"
    "\<forall>px py. on_screen (screen t) px py \<longrightarrow> pixel v px py =
      (if ?y * 16 \<le> py \<and> py < ?y * 16 + 16 \<and> ?x * 8 \<le> px \<and> px < ?x * 8 + 8
          \<and> bit (glyph (screen t) k (py - ?y * 16)) (7 - (px - ?x * 8))
       then color_bytes color else pixel (screen t) px py)"
    using drawChar_ok [OF _ _ k cell_on_screen [OF ok], where c = color] ok by (auto simp: term_ok_def grid_ok_def)
  have "drawn_at k color t v"
    unfolding drawn_at_def using v(2,3) unfolding cell_cond by blast
  with v(1) show ?thesis unfolding xy by blast
qed


text \<open>The number of cells, and the number of the cell the cursor goes to when it has reached cell \<open>n\<close>.\<close>

definition cells :: "terminal \<Rightarrow> nat" where
  "cells t = unat (max_char_width t) * unat (max_char_height t)"

definition wrap_cell :: "terminal \<Rightarrow> nat \<Rightarrow> nat" where
  "wrap_cell t n = (if n < cells t then n else n - unat (max_char_width t))"

lemma last_line: "(unat (max_char_height t) - 1) * unat (max_char_width t) = cells t - unat (max_char_width t)"
  unfolding cells_def diff_mult_distrib by (simp only: nat_mult_1 mult.commute)

lemma index_in_grid:
  assumes "term_ok t"
  shows "cursor_index t < cells t" and "cursor_index t + 1 < 2 ^ 27"
    and "unat (tc_x (ttext_cursor t) + tc_y (ttext_cursor t) * max_char_width t) = cursor_index t"
proof -
  let ?x = "unat (tc_x (ttext_cursor t))" and ?y = "unat (tc_y (ttext_cursor t))" and ?w = "unat (max_char_width t)"
  have b: "?x < ?w" "?y < unat (max_char_height t)" using assms by (simp_all add: term_ok_def word_less_nat_alt)
  note sz = grid_sizes [of t]
  have "?x + ?y * ?w < Suc ?y * ?w" using b by simp
  also have "\<dots> \<le> unat (max_char_height t) * ?w" using b by (intro mult_le_mono1) simp
  finally show c: "cursor_index t < cells t" by (simp add: cursor_index_def cells_def mult.commute)
  have "cells t \<le> 2 ^ 13 * 2 ^ 12"
    unfolding cells_def using sz assms by (intro mult_le_mono) (simp_all add: term_ok_def less_imp_le)
  with c show "cursor_index t + 1 < 2 ^ 27" by simp
  show "unat (tc_x (ttext_cursor t) + tc_y (ttext_cursor t) * max_char_width t) = cursor_index t"
    using b sz assms unat_index(1) by (simp add: cursor_index_def term_ok_def)
qed

lemma int_of_dword: "unat (d :: dword) < 2 ^ 31 \<Longrightarrow> sint d = int (unat d)"
  using sint_coordinate [of "unat d"] by simp

lemma same_term_screen: "same_screen (screen t) v \<Longrightarrow> same_term t (t\<lparr>screen := v\<rparr>)"
  by (auto simp: same_term_def intro!: exI [of _ "ttext_cursor t"])

text \<open>A cursor that has gone to cell \<open>n\<close> is on the grid after scrolling.\<close>

lemma goto_cell:
  assumes ok: "grid_ok t" and n: "unat n \<le> cells t"
  shows "\<exists>t1 t2. cursor_at n t = Some t1 \<and> term_scrollup t1 = Some t2 \<and> term_ok t2 \<and> same_term t t2
    \<and> cursor_index t2 = wrap_cell t (unat n) \<and> (unat n < cells t \<longrightarrow> screen t2 = screen t)"
proof -
  let ?w = "unat (max_char_width t)" and ?h = "unat (max_char_height t)"
  note sz = grid_sizes [OF ok]
  obtain x y where xy: "cursor_at n t = Some (set_cursor x y t)" "x < max_char_width t"
    "unat x + unat y * ?w = unat n" "unat y = unat n div ?w"
    using cursor_at_ok [of t n] ok by (auto simp: grid_ok_def)
  let ?t = "set_cursor x y t"
  obtain t2 where t2: "term_scrollup ?t = Some t2" "term_ok t2" "same_term ?t t2"
    "if y < max_char_height t then t2 = ?t else tc_x (ttext_cursor t2) = x \<and> tc_y (ttext_cursor t2) = max_char_height t - 1"
    using term_scrollup_keeps [of ?t] ok xy(2) by auto
  have same: "same_term t t2" using same_term_trans [OF same_term_set_cursor t2(3)] .
  have in_grid: "y < max_char_height t \<longleftrightarrow> unat n < cells t"
    using sz(5) by (simp add: word_less_nat_alt xy(4) cells_def less_mult_imp_div_less div_less_iff_less_mult mult.commute)
  have "cursor_index t2 = wrap_cell t (unat n) \<and> (unat n < cells t \<longrightarrow> screen t2 = screen t)"
  proof (cases "y < max_char_height t")
    case True
    then show ?thesis using t2(4) xy(3) in_grid by (simp add: cursor_index_def wrap_cell_def)
  next
    case False
    then have "unat n = cells t" using n in_grid by simp
    moreover have "unat x < ?w" using xy(2) by (simp add: word_less_nat_alt)
    moreover have "unat (max_char_height t - 1) = ?h - 1" using sz(6) by (simp add: unat_sub word_le_nat_alt)
    moreover have "unat y = ?h" using \<open>unat n = cells t\<close> xy(4) sz(5) by (simp add: cells_def)
    ultimately have "cursor_index t2 = (?h - 1) * ?w"
      using False t2(4) same_termD(2) [OF same] xy(3) by (simp add: cursor_index_def cells_def)
    also have "\<dots> = cells t - ?w" by (rule last_line)
    finally show ?thesis using \<open>unat n = cells t\<close> by (simp add: wrap_cell_def)
  qed
  then show ?thesis using xy(1) t2(1,2) same by auto
qed


text \<open>A newline goes to the first cell of the next line.\<close>

lemma term_newline_ok:
  assumes ok: "term_ok t"
  shows "\<exists>t'. term_newline t = Some t' \<and> term_ok t' \<and> same_term t t'
    \<and> cursor_index t' = wrap_cell t ((unat (tc_y (ttext_cursor t)) + 1) * unat (max_char_width t))"
proof -
  let ?y = "tc_y (ttext_cursor t)" and ?h = "unat (max_char_height t)" and ?w = "unat (max_char_width t)"
  let ?t = "set_cursor 0 (?y + 1) t"
  have g: "grid_ok t" using ok by (simp add: term_ok_def)
  note sz = grid_sizes [OF g]
  have yh: "unat ?y < ?h" using ok by (simp add: term_ok_def word_less_nat_alt)
  then have y1: "unat (?y + 1) = unat ?y + 1" using sz(4) by (simp add: unat_word_ariths)
  obtain t' where t': "term_scrollup ?t = Some t'" "term_ok t'" "same_term ?t t'"
    "if ?y + 1 < max_char_height t then t' = ?t
     else tc_x (ttext_cursor t') = 0 \<and> tc_y (ttext_cursor t') = max_char_height t - 1"
    using term_scrollup_keeps [of ?t] g by (auto simp: grid_ok_def)
  have same: "same_term t t'" using same_term_trans [OF same_term_set_cursor t'(3)] .
  have "cursor_index t' = wrap_cell t ((unat ?y + 1) * ?w)"
  proof (cases "?y + 1 < max_char_height t")
    case True
    then have "(unat ?y + 1) * ?w < cells t"
      using sz(5) y1 by (simp add: word_less_nat_alt cells_def mult.commute del: mult_Suc mult_Suc_right)
    then show ?thesis using True t'(4) y1 by (simp add: cursor_index_def wrap_cell_def)
  next
    case False
    then have "unat ?y + 1 = ?h" using yh y1 by (simp add: word_less_nat_alt)
    moreover have "unat (max_char_height t - 1) = ?h - 1" using sz(6) by (simp add: unat_sub word_le_nat_alt)
    moreover have "(?h - 1) * ?w = cells t - ?w" by (rule last_line)
    ultimately show ?thesis
      using False t'(4) same_termD(2) [OF same] by (simp add: cursor_index_def wrap_cell_def cells_def mult.commute)
  qed
  then show ?thesis using t'(1,2) same by (auto simp: term_newline_def)
qed

lemma term_drawChar_ok:
  assumes ok: "term_ok t" and k: "k < 128" "k \<noteq> 0x0A"
  shows "\<exists>t'. term_drawChar k color t = Some t' \<and> term_ok t' \<and> same_term t t'
    \<and> cursor_index t' = wrap_cell t (cursor_index t + 1)
    \<and> (cursor_index t + 1 < cells t \<longrightarrow> drawn_at k color t (screen t'))"
proof -
  let ?n = "tc_x (ttext_cursor t) + tc_y (ttext_cursor t) * max_char_width t"
  note idx = index_in_grid [OF ok]
  obtain v where v: "video_driver_drawChar k (tc_x (ttext_cursor t) * 8) (tc_y (ttext_cursor t) * 16) color (screen t) = Some v"
    "drawn_at k color t v"
    using draw_cell [OF ok k(1)] by blast
  let ?t = "t\<lparr>screen := v\<rparr>"
  have same: "same_term t ?t" using v(2) by (simp add: same_term_screen drawn_at_def)
  have g: "grid_ok ?t" using same_termD(8) [OF same] ok by (simp add: term_ok_def)
  have n1: "unat (?n + 1) = cursor_index t + 1" using idx(2,3) by (simp add: unat_word_ariths)
  have c: "cells ?t = cells t" "wrap_cell ?t = wrap_cell t" by (simp_all add: cells_def wrap_cell_def fun_eq_iff)
  obtain t1 t2 where t2: "cursor_at (?n + 1) ?t = Some t1" "term_scrollup t1 = Some t2" "term_ok t2" "same_term ?t t2"
    "cursor_index t2 = wrap_cell t (cursor_index t + 1)" "cursor_index t + 1 < cells t \<longrightarrow> screen t2 = v"
    using goto_cell [OF g, of "?n + 1"] n1 idx(1) c by auto
  have "int_ok (sint ?n + 1)"
    using idx(2,3) by (subst int_of_dword) (simp_all add: int_ok_def)
  then have "term_drawChar k color t = Some t2"
    using k(2) v(1) t2(1,2) by (simp add: term_drawChar_def Let_def)
  then show ?thesis using t2(3,5,6) same_term_trans [OF same t2(4)] v(2) by auto
qed

lemma term_putc_ok:
  assumes "term_ok t" and "k < 128"
  shows "\<exists>t'. term_putc k t = Some t' \<and> term_ok t' \<and> same_term t t'"
  using assms term_newline_ok [OF assms(1)] term_drawChar_ok [OF assms, of "text_color t"]
  by (cases "k = 0x0A") (auto simp: term_putc_def term_drawChar_def)


section \<open>What scrolling does to the pixels\<close>

lemma pixel_in_lines:
  assumes "px < w" and "3 \<le> b" and "d < 3"
  shows "(px + py * w) * b + d < N * w * b \<longleftrightarrow> py < (N :: nat)"
proof
  assume "py < N"
  then have "Suc py * w \<le> N * w" by (intro mult_le_mono1) simp
  then have "Suc (px + py * w) \<le> N * w" using assms(1) by simp
  then have "Suc (px + py * w) * b \<le> N * w * b" by (rule mult_le_mono1)
  then show "(px + py * w) * b + d < N * w * b" using assms(2,3) by simp
next
  assume l: "(px + py * w) * b + d < N * w * b"
  show "py < N"
  proof (rule ccontr)
    assume "\<not> py < N"
    then have "N * w * b \<le> py * w * b" by (intro mult_le_mono1) simp
    also have "\<dots> \<le> (px + py * w) * b + d" by (simp add: add_mult_distrib)
    finally show False using l by simp
  qed
qed

text \<open>
  \<open>term_scrollup\<close> takes a line of text to be \<open>16 * 3\<close> bytes per column high.  It moves the
  picture up by 48 / (bytes per pixel) rows of pixels and clears the last line: these are the
  16 rows of a character with 3 bytes per pixel, but only 12 with the 4 bytes per pixel that
  the UEFI loader sets.
\<close>

theorem term_scrollup_pixels:
  assumes ok: "grid_ok t" and x: "tc_x (ttext_cursor t) < max_char_width t" and y: "\<not> tc_y (ttext_cursor t) < max_char_height t"
    and shift: "shift * unat (video_bpp (screen t)) = 48"
  shows "\<exists>t'. term_scrollup t = Some t' \<and> same_term t t' \<and> (\<forall>px py. on_screen (screen t) px py \<longrightarrow>
    pixel (screen t') px py =
      (if py < (unat (max_char_height t) - 1) * shift then pixel (screen t) px (py + shift)
       else if py < unat (max_char_height t) * shift then [0, 0, 0] else pixel (screen t) px py))"
proof -
  let ?w = "unat (video_width (screen t))" and ?b = "unat (video_bpp (screen t))" and ?f = "framebuffer (screen t)"
    and ?h = "unat (max_char_height t)"
  obtain fb where fb: "term_scrollup t = Some (set_cursor (tc_x (ttext_cursor t)) (max_char_height t - 1) t
        \<lparr>screen := (screen t)\<lparr>framebuffer := fb\<rparr>\<rparr>)" "length fb = length ?f"
    "\<forall>k < length fb. fb ! k = (if k < (?h - 1) * line_bytes t then ?f ! (k + line_bytes t)
          else if k < ?h * line_bytes t then 0 else ?f ! k)"
    using term_scrollup_ok [OF ok x y] by auto
  let ?t = "set_cursor (tc_x (ttext_cursor t)) (max_char_height t - 1) t\<lparr>screen := (screen t)\<lparr>framebuffer := fb\<rparr>\<rparr>"
  have same: "same_term t ?t"
    using fb(2) by (auto simp: same_term_def same_screen_def set_cursor_def)
  have b3: "3 \<le> ?b" using ok by (simp add: grid_ok_def video_ok_def)
  have line: "n * line_bytes t = n * shift * ?w * ?b" for n
    using shift by (simp add: line_bytes_def mult.assoc mult.left_commute)
  have "fb ! (pixel_index (screen t) px py + d) =
      (if py < (?h - 1) * shift then ?f ! (pixel_index (screen t) px (py + shift) + d)
       else if py < ?h * shift then 0 else ?f ! (pixel_index (screen t) px py + d))"
    if on: "on_screen (screen t) px py" and d: "d < 3" for px py d
  proof -
    have px: "px < ?w" using on by (simp add: on_screen_def)
    have "pixel_index (screen t) px py + d < length fb"
      using pixel_index_bound(1) [of "screen t" px py] on ok b3 d fb(2) by (simp add: grid_ok_def)
    moreover have "pixel_index (screen t) px py + d < n * line_bytes t \<longleftrightarrow> py < n * shift" for n
      unfolding line pixel_index_def by (rule pixel_in_lines [OF px b3 d])
    moreover have "pixel_index (screen t) px (py + shift) = pixel_index (screen t) px py + line_bytes t"
      using line [of 1] by (simp add: pixel_index_def algebra_simps)
    ultimately show ?thesis using fb(3) by (simp add: add.assoc add.commute [of d])
  qed
  from this [where d = 0] this [where d = 1] this [where d = 2]
  have "\<forall>px py. on_screen (screen t) px py \<longrightarrow> pixel (screen ?t) px py =
      (if py < (?h - 1) * shift then pixel (screen t) px (py + shift)
       else if py < ?h * shift then [0, 0, 0] else pixel (screen t) px py)"
    by (simp add: pixel_def Let_def pixel_index_framebuffer)
  then show ?thesis using fb(1) same by (intro exI [of _ ?t]) simp
qed

section \<open>Text\<close>

text \<open>The terminal takes any character below 128; what is not its picture or cursor stays.\<close>

interpretation tty: sink term_putc term_ok "\<lambda>c. c < 128"
  "\<lambda>t. (logs t, index_logs t, text_color t, max_char_width t, max_char_height t)"
proof
  fix t and c :: byte
  assume "term_ok t" and "c < 128"
  then show "\<exists>t'. term_putc c t = Some t' \<and> term_ok t'
      \<and> (logs t', index_logs t', text_color t', max_char_width t', max_char_height t')
        = (logs t, index_logs t, text_color t, max_char_width t, max_char_height t)"
    using term_putc_ok [of t c] same_termD by fastforce
qed

text \<open>
  C29: Any text of characters below 128 can be printed on the terminal, whatever is on the
  screen and wherever the cursor is: every write falls into the framebuffer, every read into
  the font, the screen scrolls as often as it has to, the cursor ends on a character cell
  and the line that is being typed is unchanged.
\<close>

theorem term_print_safe:
  assumes "term_ok t" and "\<forall>c \<in> set text. c < 128"
  shows "\<exists>t'. term_puts text t = Some t' \<and> term_ok t' \<and> logs t' = logs t \<and> index_logs t' = index_logs t"
  using tty.feed_ok [OF assms] by auto


text \<open>A screen of 80 by 25 characters with 4 bytes per pixel, and the cursor below it.\<close>

definition text_terminal :: terminal where
  "text_terminal = \<lparr>ttext_cursor = \<lparr>tc_x = 0, tc_y = 24, tc_attr = 0\<rparr>, prev_ttext_cursor = \<lparr>tc_x = 0, tc_y = 0, tc_attr = 0\<rparr>,
     text_color = 0xFFFFFF, background_color = 0, max_char_width = 80, max_char_height = 25,
     logs = replicate 1024 0, index_logs = 0,
     screen = \<lparr>framebuffer = replicate 1024000 0, framebuffer_address = 0xE0000000, video_width = 640, video_height = 400,
       video_bpp = 4, font_data = replicate 2072 0\<rparr>\<rparr>"

lemma text_terminal_ok: "term_ok text_terminal" "grid_ok text_terminal"
proof -
  have "video_ok (screen text_terminal)" "font_ok (screen text_terminal)"
    by (simp_all add: text_terminal_def video_ok_def font_ok_def)
  then show "term_ok text_terminal" "grid_ok text_terminal"
    by (simp_all add: term_ok_def grid_ok_def) (simp_all add: text_terminal_def)
qed

theorem term_print_safe_witness:
  "\<exists>t'. term_puts (replicate 500 72 @ [10, 72, 10]) text_terminal = Some t' \<and> term_ok t'"
  using term_print_safe [OF text_terminal_ok(1), of "replicate 500 72 @ [10, 72, 10]"] by (auto simp del: feed.simps)

theorem term_scrollup_pixels_witness:
  "\<exists>t'. term_scrollup (set_cursor 0 25 text_terminal) = Some t'
    \<and> pixel (screen t') 7 10 = pixel (screen text_terminal) 7 22"
proof -
  let ?t = "set_cursor 0 25 text_terminal"
  have "\<exists>t'. term_scrollup ?t = Some t' \<and> same_term ?t t' \<and> (\<forall>px py. on_screen (screen ?t) px py \<longrightarrow>
      pixel (screen t') px py = (if py < (unat (max_char_height ?t) - 1) * 12 then pixel (screen ?t) px (py + 12)
         else if py < unat (max_char_height ?t) * 12 then [0, 0, 0] else pixel (screen ?t) px py))"
    by (rule term_scrollup_pixels) (simp add: text_terminal_ok, simp_all add: text_terminal_def)
  moreover have "on_screen (screen ?t) 7 10" "unat (max_char_height ?t) = 25"
    by (simp_all add: on_screen_def text_terminal_def)
  ultimately show ?thesis by fastforce
qed

end
