(* ===== verification/Term_Line.thy ===== *)
theory Term_Line
  imports Term_Props
begin

text \<open>
  The line the user types: each pass of the loop of \<open>term_run\<close> as a step, the invariant of
  the steps, and the agreement of the keys with an editor of a list of characters.
\<close>

section \<open>The line\<close>

definition printable :: "byte \<Rightarrow> bool" where
  "printable k \<longleftrightarrow> 0x20 \<le> sint k \<and> sint k < 127"

definition typed :: "terminal \<Rightarrow> byte list" where
  "typed t = take (unat (index_logs t)) (logs t)"

text \<open>
  The buffer of \<open>term_run\<close>, NUL-terminated, with the cursor behind the line and a screen
  on which the line cannot scroll away.
\<close>

definition line_ok :: "terminal \<Rightarrow> bool" where
  "line_ok t \<longleftrightarrow> term_ok t \<and> length (logs t) = 1024 \<and> unat (index_logs t) < 1024
     \<and> logs t ! unat (index_logs t) = 0 \<and> (\<forall>c \<in> set (typed t). printable c)
     \<and> unat (index_logs t) < cursor_index t \<and> 1024 \<le> cells t - unat (max_char_width t)"

definition edit :: "byte list \<Rightarrow> byte \<Rightarrow> byte list" where
  "edit l k = (if k = 0x08 then butlast l else if printable k then l @ [k] else l)"

lemma printable_ascii: "printable k \<Longrightarrow> k < 128 \<and> k \<noteq> 0 \<and> k \<noteq> 0x08 \<and> k \<noteq> 0x0A"
proof -
  assume p: "printable k"
  have "\<not> bit k 7"
  proof
    assume "bit k 7"
    then have "sint k < 0" by (simp add: sint_uint signed_take_bit_negative_iff bit_uint_iff)
    then show False using p by (simp add: printable_def)
  qed
  have "take_bit 7 (uint k) = uint k"
  proof (rule bit_eqI)
    fix n
    show "bit (take_bit 7 (uint k)) n = bit (uint k) n"
      using \<open>\<not> bit k 7\<close> bit_imp_le_length [of k n] by (cases "n = 7") (auto simp: bit_take_bit_iff bit_uint_iff)
  qed
  then have "uint k < 128" using take_bit_int_less_exp [of 7 "uint k"] by simp
  then show ?thesis using p by (auto simp: printable_def word_less_def)
qed

lemma ok_logs [simp]:
  "grid_ok (t\<lparr>logs := l, index_logs := i\<rparr>) \<longleftrightarrow> grid_ok t" "term_ok (t\<lparr>logs := l, index_logs := i\<rparr>) \<longleftrightarrow> term_ok t"
  by (simp_all add: term_ok_def grid_ok_def)

lemma key_char_step:
  assumes ok: "line_ok t" and p: "printable k" and room: "unat (index_logs t) < 1023"
  shows "\<exists>t'. key_char k t = Some t' \<and> line_ok t' \<and> typed t' = typed t @ [k]"
proof -
  let ?i = "unat (index_logs t)"
  note k = printable_ascii [OF p]
  have len: "length (logs t) = 1024" and tok: "term_ok t" using ok by (simp_all add: line_ok_def)
  have i1: "unat (index_logs t + 1) = ?i + 1" using room by (simp add: unat_word_ariths)
  let ?l = "(logs t)[?i := k, ?i + 1 := 0]" and ?t = "t\<lparr>logs := (logs t)[unat (index_logs t) := k, unat (index_logs t) + 1 := 0], index_logs := index_logs t + 1\<rparr>"
  have "term_ok ?t" using tok by simp
  then obtain t' where t': "term_drawChar k (text_color ?t) ?t = Some t'" "term_ok t'" "same_term ?t t'"
    "cursor_index t' = wrap_cell ?t (cursor_index ?t + 1)"
    using term_drawChar_ok [of ?t k "text_color ?t"] k by blast
  note s = same_termD [OF t'(3)]
  have "key_char k t = Some t'"
    using p room len t'(1) by (simp add: key_char_def printable_def i1)
  moreover have ty: "typed t' = typed t @ [k]"
    using room len s(4,5) by (simp add: typed_def i1 take_Suc_conv_app_nth nth_list_update_neq)
  moreover have "line_ok t'"
  proof -
    have c: "cells t' = cells t" "cursor_index ?t = cursor_index t" "wrap_cell ?t = wrap_cell t"
      "max_char_width t' = max_char_width t"
      using s(2,3) by (simp_all add: cells_def cursor_index_def wrap_cell_def fun_eq_iff)
    have "?i + 1 < cursor_index t'"
      using ok room unfolding t'(4) c by (auto simp: line_ok_def wrap_cell_def)
    then show ?thesis
      using ok t'(2) ty s(4,5) room p c(1,4) by (simp add: line_ok_def i1)
  qed
  ultimately show ?thesis by blast
qed

lemma key_backspace_step:
  assumes ok: "line_ok t"
  shows "\<exists>t'. key_backspace t = Some t' \<and> line_ok t' \<and> typed t' = butlast (typed t)"
proof (cases "index_logs t = 0")
  case True
  then show ?thesis using ok by (simp add: key_backspace_def typed_def)
next
  case False
  let ?i = "unat (index_logs t)"
  have len: "length (logs t) = 1024" and tok: "term_ok t" and i: "?i < 1024" "?i < cursor_index t"
    using ok by (simp_all add: line_ok_def)
  have i0: "0 < ?i" using False by (metis neq0_conv unat_0_iff)
  then have i1: "unat (index_logs t - 1) = ?i - 1" by (simp add: unat_sub word_le_nat_alt)
  let ?t = "t\<lparr>logs := (logs t)[?i - 1 := 0], index_logs := index_logs t - 1\<rparr>"
  let ?n = "tc_x (ttext_cursor t) + tc_y (ttext_cursor t) * max_char_width t"
  note idx = index_in_grid [OF tok]
  have n1: "unat (?n - 1) = cursor_index t - 1" using idx(3) i i0 by (simp add: unat_sub word_le_nat_alt)
  have g: "grid_ok ?t" using tok by (simp add: term_ok_def)
  have c: "cells ?t = cells t" by (simp add: cells_def)
  obtain x y where xy: "cursor_at (?n - 1) ?t = Some (set_cursor x y ?t)" "x < max_char_width t"
    "unat x + unat y * unat (max_char_width t) = cursor_index t - 1" "unat y = (cursor_index t - 1) div unat (max_char_width t)"
    using cursor_at_ok [of ?t "?n - 1"] g n1 by (auto simp: grid_ok_def)
  have "unat y < unat (max_char_height t)"
    using xy(4) idx(1) less_mult_imp_div_less [of "cursor_index t - 1" "unat (max_char_height t)" "unat (max_char_width t)"]
    by (simp add: cells_def mult.commute)
  then have t1: "term_ok (set_cursor x y ?t)" using xy(2) g by (simp add: term_ok_def word_less_nat_alt)
  have "logs t ! (?i - 1) \<in> set (typed t)"
    using i0 i len by (auto simp: typed_def in_set_conv_nth intro!: exI [of _ "?i - 1"])
  then have "printable (logs t ! (?i - 1))" using ok by (simp add: line_ok_def)
  then obtain v where v: "video_driver_drawChar (logs t ! (?i - 1)) (x * 8) (y * 16) (R8G8B8 0 0 0) (screen t) = Some v"
    "same_screen (screen t) v"
    using draw_cell [OF t1] printable_ascii by (fastforce simp: drawn_at_def)
  let ?t' = "set_cursor x y ?t\<lparr>screen := v\<rparr>"
  have "int_ok (sint ?n - 1)"
    using idx(2,3) by (subst int_of_dword) (simp_all add: int_ok_def)
  then have "key_backspace t = Some ?t'"
    using False i len xy(1) v(1) by (simp add: key_backspace_def Let_def i1)
  moreover have ty: "typed ?t' = butlast (typed t)"
    using i len i0 by (simp add: typed_def i1 set_cursor_def butlast_take take_update_cancel)
  moreover have "line_ok ?t'"
  proof -
    have same: "same_term (set_cursor x y ?t) ?t'" using v(2) by (intro same_term_screen) simp
    have "term_ok ?t'" using t1 same_termD(8) [OF same] by (simp add: term_ok_def)
    moreover have "cursor_index ?t' = cursor_index t - 1" "cells ?t' = cells t"
      using xy(3) by (simp_all add: cursor_index_def cells_def)
    moreover have "\<forall>c \<in> set (typed ?t'). printable c"
      using ok ty by (auto simp: line_ok_def dest: in_set_butlastD)
    moreover have "?i - 1 < 1024" "?i - 1 < cursor_index t - 1" using i i0 by linarith+
    ultimately show ?thesis using ok i len i1 by (simp add: line_ok_def)
  qed
  ultimately show ?thesis by blast
qed

text \<open>One key other than Enter: it edits the line, except that the line is full.\<close>

lemma term_key_step:
  assumes ok: "line_ok t" and k: "k \<noteq> 0x0A"
  shows "if printable k \<and> unat (index_logs t) = 1023 then term_key pg junk k t = None
    else \<exists>t'. term_key pg junk k t = Some (t', Req_none) \<and> line_ok t' \<and> typed t' = edit (typed t) k"
proof (cases "printable k")
  case True
  note a = printable_ascii [OF True]
  have len: "length (logs t) = 1024" "unat (index_logs t) < 1024" using ok by (simp_all add: line_ok_def)
  show ?thesis
  proof (cases "unat (index_logs t) = 1023")
    case i: True
    then have "unat (index_logs t + 1) = 1024" by (simp add: unat_word_ariths)
    then have "key_char k t = None" using True len i by (simp add: key_char_def printable_def)
    then show ?thesis using a True i by (simp add: term_key_def)
  next
    case False
    then show ?thesis using key_char_step [OF ok True] a True len by (auto simp: term_key_def edit_def)
  qed
next
  case False
  then have kc: "key_char k t = Some t" by (auto simp: key_char_def printable_def)
  then show ?thesis
    using key_backspace_step [OF ok] ok k False by (auto simp: term_key_def edit_def)
qed


section \<open>Sequences of keys\<close>

text \<open>The states between two Enter keys.\<close>

inductive line_steps :: "pstate \<Rightarrow> qword list \<Rightarrow> terminal \<Rightarrow> terminal \<Rightarrow> bool" for pg junk t where
  start: "line_steps pg junk t t"
| key: "line_steps pg junk t u \<Longrightarrow> k \<noteq> 0x0A \<Longrightarrow> term_key pg junk k u = Some (v, req) \<Longrightarrow> line_steps pg junk t v"

inductive_cases line_stepsE: "line_steps pg junk t u"


definition press :: "pstate \<Rightarrow> qword list \<Rightarrow> byte \<Rightarrow> terminal \<Rightarrow> terminal option" where
  "press pg junk k t = map_option fst (term_key pg junk k t)"

lemma edit_length: "length (edit l k) \<le> Suc (length l)"
  by (auto simp: edit_def)

text \<open>
  C31: A sequence of keys edits the line as an editor of a list of characters does: a
  printable key appends itself, Backspace removes the last character of a line that is not
  empty, every other key changes nothing.
\<close>

theorem term_keys_edit:
  assumes "line_ok t" and "\<forall>k \<in> set keys. k \<noteq> 0x0A" and "length (typed t) + length keys \<le> 1023"
  shows "\<exists>t'. feed (press pg junk) keys t = Some t' \<and> line_ok t' \<and> typed t' = foldl edit (typed t) keys"
  using assms
proof (induction keys arbitrary: t)
  case (Cons k keys)
  have "length (typed t) = unat (index_logs t)" using Cons.prems(1) by (simp add: line_ok_def typed_def)
  then obtain t1 where t1: "term_key pg junk k t = Some (t1, Req_none)" "line_ok t1" "typed t1 = edit (typed t) k"
    using term_key_step [OF Cons.prems(1), of k pg junk] Cons.prems(2,3) by (auto split: if_splits)
  have "length (typed t1) + length keys \<le> 1023"
    using Cons.prems(3) edit_length [of "typed t" k] by (simp add: t1(3))
  then show ?case using Cons.IH [of t1] Cons.prems(2) t1 by (auto simp: press_def)
qed simp

text \<open>
  The key after 1023 characters is written, and its NUL behind the end of \<open>logs\<close>.
\<close>

theorem term_line_overflow:
  assumes "line_ok t" and "length (typed t) = 1023" and "printable k"
  shows "term_key pg junk k t = None"
  using term_key_step [OF assms(1), of k pg junk] printable_ascii [OF assms(3)] assms
  by (auto simp: line_ok_def typed_def)


section \<open>A terminal\<close>

text \<open>A screen of 64 by 18 characters with an empty font, at the start of a line.\<close>

definition small_terminal :: terminal where
  "small_terminal = \<lparr>ttext_cursor = \<lparr>tc_x = 1, tc_y = 0, tc_attr = 0\<rparr>, prev_ttext_cursor = \<lparr>tc_x = 0, tc_y = 0, tc_attr = 0\<rparr>,
     text_color = 0xFFFFFF, background_color = 0, max_char_width = 64, max_char_height = 18,
     logs = replicate 1024 0, index_logs = 0,
     screen = \<lparr>framebuffer = replicate 442368 0, framebuffer_address = 0xE0000000, video_width = 512, video_height = 288,
       video_bpp = 3, font_data = replicate 2072 0\<rparr>\<rparr>"

lemma small_terminal_ok: "term_ok small_terminal" "line_ok small_terminal" "typed small_terminal = []"
proof -
  have v: "video_ok (screen small_terminal)" by (simp add: small_terminal_def video_ok_def)
  have f: "font_ok (screen small_terminal)" by (simp add: small_terminal_def font_ok_def)
  show t: "term_ok small_terminal"
    using v f by (simp add: term_ok_def grid_ok_def) (simp add: small_terminal_def)
  show ty: "typed small_terminal = []" by (simp add: typed_def small_terminal_def)
  show "line_ok small_terminal"
    using t ty by (simp add: line_ok_def) (simp add: small_terminal_def cursor_index_def cells_def)
qed

theorem term_keys_edit_witness:
  "\<exists>t'. feed (press boot_tables []) [65, 66, 8, 67] small_terminal = Some t' \<and> typed t' = [65, 67]"
proof -
  have "foldl edit (typed small_terminal) [65, 66, 8, 67] = [65, 67]"
    by (simp add: small_terminal_ok(3) edit_def printable_def)
  then show ?thesis
    using term_keys_edit [OF small_terminal_ok(2), of "[65, 66, 8, 67]" boot_tables "[]"] small_terminal_ok(3)
    by (auto simp del: feed.simps foldl.simps)
qed


definition full_terminal :: terminal where
  "full_terminal = small_terminal\<lparr>ttext_cursor := \<lparr>tc_x = 0, tc_y = 16, tc_attr = 0\<rparr>, index_logs := 1023,
     logs := replicate 1023 65 @ [0]\<rparr>"

lemma full_terminal_ok: "line_ok full_terminal" "length (typed full_terminal) = 1023"
proof -
  have "grid_ok full_terminal"
  proof -
    have "screen full_terminal = screen small_terminal" "max_char_width full_terminal = max_char_width small_terminal"
      "max_char_height full_terminal = max_char_height small_terminal"
      by (simp_all add: full_terminal_def)
    then have "grid_ok full_terminal = grid_ok small_terminal" by (simp only: grid_ok_def)
    then show ?thesis using small_terminal_ok(1) by (simp add: term_ok_def)
  qed
  then have "term_ok full_terminal"
    by (simp add: term_ok_def) (simp add: full_terminal_def small_terminal_def)
  moreover have ty: "typed full_terminal = replicate 1023 65" by (simp add: typed_def full_terminal_def)
  moreover have "cursor_index full_terminal = 1024" "cells full_terminal - unat (max_char_width full_terminal) = 1088"
    by (simp_all add: cursor_index_def cells_def full_terminal_def small_terminal_def)
  ultimately show "line_ok full_terminal"
    by (simp add: line_ok_def printable_def) (simp add: full_terminal_def nth_append)
  show "length (typed full_terminal) = 1023" by (simp add: ty)
qed

theorem term_line_overflow_witness: "term_key boot_tables [] 65 full_terminal = None"
  by (rule term_line_overflow [OF full_terminal_ok]) (simp add: printable_def)

end
