(* ===== verification/Term_Exec.thy ===== *)
theory Term_Exec
  imports Term_Line
begin

text \<open>
  The command interpreter: the split of a line into arguments against a reference
  definition, and what the commands do.
\<close>

section \<open>Arguments\<close>

text \<open>The fields of a text between single spaces.\<close>

primrec fields :: "byte list \<Rightarrow> byte list list" where
  "fields [] = [[]]"
| "fields (c # s) = (if c = 32 then [] # fields s else (c # hd (fields s)) # tl (fields s))"

lemma fields_word: "32 \<notin> set w \<Longrightarrow> fields (w @ s) = (w @ hd (fields s)) # tl (fields s)"
  by (induction w) (auto, induction s, auto)

lemma fields_single [simp]: "32 \<notin> set w \<Longrightarrow> fields w = [w]"
  using fields_word [of w "[]"] by simp

lemma fields_space [simp]: "32 \<notin> set w \<Longrightarrow> fields (w @ 32 # s) = w # fields s"
  using fields_word [of w "32 # s"] by simp

definition arg_strings :: "buffer \<Rightarrow> nat list \<Rightarrow> byte list list" where
  "arg_strings cmd args = map (\<lambda>a. cstr (drop a cmd)) args"

text \<open>
  \<open>res\<close> is the result of splitting a text of fields \<open>fs\<close> in the last \<open>n\<close> bytes of a buffer behind
  \<open>pre\<close> when \<open>args\<close> have been stored before.
\<close>

definition splits_to :: "buffer \<Rightarrow> nat list \<Rightarrow> nat \<Rightarrow> byte list list \<Rightarrow> (buffer \<times> nat list) option \<Rightarrow> bool" where
  "splits_to pre args n fs res \<longleftrightarrow>
     (if length args + length fs \<le> MAX_ARGS
      then \<exists>out offs. res = Some (pre @ out, args @ map ((+) (length pre)) offs) \<and> length out = n
        \<and> arg_strings out offs = fs \<and> (\<forall>a \<in> set offs. terminated (drop a out))
      else res = None)"

lemma map_add_0: "map ((+) (0 :: nat)) xs = xs"
  by (induction xs) simp_all

lemma splits_to_last:
  assumes "0 \<notin> set w" and "length args < MAX_ARGS" and "n = length (w @ 0 # r)"
  shows "splits_to pre args n [w] (Some (pre @ w @ 0 # r, args @ [length pre]))"
proof -
  have "arg_strings (w @ 0 # r) [0] = [w]" using assms(1) by (simp add: arg_strings_def cstr_append_NUL)
  then show ?thesis
    using assms(2,3) unfolding splits_to_def
    by (simp, intro exI [of _ "w @ 0 # r"] exI [of _ "[0 :: nat]"]) (simp add: terminated_def)
qed

lemma splits_to_field:
  assumes w: "0 \<notin> set w" and res: "splits_to (pre @ w @ [0]) (args @ [length pre]) n fs res"
  shows "splits_to pre args (length w + 1 + n) (w # fs) res"
proof (cases "length args + length (w # fs) \<le> MAX_ARGS")
  case True
  then obtain out offs where o: "res = Some ((pre @ w @ [0]) @ out, (args @ [length pre]) @ map ((+) (length (pre @ w @ [0]))) offs)"
    "length out = n" "arg_strings out offs = fs" "\<forall>a \<in> set offs. terminated (drop a out)"
    using res by (auto simp: splits_to_def)
  let ?offs = "0 # map ((+) (length w + 1)) offs"
  have "arg_strings (w @ 0 # out) ?offs = w # fs"
    using o(3) w by (simp add: arg_strings_def cstr_append_NUL comp_def)
  moreover have "\<forall>a \<in> set ?offs. terminated (drop a (w @ 0 # out))" using o(4) by (auto simp: terminated_def)
  ultimately show ?thesis
    using True o(1,2) unfolding splits_to_def
    by (simp, intro exI [of _ "w @ 0 # out"] exI [of _ ?offs]) (simp add: comp_def)
next
  case False
  then show ?thesis using res by (simp add: splits_to_def)
qed

lemma split_args_loop:
  assumes "0 \<notin> set s" and "0 \<notin> set w" and "32 \<notin> set w" and "length args \<le> MAX_ARGS"
  shows "splits_to pre args (length w + length s + 1 + length r) (fields (w @ s))
    (split_args (pre @ w @ s @ 0 # r) (length pre + length w) (length pre + length w + length s) (length pre) args)"
  using assms
proof (induction s arbitrary: pre w args)
  case Nil
  have "split_args (pre @ w @ 0 # r) (length pre + length w) (length pre + length w) (length pre) args
      = (if length args < MAX_ARGS then Some (pre @ w @ 0 # r, args @ [length pre]) else None)"
    by (subst split_args.simps) (simp add: nth_append list_update_append split_args.simps)
  then show ?case
    using Nil.prems splits_to_last [of w args] by (auto simp: splits_to_def not_less)
next
  case (Cons c s)
  let ?split = "split_args (pre @ w @ (c # s) @ 0 # r) (length pre + length w) (length pre + length w + length (c # s)) (length pre) args"
  consider (space) "c = 32" "length args < MAX_ARGS" | (many) "c = 32" "length args = MAX_ARGS" | (other) "c \<noteq> 32"
    using Cons.prems(4) by linarith
  then show ?case
  proof cases
    case space
    let ?pre = "pre @ w @ [0]"
    have "?split = split_args (?pre @ [] @ s @ 0 # r) (length ?pre + length []) (length ?pre + length [] + length s) (length ?pre)
        (args @ [length pre])"
      using space by (subst split_args.simps) (simp add: nth_append list_update_append)
    then have "splits_to ?pre (args @ [length pre]) (length s + 1 + length r) (fields s) ?split"
      using Cons.IH [of "[]" "args @ [length pre]" ?pre] Cons.prems space(2) by simp
    from splits_to_field [OF Cons.prems(2) this] show ?thesis
      using space(1) Cons.prems(3) by (simp add: add.assoc)
  next
    case many
    then have "?split = None" by (subst split_args.simps) (simp add: nth_append)
    then show ?thesis using many Cons.prems(3) by (simp add: splits_to_def)
  next
    case other
    have "?split = split_args (pre @ (w @ [c]) @ s @ 0 # r) (length pre + length (w @ [c])) (length pre + length (w @ [c]) + length s) (length pre) args"
      using other Cons.prems(1) by (subst split_args.simps) (simp add: nth_append)
    then show ?thesis using Cons.IH [of "w @ [c]" args pre] Cons.prems other by simp
  qed
qed

lemma split_args_ok:
  assumes "terminated cmd" and "strsize cmd = Some n"
  shows "if length (fields (cstr cmd)) \<le> MAX_ARGS
    then \<exists>cmd' args. split_args cmd 0 n 0 [] = Some (cmd', args) \<and> length cmd' = length cmd
      \<and> arg_strings cmd' args = fields (cstr cmd) \<and> (\<forall>a \<in> set args. terminated (drop a cmd'))
    else split_args cmd 0 n 0 [] = None"
proof -
  obtain s r where c: "cmd = s @ 0 # r" "0 \<notin> set s" by (rule terminated_split [OF assms(1)])
  then have n: "n = length s" using assms(2) by (simp add: strsize_NUL)
  have "splits_to [] [] (length cmd) (fields s) (split_args cmd 0 n 0 [])"
    using split_args_loop [of s "[]" "[]" "[]" r] c n by simp
  then show ?thesis using c by (auto simp: splits_to_def cstr_append_NUL map_add_0)
qed

text \<open>
  C32: \<open>term_exec\<close> splits the line at single spaces: the arguments are the fields of the line,
  each NUL-terminated in the line's buffer.  With more than 64 fields it writes behind the
  array of arguments.
\<close>

theorem split_args_correct:
  assumes "terminated cmd" and "strsize cmd = Some n"
  shows "if length (fields (cstr cmd)) \<le> MAX_ARGS
    then \<exists>cmd' args. split_args cmd 0 n 0 [] = Some (cmd', args) \<and> length cmd' = length cmd
      \<and> arg_strings cmd' args = fields (cstr cmd) \<and> (\<forall>a \<in> set args. terminated (drop a cmd'))
    else split_args cmd 0 n 0 [] = None"
  using split_args_ok [OF assms] .


section \<open>Commands\<close>

definition chars :: "string \<Rightarrow> byte list" where
  "chars s = map of_char s"

lemma cstr_lit: "0 \<notin> set (chars s) \<Longrightarrow> cstr (lit s) = chars s" "terminated (lit s)"
  by (simp_all add: lit_def chars_def cstr_append_NUL terminated_def)

text \<open>\<open>term_exec\<close> with the arguments as strings; \<open>arg\<close> is only read through its strings.\<close>

lemma fields_ne: "fields s \<noteq> []"
  by (induction s) auto

lemma term_exec_args:
  assumes "0 \<notin> set s" and "fields s = fs" and "length fs = n" and "n \<le> MAX_ARGS"
  obtains cmd' arg where "term_exec pg junk (s @ 0 # r) t = map_option (Pair cmd') (run_command pg junk arg n t)"
    "\<And>i. i < n \<Longrightarrow> terminated (arg i) \<and> cstr (arg i) = fs ! i"
proof -
  let ?cmd = "s @ 0 # r"
  have s: "terminated ?cmd" "cstr ?cmd = s" "strsize ?cmd = Some (length s)"
    using assms(1) by (simp_all add: terminated_def cstr_append_NUL strsize_NUL)
  obtain cmd' args where a: "split_args ?cmd 0 (length s) 0 [] = Some (cmd', args)"
    "arg_strings cmd' args = fs" "\<forall>a \<in> set args. terminated (drop a cmd')"
    using split_args_ok [OF s(1,3)] assms(2-4) s(2) by auto
  have len: "length args = n" using arg_cong [OF a(2), of length] assms(3) by (simp add: arg_strings_def)
  then have pos: "args \<noteq> []" using assms(2,3) fields_ne [of s] by auto
  show thesis
  proof (rule that [of cmd' "\<lambda>i. drop (args ! i) cmd'"])
    show "term_exec pg junk ?cmd t = map_option (Pair cmd') (run_command pg junk (\<lambda>i. drop (args ! i) cmd') n t)"
      using s(3) a(1) pos len by (auto simp: term_exec_def split: Option.bind_splits)
  next
    fix i
    assume i: "i < n"
    then have "cstr (drop (args ! i) cmd') = fs ! i"
      unfolding a(2) [symmetric] using len by (simp add: arg_strings_def)
    then show "terminated (drop (args ! i) cmd') \<and> cstr (drop (args ! i) cmd') = fs ! i"
      using a(3) i len by simp
  qed
qed

lemma strint_cstr:
  assumes "terminated b" and "cstr b = dec_chars v" and "- 2147483648 < v" and "v < 2147483648"
  shows "strint b = Some v"
proof -
  obtain s r where b: "b = s @ 0 # r" "0 \<notin> set s" by (rule terminated_split [OF assms(1)])
  then show ?thesis using strint_dec_chars [OF assms(3,4), of r] assms(2) by (simp add: cstr_append_NUL)
qed

text \<open>The comparisons of the first argument with the names of the commands.\<close>

lemma strcmp_lit:
  assumes "terminated a" and "0 \<notin> set (chars s)"
  shows "strcmp a (lit s) = Some (if cstr a = chars s then 0 else 1)"
    and "strcmp (lit s) a = Some (if chars s = cstr a then 0 else 1)"
  using assms by (simp_all add: strcmp_correct cstr_lit)

lemma command_chars:
  "chars ''HELP'' = [72, 69, 76, 80]" "chars ''LTASK'' = [76, 84, 65, 83, 75]" "chars ''CLEAR'' = [67, 76, 69, 65, 82]"
  "chars ''EXEC'' = [69, 88, 69, 67]" "chars ''TASK'' = [84, 65, 83, 75]" "chars ''MEMSIZE'' = [77, 69, 77, 83, 73, 90, 69]"
  "chars ''SETTEXTCOLOR'' = [83, 69, 84, 84, 69, 88, 84, 67, 79, 76, 79, 82]" "chars ''-KB'' = [45, 75, 66]"
  by (simp_all add: chars_def)

lemmas command_cmp =
  strcmp_lit [of _ "''HELP''"] strcmp_lit [of _ "''LTASK''"] strcmp_lit [of _ "''CLEAR''"] strcmp_lit [of _ "''EXEC''"]
  strcmp_lit [of _ "''TASK''"] strcmp_lit [of _ "''MEMSIZE''"] strcmp_lit [of _ "''SETTEXTCOLOR''"] strcmp_lit [of _ "''-KB''"]

lemma dec_chars_no_space: "32 \<notin> set (dec_chars v)"
  by (auto simp: dec_chars_def dest!: digits_rev_chars)

text \<open>
  The command \<open>SETTEXTCOLOR r g b\<close> with the decimal texts of three numbers below 256 sets
  the color of the text to these components and changes nothing else.
\<close>

theorem settextcolor_correct:
  assumes "0 \<le> r" "r < 256" and "0 \<le> g" "g < 256" and "0 \<le> b" "b < 256"
  shows "\<exists>cmd'. term_exec pg junk ((chars ''SETTEXTCOLOR'' @ 32 # dec_chars r @ 32 # dec_chars g @ 32 # dec_chars b) @ 0 # rest) t
    = Some (cmd', t\<lparr>text_color := R8G8B8 (word_of_int r) (word_of_int g) (word_of_int b)\<rparr>, Req_none)"
proof -
  let ?s = "chars ''SETTEXTCOLOR'' @ 32 # dec_chars r @ 32 # dec_chars g @ 32 # dec_chars b"
  have s: "32 \<notin> set (chars ''SETTEXTCOLOR'')" "0 \<notin> set ?s" by (simp_all add: command_chars dec_chars_no_NUL)
  then have f: "fields ?s = [chars ''SETTEXTCOLOR'', dec_chars r, dec_chars g, dec_chars b]"
    by (simp add: dec_chars_no_space)
  obtain cmd' arg where run: "term_exec pg junk (?s @ 0 # rest) t = map_option (Pair cmd') (run_command pg junk arg 4 t)"
    and arg: "\<And>i. i < 4 \<Longrightarrow> terminated (arg i) \<and> cstr (arg i) = [chars ''SETTEXTCOLOR'', dec_chars r, dec_chars g, dec_chars b] ! i"
    by (rule term_exec_args [OF s(2) f, of 4 pg junk rest t]) (simp_all add: MAX_ARGS_def)
  have a: "terminated (arg 0)" "cstr (arg 0) = chars ''SETTEXTCOLOR''" "strint (arg 1) = Some r" "strint (arg 2) = Some g"
    "strint (arg 3) = Some b"
    using arg [of 0] arg [of 1] arg [of 2] arg [of 3] assms by (auto intro!: strint_cstr)
  have byte: "ucast (word_of_int v :: byte) = (word_of_int v :: dword)" if "0 \<le> v" "v < 256" for v
    using that by (intro word_uint_eqI) (simp add: unsigned_ucast_eq unsigned_of_int take_bit_int_eq_self)
  have "run_command pg junk arg 4 t
      = Some (t\<lparr>text_color := R8G8B8 (word_of_int r) (word_of_int g) (word_of_int b)\<rparr>, Req_none)"
    using a assms by (simp add: run_command_def command_cmp command_chars byte)
  then show ?thesis using run by simp
qed


text \<open>
  \<open>EXEC name\<close> loads the file of that name in the running task, \<open>TASK name\<close> in a task of its
  own; nothing is printed and the terminal does not change.
\<close>

theorem exec_and_task_commands:
  assumes "0 \<notin> set name" and "32 \<notin> set name"
  shows "\<exists>cmd' file. term_exec pg junk (chars ''EXEC'' @ 32 # name @ 0 # rest) t = Some (cmd', t, Req_elf64_load file)
      \<and> terminated file \<and> cstr file = name"
    and "\<exists>cmd' file. term_exec pg junk (chars ''TASK'' @ 32 # name @ 0 # rest) t = Some (cmd', t, Req_task_create_elf64_load file)
      \<and> terminated file \<and> cstr file = name"
proof -
  have s: "0 \<notin> set (chars ''EXEC'' @ 32 # name)" "fields (chars ''EXEC'' @ 32 # name) = [chars ''EXEC'', name]"
    "0 \<notin> set (chars ''TASK'' @ 32 # name)" "fields (chars ''TASK'' @ 32 # name) = [chars ''TASK'', name]"
    using assms by (simp_all add: command_chars fields_space)
  obtain c1 a1 where 1: "term_exec pg junk ((chars ''EXEC'' @ 32 # name) @ 0 # rest) t = map_option (Pair c1) (run_command pg junk a1 2 t)"
    "\<And>i. i < 2 \<Longrightarrow> terminated (a1 i) \<and> cstr (a1 i) = [chars ''EXEC'', name] ! i"
    by (rule term_exec_args [OF s(1,2), of 2 pg junk rest t]) (simp_all add: MAX_ARGS_def)
  obtain c2 a2 where 2: "term_exec pg junk ((chars ''TASK'' @ 32 # name) @ 0 # rest) t = map_option (Pair c2) (run_command pg junk a2 2 t)"
    "\<And>i. i < 2 \<Longrightarrow> terminated (a2 i) \<and> cstr (a2 i) = [chars ''TASK'', name] ! i"
    by (rule term_exec_args [OF s(3,4), of 2 pg junk rest t]) (simp_all add: MAX_ARGS_def)
  have "run_command pg junk a1 2 t = Some (t, Req_elf64_load (a1 1))"
    "run_command pg junk a2 2 t = Some (t, Req_task_create_elf64_load (a2 1))"
    using 1(2) [of 0] 2(2) [of 0] by (simp_all add: run_command_def command_cmp command_chars)
  then show "\<exists>cmd' file. term_exec pg junk (chars ''EXEC'' @ 32 # name @ 0 # rest) t = Some (cmd', t, Req_elf64_load file)
      \<and> terminated file \<and> cstr file = name"
    "\<exists>cmd' file. term_exec pg junk (chars ''TASK'' @ 32 # name @ 0 # rest) t = Some (cmd', t, Req_task_create_elf64_load file)
      \<and> terminated file \<and> cstr file = name"
    using 1 2 by auto
qed

text \<open>
  A line whose first word is no command prints this word and \<open>: is not an COMMAND\<close>, if the
  word has no percent sign; anything printable can be in it and behind it.
\<close>

theorem unknown_command_correct:
  assumes "term_ok t" and "\<forall>c \<in> set (w @ s). printable c" and "PERCENT \<notin> set w" and "32 \<notin> set w"
    and "w \<notin> chars ` {''HELP'', ''LTASK'', ''CLEAR'', ''EXEC'', ''TASK'', ''SETTEXTCOLOR'', ''MEMSIZE''}"
    and "length (fields s) < MAX_ARGS"
  shows "\<exists>cmd' t'. term_exec pg junk ((w @ 32 # s) @ 0 # rest) t = Some (cmd', t', Req_none)
    \<and> term_puts (w @ chars '': is not an COMMAND'' @ [0x0A]) t = Some t' \<and> term_ok t'"
proof -
  have nz: "0 \<notin> set (w @ 32 # s)" using assms(2) printable_ascii by auto
  have f: "fields (w @ 32 # s) = w # fields s" using assms(4) by simp
  let ?n = "length (w # fields s)"
  obtain c arg where run: "term_exec pg junk ((w @ 32 # s) @ 0 # rest) t = map_option (Pair c) (run_command pg junk arg ?n t)"
    "\<And>i. i < ?n \<Longrightarrow> terminated (arg i) \<and> cstr (arg i) = (w # fields s) ! i"
    by (rule term_exec_args [OF nz f, of ?n pg junk rest t]) (use assms(6) in \<open>simp_all\<close>)
  have a0: "terminated (arg 0)" "cstr (arg 0) = w" using run(2) [of 0] by simp_all
  let ?ps = "Str 0 # map Lit (chars '': is not an COMMAND'' @ [0x0A])" and ?mem = "\<lambda>p. Some (arg 0)"
  have "\<forall>p \<in> set ?ps. piece_ok ?mem p \<and> plain_piece ?mem p" using a0 assms(3) by (simp add: chars_def)
  moreover have "args_of ?ps @ [] = [0]" by (simp add: args_of_def chars_def)
  ultimately obtain ts where ts: "printf_impl ?mem junk (format_of ?ps @ [0]) [0] = Some (concat ts)" "list_all2 (piece_text ?mem) ?ps ts"
    using printf_pieces [of ?ps ?mem junk "[]" "[]" "[]"] unfolding printf_impl_def by fastforce
  have fmt: "format_of ?ps @ [0] = lit (''%s: is not an COMMAND'' @ [CHR 0x0A])"
    by (simp add: format_of_def chars_def lit_def)
  have out: "concat ts = w @ chars '': is not an COMMAND'' @ [0x0A]"
    using ts(2) a0(2) by (auto simp: list_all2_Cons1 chars_def)
  have "\<forall>c \<in> set (w @ chars '': is not an COMMAND'' @ [0x0A]). c < 128"
    using assms(2) printable_ascii by (auto simp: chars_def)
  from tty.feed_ok [OF assms(1) this]
  obtain t' where t': "term_puts (w @ chars '': is not an COMMAND'' @ [0x0A]) t = Some t'" "term_ok t'" by blast
  have "run_command pg junk arg ?n t = Some (t', Req_none)"
    using a0 assms(5) ts(1) t'(1) fmt out
    by (auto simp: run_command_def command_cmp command_chars term_printf_def)
  then show ?thesis using run(1) t' by simp
qed


section \<open>Examples\<close>

theorem split_args_correct_witness:
  "\<exists>cmd' args. split_args [65, 32, 32, 66, 0, 9] 0 4 0 [] = Some (cmd', args) \<and> arg_strings cmd' args = [[65], [], [66]]"
proof -
  have "terminated [65, 32, 32, 66, 0, 9]" by (simp add: terminated_def)
  moreover have "strsize [65, 32, 32, 66, 0, 9] = Some 4" using strsize_NUL [of "[65, 32, 32, 66]" "[9]"] by simp
  ultimately show ?thesis
    using split_args_correct [of "[65, 32, 32, 66, 0, 9]" 4] by (simp add: cstr_def MAX_ARGS_def) blast
qed

theorem settextcolor_correct_witness:
  "\<exists>cmd'. term_exec boot_tables [] ((chars ''SETTEXTCOLOR'' @ 32 # dec_chars 255 @ 32 # dec_chars 16 @ 32 # dec_chars 0) @ [0]) text_terminal
    = Some (cmd', text_terminal\<lparr>text_color := 0xFF1000\<rparr>, Req_none)"
  using settextcolor_correct [of 255 16 0 boot_tables "[]" "[]" text_terminal] by (simp add: R8G8B8_def)

theorem exec_and_task_commands_witness:
  "\<exists>cmd' file. term_exec boot_tables [] (chars ''EXEC'' @ 32 # chars ''A.ELF'' @ [0]) text_terminal
    = Some (cmd', text_terminal, Req_elf64_load file) \<and> cstr file = chars ''A.ELF''"
  using exec_and_task_commands(1) [of "chars ''A.ELF''" boot_tables "[]" "[]" text_terminal] by (auto simp: chars_def)

theorem unknown_command_correct_witness:
  "\<exists>cmd' t'. term_exec boot_tables [] ((chars ''LS'' @ 32 # chars ''X'') @ [0]) text_terminal = Some (cmd', t', Req_none)"
proof -
  have "\<forall>c \<in> set (chars ''LS'' @ chars ''X''). printable c" by (simp add: chars_def printable_def)
  then show ?thesis
    using unknown_command_correct [of text_terminal "chars ''LS''" "chars ''X''" boot_tables "[]" "[]"] text_terminal_ok(1)
    by (auto simp: chars_def MAX_ARGS_def)
qed

end
