(* ===== verification/Disk.thy ===== *)
theory Disk
  imports CString
begin

text \<open>
  \<open>kernel/fs/disk.c\<close> and \<open>disk.asm\<close>: PIO access to an ATA drive.  The drive is a function
  from sector numbers to sectors of 512 bytes; \<open>ata_regs\<close> are the task-file registers
  \<open>ata_init_pio\<close> programs and \<open>drive_lba\<close> the sector an ATA drive selects from them (LBA28).
  The busy-wait on the status register is taken to end: the drive becomes ready.
\<close>

section \<open>Selecting a sector\<close>

record ata_regs =
  drive :: byte
  sector_count :: byte
  lba_low :: byte
  lba_mid :: byte
  lba_high :: byte

definition ata_init_pio :: "dword \<Rightarrow> ata_regs" where
  "ata_init_pio lba =
     \<lparr>drive = 0xE0 + (ucast (drop_bit 24 lba) AND 0x0F), sector_count = 1,
      lba_low = ucast lba, lba_mid = ucast (drop_bit 8 lba), lba_high = ucast (drop_bit 16 lba)\<rparr>"

definition drive_lba :: "ata_regs \<Rightarrow> dword" where
  "drive_lba r = ucast (lba_low r) OR push_bit 8 (ucast (lba_mid r)) OR push_bit 16 (ucast (lba_high r))
     OR push_bit 24 (ucast (drive r AND 0x0F))"

type_synonym disk = "dword \<Rightarrow> byte list"

definition disk_ok :: "disk \<Rightarrow> bool" where
  "disk_ok d \<longleftrightarrow> (\<forall>lba. length (d lba) = 512)"

text \<open>The sector the drive transfers for \<open>lba\<close>, through the registers.\<close>

definition transfer :: "disk \<Rightarrow> dword \<Rightarrow> byte list" where
  "transfer d lba = d (drive_lba (ata_init_pio lba))"

section \<open>Reading\<close>

text \<open>
  The copy out of the sector buffer: \<open>pos\<close> is where \<open>__buf\<close> points in \<open>buf\<close>; the copy
  stops when nothing is left to read.
\<close>

function copy_sector :: "byte list \<Rightarrow> nat \<Rightarrow> buffer \<Rightarrow> nat \<Rightarrow> nat \<Rightarrow> (buffer \<times> nat \<times> nat) option" where
  "copy_sector sec i buf pos sz =
     (if i < 512
      then case buf_get sec i of None \<Rightarrow> None | Some c \<Rightarrow>
           (case buf_set buf pos c of None \<Rightarrow> None | Some buf' \<Rightarrow>
              if sz - 1 = 0 then Some (buf', pos + 1, 0)
              else copy_sector sec (i + 1) buf' (pos + 1) (sz - 1))
      else Some (buf, pos, sz))"
  by pat_completeness auto
termination by (relation "measure (\<lambda>(sec, i, buf, pos, sz). 512 - i)") auto

declare copy_sector.simps [simp del]

lemma copy_sector_less:
  "copy_sector sec i buf pos sz = Some (buf', pos', sz') \<Longrightarrow> 0 < sz \<Longrightarrow> sz' \<le> sz \<and> (i < 512 \<longrightarrow> sz' < sz)"
proof (induction sec i buf pos sz arbitrary: buf' pos' sz' rule: copy_sector.induct)
  case (1 sec i buf pos sz)
  show ?case
  proof (cases "i < 512")
    case False
    then show ?thesis using 1 by (subst (asm) (2) copy_sector.simps) simp
  next
    case True
    then obtain c b where cb: "buf_get sec i = Some c" "buf_set buf pos c = Some b"
      using 1(2) by (subst (asm) copy_sector.simps) (auto split: option.splits)
    show ?thesis
    proof (cases "sz - 1 = 0")
      case last: True
      then show ?thesis using 1(2,3) True cb by (subst (asm) copy_sector.simps) auto
    next
      case False
      then have "copy_sector sec (i + 1) b (pos + 1) (sz - 1) = Some (buf', pos', sz')"
        using 1(2) True cb by (subst (asm) copy_sector.simps) simp
      then show ?thesis using 1(1) [OF True cb False] False by fastforce
    qed
  qed
qed

text \<open>\<open>int i = offset\<close>: an offset of \<open>2 ^ 31\<close> or more would start below the sector.\<close>

function ata_read_loop :: "disk \<Rightarrow> dword \<Rightarrow> nat \<Rightarrow> buffer \<Rightarrow> nat \<Rightarrow> nat \<Rightarrow> buffer option" where
  "ata_read_loop d lba offset buf pos sz =
     (if sz > 0
      then case copy_sector (transfer d lba) offset buf pos sz of
             None \<Rightarrow> None
           | Some (buf', pos', sz') \<Rightarrow> ata_read_loop d (lba + 1) 0 buf' pos' sz'
      else Some buf)"
  by pat_completeness auto
termination
proof (relation "measure (\<lambda>(d, lba, offset, buf, pos, sz). 2 * sz + (if offset < 512 then 0 else 1))")
  fix d :: disk and lba offset buf pos sz x xa y xb ya
  assume "0 < sz" and "copy_sector (transfer d lba) offset buf pos sz = Some x" and "(xa, y) = x" and "(xb, ya) = y"
  then show "((d, lba + 1, 0, xa, xb, ya), d, lba, offset, buf, pos, sz)
    \<in> measure (\<lambda>(d, lba, offset, buf, pos, sz). 2 * sz + (if offset < 512 then 0 else 1))"
    using copy_sector_less [of "transfer d lba" offset buf pos sz xa xb ya] by auto
qed simp

declare ata_read_loop.simps [simp del]

definition ata_read_disk :: "disk \<Rightarrow> dword \<Rightarrow> dword \<Rightarrow> buffer \<Rightarrow> nat \<Rightarrow> qword \<Rightarrow> buffer option" where
  "ata_read_disk d lba offset buf pos sz =
     (if sz > 0 \<and> 0x80000000 \<le> offset then None
      else ata_read_loop d lba (unat offset) buf pos (unat sz))"

section \<open>Writing\<close>

text \<open>
  \<open>ata_write_disk\<close> counts \<open>size\<close> down by one for each word of two bytes; \<open>offset\<close> is not
  used.  The loop ends only when the count is exactly 0 after a sector.
\<close>

primrec sector_words :: "buffer \<Rightarrow> nat \<Rightarrow> nat \<Rightarrow> byte list option" where
  "sector_words buf pos 0 = Some []"
| "sector_words buf pos (Suc n) = do {
     lo \<leftarrow> buf_get buf pos;
     hi \<leftarrow> buf_get buf (pos + 1);
     rest \<leftarrow> sector_words buf (pos + 2) n;
     Some (lo # hi # rest) }"

partial_function (option) ata_write_loop :: "disk \<Rightarrow> dword \<Rightarrow> buffer \<Rightarrow> nat \<Rightarrow> qword \<Rightarrow> disk option" where
  "ata_write_loop d lba buf pos sz =
     (if sz > 0
      then do {
        sec \<leftarrow> sector_words buf pos 256;
        let d' = d(drive_lba (ata_init_pio lba) := sec);
        if sz - 256 = 0 then Some d' else ata_write_loop d' (lba + 1) buf (pos + 512) (sz - 256) }
      else Some d)"

definition ata_write_disk :: "disk \<Rightarrow> dword \<Rightarrow> dword \<Rightarrow> buffer \<Rightarrow> qword \<Rightarrow> disk option" where
  "ata_write_disk d lba offset buf sz = ata_write_loop d lba buf 0 sz"

section \<open>Properties\<close>

lemma drive_lba_init: "drive_lba (ata_init_pio lba) = lba AND 0x0FFFFFFF"
proof -
  have n: "(0x0F :: byte) = mask 4" "(0x0FFFFFFF :: dword) = mask 28" by (simp_all add: mask_eq_exp_minus_1)
  have "(0xE0 :: byte) + (x AND mask 4) = 0xE0 OR (x AND mask 4)" for x
  proof (rule disjunctive_add)
    fix k
    show "\<not> bit (0xE0 :: byte) k \<or> \<not> bit (x AND mask 4) k"
    proof (cases "k < 4")
      case True
      then have "k = 0 \<or> k = 1 \<or> k = 2 \<or> k = 3" by arith
      then show ?thesis by (auto simp: bit_iff_odd_drop_bit)
    qed (simp add: bit_simps)
  qed
  moreover have "(0xE0 :: byte) AND mask 4 = 0" by (simp add: mask_eq_exp_minus_1)
  ultimately have "(0xE0 + (x AND mask 4)) AND mask 4 = x AND (mask 4 :: byte)" for x
    by (simp add: and.assoc bit.conj_disj_distrib2)
  then have "drive (ata_init_pio lba) AND 0x0F = ucast (drop_bit 24 lba) AND mask 4"
    unfolding n by (simp add: ata_init_pio_def n)
  then show ?thesis
    unfolding drive_lba_def n
    by (intro bit_eqI) (auto simp: ata_init_pio_def bit_simps)
qed

text \<open>Sector \<open>lba\<close> of the drive: it has \<open>2 ^ 28\<close> of them, the number of a sector is 28 bits.\<close>

definition sector_of :: "disk \<Rightarrow> dword \<Rightarrow> byte list" where
  "sector_of d lba = d (lba AND 0x0FFFFFFF)"

lemma transfer_eq: "transfer d lba = sector_of d lba"
  by (simp add: transfer_def sector_of_def drive_lba_init)

definition patch :: "nat \<Rightarrow> 'a list \<Rightarrow> 'a list \<Rightarrow> 'a list" where
  "patch pos new buf = take pos buf @ new @ drop (pos + length new) buf"

lemma patch_Nil [simp]: "patch pos [] buf = buf"
  by (simp add: patch_def)

lemma length_patch [simp]: "pos + length new \<le> length buf \<Longrightarrow> length (patch pos new buf) = length buf"
  by (simp add: patch_def)

lemma patch_Cons:
  "pos < length buf \<Longrightarrow> patch (Suc pos) new (buf[pos := c]) = patch pos (c # new) buf"
  by (simp add: patch_def take_Suc_update)

lemma patch_patch:
  "pos + length a + length b \<le> length buf \<Longrightarrow> patch (pos + length a) b (patch pos a buf) = patch pos (a @ b) buf"
  by (cases a) (auto simp: patch_def min_def add_ac)

lemma copy_sector_ok:
  assumes "length sec = 512" and "0 < sz" and "i \<le> 512" and "pos + min (512 - i) sz \<le> length buf"
  shows "copy_sector sec i buf pos sz =
    Some (patch pos (take sz (drop i sec)) buf, pos + min (512 - i) sz, sz - (512 - i))"
  using assms
proof (induction sec i buf pos sz rule: copy_sector.induct)
  case (1 sec i buf pos sz)
  show ?case
  proof (cases "i < 512")
    case False
    then show ?thesis using 1(2-5) by (subst copy_sector.simps) simp
  next
    case True
    then have pos: "pos < length buf" and drop: "drop i sec = sec ! i # drop (Suc i) sec"
      using 1(2-5) by (auto simp: Cons_nth_drop_Suc)
    show ?thesis
    proof (cases "sz = 1")
      case one: True
      then show ?thesis
        using True pos 1(2) by (subst copy_sector.simps) (simp add: drop patch_def take_Suc_update upd_conv_take_nth_drop)
    next
      case False
      then obtain m where m: "sz = Suc m" "0 < m" using 1(3) by (cases sz) auto
      have "copy_sector sec (i + 1) (buf[pos := sec ! i]) (pos + 1) (sz - 1) =
        Some (patch (pos + 1) (take (sz - 1) (drop (i + 1) sec)) (buf[pos := sec ! i]),
          pos + 1 + min (512 - (i + 1)) (sz - 1), sz - 1 - (512 - (i + 1)))"
        by (rule 1(1) [OF True]) (use True pos 1(2,4,5) m in auto)
      then show ?thesis
        using True pos 1(2) m
        by (subst copy_sector.simps) (auto simp: drop patch_Cons min_def)
    qed
  qed
qed

text \<open>Byte \<open>k\<close> of the drive counted from the start of sector \<open>lba\<close>.\<close>

definition disk_byte :: "disk \<Rightarrow> dword \<Rightarrow> nat \<Rightarrow> byte" where
  "disk_byte d lba k = sector_of d (lba + of_nat (k div 512)) ! (k mod 512)"

definition disk_bytes :: "disk \<Rightarrow> dword \<Rightarrow> nat \<Rightarrow> nat \<Rightarrow> byte list" where
  "disk_bytes d lba offset n = map (\<lambda>j. disk_byte d lba (offset + j)) [0..<n]"

lemma length_disk_bytes [simp]: "length (disk_bytes d lba offset n) = n"
  by (simp add: disk_bytes_def)

lemma disk_bytes_next: "disk_bytes d lba (512 + k) n = disk_bytes d (lba + 1) k n"
proof -
  have "disk_byte d lba (512 + j) = disk_byte d (lba + 1) j" for j
  proof -
    have "(512 + j) div 512 = Suc (j div 512)" "(512 + j) mod 512 = j mod 512" by simp_all
    then show ?thesis unfolding disk_byte_def by (simp only: of_nat_Suc add.assoc)
  qed
  then show ?thesis by (simp add: disk_bytes_def add.assoc)
qed

lemma disk_bytes_add: "disk_bytes d lba offset (n + m) = disk_bytes d lba offset n @ disk_bytes d lba (offset + n) m"
  by (induction m) (simp_all add: disk_bytes_def add.assoc)

lemma disk_bytes_sector:
  assumes "disk_ok d" and "offset + n \<le> 512"
  shows "disk_bytes d lba offset n = take n (drop offset (sector_of d lba))"
  using assms by (intro nth_equalityI) (auto simp: disk_bytes_def disk_byte_def sector_of_def disk_ok_def)

lemma read_loop_ok:
  assumes "disk_ok d" and "offset \<le> 512" and "pos + sz \<le> length buf"
  shows "ata_read_loop d lba offset buf pos sz = Some (patch pos (disk_bytes d lba offset sz) buf)"
  using assms
proof (induction d lba offset buf pos sz rule: ata_read_loop.induct)
  case (1 d lba offset buf pos sz)
  show ?case
  proof (cases "sz = 0")
    case True
    then show ?thesis by (subst ata_read_loop.simps) (simp add: disk_bytes_def)
  next
    case False
    have len: "length (sector_of d lba) = 512" using 1(2) by (simp add: disk_ok_def sector_of_def)
    let ?n = "min (512 - offset) sz"
    have copy: "copy_sector (sector_of d lba) offset buf pos sz =
      Some (patch pos (take sz (drop offset (sector_of d lba))) buf, pos + ?n, sz - (512 - offset))"
      using copy_sector_ok [OF len] False 1(3,4) by simp
    have first: "take sz (drop offset (sector_of d lba)) = disk_bytes d lba offset ?n"
      using disk_bytes_sector [OF 1(2), of offset ?n lba] 1(3) len by (cases "512 - offset \<le> sz") simp_all
    have "ata_read_loop d (lba + 1) 0 (patch pos (disk_bytes d lba offset ?n) buf) (pos + ?n) (sz - (512 - offset))
      = Some (patch (pos + ?n) (disk_bytes d (lba + 1) 0 (sz - (512 - offset))) (patch pos (disk_bytes d lba offset ?n) buf))"
      using 1(1) [OF _ copy [unfolded first, folded transfer_eq] refl refl] False 1(2,4) by (simp add: min_def)
    also have "\<dots> = Some (patch pos (disk_bytes d lba offset ?n @ disk_bytes d (lba + 1) 0 (sz - (512 - offset))) buf)"
      using patch_patch [of pos "disk_bytes d lba offset ?n"] 1(4) by (simp add: min_def)
    also have "disk_bytes d lba offset ?n @ disk_bytes d (lba + 1) 0 (sz - (512 - offset)) = disk_bytes d lba offset sz"
    proof (cases "sz \<le> 512 - offset")
      case True
      then show ?thesis by (simp add: disk_bytes_def)
    next
      case False
      then have "disk_bytes d lba offset sz = disk_bytes d lba offset (512 - offset + (sz - (512 - offset)))" by simp
      also have "\<dots> = disk_bytes d lba offset (512 - offset) @ disk_bytes d lba 512 (sz - (512 - offset))"
        using 1(3) by (subst disk_bytes_add) simp
      finally show ?thesis using False disk_bytes_next [of d lba 0] by (simp add: min_def)
    qed
    finally show ?thesis
      using False copy first by (subst ata_read_loop.simps) (simp add: transfer_eq)
  qed
qed

text \<open>
  C35: \<open>ata_read_disk\<close> fills \<open>size\<close> bytes of the destination with the consecutive bytes of
  the drive from byte \<open>offset\<close> of sector \<open>lba\<close> on, across sector borders, and changes
  nothing before or behind them.
\<close>

theorem ata_read_disk_correct:
  assumes "disk_ok d" and "unat offset \<le> 512" and "pos + unat sz \<le> length buf"
  shows "ata_read_disk d lba offset buf pos sz =
    Some (take pos buf @ map (\<lambda>j. disk_byte d lba (unat offset + j)) [0..<unat sz] @ drop (pos + unat sz) buf)"
proof -
  have "\<not> 0x80000000 \<le> offset" using assms(2) by (simp add: word_le_nat_alt)
  then show ?thesis
    using read_loop_ok [OF assms] by (simp add: ata_read_disk_def patch_def disk_bytes_def)
qed

text \<open>A drive whose sectors hold their own number.\<close>

definition numbered_disk :: disk where
  "numbered_disk lba = replicate 512 (ucast lba)"

lemma disk_ok_numbered: "disk_ok numbered_disk"
  by (simp add: disk_ok_def numbered_disk_def)

theorem ata_read_disk_correct_witness:
  "ata_read_disk numbered_disk 7 510 [0, 0, 0, 0, 0, 0] 1 4 = Some [0, 7, 7, 8, 8, 0]"
proof -
  have "disk_byte numbered_disk 7 (510 + k) = (if k < 2 then 7 else 8)" if "k < 4" for k
  proof -
    have "k = 0 \<or> k = 1 \<or> k = 2 \<or> k = 3" using that by arith
    then show ?thesis
      by (auto simp: disk_byte_def sector_of_def numbered_disk_def)
  qed
  then have "map (\<lambda>j. disk_byte numbered_disk 7 (510 + j)) [0..<4] = map (\<lambda>k. if k < 2 then 7 else 8) [0..<4]"
    by simp
  then show ?thesis
    using ata_read_disk_correct [OF disk_ok_numbered, of 510 1 4 "[0, 0, 0, 0, 0, 0]" 7]
    by (simp add: upt_rec)
qed

lemma sector_words_length: "sector_words buf pos n = Some ws \<Longrightarrow> 0 < n \<Longrightarrow> pos + 2 * n \<le> length buf"
proof (induction n arbitrary: pos ws)
  case (Suc n)
  then obtain hi rest where r: "buf_get buf (pos + 1) = Some hi" "sector_words buf (pos + 2) n = Some rest"
    by (auto simp: bind_eq_Some_conv)
  then show ?case using Suc.IH [OF r(2)] buf_get_SomeD [OF r(1)] by (cases n) auto
qed simp

lemma write_loop_length:
  assumes "ata_write_loop d lba buf pos sz = Some d'" and "sz > 0"
  shows "pos + 2 * unat sz \<le> length buf"
proof -
  have "sz > 0 \<longrightarrow> pos + 2 * unat sz \<le> length buf"
  proof (rule ata_write_loop.raw_induct [where P = "\<lambda>d lba buf pos sz d'. sz > 0 \<longrightarrow> pos + 2 * unat sz \<le> length buf", OF _ assms(1)])
    fix f :: "disk \<Rightarrow> dword \<Rightarrow> buffer \<Rightarrow> nat \<Rightarrow> qword \<Rightarrow> disk option" and d lba buf pos sz d'
    assume IH: "\<And>d lba buf pos sz d'. f d lba buf pos sz = Some d' \<Longrightarrow> sz > 0 \<longrightarrow> pos + 2 * unat sz \<le> length buf"
      and body: "(if sz > 0 then do {
        sec \<leftarrow> sector_words buf pos 256;
        let d' = d(drive_lba (ata_init_pio lba) := sec);
        if sz - 256 = 0 then Some d' else f d' (lba + 1) buf (pos + 512) (sz - 256) } else Some d) = Some d'"
    show "sz > 0 \<longrightarrow> pos + 2 * unat sz \<le> length buf"
    proof
      assume sz: "sz > 0"
      then obtain sec where sec: "sector_words buf pos 256 = Some sec"
        using body by (auto simp: bind_eq_Some_conv)
      have len: "pos + 512 \<le> length buf" using sector_words_length [OF sec] by simp
      show "pos + 2 * unat sz \<le> length buf"
      proof (cases "sz - 256 = 0")
        case True
        then show ?thesis using len by simp
      next
        case False
        then have "f (d(drive_lba (ata_init_pio lba) := sec)) (lba + 1) buf (pos + 512) (sz - 256) = Some d'"
          using body sz sec by (simp add: Let_def)
        from IH [OF this] False have rest: "pos + 512 + 2 * unat (sz - 256) \<le> length buf"
          by (simp add: word_gt_0)
        have "unat sz \<le> unat (sz - 256) + 256"
        proof -
          have "unat (sz - 256 + 256) \<le> unat (sz - 256) + 256"
            by (simp only: unat_word_ariths) simp
          then show ?thesis by simp
        qed
        then show ?thesis using rest by simp
      qed
    qed
  qed
  then show ?thesis using assms(2) by blast
qed

text \<open>
  \<open>ata_write_disk\<close> counts words where its \<open>size\<close> counts bytes: it never completes from
  a buffer shorter than twice the size, so writing a buffer of exactly \<open>size\<close> bytes runs
  past its end.
\<close>

theorem ata_write_disk_overrun:
  assumes "0 < sz" and "length buf < 2 * unat sz"
  shows "ata_write_disk d lba offset buf sz = None"
proof (cases "ata_write_disk d lba offset buf sz")
  case (Some d')
  then show ?thesis
    using write_loop_length [of d lba buf 0 sz d'] assms by (simp add: ata_write_disk_def)
qed

theorem ata_write_disk_overrun_witness:
  "ata_write_disk numbered_disk 7 0 (replicate 512 1) 512 = None"
  by (rule ata_write_disk_overrun) simp_all

end
