(* ===== verification/Heap.thy ===== *)
theory Heap
  imports Page_Range
begin

text \<open>
  \<open>kernel/alloc.c\<close>: the first-fit kernel heap.  Its blocks lie one after another from
  \<open>heap_start\<close> on, each a packed header of 17 bytes and a payload.  The headers are a store
  from addresses to records, so that the \<open>next\<close> pointers are followed as the code follows
  them; pages for the heap come from \<open>page_mapv\<close>, so the state contains the page tables.
  \<open>None\<close> stands for no result: the access of a header that is not there, a failed
  assertion, a failure of \<open>page_mapv\<close>, or a loop or recursion that does not end.
\<close>

section \<open>State\<close>

record alloc_block_t =
  bsize :: qword
  available :: byte
  bnext :: qword

record heap =
  blocks :: "qword \<Rightarrow> alloc_block_t option"
  heap_start :: qword
  heap_end :: qword
  heap_size :: qword
  pages :: pstate

abbreviation HEADER :: "'a :: len word" where "HEADER \<equiv> 17"

definition set_block :: "qword \<Rightarrow> alloc_block_t \<Rightarrow> heap \<Rightarrow> heap" where
  "set_block p b h = h\<lparr>blocks := (blocks h)(p := Some b)\<rparr>"

definition heap_flags :: word16 where
  "heap_flags = 1 OR 2"

text \<open>\<open>start\<close> is the linker's \<open>__heap_start\<close>.\<close>

definition init_alloc :: "qword \<Rightarrow> heap \<Rightarrow> heap option" where
  "init_alloc start h = do {
     ps \<leftarrow> page_mapv start 0x1000 heap_flags (pages h);
     let h1 = set_block start \<lparr>bsize = 0x1000, available = 1, bnext = 0\<rparr>
                (h\<lparr>heap_start := start, pages := ps\<rparr>);
     Some (h1\<lparr>heap_size := heap_size h1 + 0x1000, heap_end := start\<rparr>) }"

section \<open>Allocation\<close>

text \<open>
  The branch of \<open>new_alloc\<close> for an available block larger than the request: the block is
  taken whole when less than a header would remain, and split otherwise.  \<open>size_block\<close> and
  \<open>remain_size\<close> are 32 bits wide.
\<close>

definition alloc_split :: "qword \<Rightarrow> qword \<Rightarrow> alloc_block_t \<Rightarrow> heap \<Rightarrow> (qword \<times> heap) option" where
  "alloc_split sz current b h =
     (let h1 = set_block current (b\<lparr>available := 0\<rparr>) h;
          size_block = (ucast (sz + HEADER) :: dword);
          remain_size = (ucast (bsize b - ucast size_block) :: dword)
      in if remain_size < HEADER then Some (current + HEADER, h1)
         else do {
           let new_block = current + ucast size_block;
           (remain, h2) \<leftarrow>
             (if heap_start h1 + heap_size h1 < new_block + ucast size_block
              then do {
                ps \<leftarrow> page_mapv (heap_start h1 + heap_size h1) 0x1000 heap_flags (pages h1);
                let h' = h1\<lparr>pages := ps, heap_size := heap_size h1 + 0x1000\<rparr>;
                Some ((ucast (heap_start h' + heap_size h' - new_block) :: dword), h') }
              else Some (remain_size, h1));
           let h3 = set_block new_block \<lparr>bsize = ucast remain, available = 1, bnext = bnext b\<rparr> h2;
           let h4 = set_block current \<lparr>bsize = ucast size_block, available = 0, bnext = new_block\<rparr> h3;
           if current = new_block then None
           else Some (current + HEADER, if bnext b = 0 then h4\<lparr>heap_end := new_block\<rparr> else h4) })"

text \<open>
  The loop over the blocks: \<open>Inl p\<close> is a pointer it returns, \<open>Inr e\<close> the last block when
  no block serves the request.
\<close>

partial_function (option) alloc_scan ::
  "qword \<Rightarrow> qword \<Rightarrow> qword \<Rightarrow> heap \<Rightarrow> ((qword + qword) \<times> heap) option" where
  "alloc_scan sz current end_heap h =
     (if current = 0 then Some (Inr end_heap, h)
      else do {
        b \<leftarrow> blocks h current;
        if available b = 1 \<and> bsize b = sz + HEADER
        then Some (Inl (current + HEADER), set_block current (b\<lparr>available := 0\<rparr>) h)
        else if available b = 1 \<and> sz + HEADER < bsize b
        then do { (p, h') \<leftarrow> alloc_split sz current b h; Some (Inl p, h') }
        else if bnext b = 0 then alloc_scan sz (bnext b) current (h\<lparr>heap_end := current\<rparr>)
        else alloc_scan sz (bnext b) end_heap h })"

text \<open>One more page at the end of the heap, given to the block \<open>e\<close>.\<close>

definition alloc_extend :: "qword \<Rightarrow> heap \<Rightarrow> heap option" where
  "alloc_extend e h = do {
     ps \<leftarrow> page_mapv (heap_start h + heap_size h) 0x1000 heap_flags (pages h);
     let h1 = h\<lparr>pages := ps, heap_size := heap_size h + 0x1000\<rparr>;
     if e \<noteq> 0
     then do { b \<leftarrow> blocks h1 e; Some (set_block e (b\<lparr>bsize := bsize b + 0x1000\<rparr>) h1) }
     else Some h1 }"

partial_function (option) new_alloc :: "qword \<Rightarrow> heap \<Rightarrow> (qword \<times> heap) option" where
  "new_alloc sz h =
     (if sz = 0 then Some (0, h)
      else do {
        (r, h1) \<leftarrow> alloc_scan sz (heap_start h) 0 h;
        case r of
          Inl p \<Rightarrow> Some (p, h1)
        | Inr e \<Rightarrow> do { h2 \<leftarrow> alloc_extend e h1; new_alloc sz h2 } })"

section \<open>Release\<close>

text \<open>The block loses its successor to \<open>block\<close> when the successor is available.\<close>

definition merge_next :: "qword \<Rightarrow> qword \<Rightarrow> heap \<Rightarrow> heap option" where
  "merge_next block next_block h =
     (if next_block = 0 then Some h
      else do {
        n \<leftarrow> blocks h next_block;
        if available n = 1
        then do {
          b \<leftarrow> blocks h block;
          let h1 = set_block block (b\<lparr>bsize := bsize b + bsize n, bnext := bnext n\<rparr>) h;
          n1 \<leftarrow> blocks h1 next_block;
          Some (set_block next_block (n1\<lparr>bnext := 0\<rparr>) h1) }
        else Some h })"

partial_function (option) find_prev :: "qword \<Rightarrow> qword \<Rightarrow> heap \<Rightarrow> qword option" where
  "find_prev prev_block block h = do {
     p \<leftarrow> blocks h prev_block;
     if bnext p = 0 \<or> bnext p = block then Some prev_block
     else if prev_block = bnext p then None
     else find_prev (bnext p) block h }"

definition free_alloc :: "qword \<Rightarrow> heap \<Rightarrow> heap option" where
  "free_alloc ptr h =
     (if ptr = 0 then Some h
      else do {
        let block = ptr - HEADER;
        let prev_block = heap_start h;
        b \<leftarrow> blocks h block;
        let next_block = bnext b;
        let h1 = set_block block (b\<lparr>available := 1\<rparr>) h;
        if prev_block = heap_start h1 then merge_next block next_block h1
        else do {
          prev \<leftarrow> find_prev prev_block block h1;
          h2 \<leftarrow> merge_next block next_block h1;
          p \<leftarrow> blocks h2 prev;
          if available p = 1
          then do {
            b2 \<leftarrow> blocks h2 block;
            let h3 = set_block prev (p\<lparr>bsize := bsize p + bsize b2, bnext := bnext b2\<rparr>) h2;
            b3 \<leftarrow> blocks h3 block;
            Some (set_block block (b3\<lparr>bnext := 0\<rparr>) h3) }
          else Some h2 } })"

end
