(* ===== verification/Fat.thy ===== *)
theory Fat
  imports Disk Heap "HOL-Library.Signed_Division"
begin

text \<open>
  \<open>kernel/fs/gpt.c\<close> and \<open>kernel/fs/fat.c\<close>: finding the FAT16 volume in the partition table,
  looking up a file in the root directory and reading it along its cluster chain.  The
  state is the drive, the heap the temporary buffers come from, and the static variables of
  the two files.  The contents of a fresh heap buffer are taken as zeros; every byte the
  code looks at has been read from the drive before.  What \<open>fat_findFile\<close> prints on the terminal
  is part of its result, a list of formats with the string for \<open>%s\<close>; \<open>Kernel\<close> prints it.  The
  lines that go to the serial port are not modelled.
\<close>

section \<open>On-disk structures\<close>

record fat_header_t =
  jmp_code :: "byte list"
  oem_identifier :: "byte list"
  bytes_per_sector :: word16
  sector_per_cluster :: byte
  reserved_sector :: word16
  fat_number :: byte
  root_dir_entries :: word16
  total_sector :: word16
  media_type :: byte
  sector_per_fat :: word16
  sector_per_track :: word16
  heads :: word16
  hidden_sectors :: dword
  large_sectors :: dword

definition fat_header_of :: "buffer \<Rightarrow> fat_header_t" where
  "fat_header_of b =
     \<lparr>jmp_code = take 3 b, oem_identifier = take 8 (drop 3 b), bytes_per_sector = le16 b 11,
      sector_per_cluster = b ! 13, reserved_sector = le16 b 14, fat_number = b ! 16,
      root_dir_entries = le16 b 17, total_sector = le16 b 19, media_type = b ! 21,
      sector_per_fat = le16 b 22, sector_per_track = le16 b 24, heads = le16 b 26,
      hidden_sectors = le32 b 28, large_sectors = le32 b 32\<rparr>"

record fat_extended_boot_t =
  drive_number :: byte
  ext_reserved :: byte
  ext_signature :: byte
  volume_id :: dword
  volume_label :: "byte list"
  system_identifier :: "byte list"

definition fat_extended_of :: "buffer \<Rightarrow> fat_extended_boot_t" where
  "fat_extended_of b =
     \<lparr>drive_number = b ! 0, ext_reserved = b ! 1, ext_signature = b ! 2, volume_id = le32 b 3,
      volume_label = take 11 (drop 7 b), system_identifier = take 8 (drop 18 b)\<rparr>"

record fat_filedirectory_t =
  name :: "byte list"
  attributes :: byte
  dir_reserved :: byte
  creation_time_ms :: byte
  creation_time :: word16
  creation_date :: word16
  last_accessed_date :: word16
  high_cluster :: word16
  last_modify_time :: word16
  last_modify_date :: word16
  low_cluster :: word16
  file_size :: dword

definition fat_filedirectory_of :: "buffer \<Rightarrow> fat_filedirectory_t" where
  "fat_filedirectory_of b =
     \<lparr>name = take 11 b, attributes = b ! 11, dir_reserved = b ! 12, creation_time_ms = b ! 13,
      creation_time = le16 b 14, creation_date = le16 b 16, last_accessed_date = le16 b 18,
      high_cluster = le16 b 20, last_modify_time = le16 b 22, last_modify_date = le16 b 24,
      low_cluster = le16 b 26, file_size = le32 b 28\<rparr>"

record fat_file_ptr =
  current_cluster :: dword
  next_cluster :: dword
  cluster :: dword
  offset :: word16

abbreviation FAT_DIRECTORY :: byte where "FAT_DIRECTORY \<equiv> 0x10"
abbreviation FAT16_NOCLUSTER :: dword where "FAT16_NOCLUSTER \<equiv> 0xFFF8"
abbreviation FAT16_BADCLUSTER :: dword where "FAT16_BADCLUSTER \<equiv> 0xFFF7"

record fs =
  fdisk :: disk
  fheap :: heap
  gpt_table :: "buffer option"
  fat_hdr :: fat_header_t
  fat_ext :: fat_extended_boot_t
  fat_lba_start :: qword

section \<open>The partition table\<close>

text \<open>\<open>gpt_table\<close> is \<open>partiton_table\<close> with \<open>is_gpt_initialize\<close>: \<open>None\<close> before the first use.\<close>

definition gpt_initialize :: "fs \<Rightarrow> fs option" where
  "gpt_initialize s = do {
     (pt_buffer, h1) \<leftarrow> new_alloc 512 (fheap s);
     b \<leftarrow> ata_read_disk (fdisk s) 1 0 (replicate 512 0) 0 512;
     h2 \<leftarrow> free_alloc pt_buffer h1;
     Some (s\<lparr>gpt_table := Some (take 92 b), fheap := h2\<rparr>) }"

definition gpt_get_lba_start_volume :: "int \<Rightarrow> fs \<Rightarrow> (qword \<times> fs) option" where
  "gpt_get_lba_start_volume index s = do {
     s1 \<leftarrow> (if gpt_table s = None then gpt_initialize s else Some s);
     let lba_partition_entry = (2 :: qword);
     let lba_part = (word_of_int (index sdiv 4) :: qword);
     let off = (word_of_int (index smod 4) :: dword);
     (tmp, h1) \<leftarrow> new_alloc 512 (fheap s1);
     b \<leftarrow> ata_read_disk (fdisk s1) (ucast (lba_partition_entry + lba_part)) 0 (replicate 512 0) 0 512;
     let at = unat off * 128 + 32;
     if at + 8 \<le> length b then Some (le64 b at, s1\<lparr>fheap := h1\<rparr>) else None }"

section \<open>Geometry\<close>

text \<open>The division by \<open>bytes_per_sector / 32\<close> traps when that quotient is 0.\<close>

definition fat_start :: "fs \<Rightarrow> dword" where
  "fat_start s = ucast (fat_lba_start s + ucast (reserved_sector (fat_hdr s)))"

definition root_dirs_start :: "fs \<Rightarrow> dword" where
  "root_dirs_start s = fat_start s + ucast (fat_number (fat_hdr s)) * ucast (sector_per_fat (fat_hdr s))"

definition root_dir_sectors :: "fs \<Rightarrow> dword option" where
  "root_dir_sectors s =
     (let per_sector = (ucast (bytes_per_sector (fat_hdr s)) :: qword) div 32
      in if per_sector = 0 then None
         else Some (ucast ((ucast (root_dir_entries (fat_hdr s)) :: qword) div per_sector)))"

definition data_start :: "fs \<Rightarrow> dword option" where
  "data_start s = do { n \<leftarrow> root_dir_sectors s; Some (root_dirs_start s + n) }"

definition fat_sizeSector :: "fs \<Rightarrow> dword" where
  "fat_sizeSector s = ucast (sector_per_cluster (fat_hdr s)) * ucast (bytes_per_sector (fat_hdr s))"

definition fat_init :: "fs \<Rightarrow> fs option" where
  "fat_init s = do {
     (lba, s1) \<leftarrow> gpt_get_lba_start_volume 0 s;
     hb \<leftarrow> ata_read_disk (fdisk s1) (ucast lba) 0 (replicate 36 0) 0 36;
     eb \<leftarrow> ata_read_disk (fdisk s1) (ucast lba) 36 (replicate 26 0) 0 26;
     let s2 = s1\<lparr>fat_lba_start := lba, fat_hdr := fat_header_of hb, fat_ext := fat_extended_of eb\<rparr>;
     _ \<leftarrow> data_start s2;
     Some s2 }"

section \<open>Names\<close>

text \<open>The first \<open>'.'\<close> among the \<open>sz\<close> characters, \<open>-1\<close> if there is none.\<close>

definition dot_index :: "buffer \<Rightarrow> nat \<Rightarrow> int" where
  "dot_index filename sz =
     (case find (\<lambda>i. filename ! i = 46) [0..<sz] of None \<Rightarrow> - 1 | Some i \<Rightarrow> int i)"

text \<open>Characters 0 to 7: the name up to the dot, then spaces.\<close>

primrec base_loop :: "nat \<Rightarrow> buffer \<Rightarrow> int \<Rightarrow> buffer \<Rightarrow> buffer option" where
  "base_loop 0 filename dot out = Some out"
| "base_loop (Suc i) filename dot out = do {
     out' \<leftarrow> base_loop i filename dot out;
     if int i \<ge> dot then buf_set out' i 0x20
     else do { c \<leftarrow> buf_get filename i; buf_set out' i c } }"

text \<open>From character 8 on: everything behind the dot, whatever its length.\<close>

primrec ext_loop :: "nat \<Rightarrow> buffer \<Rightarrow> nat \<Rightarrow> buffer \<Rightarrow> buffer option" where
  "ext_loop 0 filename ext_pos out = Some out"
| "ext_loop (Suc i) filename ext_pos out = do {
     out' \<leftarrow> ext_loop i filename ext_pos out;
     c \<leftarrow> buf_get filename (ext_pos + i);
     buf_set out' (8 + i) c }"

definition convert_name_to_fat16name :: "buffer \<Rightarrow> buffer option" where
  "convert_name_to_fat16name filename = do {
     filename1 \<leftarrow> strupper filename;
     n \<leftarrow> strsize filename1;
     let dot = dot_index filename1 n;
     out1 \<leftarrow> base_loop 8 filename1 dot (replicate 11 0x20);
     let ext_pos = nat (dot + 1);
     n2 \<leftarrow> strsize (drop ext_pos filename1);
     out2 \<leftarrow> ext_loop n2 filename1 ext_pos out1;
     if 11 \<le> length filename1 then Some (out2 @ drop 11 filename1) else None }"

section \<open>Looking up a file\<close>

text \<open>The 16 entries of a directory sector.\<close>

primrec find_in_sector :: "buffer \<Rightarrow> buffer \<Rightarrow> nat \<Rightarrow> nat \<Rightarrow> fat_filedirectory_t option option" where
  "find_in_sector b fname j 0 = Some None"
| "find_in_sector b fname j (Suc n) = do {
     r \<leftarrow> strncmp (drop (32 * j) b) fname 11;
     if r = 0 then Some (Some (fat_filedirectory_of (take 32 (drop (32 * j) b))))
     else find_in_sector b fname (j + 1) n }"

primrec find_in_root :: "disk \<Rightarrow> dword \<Rightarrow> buffer \<Rightarrow> nat \<Rightarrow> nat \<Rightarrow> fat_filedirectory_t option option" where
  "find_in_root d start fname i 0 = Some None"
| "find_in_root d start fname i (Suc n) = do {
     b \<leftarrow> ata_read_disk d (start + of_nat i) 0 (replicate 512 0) 0 512;
     r \<leftarrow> find_in_sector b fname 0 16;
     case r of Some dir \<Rightarrow> Some (Some dir) | None \<Rightarrow> find_in_root d start fname (i + 1) n }"

text \<open>
  The walk over the path: each \<open>'/'\<close> and the end of the string searches the root directory
  for the name collected so far, and the first hit is the result, together with the names
  searched for: the eleven characters and the NUL behind them.  The boot stages have the
  same loop with an older conversion of the name, which is therefore an argument, as are the
  drive and the first sector of the directory.
\<close>

function find_path :: "(buffer \<Rightarrow> buffer option) \<Rightarrow> disk \<Rightarrow> dword \<Rightarrow> dword \<Rightarrow> buffer \<Rightarrow> nat \<Rightarrow> nat \<Rightarrow> buffer \<Rightarrow> nat
    \<Rightarrow> (fat_filedirectory_t option \<times> buffer list) option" where
  "find_path convert d root sectors filename indexPath sz fname index_fname =
     (if indexPath \<le> sz
      then case buf_get filename indexPath of None \<Rightarrow> None | Some c \<Rightarrow>
        if c = 47 \<or> c = 0
        then (case do { f1 \<leftarrow> convert fname;
                        f2 \<leftarrow> buf_set f1 11 0;
                        r \<leftarrow> find_in_root d root f2 0 (unat sectors);
                        f3 \<leftarrow> buf_set f2 0 0;
                        Some (r, take 12 f2, f3) } of
                None \<Rightarrow> None
              | Some (Some dir, nm, f3) \<Rightarrow> Some (Some dir, [nm])
              | Some (None, nm, f3) \<Rightarrow>
                  map_option (\<lambda>(r, nms). (r, nm # nms)) (find_path convert d root sectors filename (indexPath + 1) sz f3 0))
        else (case do { f1 \<leftarrow> buf_set fname index_fname c; buf_set f1 (index_fname + 1) 0 } of
                None \<Rightarrow> None
              | Some f2 \<Rightarrow> find_path convert d root sectors filename (indexPath + 1) sz f2 (index_fname + 1))
      else Some (None, []))"
  by pat_completeness auto
termination by (relation "measure (\<lambda>(convert, d, root, sectors, filename, indexPath, sz, fname, index_fname). Suc sz - indexPath)") auto

declare find_path.simps [simp del]

definition no_file :: fat_filedirectory_t where
  "no_file = fat_filedirectory_of (replicate 32 0)"

text \<open>
  \<open>fname0\<close> is what the local array \<open>fname\<close> happens to hold.  A line is printed for each name
  searched for, and one more when it is found.
\<close>

type_synonym message = "string \<times> buffer"

definition searching :: string where
  "searching = ''Searching file \"%s\"'' @ [CHR 0x0A]"

definition is_found :: string where
  "is_found = ''[File] %s is Found'' @ [CHR 0x0A]"

definition fat_findFile :: "buffer \<Rightarrow> buffer \<Rightarrow> fs \<Rightarrow> (fat_filedirectory_t \<times> message list) option" where
  "fat_findFile fname0 filename s = do {
     sectors \<leftarrow> root_dir_sectors s;
     n \<leftarrow> strsize filename;
     (r, nms) \<leftarrow> find_path convert_name_to_fat16name (fdisk s) (root_dirs_start s) sectors filename 0 n fname0 0;
     let said = map (\<lambda>nm. (searching, nm)) nms;
     Some (case r of Some dir \<Rightarrow> (dir, said @ [(is_found, last nms)]) | None \<Rightarrow> (no_file, said)) }"

definition file_cluster :: "fat_filedirectory_t \<Rightarrow> dword" where
  "file_cluster fdir = ucast (low_cluster fdir) OR push_bit 16 (ucast (high_cluster fdir))"

definition fat_fileOpen :: "buffer \<Rightarrow> buffer \<Rightarrow> fs \<Rightarrow> (fat_file_ptr \<times> message list) option" where
  "fat_fileOpen fname0 filename s = do {
     (fdir, said) \<leftarrow> fat_findFile fname0 filename s;
     if attributes fdir AND FAT_DIRECTORY = 0
     then let c = file_cluster fdir in
          Some (\<lparr>current_cluster = c, next_cluster = c, cluster = c, offset = 0\<rparr>, said)
     else Some (\<lparr>current_cluster = 0xFFFFFFFF, next_cluster = 0xFFFFFFFF, cluster = 0xFFFFFFFF, offset = 0\<rparr>, said) }"

section \<open>Reading\<close>

definition fat_getNextCluster :: "dword \<Rightarrow> fs \<Rightarrow> dword option" where
  "fat_getNextCluster c s = do {
     b \<leftarrow> ata_read_disk (fdisk s) (fat_start s + c div 256) 0 (replicate 512 0) 0 512;
     Some (ucast (le16 b (2 * unat (c mod 256)))) }"

text \<open>The \<open>n\<close> sectors of a cluster, read one by one to places \<open>step\<close> bytes apart.\<close>

primrec read_sectors :: "disk \<Rightarrow> dword \<Rightarrow> qword \<Rightarrow> nat \<Rightarrow> buffer \<Rightarrow> nat \<Rightarrow> buffer option" where
  "read_sectors d lba step 0 buf pos = Some buf"
| "read_sectors d lba step (Suc i) buf pos = do {
     buf' \<leftarrow> read_sectors d lba step i buf pos;
     ata_read_disk d (lba + of_nat i) 0 buf' (pos + i * unat step) step }"

definition cluster_lba :: "fs \<Rightarrow> dword \<Rightarrow> dword \<Rightarrow> dword" where
  "cluster_lba s ds c = ds + (c - 2) * ucast (sector_per_cluster (fat_hdr s))"

definition spc :: "fs \<Rightarrow> nat" where
  "spc s = unat (sector_per_cluster (fat_hdr s))"

text \<open>A chain that comes back to one of its clusters is followed for ever: \<open>None\<close>.\<close>

partial_function (option) readFile_loop :: "fs \<Rightarrow> dword \<Rightarrow> dword \<Rightarrow> buffer \<Rightarrow> nat \<Rightarrow> buffer option" where
  "readFile_loop s ds c buf pos =
     (if c < FAT16_NOCLUSTER
      then do {
        buf' \<leftarrow> read_sectors (fdisk s) (cluster_lba s ds c) 512 (spc s) buf pos;
        c' \<leftarrow> fat_getNextCluster c s;
        readFile_loop s ds c' buf' (pos + spc s * 512) }
      else Some buf)"

definition fat_readFile :: "fat_filedirectory_t \<Rightarrow> buffer \<Rightarrow> fs \<Rightarrow> buffer option" where
  "fat_readFile file buf s = do {
     ds \<leftarrow> data_start s;
     readFile_loop s ds (file_cluster file) buf 0 }"

definition fat_readSector :: "fat_file_ptr \<Rightarrow> buffer \<Rightarrow> fs \<Rightarrow> (fat_file_ptr \<times> buffer) option" where
  "fat_readSector fptr buf s = do {
     ds \<leftarrow> data_start s;
     if next_cluster fptr < FAT16_NOCLUSTER
     then do {
       buf' \<leftarrow> read_sectors (fdisk s) (cluster_lba s ds (next_cluster fptr)) 512 (spc s) buf 0;
       c \<leftarrow> fat_getNextCluster (next_cluster fptr) s;
       Some (fptr\<lparr>next_cluster := c\<rparr>, buf') }
     else Some (fptr, buf) }"

text \<open>\<open>fat_readFile_map\<close> reads to the 32-bit address \<open>virt\<close> of the memory \<open>mem\<close>.\<close>

primrec read_map :: "disk \<Rightarrow> dword \<Rightarrow> nat \<Rightarrow> buffer \<Rightarrow> dword \<Rightarrow> (buffer \<times> dword) option" where
  "read_map d lba 0 mem virt = Some (mem, virt)"
| "read_map d lba (Suc i) mem virt = do {
     (mem', virt') \<leftarrow> read_map d lba i mem virt;
     mem'' \<leftarrow> ata_read_disk d (lba + of_nat i) 0 mem' (unat virt') 512;
     Some (mem'', virt' + 512) }"

partial_function (option) readFile_map_loop :: "fs \<Rightarrow> dword \<Rightarrow> dword \<Rightarrow> buffer \<Rightarrow> dword \<Rightarrow> buffer option" where
  "readFile_map_loop s ds c mem virt =
     (if c < FAT16_NOCLUSTER
      then do {
        (mem', virt') \<leftarrow> read_map (fdisk s) (cluster_lba s ds c) (spc s) mem virt;
        c' \<leftarrow> fat_getNextCluster c s;
        readFile_map_loop s ds c' mem' virt' }
      else Some mem)"

definition fat_readFile_map :: "fat_filedirectory_t \<Rightarrow> buffer \<Rightarrow> dword \<Rightarrow> fs \<Rightarrow> buffer option" where
  "fat_readFile_map file mem virt s = do {
     ds \<leftarrow> data_start s;
     readFile_map_loop s ds (file_cluster file) mem virt }"

text \<open>
  \<open>fat_seek\<close>: one step of the chain per whole cluster before the position; \<open>True\<close> is the
  early return at a bad cluster, which prints a line and keeps the buffer.
\<close>

primrec seek_loop :: "nat \<Rightarrow> dword \<Rightarrow> fat_file_ptr \<Rightarrow> fs \<Rightarrow> (bool \<times> fat_file_ptr) option" where
  "seek_loop 0 clus fptr s = Some (False, fptr)"
| "seek_loop (Suc n) clus fptr s =
     (if clus \<ge> FAT16_BADCLUSTER then Some (True, fptr)
      else do {
        b \<leftarrow> ata_read_disk (fdisk s) (fat_start s + clus div 256) 0
               (replicate (unat (bytes_per_sector (fat_hdr s))) 0) 0 512;
        seek_loop n (ucast (le16 b (2 * unat (clus mod 256)))) (fptr\<lparr>cluster := clus\<rparr>) s })"

definition fat_seek :: "fat_file_ptr \<Rightarrow> qword \<Rightarrow> fs \<Rightarrow> (bool \<times> fat_file_ptr \<times> fs) option" where
  "fat_seek fptr pos s =
     (let size_sector = (ucast (fat_sizeSector s) :: qword) in
      if size_sector = 0 then None
      else do {
        let len = pos div size_sector;
        let off = (ucast (pos mod size_sector) :: word16);
        (p, h1) \<leftarrow> new_alloc (ucast (bytes_per_sector (fat_hdr s))) (fheap s);
        (bad, fptr') \<leftarrow> seek_loop (unat len) (current_cluster fptr) fptr s;
        if bad then Some (True, fptr', s\<lparr>fheap := h1\<rparr>)
        else do {
          h2 \<leftarrow> free_alloc p h1;
          Some (False, fptr'\<lparr>offset := off\<rparr>, s\<lparr>fheap := h2\<rparr>) } })"

primrec copy_bytes :: "nat \<Rightarrow> buffer \<Rightarrow> nat \<Rightarrow> buffer \<Rightarrow> nat \<Rightarrow> buffer option" where
  "copy_bytes 0 src a buf pos = Some buf"
| "copy_bytes (Suc n) src a buf pos = do {
     buf' \<leftarrow> copy_bytes n src a buf pos;
     c \<leftarrow> buf_get src (a + n);
     buf_set buf' (pos + n) c }"

text \<open>
  The loop of \<open>fat_read\<close> with \<open>Suc k\<close> clusters to go; the last one copies all that is left
  of \<open>size\<close>, from the current offset on.
\<close>

primrec read_loop :: "nat \<Rightarrow> dword \<Rightarrow> fat_file_ptr \<Rightarrow> buffer \<Rightarrow> nat \<Rightarrow> nat \<Rightarrow> buffer \<Rightarrow> fs
    \<Rightarrow> (fat_file_ptr \<times> buffer) option" where
  "read_loop 0 ds fptr buf pos sz tmp s = Some (fptr, buf)"
| "read_loop (Suc k) ds fptr buf pos sz tmp s = do {
     tmp' \<leftarrow> read_sectors (fdisk s) (cluster_lba s ds (cluster fptr))
               (ucast (bytes_per_sector (fat_hdr s))) (spc s) tmp 0;
     if k = 0
     then do {
       buf' \<leftarrow> copy_bytes sz tmp' (unat (offset fptr)) buf pos;
       Some (fptr\<lparr>offset := offset fptr + of_nat sz\<rparr>, buf') }
     else do {
       let n = min (unat (fat_sizeSector s) - unat (offset fptr)) sz;
       buf' \<leftarrow> copy_bytes n tmp' (unat (offset fptr)) buf pos;
       let off = ucast ((ucast (offset fptr + of_nat n) :: dword) mod fat_sizeSector s);
       c \<leftarrow> fat_getNextCluster (next_cluster fptr) s;
       read_loop k ds (fptr\<lparr>offset := off, next_cluster := c, cluster := c\<rparr>) buf' (pos + n) (sz - n) tmp' s } }"

definition fat_read :: "fat_file_ptr \<Rightarrow> buffer \<Rightarrow> qword \<Rightarrow> fs \<Rightarrow> (fat_file_ptr \<times> buffer \<times> fs) option" where
  "fat_read fptr buf sz s = do {
     ds \<leftarrow> data_start s;
     let size_sector = (ucast (fat_sizeSector s) :: qword);
     if size_sector = 0 then None
     else do {
       let len = (ucast (sz div size_sector) :: dword) + (if sz mod size_sector > 0 then 1 else 0);
       (p, h1) \<leftarrow> new_alloc size_sector (fheap s);
       (fptr', buf') \<leftarrow> read_loop (unat len) ds fptr buf 0 (unat sz)
                          (replicate (unat (fat_sizeSector s)) 0) s;
       h2 \<leftarrow> free_alloc p h1;
       Some (fptr', buf', s\<lparr>fheap := h2\<rparr>) } }"

end
