(* ===== verification/Heap_Inv.thy ===== *)
theory Heap_Inv
  imports Heap
begin

text \<open>
  The heap as a list of segments, each a size and whether it is free, which is the abstract
  state of \<open>kernel/alloc.c\<close>.  \<open>heap_rep h ss\<close> says that the headers in the store of
  \<open>h\<close> are the segments \<open>ss\<close> laid out without gaps from \<open>heap_start\<close> to the end of the
  heap, and that every page of the heap is mapped.  \<open>seg_alloc\<close> and \<open>seg_free\<close> are the
  operations on segments.
\<close>

section \<open>Segments and their headers\<close>

type_synonym seg = "nat \<times> bool"

definition segsum :: "seg list \<Rightarrow> nat" where
  "segsum ss = sum_list (map fst ss)"

lemma segsum_simps [simp]:
  "segsum [] = 0" "segsum (s # ss) = fst s + segsum ss" "segsum (xs @ ys) = segsum xs + segsum ys"
  by (simp_all add: segsum_def)

definition header_of :: "seg \<Rightarrow> qword \<Rightarrow> alloc_block_t" where
  "header_of s z = \<lparr>bsize = of_nat (fst s), available = (if snd s then 1 else 0), bnext = z\<rparr>"

text \<open>The chain of headers of \<open>ss\<close> from address \<open>a\<close>, the last pointing to \<open>z\<close>.\<close>

primrec hchain :: "(qword \<Rightarrow> alloc_block_t option) \<Rightarrow> nat \<Rightarrow> seg list \<Rightarrow> qword \<Rightarrow> bool" where
  "hchain B a [] z \<longleftrightarrow> True"
| "hchain B a (s # ss) z \<longleftrightarrow>
     B (of_nat a) = Some (header_of s (if ss = [] then z else of_nat (a + fst s)))
     \<and> hchain B (a + fst s) ss z"

definition seg_ok :: "seg list \<Rightarrow> bool" where
  "seg_ok ss \<longleftrightarrow> (\<forall>s \<in> set ss. 17 \<le> fst s)"

lemma seg_ok_simps [simp]:
  "seg_ok []" "seg_ok (s # ss) \<longleftrightarrow> 17 \<le> fst s \<and> seg_ok ss" "seg_ok (xs @ ys) \<longleftrightarrow> seg_ok xs \<and> seg_ok ys"
  by (auto simp: seg_ok_def)

lemma hchain_append:
  "hchain B a (xs @ ys) z \<longleftrightarrow>
     hchain B a xs (if ys = [] then z else of_nat (a + segsum xs)) \<and> hchain B (a + segsum xs) ys z"
  by (induction xs arbitrary: a) (auto simp: add.assoc)

lemma unat_of_nat_qword: "a < 2 ^ 64 \<Longrightarrow> unat (of_nat a :: qword) = a"
  by (simp add: unsigned_of_nat take_bit_nat_eq_self)

lemma of_nat_qword_inject:
  "a < 2 ^ 64 \<Longrightarrow> b < 2 ^ 64 \<Longrightarrow> (of_nat a :: qword) = of_nat b \<longleftrightarrow> a = b"
  by (metis unat_of_nat_qword)

lemma hchain_upd:
  assumes "seg_ok ss" and "a + segsum ss \<le> 2 ^ 64" and "q < 2 ^ 64" and "q < a \<or> a + segsum ss \<le> q"
  shows "hchain (B(of_nat q := v)) a ss z \<longleftrightarrow> hchain B a ss z"
  using assms
proof (induction ss arbitrary: a)
  case (Cons s ss)
  have "q \<noteq> a" "a < 2 ^ 64" using Cons.prems by auto
  then have "(of_nat a :: qword) \<noteq> of_nat q" using Cons.prems(3) of_nat_qword_inject by blast
  moreover have "hchain (B(of_nat q := v)) (a + fst s) ss z = hchain B (a + fst s) ss z"
    by (rule Cons.IH) (use Cons.prems in auto)
  ultimately show ?case by (simp only: hchain.simps fun_upd_other not_False_eq_True)
qed simp

text \<open>A request of \<open>k\<close> bytes (payload and header) fits a free segment that is long enough.\<close>

definition fits :: "nat \<Rightarrow> seg \<Rightarrow> bool" where
  "fits k s \<longleftrightarrow> snd s \<and> k \<le> fst s"

text \<open>What becomes of the chosen segment of \<open>n\<close> bytes; \<open>final\<close>: it is the last one.\<close>

definition carve :: "nat \<Rightarrow> nat \<Rightarrow> bool \<Rightarrow> seg list" where
  "carve k n final =
     (if n - k < 17 then [(n, False)]
      else if final \<and> n < 2 * k then [(k, False), (n - k + 0x1000, True)]
      else [(k, False), (n - k, True)])"

fun seg_alloc :: "nat \<Rightarrow> seg list \<Rightarrow> (nat \<times> seg list) option" where
  "seg_alloc k [] = None"
| "seg_alloc k (s # ss) =
     (if fits k s then Some (0, carve k (fst s) (ss = []) @ ss)
      else case seg_alloc k ss of
             None \<Rightarrow> None
           | Some (off, ss') \<Rightarrow> Some (fst s + off, s # ss'))"

text \<open>First fit is the first segment that fits.\<close>

lemma seg_alloc_None: "seg_alloc k ss = None \<longleftrightarrow> (\<forall>s \<in> set ss. \<not> fits k s)"
  by (induction ss) (auto split: option.splits)

lemma seg_alloc_SomeD:
  assumes "seg_alloc k ss = Some (off, ss')"
  obtains pre n post where "ss = pre @ (n, True) # post" and "\<forall>s \<in> set pre. \<not> fits k s" and "k \<le> n"
    and "off = segsum pre" and "ss' = pre @ carve k n (post = []) @ post"
proof -
  have "\<exists>pre n post. ss = pre @ (n, True) # post \<and> (\<forall>s \<in> set pre. \<not> fits k s) \<and> k \<le> n
    \<and> off = segsum pre \<and> ss' = pre @ carve k n (post = []) @ post"
    using assms
  proof (induction ss arbitrary: off ss')
    case (Cons s ss)
    show ?case
    proof (cases "fits k s")
      case True
      then obtain n where n: "s = (n, True)" "k \<le> n" by (cases s) (auto simp: fits_def)
      then show ?thesis
        using Cons.prems True by (intro exI [of _ "[]"] exI [of _ n] exI [of _ ss]) simp
    next
      case False
      then obtain o1 ss1 where 1: "seg_alloc k ss = Some (o1, ss1)" "off = fst s + o1" "ss' = s # ss1"
        using Cons.prems by (auto split: option.splits)
      from Cons.IH [OF 1(1)] obtain pre n post where 2: "ss = pre @ (n, True) # post"
        "\<forall>s \<in> set pre. \<not> fits k s" "k \<le> n" "o1 = segsum pre" "ss1 = pre @ carve k n (post = []) @ post"
        by blast
      show ?thesis
        by (rule exI [of _ "s # pre"], rule exI [of _ n], rule exI [of _ post]) (use 1 2 False in simp)
    qed
  qed simp
  then show ?thesis using that by blast
qed

section \<open>The representation invariant\<close>

definition pages_ok :: "heap \<Rightarrow> bool" where
  "pages_ok h \<longleftrightarrow> page_inv (pages h) \<and> 4096 dvd unat (heap_start h) \<and> 4096 dvd unat (heap_size h)
     \<and> (\<forall>k. k * 4096 < unat (heap_size h) \<longrightarrow> vmap (pages h) (vp (heap_start h) k) \<noteq> 0)"

definition heap_rep :: "heap \<Rightarrow> seg list \<Rightarrow> bool" where
  "heap_rep h ss \<longleftrightarrow> ss \<noteq> [] \<and> seg_ok ss \<and> segsum ss = unat (heap_size h) \<and> segsum ss \<le> 0x10000000
     \<and> 0xFFFF800000000000 \<le> heap_start h \<and> unat (heap_start h) + 0x40000000 \<le> 2 ^ 64
     \<and> hchain (blocks h) (unat (heap_start h)) ss 0 \<and> pages_ok h"

lemma upper_half_bit:
  assumes "0xFFFF800000000000 \<le> (w :: qword)"
  shows "bit w 47"
proof -
  have "0xFFFF800000000000 \<le> unat w" "unat w < 2 ^ 64"
    using assms unsigned_less [of w] by (simp_all add: word_le_nat_alt)
  then have "unat w div 2 ^ 47 = 131071" by (intro div_nat_eqI) simp_all
  then have "odd (unat w div 2 ^ 47)" by simp
  then have "bit (unat w) 47" by (simp add: bit_iff_odd)
  then show ?thesis by (simp add: bit_unsigned_iff)
qed

lemma upper_half_not_window: "0xFFFF800000000000 \<le> virt \<Longrightarrow> vpage virt \<noteq> window_page"
proof
  assume "0xFFFF800000000000 \<le> virt" and "vpage virt = window_page"
  then have b: "bit virt 47" and zero: "PMLT4_INDEX virt = 0"
    using upper_half_bit by (simp_all add: vpage_def window_page_def)
  have "bit (PMLT4_INDEX virt) 8" using b unfolding PMLT4_INDEX_def by (simp add: bit_simps)
  then show False unfolding zero by simp
qed

lemma ok_heap_flags: "ok_flags heap_flags"
  by (simp add: ok_flags_def heap_flags_def)

lemma ok_flags_nonzero: "ok_flags flags \<Longrightarrow> (a :: qword) OR ucast flags \<noteq> 0"
proof -
  assume "ok_flags flags"
  then have "bit (a OR ucast flags) 0" by (simp add: ok_flags_def bit_simps)
  then show ?thesis by auto
qed

text \<open>Data frames and the pages that are mapped stay as they are.\<close>

definition pages_kept :: "pstate \<Rightarrow> pstate \<Rightarrow> bool" where
  "pages_kept ps ps' \<longleftrightarrow> keeps ps ps' \<and> (\<forall>v. vmap ps v \<noteq> 0 \<longrightarrow> vmap ps' v = vmap ps v)"

lemma pages_keptD:
  assumes "pages_kept ps ps'"
  shows "keeps ps ps'" and "vmap ps v \<noteq> 0 \<Longrightarrow> vmap ps' v = vmap ps v"
  using assms unfolding pages_kept_def by blast+

lemma pages_kept_refl [simp]: "pages_kept ps ps"
  by (simp add: pages_kept_def keeps_refl)

lemma pages_kept_trans: "pages_kept ps ps' \<Longrightarrow> pages_kept ps' ps'' \<Longrightarrow> pages_kept ps ps''"
  unfolding pages_kept_def using keeps_trans by metis

text \<open>Mapping one page of the kernel's half.\<close>

lemma map_heap_page:
  assumes inv: "page_inv ps" and free: "4 \<le> free_count ps" and high: "0xFFFF800000000000 \<le> virt"
  shows "\<exists>ps'. page_mapv virt 0x1000 heap_flags ps = Some ps' \<and> page_inv ps' \<and> vmap ps' (vpage virt) \<noteq> 0
    \<and> pages_kept ps ps' \<and> free_count ps \<le> free_count ps' + 4
    \<and> (\<forall>v. v \<noteq> vpage virt \<longrightarrow> vmap ps' v = vmap ps v)"
proof -
  have n: "page_count 0x1000 = 1" by (simp add: page_count_def)
  obtain m ps' where "page_mapv_page virt heap_flags ps = Some ps'" "page_inv ps'" "keeps ps ps'"
    "vmap ps' = (if vmap ps (vpage virt) = 0 then (vmap ps)(vpage virt := frame_of m OR ucast heap_flags) else vmap ps)"
    "free_count ps \<le> free_count ps' + 4"
    using mapv_page_ok [OF inv ok_heap_flags free upper_half_not_window [OF high]] by blast
  then show ?thesis
    using ok_flags_nonzero [OF ok_heap_flags, of "frame_of m"] by (auto simp: page_mapv_def n pages_kept_def)
qed

text \<open>There are page frames and addresses for \<open>g\<close> more pages.\<close>

definition heap_room :: "nat \<Rightarrow> heap \<Rightarrow> bool" where
  "heap_room g h \<longleftrightarrow> 4 * g \<le> free_count (pages h) \<and> unat (heap_size h) + g * 0x1000 \<le> 0x10000000"

lemma hchain_cong:
  assumes "seg_ok ss" and "\<forall>q. a \<le> q \<and> q < a + segsum ss \<longrightarrow> B' (of_nat q) = B (of_nat q)"
  shows "hchain B' a ss z \<longleftrightarrow> hchain B a ss z"
  using assms
proof (induction ss arbitrary: a)
  case (Cons s ss)
  have "B' (of_nat a) = B (of_nat a)" using Cons.prems by simp
  moreover have "hchain B' (a + fst s) ss z = hchain B (a + fst s) ss z"
    by (rule Cons.IH) (use Cons.prems in auto)
  ultimately show ?case by (simp only: hchain.simps)
qed simp

text \<open>Replacing the segments \<open>mid\<close> by \<open>new\<close>.\<close>

lemma hchain_replace:
  assumes chain: "hchain B S (pre @ mid @ post) 0" and ok: "seg_ok (pre @ mid @ post)" "mid \<noteq> []" "new \<noteq> []"
    and same: "\<forall>q. S \<le> q \<and> q < S + segsum (pre @ mid @ post) \<and> (q < S + segsum pre \<or> S + segsum (pre @ mid) \<le> q)
      \<longrightarrow> B' (of_nat q) = B (of_nat q)"
    and new: "hchain B' (S + segsum pre) new (if post = [] then 0 else of_nat (S + segsum (pre @ new)))"
    and len: "post = [] \<or> segsum new = segsum mid"
  shows "hchain B' S (pre @ new @ post) 0"
proof -
  have "hchain B S pre (of_nat (S + segsum pre))"
    and post: "hchain B (S + segsum pre + segsum mid) post 0"
    using chain ok(2) by (auto simp: hchain_append)
  moreover have "hchain B' S pre z \<longleftrightarrow> hchain B S pre z" for z
    by (rule hchain_cong) (use ok same in auto)
  moreover have "hchain B' (S + segsum pre + segsum mid) post 0"
    using post hchain_cong [of post "S + segsum pre + segsum mid" B' B 0] ok same by auto
  ultimately show ?thesis
    using new ok(3) len by (auto simp: hchain_append add.assoc)
qed

lemma heap_rep_replace:
  assumes rep: "heap_rep h (pre @ mid @ post)" and A: "A = unat (heap_start h) + segsum pre"
    and ne: "mid \<noteq> []" "new \<noteq> []" and ok: "seg_ok new" "segsum new = segsum mid"
    and fields: "heap_start h' = heap_start h" "heap_size h' = heap_size h" "pages h' = pages h"
    and same: "\<And>q. q < 2 ^ 64 \<Longrightarrow> q < A \<or> A + segsum mid \<le> q \<Longrightarrow> blocks h' (of_nat q) = blocks h (of_nat q)"
    and new: "hchain (blocks h') A new (if post = [] then 0 else of_nat (A + segsum new))"
  shows "heap_rep h' (pre @ new @ post)"
proof -
  have "hchain (blocks h') (unat (heap_start h)) (pre @ new @ post) 0"
    by (rule hchain_replace [OF _ _ ne])
      (use rep ok same new A in \<open>auto simp: heap_rep_def add.assoc\<close>)
  then show ?thesis
    using rep ok fields ne by (auto simp: heap_rep_def pages_ok_def)
qed

lemma upd_other:
  "q < 2 ^ 64 \<Longrightarrow> a < 2 ^ 64 \<Longrightarrow> q \<noteq> a \<Longrightarrow> (B(of_nat a := v)) (of_nat q :: qword) = B (of_nat q)"
  using of_nat_qword_inject by simp

lemma heap_page_address:
  assumes "4096 dvd unat (heap_size h)"
  shows "heap_start h + heap_size h = heap_start h + of_nat (unat (heap_size h) div 4096) * PAGE_SIZE"
proof -
  have "unat (heap_size h) = unat (heap_size h) div 4096 * 4096" using assms by simp
  from arg_cong [OF this, of "of_nat :: nat \<Rightarrow> qword"]
  have "heap_size h = of_nat (unat (heap_size h) div 4096 * 4096)" by simp
  then show ?thesis by (metis of_nat_mult of_nat_numeral)
qed

lemma heap_rep_bounds:
  assumes "heap_rep h ss"
  shows "0xFFFF800000000000 \<le> unat (heap_start h)" and "unat (heap_start h) + 0x40000000 \<le> 2 ^ 64"
    and "unat (heap_size h) = segsum ss" and "segsum ss \<le> 0x10000000" and "seg_ok ss" and "ss \<noteq> []"
    and "hchain (blocks h) (unat (heap_start h)) ss 0"
  using assms by (simp_all add: heap_rep_def word_le_nat_alt)

text \<open>Mapping the page after the end of the heap.\<close>

lemma extend_pages:
  assumes rep: "heap_rep h ss" and room: "heap_room (Suc g) h"
  shows "\<exists>ps. page_mapv (heap_start h + heap_size h) 0x1000 heap_flags (pages h) = Some ps \<and> pages_kept (pages h) ps
    \<and> (\<forall>h'. heap_start h' = heap_start h \<longrightarrow> heap_size h' = heap_size h + 0x1000 \<longrightarrow> pages h' = ps \<longrightarrow>
         pages_ok h' \<and> heap_room g h' \<and> unat (heap_size h') = unat (heap_size h) + 0x1000)"
proof -
  note b = heap_rep_bounds [OF rep]
  have ok: "pages_ok h" using rep by (simp add: heap_rep_def)
  have "unat (heap_start h + heap_size h) = unat (heap_start h) + unat (heap_size h)"
    using b by (intro unat_plus_simple [THEN iffD1]) (simp add: no_olen_add_nat)
  then have high: "0xFFFF800000000000 \<le> heap_start h + heap_size h"
    using b by (simp add: word_le_nat_alt)
  obtain ps where ps: "page_mapv (heap_start h + heap_size h) 0x1000 heap_flags (pages h) = Some ps"
    "page_inv ps" "vmap ps (vpage (heap_start h + heap_size h)) \<noteq> 0"
    "pages_kept (pages h) ps" "free_count (pages h) \<le> free_count ps + 4"
    using map_heap_page [OF _ _ high, of "pages h"] ok room by (auto simp: pages_ok_def heap_room_def)
  have sz: "unat (heap_size h + 0x1000) = unat (heap_size h) + 0x1000"
    using b by (simp add: unat_word_ariths)
  have last: "vmap ps (vp (heap_start h) (unat (heap_size h) div 4096)) \<noteq> 0"
    using ps(3) heap_page_address [of h] ok by (simp add: pages_ok_def vp_def)
  have "vmap ps (vp (heap_start h) k) \<noteq> 0" if "k * 4096 < unat (heap_size h) + 4096" for k
  proof (cases "k * 4096 < unat (heap_size h)")
    case True
    then have "vmap (pages h) (vp (heap_start h) k) \<noteq> 0" using ok by (simp add: pages_ok_def)
    then show ?thesis using pages_keptD(2) [OF ps(4)] by simp
  next
    case False
    then have "k = unat (heap_size h) div 4096"
      using that ok by (auto simp: pages_ok_def dvd_def)
    then show ?thesis using last by simp
  qed
  then show ?thesis
    using ps(1,2,4,5) ok room sz by (intro exI [of _ ps]) (auto simp: pages_ok_def heap_room_def)
qed

text \<open>Replacing the last segments by longer ones after the heap has got a page.\<close>

lemma heap_rep_extend:
  assumes rep: "heap_rep h (pre @ mid)" and A: "A = unat (heap_start h) + segsum pre"
    and ne: "mid \<noteq> []" "new \<noteq> []" and ok: "seg_ok new" "segsum new = segsum mid + 0x1000"
    and room: "heap_room (Suc g) h"
    and fields: "heap_start h' = heap_start h" "unat (heap_size h') = unat (heap_size h) + 0x1000" "pages_ok h'"
    and same: "\<And>q. q < 2 ^ 64 \<Longrightarrow> q < A \<Longrightarrow> blocks h' (of_nat q) = blocks h (of_nat q)"
    and new: "hchain (blocks h') A new 0"
  shows "heap_rep h' (pre @ new)"
proof -
  have "hchain (blocks h') (unat (heap_start h)) (pre @ new @ []) 0"
    by (rule hchain_replace [of "blocks h" _ pre mid "[]", OF _ _ ne])
      (use rep ok same new A in \<open>auto simp: heap_rep_def add.assoc\<close>)
  then show ?thesis
    using rep ok fields ne room by (auto simp: heap_rep_def heap_room_def)
qed

end
