(* ===== verification/Heap_Alloc.thy ===== *)
theory Heap_Alloc
  imports Heap_Inv
begin

text \<open>
  The operations of \<open>kernel/alloc.c\<close> refine the operations on segments.
\<close>

section \<open>The scan\<close>

lemma header_simps [simp]:
  "bsize (header_of s z) = of_nat (fst s)" "bnext (header_of s z) = z"
  "available (header_of s z) = 1 \<longleftrightarrow> snd s"
  by (simp_all add: header_of_def)

lemma of_nat_less_qword:
  "a < 2 ^ 64 \<Longrightarrow> b < 2 ^ 64 \<Longrightarrow> (of_nat a :: qword) < of_nat b \<longleftrightarrow> a < b"
  by (simp add: word_less_nat_alt unat_of_nat_qword)

text \<open>The two tests of the loop, on a header.\<close>

lemma fit_tests:
  assumes "n < 2 ^ 64" and "k < 2 ^ 64" and "sz + 17 = (of_nat k :: qword)"
  shows "(of_nat n = sz + 17) \<longleftrightarrow> n = k" and "(sz + 17 < of_nat n) \<longleftrightarrow> k < n"
  using assms by (simp_all add: of_nat_qword_inject of_nat_less_qword)

lemma block_step:
  assumes b: "blocks h (of_nat a) = Some (header_of s z)" and a: "0 < a" "a < 2 ^ 64"
    and n: "fst s < 2 ^ 64" and k: "k < 2 ^ 64" "sz + 17 = of_nat k"
  shows "\<not> fits k s \<Longrightarrow> alloc_scan sz (of_nat a) e h =
      (if z = 0 then alloc_scan sz 0 (of_nat a) (h\<lparr>heap_end := of_nat a\<rparr>) else alloc_scan sz z e h)"
    and "snd s \<Longrightarrow> fst s = k \<Longrightarrow> alloc_scan sz (of_nat a) e h =
      Some (Inl (of_nat a + 17), set_block (of_nat a) ((header_of s z)\<lparr>available := 0\<rparr>) h)"
    and "snd s \<Longrightarrow> k < fst s \<Longrightarrow> alloc_scan sz (of_nat a) e h =
      do { (p, h') \<leftarrow> alloc_split sz (of_nat a) (header_of s z) h; Some (Inl p, h') }"
proof -
  have "(of_nat a :: qword) \<noteq> of_nat 0" using a of_nat_qword_inject [of a 0] by simp
  then have a0: "(of_nat a :: qword) \<noteq> 0" by simp
  note unfold = alloc_scan.simps [of sz "of_nat a" e h]
  show "\<not> fits k s \<Longrightarrow> alloc_scan sz (of_nat a) e h =
      (if z = 0 then alloc_scan sz 0 (of_nat a) (h\<lparr>heap_end := of_nat a\<rparr>) else alloc_scan sz z e h)"
    by (subst unfold) (auto simp: a0 b fit_tests [OF n k] fits_def)
  show "snd s \<Longrightarrow> fst s = k \<Longrightarrow> alloc_scan sz (of_nat a) e h =
      Some (Inl (of_nat a + 17), set_block (of_nat a) ((header_of s z)\<lparr>available := 0\<rparr>) h)"
    by (subst unfold) (simp add: a0 b fit_tests [OF n k] k(2))
  show "snd s \<Longrightarrow> k < fst s \<Longrightarrow> alloc_scan sz (of_nat a) e h =
      do { (p, h') \<leftarrow> alloc_split sz (of_nat a) (header_of s z) h; Some (Inl p, h') }"
    by (subst unfold) (simp add: a0 b fit_tests [OF n k])
qed

text \<open>Segments that do not fit are passed over.\<close>

lemma scan_skip:
  assumes "hchain (blocks h) a (pre @ s # post) 0" and "seg_ok pre" and "0 < a"
    and "a + segsum (pre @ s # post) \<le> 2 ^ 64" and "\<forall>s \<in> set pre. \<not> fits k s"
    and k: "k < 2 ^ 64" "sz + 17 = of_nat k" and "0 < fst s"
  shows "alloc_scan sz (of_nat a) e h = alloc_scan sz (of_nat (a + segsum pre)) e h"
  using assms(1-5)
proof (induction pre arbitrary: a)
  case (Cons t pre)
  have b: "blocks h (of_nat a) = Some (header_of t (of_nat (a + fst t)))"
    using Cons.prems(1) by simp
  have next_ne: "(of_nat (a + fst t) :: qword) \<noteq> 0"
    using of_nat_qword_inject [of "a + fst t" 0] Cons.prems(3,4) assms(8) by simp
  have "alloc_scan sz (of_nat a) e h = alloc_scan sz (of_nat (a + fst t)) e h"
    using block_step(1) [OF b Cons.prems(3) _ _ k, of e] next_ne Cons.prems(4,5) assms(8)
    by (simp del: of_nat_add)
  also have "\<dots> = alloc_scan sz (of_nat (a + fst t + segsum pre)) e h"
    by (rule Cons.IH) (use Cons.prems in \<open>simp_all del: of_nat_add\<close>)
  finally show ?case by (simp add: add.assoc del: of_nat_add)
qed simp

lemma scan_none:
  assumes chain: "hchain (blocks h) a ss 0" and ok: "seg_ok ss" "ss \<noteq> []" and a: "0 < a"
    and small: "a + segsum ss \<le> 2 ^ 64" and none: "\<forall>s \<in> set ss. \<not> fits k s"
    and k: "k < 2 ^ 64" "sz + 17 = of_nat k"
  shows "alloc_scan sz (of_nat a) e h =
    Some (Inr (of_nat (a + segsum (butlast ss))), h\<lparr>heap_end := of_nat (a + segsum (butlast ss))\<rparr>)"
proof -
  obtain pre s where ss: "ss = pre @ [s]" using ok(2) by (metis append_butlast_last_id)
  then have s: "17 \<le> fst s" "seg_ok pre" using ok by simp_all
  let ?a = "a + segsum pre"
  have "alloc_scan sz (of_nat a) e h = alloc_scan sz (of_nat ?a) e h"
    by (rule scan_skip [OF _ s(2) a _ _ k, of h s "[]"]) (use chain small none ss s(1) in simp_all)
  also have "\<dots> = alloc_scan sz 0 (of_nat ?a) (h\<lparr>heap_end := of_nat ?a\<rparr>)"
  proof -
    have "blocks h (of_nat ?a) = Some (header_of s 0)"
      using chain unfolding ss hchain_append by simp
    moreover have "0 < ?a" "?a < 2 ^ 64" "fst s < 2 ^ 64" "\<not> fits k s"
      using a small none s(1) unfolding ss by simp_all
    ultimately show ?thesis
      using block_step(1) [of h ?a s 0 k sz e, OF _ _ _ _ k] by (simp del: of_nat_add)
  qed
  also have "\<dots> = Some (Inr (of_nat ?a), h\<lparr>heap_end := of_nat ?a\<rparr>)"
    by (subst alloc_scan.simps) simp
  finally show ?thesis by (simp add: ss del: of_nat_add)
qed

section \<open>Taking a segment\<close>

fun overruns :: "nat \<Rightarrow> seg list \<Rightarrow> bool" where
  "overruns k [] \<longleftrightarrow> False"
| "overruns k (s # ss) \<longleftrightarrow>
     (if fits k s then ss \<noteq> [] \<and> 17 \<le> fst s - k \<and> fst s - k + segsum ss < k else overruns k ss)"

text \<open>
  \<open>overruns k ss\<close>: the segment chosen for \<open>k\<close> bytes is not the last one, and what is left
  of the heap after the new block is shorter than \<open>k\<close>, so that the code extends the heap.
\<close>

lemma overruns_append:
  "\<forall>s \<in> set pre. \<not> fits k s \<Longrightarrow> k \<le> n \<Longrightarrow>
   overruns k (pre @ (n, True) # post) \<longleftrightarrow> post \<noteq> [] \<and> 17 \<le> n - k \<and> n - k + segsum post < k"
  by (induction pre) (auto simp: fits_def)

lemma set_block_simps [simp]:
  "heap_start (set_block p b h) = heap_start h" "heap_size (set_block p b h) = heap_size h"
  "pages (set_block p b h) = pages h" "blocks (set_block p b h) = (blocks h)(p := Some b)"
  "heap_end (set_block p b h) = heap_end h"
  by (simp_all add: set_block_def)

lemma heap_rep_heap_end [simp]: "heap_rep (h\<lparr>heap_end := e\<rparr>) ss \<longleftrightarrow> heap_rep h ss"
  by (simp add: heap_rep_def pages_ok_def)

lemma heap_room_heap_end [simp]: "heap_room g (h\<lparr>heap_end := e\<rparr>) \<longleftrightarrow> heap_room g h"
  by (simp add: heap_room_def)

lemma rep_middle:
  assumes "heap_rep h (pre @ s # post)"
  shows "blocks h (of_nat (unat (heap_start h) + segsum pre)) =
    Some (header_of s (if post = [] then 0 else of_nat (unat (heap_start h) + segsum pre + fst s)))"
  using heap_rep_bounds(7) [OF assms] unfolding hchain_append by (simp del: of_nat_add)

text \<open>The whole segment is taken.\<close>

lemma take_whole:
  assumes rep: "heap_rep h (pre @ (n, True) # post)"
  defines "a \<equiv> unat (heap_start h) + segsum pre"
  defines "z \<equiv> (if post = [] then 0 else of_nat (a + n) :: qword)"
  shows "heap_rep (set_block (of_nat a) ((header_of (n, True) z)\<lparr>available := 0\<rparr>) h) (pre @ (n, False) # post)"
proof -
  note b = heap_rep_bounds [OF rep]
  let ?h = "set_block (of_nat a) ((header_of (n, True) z)\<lparr>available := 0\<rparr>) h"
  have a: "a < 2 ^ 64" using b by (simp add: a_def)
  have n: "17 \<le> n" using b(5) by simp
  have "heap_rep ?h (pre @ [(n, False)] @ post)"
  proof (rule heap_rep_replace [of h pre "[(n, True)]" post a])
    show "blocks ?h (of_nat q) = blocks h (of_nat q)" if "q < 2 ^ 64" "q < a \<or> a + segsum [(n, True)] \<le> q" for q
      unfolding set_block_simps by (rule upd_other) (use that a n in auto)
    show "hchain (blocks ?h) a [(n, False)] (if post = [] then 0 else of_nat (a + segsum [(n, False)]))"
      by (simp add: z_def header_of_def)
  qed (use rep n in \<open>simp_all add: a_def\<close>)
  then show ?thesis by simp
qed

lemma ucast_of_nat_dword: "k < 2 ^ 32 \<Longrightarrow> (ucast (of_nat k :: dword) :: qword) = of_nat k"
  by (simp add: unsigned_of_nat take_bit_nat_eq_self)

lemma ucast_of_nat_qword: "(ucast (of_nat k :: qword) :: dword) = of_nat k"
  by (rule bit_eqI) (auto simp: bit_simps)

text \<open>\<open>alloc_split\<close> in natural numbers.\<close>

lemma split_small:
  assumes k: "k < n" "n \<le> 0x10000000" "sz + 17 = of_nat k" and "n - k < 17"
  shows "alloc_split sz cur (header_of (n, f) z) h =
    Some (cur + 17, set_block cur ((header_of (n, f) z)\<lparr>available := 0\<rparr>) h)"
proof -
  have "(ucast (of_nat n - of_nat k :: qword) :: dword) = of_nat (n - k)"
    using k(1) ucast_of_nat_qword [of "n - k"] by simp
  moreover have "(of_nat (n - k) :: dword) < 17"
    using assms(4) by (simp add: word_less_nat_alt unsigned_of_nat take_bit_nat_eq_self)
  ultimately show ?thesis
    using k by (simp add: alloc_split_def ucast_of_nat_qword ucast_of_nat_dword)
qed

text \<open>The two headers a split writes.\<close>

definition split_headers :: "nat \<Rightarrow> nat \<Rightarrow> nat \<Rightarrow> qword \<Rightarrow> heap \<Rightarrow> heap" where
  "split_headers A k m z h =
     (let h' = set_block (of_nat A) (header_of (k, False) (of_nat (A + k)))
                 (set_block (of_nat (A + k)) (header_of (m, True) z) h)
      in if z = 0 then h'\<lparr>heap_end := of_nat (A + k)\<rparr> else h')"

lemma split_headers_simps [simp]:
  "heap_start (split_headers A k m z h) = heap_start h" "heap_size (split_headers A k m z h) = heap_size h"
  "pages (split_headers A k m z h) = pages h"
  "blocks (split_headers A k m z h) = (blocks h)(of_nat (A + k) := Some (header_of (m, True) z),
     of_nat A := Some (header_of (k, False) (of_nat (A + k))))"
  by (simp_all add: split_headers_def Let_def del: of_nat_add)

lemma set_block_again: "set_block p b (set_block q c (set_block p d h)) = set_block p b (set_block q c h)"
  by (auto simp: set_block_def fun_eq_iff)

lemma set_block_fields:
  "(set_block p b h)\<lparr>pages := ps, heap_size := n\<rparr> = set_block p b (h\<lparr>pages := ps, heap_size := n\<rparr>)"
  by (simp add: set_block_def)

lemma header_update: "header_of (k, False) z = \<lparr>bsize = of_nat k, available = 0, bnext = z\<rparr>"
  "header_of (k, True) z = \<lparr>bsize = of_nat k, available = 1, bnext = z\<rparr>"
  by (simp_all add: header_of_def)

lemma split_nums:
  assumes k: "17 \<le> k" "k + m \<le> 0x10000000" "sz + 17 = of_nat k" and m: "17 \<le> m"
    and A: "A + 2 * k < 2 ^ 64" and E: "heap_start h + heap_size h = of_nat e" "e < 2 ^ 64"
  shows "alloc_split sz (of_nat A) (header_of (k + m, True) z) h =
    (if e < A + 2 * k
     then do {
       ps \<leftarrow> page_mapv (heap_start h + heap_size h) 0x1000 heap_flags (pages h);
       let r = unat (ucast (of_nat e + 0x1000 - of_nat (A + k) :: qword) :: dword);
       Some (of_nat A + 17, split_headers A k r z (h\<lparr>pages := ps, heap_size := heap_size h + 0x1000\<rparr>)) }
     else Some (of_nat A + 17, split_headers A k m z h))"
proof -
  have r: "(ucast (of_nat (k + m) - of_nat k :: qword) :: dword) = of_nat m"
    using ucast_of_nat_qword [of m] by simp
  have r17: "\<not> (of_nat m :: dword) < 17" and rm: "(ucast (of_nat m :: dword) :: qword) = of_nat m"
    using m k(2) by (simp_all add: word_less_nat_alt unsigned_of_nat take_bit_nat_eq_self)
  have kk: "(ucast (ucast (sz + 17) :: dword) :: qword) = of_nat k"
    using k by (simp add: ucast_of_nat_qword ucast_of_nat_dword)
  have lt: "(of_nat e :: qword) < of_nat A + of_nat k + of_nat k \<longleftrightarrow> e < A + 2 * k"
  proof -
    have "A + k + k < 2 ^ 64" using A by simp
    then have "(of_nat e :: qword) < of_nat (A + k + k) \<longleftrightarrow> e < A + k + k"
      by (rule of_nat_less_qword [OF E(2)])
    then show ?thesis by (simp only: of_nat_add mult_2 add.assoc)
  qed
  have ne: "(of_nat A :: qword) \<noteq> of_nat A + of_nat k"
    using of_nat_qword_inject [of A "A + k"] A k(1) by simp
  have u: "of_nat (unat (w :: dword)) = (ucast w :: qword)" for w
    by simp
  have e1: "heap_start h + (heap_size h + 0x1000) = of_nat e + 0x1000"
    using E(1) by (simp add: add.assoc [symmetric])
  have fields: "heap_start (h\<lparr>pages := y, heap_size := w\<rparr>) = heap_start h"
    "heap_size (h\<lparr>pages := y, heap_size := w\<rparr>) = w" for y w
    by simp_all
  show ?thesis
  proof (cases "e < A + 2 * k")
    case False
    show ?thesis
      unfolding alloc_split_def Let_def header_simps fst_conv set_block_simps kk r if_not_P [OF r17] rm E(1) lt
        if_not_P [OF False] bind.bind_lunit prod.case if_not_P [OF ne]
      by (simp add: split_headers_def set_block_again header_update Let_def)
  next
    case True
    show ?thesis
      unfolding alloc_split_def Let_def header_simps fst_conv set_block_simps kk r if_not_P [OF r17] rm E(1) lt
        if_P [OF True] if_not_P [OF ne] bind_assoc bind.bind_lunit prod.case
      unfolding set_block_fields split_headers_def set_block_again header_update u of_nat_add Let_def
      unfolding set_block_simps fields e1 by (rule refl)
  qed
qed

text \<open>The segments after a split, without and with a page more.\<close>

lemma split_rep:
  assumes rep: "heap_rep h (pre @ (k + m, True) # post)" and k: "17 \<le> k" "17 \<le> m"
    and A: "A = unat (heap_start h) + segsum pre" and z: "z = (if post = [] then 0 else of_nat (A + (k + m)))"
  shows "heap_rep (split_headers A k m z h) (pre @ [(k, False), (m, True)] @ post)"
proof -
  note b = heap_rep_bounds [OF rep]
  have a: "A + k < 2 ^ 64" using b k by (simp add: A)
  show ?thesis
  proof (rule heap_rep_replace [of h pre "[(k + m, True)]" post A])
    show "blocks (split_headers A k m z h) (of_nat q) = blocks h (of_nat q)"
      if "q < 2 ^ 64" "q < A \<or> A + segsum [(k + m, True)] \<le> q" for q
    proof -
      have "q \<noteq> A + k" "q \<noteq> A" "A < 2 ^ 64" using that k a by auto
      then show ?thesis
        unfolding split_headers_simps using a by (simp only: upd_other [OF that(1)] simp_thms)
    qed
    have "(of_nat (A + k) :: qword) \<noteq> of_nat A" using of_nat_qword_inject [of "A + k" A] a k by simp
    then show "hchain (blocks (split_headers A k m z h)) A [(k, False), (m, True)]
        (if post = [] then 0 else of_nat (A + segsum [(k, False), (m, True)]))"
      unfolding split_headers_simps z by (simp add: add.assoc)
  qed (use rep k A in simp_all)
qed

lemma split_rep_extend:
  assumes rep: "heap_rep h (pre @ [(k + m, True)])" and k: "17 \<le> k" "17 \<le> m"
    and A: "A = unat (heap_start h) + segsum pre" and room: "heap_room (Suc g) h"
    and fields: "heap_start h' = heap_start h" "unat (heap_size h') = unat (heap_size h) + 0x1000" "pages_ok h'"
    and blocks: "blocks h' = blocks h"
  shows "heap_rep (split_headers A k (m + 0x1000) 0 h') (pre @ [(k, False), (m + 0x1000, True)])"
proof -
  note b = heap_rep_bounds [OF rep]
  have a: "A + k < 2 ^ 64" using b k by (simp add: A)
  show ?thesis
  proof (rule heap_rep_extend [of h pre "[(k + m, True)]" A _ g])
    show "blocks (split_headers A k (m + 0x1000) 0 h') (of_nat q) = blocks h (of_nat q)"
      if "q < 2 ^ 64" "q < A" for q
    proof -
      have "q \<noteq> A + k" "q \<noteq> A" "A < 2 ^ 64" using that a by auto
      then show ?thesis
        unfolding split_headers_simps blocks using a by (simp only: upd_other [OF that(1)] simp_thms)
    qed
    have "(of_nat (A + k) :: qword) \<noteq> of_nat A" using of_nat_qword_inject [of "A + k" A] a k by simp
    then show "hchain (blocks (split_headers A k (m + 0x1000) 0 h')) A [(k, False), (m + 0x1000, True)] 0"
      unfolding split_headers_simps by (simp add: add.assoc)
    show "pages_ok (split_headers A k (m + 0x1000) 0 h')"
      using fields(3) by (simp add: pages_ok_def)
  qed (use rep k A room fields in simp_all)
qed

text \<open>The branch of the loop for the segment that fits.\<close>

lemma serve_split:
  assumes rep: "heap_rep h (pre @ (k + m, True) # post)" and k: "17 \<le> k" "k \<le> 0x10000000" "17 \<le> m"
    and A: "A = unat (heap_start h) + segsum pre" and z: "z = (if post = [] then 0 else of_nat (A + (k + m)))"
    and sz: "sz + 17 = of_nat k" and room: "heap_room (Suc g) h"
    and over: "post \<noteq> [] \<longrightarrow> k \<le> m + segsum post"
  shows "\<exists>h'. alloc_split sz (of_nat A) (header_of (k + m, True) z) h = Some (of_nat A + 17, h')
    \<and> heap_rep h' (pre @ carve k (k + m) (post = []) @ post) \<and> heap_start h' = heap_start h \<and> heap_room g h'
    \<and> (2 * k \<le> k + m + segsum post \<longrightarrow> pages h' = pages h) \<and> pages_kept (pages h) (pages h')"
proof -
  note b = heap_rep_bounds [OF rep]
  let ?e = "unat (heap_start h) + unat (heap_size h)"
  have km: "k + m \<le> 0x10000000" "A + 2 * k < 2 ^ 64" "?e < 2 ^ 64"
    using b k by (simp_all add: A)
  have e: "heap_start h + heap_size h = of_nat ?e" by simp
  have e_val: "?e = A + k + m + segsum post" using b(3) by (simp add: A)
  note split = split_nums [OF k(1) km(1) sz k(3) km(2) e km(3)]
  show ?thesis
  proof (cases "?e < A + 2 * k")
    case False
    have "heap_room g (split_headers A k m z h)" using room by (simp add: heap_room_def)
    moreover have "carve k (k + m) (post = []) = [(k, False), (m, True)]"
      using False e_val k(3) by (auto simp: carve_def)
    ultimately show ?thesis
      using False split split_rep [OF rep k(1,3) A z] by simp
  next
    case True
    then have post: "post = []" and m: "m < k" using over e_val by auto
    obtain ps where kept: "pages_kept (pages h) ps"
      and ps: "page_mapv (heap_start h + heap_size h) 0x1000 heap_flags (pages h) = Some ps"
      "\<forall>h'. heap_start h' = heap_start h \<longrightarrow> heap_size h' = heap_size h + 0x1000 \<longrightarrow> pages h' = ps \<longrightarrow>
         pages_ok h' \<and> heap_room g h' \<and> unat (heap_size h') = unat (heap_size h) + 0x1000"
      using extend_pages [OF rep room] by blast
    let ?h = "h\<lparr>pages := ps, heap_size := heap_size h + 0x1000\<rparr>"
    have ok: "pages_ok ?h" "heap_room g ?h" "unat (heap_size ?h) = unat (heap_size h) + 0x1000"
      using ps(2) [rule_format, of ?h] by simp_all
    have "?e = A + k + m" using e_val post by simp
    then have d: "of_nat ?e + 0x1000 - of_nat (A + k) = (of_nat (m + 0x1000) :: qword)"
      by (simp only: of_nat_add) simp
    have r: "unat (ucast (of_nat ?e + 0x1000 - of_nat (A + k) :: qword) :: dword) = m + 0x1000"
      unfolding d ucast_of_nat_qword
      using km(1) by (simp only: unsigned_of_nat take_bit_nat_eq_self of_nat_id)
        (simp add: take_bit_nat_eq_self)
    have "heap_rep (split_headers A k (m + 0x1000) 0 ?h) (pre @ [(k, False), (m + 0x1000, True)])"
      by (rule split_rep_extend [OF _ k(1,3) A room]) (use rep post ok in simp_all)
    moreover have "carve k (k + m) (post = []) = [(k, False), (m + 0x1000, True)]"
      using m post k(3) by (simp add: carve_def)
    moreover have "heap_room g (split_headers A k (m + 0x1000) 0 ?h)" using ok(2) by (simp add: heap_room_def)
    moreover have "alloc_split sz (of_nat A) (header_of (k + m, True) z) h
        = Some (of_nat A + 17, split_headers A k (m + 0x1000) 0 ?h)"
      unfolding split if_P [OF True] ps(1) bind.bind_lunit Let_def r using z post by simp
    ultimately show ?thesis using post m kept by simp
  qed
qed

lemma serve:
  assumes rep: "heap_rep h ss" and sz: "0 < unat sz" "unat sz + 17 = k" "k \<le> 0x10000000"
    and spec: "seg_alloc k ss = Some (off, ss')" "\<not> overruns k ss" and room: "heap_room (Suc g) h"
  shows "\<exists>h'. new_alloc sz h = Some (heap_start h + of_nat (off + 17), h') \<and> heap_rep h' ss'
    \<and> heap_start h' = heap_start h \<and> heap_room g h' \<and> (off + 2 * k \<le> unat (heap_size h) \<longrightarrow> pages h' = pages h)
    \<and> pages_kept (pages h) (pages h')"
proof -
  obtain pre n post where ss: "ss = pre @ (n, True) # post" "\<forall>s \<in> set pre. \<not> fits k s" "k \<le> n"
    "off = segsum pre" "ss' = pre @ carve k n (post = []) @ post"
    by (rule seg_alloc_SomeD [OF spec(1)])
  note rep' = rep [unfolded ss(1)]
  note b = heap_rep_bounds [OF rep']
  define S where "S = unat (heap_start h)"
  define A where "A = S + segsum pre"
  define z where "z = (if post = [] then 0 else of_nat (A + n) :: qword)"
  have kw: "sz + 17 = of_nat k" "k < 2 ^ 64" "17 \<le> k"
  proof -
    have "of_nat k = (of_nat (unat sz) + 17 :: qword)" unfolding sz(2) [symmetric] by simp
    then show "sz + 17 = of_nat k" by simp
  qed (use sz in simp_all)
  have bnd: "0 < A" "A < 2 ^ 64" "n < 2 ^ 64" "n \<le> 0x10000000" "S + segsum (pre @ (n, True) # post) \<le> 2 ^ 64" "0 < S"
    using b by (simp_all add: A_def S_def)
  have blk: "blocks h (of_nat A) = Some (header_of (n, True) z)"
    using rep_middle [OF rep'] by (simp add: A_def S_def z_def del: of_nat_add)
  have "alloc_scan sz (of_nat S) 0 h = alloc_scan sz (of_nat A) 0 h"
    unfolding A_def
    by (rule scan_skip [OF _ _ bnd(6) bnd(5) ss(2) kw(2,1)]) (use b sz in \<open>simp_all add: S_def\<close>)
  then have scan: "alloc_scan sz (heap_start h) 0 h = alloc_scan sz (of_nat A) 0 h" by (simp add: S_def)
  note step = block_step [OF blk bnd(1,2) _ kw(2,1), of 0, unfolded fst_conv snd_conv, OF bnd(3)]
  have ptr: "(of_nat A + 17 :: qword) = heap_start h + of_nat (off + 17)"
    by (simp add: A_def S_def ss(4) add.assoc)
  have room': "heap_room g h" using room by (simp add: heap_room_def)
  let ?h = "set_block (of_nat A) ((header_of (n, True) z)\<lparr>available := 0\<rparr>) h"
  have "\<exists>h'. alloc_scan sz (of_nat A) 0 h = Some (Inl (of_nat A + 17), h') \<and> heap_rep h' ss'
    \<and> heap_start h' = heap_start h \<and> heap_room g h' \<and> (off + 2 * k \<le> unat (heap_size h) \<longrightarrow> pages h' = pages h)
    \<and> pages_kept (pages h) (pages h')"
  proof (cases "n - k < 17")
    case True
    have "ss' = pre @ (n, False) # post" using True by (simp add: ss(5) carve_def)
    then have rep1: "heap_rep ?h ss'" "heap_room g ?h"
      using take_whole [OF rep', folded S_def, folded A_def, folded z_def] room'
      by (simp_all add: heap_room_def)
    show ?thesis
    proof (cases "n = k")
      case True
      then show ?thesis using step(2) rep1 by simp
    next
      case False
      then have lt: "k < n" using ss(3) by simp
      show ?thesis
        using step(3) [OF TrueI lt] split_small [OF lt bnd(4) kw(1) True] rep1 by simp
    qed
  next
    case False
    define m where "m = n - k"
    have m: "n = k + m" "17 \<le> m" "k < n" using False ss(3) by (simp_all add: m_def)
    have over: "post \<noteq> [] \<longrightarrow> k \<le> m + segsum post"
      using spec(2) overruns_append [OF ss(2,3), of post] m unfolding ss(1) by auto
    obtain h' where "alloc_split sz (of_nat A) (header_of (k + m, True) z) h = Some (of_nat A + 17, h')"
      "heap_rep h' (pre @ carve k (k + m) (post = []) @ post)" "heap_start h' = heap_start h" "heap_room g h'"
      "2 * k \<le> k + m + segsum post \<longrightarrow> pages h' = pages h" "pages_kept (pages h) (pages h')"
      using serve_split [OF _ kw(3) sz(3) m(2) _ _ kw(1) room over, of pre A z] rep' m(1)
      by (auto simp: A_def S_def z_def)
    moreover have "unat (heap_size h) = off + n + segsum post" using rep' by (simp add: heap_rep_def ss(4))
    ultimately show ?thesis
      using step(3) m by (simp add: ss(5))
  qed
  moreover have "sz \<noteq> 0" using sz(1) by auto
  ultimately show ?thesis
    using scan by (subst new_alloc.simps) (auto simp: ptr)
qed

end
