(* ===== verification/Heap_Grow.thy ===== *)
theory Heap_Grow
  imports Heap_Alloc
begin

text \<open>
  \<open>new_alloc\<close> when no block serves the request: the heap gets pages until the last block
  does, if that block is free; if it is in use the function never returns.
\<close>

section \<open>Growing the last block\<close>

lemma extend_step:
  assumes rep: "heap_rep h (pre @ [(n, f)])" and none: "\<forall>s \<in> set (pre @ [(n, f)]). \<not> fits k s"
    and sz: "0 < unat sz" "unat sz + 17 = k" "k \<le> 0x10000000" and room: "heap_room (Suc g) h"
  shows "\<exists>h2. new_alloc sz h = new_alloc sz h2 \<and> heap_rep h2 (pre @ [(n + 0x1000, f)])
    \<and> heap_start h2 = heap_start h \<and> heap_room g h2"
proof -
  note b = heap_rep_bounds [OF rep]
  define S where "S = unat (heap_start h)"
  define A where "A = S + segsum pre"
  have k: "sz + 17 = of_nat k" "k < 2 ^ 64"
  proof -
    have "of_nat k = (of_nat (unat sz) + 17 :: qword)" unfolding sz(2) [symmetric] by simp
    then show "sz + 17 = of_nat k" by simp
  qed (use sz in simp)
  have S: "heap_start h = of_nat S" "0 < S" using b by (simp_all add: S_def)
  have A: "A < 2 ^ 64" "0 < A" using b by (simp_all add: A_def S_def)
  let ?h1 = "h\<lparr>heap_end := of_nat A\<rparr>"
  have scan: "alloc_scan sz (heap_start h) 0 h = Some (Inr (of_nat A), ?h1)"
    unfolding S(1) using scan_none [of h S "pre @ [(n, f)]" k sz 0, OF _ b(5) _ S(2) _ none k(2,1)] b
    by (simp add: A_def S_def del: of_nat_add)
  have rep1: "heap_rep ?h1 (pre @ [(n, f)])" and room1: "heap_room (Suc g) ?h1"
    using rep room by simp_all
  obtain ps where ps: "page_mapv (heap_start h + heap_size h) 0x1000 heap_flags (pages h) = Some ps"
    "\<forall>h'. heap_start h' = heap_start h \<longrightarrow> heap_size h' = heap_size h + 0x1000 \<longrightarrow> pages h' = ps \<longrightarrow>
       pages_ok h' \<and> heap_room g h' \<and> unat (heap_size h') = unat (heap_size h) + 0x1000"
    using extend_pages [OF rep room] by blast
  let ?h2 = "set_block (of_nat A) (header_of (n + 0x1000, f) 0)
    (?h1\<lparr>pages := ps, heap_size := heap_size h + 0x1000\<rparr>)"
  have blk: "blocks h (of_nat A) = Some (header_of (n, f) 0)"
    using rep_middle [of h pre "(n, f)" "[]"] rep by (simp add: A_def S_def del: of_nat_add)
  have "(of_nat A :: qword) \<noteq> of_nat 0" using of_nat_qword_inject [of A 0] A by simp
  then have ext: "alloc_extend (of_nat A) ?h1 = Some ?h2"
    using ps(1) blk by (simp add: alloc_extend_def header_of_def)
  have ok: "pages_ok ?h2" "heap_room g ?h2" "unat (heap_size ?h2) = unat (heap_size h) + 0x1000"
    using ps(2) [rule_format, of ?h2] by simp_all
  have "heap_rep ?h2 (pre @ [(n + 0x1000, f)])"
  proof (rule heap_rep_extend [OF rep1, of A _ g])
    show "blocks ?h2 (of_nat q) = blocks ?h1 (of_nat q)" if "q < 2 ^ 64" "q < A" for q
    proof -
      have "q \<noteq> A" using that(2) by simp
      then show ?thesis using A(1) by (simp add: upd_other [OF that(1)] del: fun_upd_apply)
    qed
  qed (use b room ok in \<open>simp_all add: A_def S_def heap_room_def\<close>)
  moreover have "sz \<noteq> 0" using sz(1) by auto
  then have "new_alloc sz h = new_alloc sz ?h2"
    using scan ext by (subst new_alloc.simps) simp
  ultimately show ?thesis using ok(2) by (intro exI [of _ ?h2]) simp
qed

lemma grow:
  assumes sz: "0 < unat sz" "unat sz + 17 = k" "k \<le> 0x10000000" and none: "\<forall>s \<in> set pre. \<not> fits k s"
  shows "heap_rep h (pre @ [(n, True)]) \<Longrightarrow> k \<le> n + j * 0x1000 \<Longrightarrow> heap_room (Suc j) h \<Longrightarrow>
    \<exists>i h'. new_alloc sz h = Some (heap_start h + of_nat (segsum pre + 17), h')
      \<and> heap_rep h' (pre @ carve k (n + i * 0x1000) True) \<and> heap_start h' = heap_start h
      \<and> k \<le> n + i * 0x1000 \<and> (0 < i \<longrightarrow> n + (i - 1) * 0x1000 < k)"
proof (induction j arbitrary: h n)
  case 0
  have "seg_alloc k (pre @ [(n, True)]) = Some (segsum pre, pre @ carve k n True)"
    using none 0(2) by (induction pre) (auto simp: fits_def)
  moreover have "\<not> overruns k (pre @ [(n, True)])"
    using overruns_append [OF none, of n "[]"] 0(2) by simp
  ultimately show ?case using serve [OF 0(1) sz _ _ 0(3)] 0(2) by (intro exI [of _ 0]) auto
next
  case (Suc j)
  show ?case
  proof (cases "k \<le> n")
    case True
    have "seg_alloc k (pre @ [(n, True)]) = Some (segsum pre, pre @ carve k n True)"
      using none True by (induction pre) (auto simp: fits_def)
    moreover have "\<not> overruns k (pre @ [(n, True)])"
      using overruns_append [OF none True, of "[]"] by simp
    ultimately show ?thesis using serve [OF Suc(2) sz _ _ Suc(4)] True by (intro exI [of _ 0]) auto
  next
    case False
    then have "\<forall>s \<in> set (pre @ [(n, True)]). \<not> fits k s" using none by (simp add: fits_def)
    from extend_step [OF Suc(2) this sz Suc(4)] obtain h2 where h2: "new_alloc sz h = new_alloc sz h2"
      "heap_rep h2 (pre @ [(n + 0x1000, True)])" "heap_start h2 = heap_start h" "heap_room (Suc j) h2"
      by blast
    from Suc.IH [OF h2(2) _ h2(4)] Suc(3) obtain i h' where
      "new_alloc sz h2 = Some (heap_start h2 + of_nat (segsum pre + 17), h')"
      "heap_rep h' (pre @ carve k (n + 0x1000 + i * 0x1000) True)" "heap_start h' = heap_start h2"
      "k \<le> n + 0x1000 + i * 0x1000" "0 < i \<longrightarrow> n + 0x1000 + (i - 1) * 0x1000 < k"
      by (auto simp: add.assoc)
    then show ?thesis
      using h2(1,3) False
      by (intro exI [of _ "Suc i"] exI [of _ h']) (cases i; simp add: add.assoc add.commute)
  qed
qed

section \<open>A last block in use\<close>

primrec hpath :: "(qword \<Rightarrow> alloc_block_t option) \<Rightarrow> qword \<Rightarrow> qword list \<Rightarrow> bool" where
  "hpath B a [] \<longleftrightarrow> a = 0"
| "hpath B a (p # ps) \<longleftrightarrow> a = p \<and> p \<noteq> 0 \<and> (\<exists>b. B p = Some b \<and> hpath B (bnext b) ps)"

text \<open>No block on the path serves the request, and the last one is in use.\<close>

definition stuck :: "qword \<Rightarrow> heap \<Rightarrow> bool" where
  "stuck sz h \<longleftrightarrow> (\<exists>ps b. hpath (blocks h) (heap_start h) ps \<and> ps \<noteq> [] \<and> blocks h (last ps) = Some b
     \<and> available b \<noteq> 1
     \<and> (\<forall>p \<in> set ps. \<forall>c. blocks h p = Some c \<longrightarrow> available c \<noteq> 1 \<or> bsize c < sz + HEADER))"

lemma scan_refused:
  assumes "hpath (blocks h) a ps"
    and "\<forall>p \<in> set ps. \<forall>c. blocks h p = Some c \<longrightarrow> available c \<noteq> 1 \<or> bsize c < sz + HEADER"
  shows "\<exists>e'. alloc_scan sz a e h = Some (Inr (if ps = [] then e else last ps), h\<lparr>heap_end := e'\<rparr>)"
  using assms
proof (induction ps arbitrary: a e h)
  case Nil
  then show ?case by (subst alloc_scan.simps) (auto intro: exI [of _ "heap_end h"])
next
  case (Cons p ps)
  then obtain b where b: "blocks h p = Some b" "hpath (blocks h) (bnext b) ps" "a = p" "p \<noteq> 0"
    and no: "available b \<noteq> 1 \<or> bsize b < sz + HEADER"
    by auto
  have tests: "\<not> (available b = 1 \<and> bsize b = sz + HEADER)" "\<not> (available b = 1 \<and> sz + HEADER < bsize b)"
    using no by auto
  show ?case
  proof (cases "bnext b = 0")
    case True
    then have ps: "ps = []" using b(2) by (cases ps) auto
    have "alloc_scan sz a e h = alloc_scan sz 0 p (h\<lparr>heap_end := p\<rparr>)"
      by (subst alloc_scan.simps) (simp add: b tests True)
    also have "\<dots> = Some (Inr p, h\<lparr>heap_end := p\<rparr>)" by (subst alloc_scan.simps) simp
    finally show ?thesis using ps by auto
  next
    case False
    then have ps: "ps \<noteq> []" using b(2) by auto
    have "alloc_scan sz a e h = alloc_scan sz (bnext b) e h"
      by (subst alloc_scan.simps) (simp add: b tests False)
    then show ?thesis using Cons.IH [OF b(2), of e] Cons.prems(2) ps by auto
  qed
qed

lemma hpath_nonzero: "hpath B a ps \<Longrightarrow> p \<in> set ps \<Longrightarrow> p \<noteq> 0"
  by (induction ps arbitrary: a) auto

lemma hpath_resize:
  assumes "hpath B a ps" and "B e = Some b"
  shows "hpath (B(e := Some (b\<lparr>bsize := n\<rparr>))) a ps"
  using assms by (induction ps arbitrary: a) auto

lemma stuck_extend:
  assumes "stuck sz h"
  shows "\<exists>e h1. alloc_scan sz (heap_start h) 0 h = Some (Inr e, h1)
    \<and> (\<forall>h2. alloc_extend e h1 = Some h2 \<longrightarrow> stuck sz h2)"
proof -
  obtain ps b where s: "hpath (blocks h) (heap_start h) ps" "ps \<noteq> []" "blocks h (last ps) = Some b"
    "available b \<noteq> 1" "\<forall>p \<in> set ps. \<forall>c. blocks h p = Some c \<longrightarrow> available c \<noteq> 1 \<or> bsize c < sz + HEADER"
    using assms by (auto simp: stuck_def)
  obtain e' where scan: "alloc_scan sz (heap_start h) 0 h = Some (Inr (last ps), h\<lparr>heap_end := e'\<rparr>)"
    using scan_refused [OF s(1,5), of 0] s(2) by auto
  have "last ps \<noteq> 0" using hpath_nonzero [OF s(1)] s(2) by simp
  then have "stuck sz h2" if "alloc_extend (last ps) (h\<lparr>heap_end := e'\<rparr>) = Some h2" for h2
    using that s hpath_resize [OF s(1,3)]
    by (auto simp: alloc_extend_def stuck_def bind_eq_Some_conv intro!: exI [of _ ps])
  then show ?thesis using scan by blast
qed

lemma stuck_None:
  assumes "stuck sz h" and "sz \<noteq> 0"
  shows "new_alloc sz h = None"
proof (cases "new_alloc sz h")
  case (Some r)
  have "\<not> stuck sz h \<or> sz = 0"
  proof (rule new_alloc.raw_induct [where P = "\<lambda>sz h r. \<not> stuck sz h \<or> sz = 0", OF _ Some])
    fix f :: "qword \<Rightarrow> heap \<Rightarrow> (qword \<times> heap) option" and w g r
    assume IH: "\<And>w g r. f w g = Some r \<Longrightarrow> \<not> stuck w g \<or> w = 0"
      and body: "(if w = 0 then Some (0, g) else do {
        (r, h1) \<leftarrow> alloc_scan w (heap_start g) 0 g;
        case r of Inl p \<Rightarrow> Some (p, h1) | Inr e \<Rightarrow> do { h2 \<leftarrow> alloc_extend e h1; f w h2 } }) = Some r"
    show "\<not> stuck w g \<or> w = 0"
    proof (cases "stuck w g \<and> w \<noteq> 0")
      case True
      then obtain e h1 where scan: "alloc_scan w (heap_start g) 0 g = Some (Inr e, h1)"
        and ext: "\<forall>h2. alloc_extend e h1 = Some h2 \<longrightarrow> stuck w h2"
        using stuck_extend by blast
      obtain h2 where "alloc_extend e h1 = Some h2" "f w h2 = Some r"
        using body True scan by (auto simp: bind_eq_Some_conv)
      then show ?thesis using IH ext by blast
    qed blast
  qed
  then show ?thesis using assms by blast
qed

text \<open>The heap of a representation.\<close>

lemma hchain_hpath:
  assumes "hchain B a ss 0" and "seg_ok ss" and "0 < a" and "a + segsum ss \<le> 2 ^ 64"
    and "ss \<noteq> []" and "\<forall>s \<in> set ss. \<not> snd s \<or> (of_nat (fst s) :: qword) < w"
  shows "\<exists>ps. hpath B (of_nat a) ps \<and> ps \<noteq> [] \<and> B (last ps) = Some (header_of (last ss) 0)
    \<and> (\<forall>p \<in> set ps. \<forall>c. B p = Some c \<longrightarrow> available c \<noteq> 1 \<or> bsize c < w)"
  using assms
proof (induction ss arbitrary: a)
  case (Cons s ss)
  have a: "(of_nat a :: qword) \<noteq> 0"
    using of_nat_qword_inject [of a 0] Cons.prems by simp
  have blk: "B (of_nat a) = Some (header_of s (if ss = [] then 0 else of_nat (a + fst s)))"
    using Cons.prems(1) by simp
  have no: "available (header_of s z) \<noteq> 1 \<or> bsize (header_of s z) < w" for z
    using Cons.prems(6) by auto
  show ?case
  proof (cases "ss = []")
    case True
    then show ?thesis using a blk no by (intro exI [of _ "[of_nat a]"]) auto
  next
    case False
    have "\<exists>ps. hpath B (of_nat (a + fst s)) ps \<and> ps \<noteq> [] \<and> B (last ps) = Some (header_of (last ss) 0)
      \<and> (\<forall>p \<in> set ps. \<forall>c. B p = Some c \<longrightarrow> available c \<noteq> 1 \<or> bsize c < w)"
      by (rule Cons.IH) (use Cons.prems False in auto)
    then obtain ps where ps: "hpath B (of_nat (a + fst s)) ps" "ps \<noteq> []" "B (last ps) = Some (header_of (last ss) 0)"
      "\<forall>p \<in> set ps. \<forall>c. B p = Some c \<longrightarrow> available c \<noteq> 1 \<or> bsize c < w"
      by blast
    have "hpath B (of_nat a) (of_nat a # ps)" using a blk False ps(1) by (simp del: of_nat_add)
    moreover have "\<forall>p \<in> set (of_nat a # ps). \<forall>c. B p = Some c \<longrightarrow> available c \<noteq> 1 \<or> bsize c < w"
      using ps(4) blk no by auto
    ultimately show ?thesis using ps(2,3) False by (intro exI [of _ "of_nat a # ps"]) simp
  qed
qed simp

lemma rep_stuck:
  assumes rep: "heap_rep h ss" and "\<not> snd (last ss)" and none: "\<forall>s \<in> set ss. \<not> fits k s"
    and sz: "unat sz + 17 = k" "k \<le> 0x10000000"
  shows "stuck sz h"
proof -
  note b = heap_rep_bounds [OF rep]
  have "of_nat k = (of_nat (unat sz) + 17 :: qword)" unfolding sz(1) [symmetric] by simp
  then have k: "sz + 17 = of_nat k" by simp
  have small: "\<forall>s \<in> set ss. fst s < 2 ^ 64"
  proof
    fix s assume "s \<in> set ss"
    then have "fst s \<le> segsum ss" by (induction ss) auto
    then show "fst s < 2 ^ 64" using b(4) by simp
  qed
  have "\<forall>s \<in> set ss. \<not> snd s \<or> (of_nat (fst s) :: qword) < sz + 17"
  proof
    fix s assume s: "s \<in> set ss"
    then have "\<not> snd s \<or> fst s < k" using none by (auto simp: fits_def)
    then show "\<not> snd s \<or> (of_nat (fst s) :: qword) < sz + 17"
      using small s sz(2) of_nat_less_qword [of "fst s" k] by (auto simp: k)
  qed
  from hchain_hpath [OF b(7,5) _ _ b(6) this] b
  obtain ps where "hpath (blocks h) (heap_start h) ps" "ps \<noteq> []" "blocks h (last ps) = Some (header_of (last ss) 0)"
    "\<forall>p \<in> set ps. \<forall>c. blocks h p = Some c \<longrightarrow> available c \<noteq> 1 \<or> bsize c < sz + 17"
    by auto
  then show ?thesis using assms(2) by (auto simp: stuck_def)
qed

end
