(* ===== verification/Heap_Free.thy ===== *)
theory Heap_Free
  imports Heap_Grow
begin

text \<open>
  \<open>free_alloc\<close> on segments, and the interface the file system has to the heap: a buffer
  that is taken, used and given back.
\<close>

section \<open>Release\<close>

definition seg_free :: "seg list \<Rightarrow> nat \<Rightarrow> seg list \<Rightarrow> seg list" where
  "seg_free pre n post = pre @ (case post of
      [] \<Rightarrow> [(n, True)]
    | (m, f) # rest \<Rightarrow> if f then (n + m, True) # rest else (n, True) # post)"

lemma free_rep:
  assumes rep: "heap_rep h (pre @ (n, f) # post)"
  shows "\<exists>h'. free_alloc (heap_start h + of_nat (segsum pre + 17)) h = Some h'
    \<and> heap_rep h' (seg_free pre n post) \<and> heap_start h' = heap_start h \<and> heap_size h' = heap_size h
    \<and> pages h' = pages h"
proof -
  note b = heap_rep_bounds [OF rep]
  define S where "S = unat (heap_start h)"
  define A where "A = S + segsum pre"
  define z where "z = (if post = [] then 0 else of_nat (A + n) :: qword)"
  have n: "17 \<le> n" using b(5) by simp
  have A: "0 < A" "A + n + 17 < 2 ^ 64" "A < 2 ^ 64" using b by (simp_all add: A_def S_def)
  have blk: "blocks h (of_nat A) = Some (header_of (n, f) z)"
    using rep_middle [OF rep] by (simp add: A_def S_def z_def del: of_nat_add)
  have ptr: "heap_start h + of_nat (segsum pre + 17) = of_nat A + 17" by (simp add: A_def S_def add.assoc)
  have ptr0: "heap_start h + of_nat (segsum pre + 17) \<noteq> 0"
  proof -
    have "(of_nat (A + 17) :: qword) \<noteq> of_nat 0" using of_nat_qword_inject [of "A + 17" 0] A by simp
    then show ?thesis unfolding ptr by simp
  qed
  let ?h1 = "set_block (of_nat A) (header_of (n, True) z) h"
  have upd: "(header_of (n, f) z)\<lparr>available := 1\<rparr> = header_of (n, True) z" by (simp add: header_of_def)
  have free: "free_alloc (heap_start h + of_nat (segsum pre + 17)) h = merge_next (of_nat A) z ?h1"
    using ptr0 blk unfolding ptr by (simp add: free_alloc_def upd Let_def)
  have rep1: "heap_rep ?h1 (pre @ (n, True) # post)"
  proof -
    have "heap_rep ?h1 (pre @ [(n, True)] @ post)"
    proof (rule heap_rep_replace [of h pre "[(n, f)]" post A])
      show "blocks ?h1 (of_nat q) = blocks h (of_nat q)" if "q < 2 ^ 64" "q < A \<or> A + segsum [(n, f)] \<le> q" for q
        unfolding set_block_simps by (rule upd_other) (use that A n in auto)
    qed (use rep n in \<open>simp_all add: A_def S_def z_def del: of_nat_add\<close>)
    then show ?thesis by simp
  qed
  show ?thesis
  proof (cases post)
    case Nil
    then have "merge_next (of_nat A) z ?h1 = Some ?h1" by (simp add: merge_next_def z_def)
    then show ?thesis using free rep1 Nil by (simp add: seg_free_def)
  next
    case (Cons s rest)
    obtain m g where s: "s = (m, g)" by (cases s)
    define y where "y = (if rest = [] then 0 else of_nat (A + n + m) :: qword)"
    have z: "z = of_nat (A + n)" by (simp add: z_def Cons)
    have z0: "z \<noteq> 0" "z \<noteq> of_nat A"
      unfolding z using of_nat_qword_inject [of "A + n" 0] of_nat_qword_inject [of "A + n" A] A n by simp_all
    have "blocks ?h1 (of_nat (unat (heap_start ?h1) + segsum (pre @ [(n, True)])))
        = Some (header_of (m, g) (if rest = [] then 0
            else of_nat (unat (heap_start ?h1) + segsum (pre @ [(n, True)]) + m)))"
      using rep_middle [of ?h1 "pre @ [(n, True)]" "(m, g)" rest] rep1 Cons s by (simp del: of_nat_add)
    then have blk2: "blocks ?h1 z = Some (header_of (m, g) y)"
      by (simp add: z y_def A_def S_def add.assoc del: of_nat_add)
    show ?thesis
    proof (cases g)
      case False
      then have "merge_next (of_nat A) z ?h1 = Some ?h1"
        using z0 blk2 by (simp add: merge_next_def)
      then show ?thesis using free rep1 Cons s False by (simp add: seg_free_def)
    next
      case True
      let ?h2 = "set_block (of_nat A) (header_of (n + m, True) y) ?h1"
      let ?h3 = "set_block z (header_of (m, True) 0) ?h2"
      have merged: "merge_next (of_nat A) z ?h1 = Some ?h3"
        using z0 blk2 True by (simp add: merge_next_def Let_def header_of_def)
      have m: "17 \<le> m" using b(5) Cons s by simp
      have "heap_rep ?h3 (pre @ [(n + m, True)] @ rest)"
      proof (rule heap_rep_replace [of h pre "[(n, f), (m, g)]" rest A])
        show "blocks ?h3 (of_nat q) = blocks h (of_nat q)"
          if "q < 2 ^ 64" "q < A \<or> A + segsum [(n, f), (m, g)] \<le> q" for q
        proof -
          have "q \<noteq> A" "q \<noteq> A + n" "A + n < 2 ^ 64" using that n m A by auto
          then show ?thesis
            unfolding set_block_simps z using A(3) by (simp only: upd_other [OF that(1)] simp_thms)
        qed
        show "hchain (blocks ?h3) A [(n + m, True)] (if rest = [] then 0 else of_nat (A + segsum [(n + m, True)]))"
          using z0(2) by (simp add: y_def add.assoc del: of_nat_add)
      qed (use rep Cons s n m in \<open>simp_all add: A_def S_def\<close>)
      then show ?thesis
        using free merged Cons s True by (simp add: seg_free_def)
    qed
  qed
qed

text \<open>An allocation that splits a free block, given back at once.\<close>

lemma alloc_free_core:
  assumes "heap_rep h (pre @ (n, True) # post)" and "0 < unat sz" and "unat sz + 17 \<le> 0x10000000"
    and "heap_room (Suc g) h" and "\<forall>s \<in> set pre. \<not> fits (unat sz + 17) s"
    and "unat sz + 17 + 17 \<le> n" and "unat sz + 17 \<le> n - (unat sz + 17) + segsum post"
  shows "\<exists>p h1 h2. new_alloc sz h = Some (p, h1) \<and> free_alloc p h1 = Some h2
    \<and> heap_rep h2 (pre @ (n, True) # post) \<and> heap_room g h2"
proof -
  let ?k = "unat sz + 17"
  have spec: "seg_alloc ?k (pre @ (n, True) # post)
      = Some (segsum pre, pre @ carve ?k n (post = []) @ post)"
    using assms(5,6) by (induction pre) (auto simp: fits_def)
  have over: "\<not> overruns ?k (pre @ (n, True) # post)"
    using overruns_append [OF assms(5), of n post] assms(6,7) by auto
  have c: "carve ?k n (post = []) = [(?k, False), (n - ?k, True)]"
    using assms(6,7) by (auto simp: carve_def)
  obtain h1 where h1: "new_alloc sz h = Some (heap_start h + of_nat (segsum pre + 17), h1)"
    "heap_rep h1 (pre @ carve ?k n (post = []) @ post)" "heap_start h1 = heap_start h"
    "heap_room g h1"
    using serve [OF assms(1,2) refl assms(3) spec over assms(4)] by blast
  then have "heap_rep h1 (pre @ (?k, False) # (n - ?k, True) # post)" by (simp add: c)
  from free_rep [OF this] obtain h2 where
    "free_alloc (heap_start h + of_nat (segsum pre + 17)) h1 = Some h2"
    "heap_rep h2 (seg_free pre ?k ((n - ?k, True) # post))" "heap_room g h2"
    using h1(3,4) by (auto simp: heap_room_def)
  moreover have "seg_free pre ?k ((n - ?k, True) # post) = pre @ (n, True) # post"
    using assms(6) by (simp add: seg_free_def)
  ultimately show ?thesis using h1(1) by auto
qed

section \<open>Scratch buffers\<close>

text \<open>
  \<open>ready g n h\<close>: \<open>g\<close> times in a row a buffer of \<open>n\<close> bytes can be taken and given back.
\<close>

locale scratch_memory =
  fixes alloc :: "qword \<Rightarrow> 'h \<Rightarrow> (qword \<times> 'h) option"
    and release :: "qword \<Rightarrow> 'h \<Rightarrow> 'h option"
    and ready :: "nat \<Rightarrow> qword \<Rightarrow> 'h \<Rightarrow> bool"
  assumes alloc_release: "ready (Suc g) n h \<Longrightarrow>
    \<exists>p h1 h2. alloc n h = Some (p, h1) \<and> release p h1 = Some h2 \<and> ready g n h2"
begin

lemma with_scratch:
  assumes "ready (Suc g) n h"
  shows "\<exists>h2. ready g n h2 \<and> (\<forall>body :: 'r option.
    do { (p, h1) \<leftarrow> alloc n h; r \<leftarrow> body; h2 \<leftarrow> release p h1; Some (r, h2) }
      = do { r \<leftarrow> body; Some (r, h2) })"
proof -
  obtain p h1 h2 where "alloc n h = Some (p, h1)" "release p h1 = Some h2" "ready g n h2"
    using alloc_release [OF assms] by blast
  then show ?thesis by (intro exI [of _ h2]) simp
qed

end

definition heap_ready :: "nat \<Rightarrow> qword \<Rightarrow> heap \<Rightarrow> bool" where
  "heap_ready g sz h \<longleftrightarrow> heap_room g h \<and> 0 < unat sz \<and> unat sz + 17 \<le> 0x10000000
     \<and> (\<exists>pre n post. heap_rep h (pre @ (n, True) # post) \<and> (\<forall>s \<in> set pre. \<not> fits (unat sz + 17) s)
          \<and> unat sz + 17 + 17 \<le> n \<and> unat sz + 17 \<le> n - (unat sz + 17) + segsum post)"

interpretation heap_scratch: scratch_memory new_alloc free_alloc heap_ready
proof
  fix g sz h assume "heap_ready (Suc g) sz h"
  then obtain pre n post where r: "heap_rep h (pre @ (n, True) # post)" "0 < unat sz" "unat sz + 17 \<le> 0x10000000"
    "heap_room (Suc g) h" "\<forall>s \<in> set pre. \<not> fits (unat sz + 17) s"
    "unat sz + 17 + 17 \<le> n" "unat sz + 17 \<le> n - (unat sz + 17) + segsum post"
    by (auto simp: heap_ready_def)
  from alloc_free_core [OF r] r(2,3,5-7)
  show "\<exists>p h1 h2. new_alloc sz h = Some (p, h1) \<and> free_alloc p h1 = Some h2 \<and> heap_ready g sz h2"
    unfolding heap_ready_def by blast
qed

end
