(* ===== verification/Heap_Props.thy ===== *)
theory Heap_Props
  imports Heap_Free Page_Props
begin

text \<open>
  The properties of \<open>kernel/alloc.c\<close>: initialisation, allocation on every branch, growth,
  release, and what the code does where it goes wrong.
\<close>

section \<open>Release\<close>

text \<open>
  C27: \<open>free_alloc\<close> of a pointer that \<open>new_alloc\<close> returned marks its block free, merges it
  with the block after it when that one is free, keeps the representation and touches no
  other block: sizes, order and use of all others stay.
\<close>

theorem free_alloc_correct:
  assumes "heap_rep h (pre @ (n, False) # post)"
  shows "\<exists>h'. free_alloc (heap_start h + of_nat (segsum pre + 17)) h = Some h'
    \<and> heap_rep h' (pre @ (case post of
          [] \<Rightarrow> [(n, True)]
        | (m, f) # rest \<Rightarrow> if f then (n + m, True) # rest else (n, True) # post))
    \<and> heap_start h' = heap_start h"
  using free_rep [OF assms] unfolding seg_free_def by blast

section \<open>A heap to run on\<close>

definition no_heap :: heap where
  "no_heap = \<lparr>blocks = (\<lambda>_. None), heap_start = 0, heap_end = 0, heap_size = 0, pages = boot_tables\<rparr>"

lemma init_alloc_ok:
  assumes "page_inv (pages h)" and "4 \<le> free_count (pages h)" and "heap_size h = 0"
    and "0xFFFF800000000000 \<le> start" and "unat start + 0x40000000 \<le> 2 ^ 64" and "4096 dvd unat start"
  shows "\<exists>h'. init_alloc start h = Some h' \<and> heap_rep h' [(0x1000, True)] \<and> heap_start h' = start
    \<and> free_count (pages h) \<le> free_count (pages h') + 4
    \<and> (\<forall>v. v \<noteq> vpage start \<longrightarrow> vmap (pages h') v = vmap (pages h) v)"
proof -
  obtain ps where ps: "page_mapv start 0x1000 heap_flags (pages h) = Some ps" "page_inv ps"
    "vmap ps (vpage start) \<noteq> 0" "free_count (pages h) \<le> free_count ps + 4"
    "\<forall>v. v \<noteq> vpage start \<longrightarrow> vmap ps v = vmap (pages h) v"
    using map_heap_page [OF assms(1,2,4)] by blast
  have "vmap ps (vp start k) \<noteq> 0" if "k * 4096 < 4096" for k
    using that ps(3) by (simp add: vp_def)
  moreover have "(of_nat (unat start) :: qword) = start" by simp
  ultimately show ?thesis
    using ps assms(3-6)
    by (simp add: init_alloc_def Let_def heap_rep_def pages_ok_def header_of_def word_le_nat_alt)
qed

text \<open>
  \<open>init_alloc\<close> at a page-aligned address of the kernel's half, with four frames left,
  gives a heap of one free block of 4096 bytes whose page is mapped.
\<close>

theorem init_alloc_correct:
  assumes "page_inv (pages h)" and "4 \<le> free_count (pages h)" and "heap_size h = 0"
    and "0xFFFF800000000000 \<le> start" and "unat start + 0x40000000 \<le> 2 ^ 64" and "4096 dvd unat start"
  shows "\<exists>h'. init_alloc start h = Some h' \<and> heap_rep h' [(0x1000, True)] \<and> heap_start h' = start
    \<and> free_count (pages h) \<le> free_count (pages h') + 4"
  using init_alloc_ok [OF assms] by blast

text \<open>The kernel's heap address (\<open>kernel.linker.ld\<close> puts it on a page boundary).\<close>

lemma kernel_heap:
  "\<exists>h. init_alloc 0xFFFFFFFF80110000 no_heap = Some h \<and> heap_rep h [(0x1000, True)]
    \<and> heap_start h = 0xFFFFFFFF80110000 \<and> heap_room 8 h
    \<and> (\<forall>v. v \<noteq> vpage 0xFFFFFFFF80110000 \<longrightarrow> vmap (pages h) v = vmap boot_tables v)"
proof -
  have "pages no_heap = boot_tables" by (simp add: no_heap_def)
  then obtain h where h: "init_alloc 0xFFFFFFFF80110000 no_heap = Some h" "heap_rep h [(0x1000, True)]"
    "heap_start h = 0xFFFFFFFF80110000" "free_count boot_tables \<le> free_count (pages h) + 4"
    "\<forall>v. v \<noteq> vpage 0xFFFFFFFF80110000 \<longrightarrow> vmap (pages h) v = vmap boot_tables v"
    using init_alloc_ok [of no_heap "0xFFFFFFFF80110000"] boot_inv
    by (auto simp: no_heap_def boot_free simp del: split_paired_All)
  then have "heap_room 8 h" using heap_rep_bounds(3) [OF h(2)] by (simp add: heap_room_def boot_free)
  with h show ?thesis by blast
qed

theorem init_alloc_correct_witness:
  "\<exists>h. init_alloc 0xFFFFFFFF80110000 no_heap = Some h \<and> heap_rep h [(0x1000, True)]"
  using init_alloc_correct [of no_heap "0xFFFFFFFF80110000"] boot_inv
  by (auto simp: no_heap_def boot_free)

theorem free_alloc_correct_witness:
  "\<exists>h h1 h2. init_alloc 0xFFFFFFFF80110000 no_heap = Some h
     \<and> new_alloc 100 h = Some (0xFFFFFFFF80110011, h1) \<and> heap_rep h1 [(117, False), (3979, True)]
     \<and> free_alloc 0xFFFFFFFF80110011 h1 = Some h2 \<and> heap_rep h2 [(0x1000, True)]"
proof -
  obtain h where h: "init_alloc 0xFFFFFFFF80110000 no_heap = Some h" "heap_rep h [(0x1000, True)]"
    "heap_start h = 0xFFFFFFFF80110000" "heap_room 8 h"
    using kernel_heap by blast
  have room: "heap_room (Suc 0) h" using h(4) by (simp add: heap_room_def)
  obtain h1 where h1: "new_alloc 100 h = Some (0xFFFFFFFF80110011, h1)" "heap_rep h1 [(117, False), (3979, True)]"
    "heap_start h1 = 0xFFFFFFFF80110000"
    using serve [OF h(2), of 100 117 0 "[(117, False), (3979, True)]" 0] room h(3)
    by (auto simp: fits_def carve_def)
  from free_alloc_correct [of h1 "[]" 117 "[(3979, True)]"] h1 h(1) show ?thesis by auto
qed

section \<open>Allocation\<close>

text \<open>
  C10: \<open>new_alloc\<close> of a positive size refines first fit on the segments: it returns the
  address after the header of the first free block that is long enough, which it takes
  whole or splits, and every other block stays; provided the rest of the heap behind the
  new block is as long as the block, or it is the last one.
\<close>

theorem new_alloc_refines:
  assumes "heap_rep h ss" and "0 < unat sz" and "unat sz + 17 \<le> 0x10000000" and "heap_room 1 h"
    and "seg_alloc (unat sz + 17) ss = Some (off, ss')" and "\<not> overruns (unat sz + 17) ss"
  shows "\<exists>h'. new_alloc sz h = Some (heap_start h + of_nat (off + 17), h') \<and> heap_rep h' ss'
    \<and> heap_start h' = heap_start h"
  using serve [OF assms(1,2) refl assms(3,5,6)] assms(4) by (auto simp: eval_nat_numeral)

theorem new_alloc_refines_witness:
  "\<exists>h h'. init_alloc 0xFFFFFFFF80110000 no_heap = Some h
     \<and> new_alloc 100 h = Some (0xFFFFFFFF80110011, h') \<and> heap_rep h' [(117, False), (3979, True)]"
proof -
  obtain h where h: "init_alloc 0xFFFFFFFF80110000 no_heap = Some h" "heap_rep h [(0x1000, True)]"
    "heap_start h = 0xFFFFFFFF80110000" "heap_room 8 h"
    using kernel_heap by blast
  have room: "heap_room 1 h" using h(4) by (simp add: heap_room_def)
  from new_alloc_refines [OF h(2) _ _ room, of 100 0 "[(117, False), (3979, True)]"] h(1,3)
  show ?thesis by (auto simp: fits_def carve_def)
qed

text \<open>The blocks in use, as pairs of offset and length (header included).\<close>

fun in_use :: "nat \<Rightarrow> seg list \<Rightarrow> (nat \<times> nat) list" where
  "in_use a [] = []"
| "in_use a (s # ss) = (if snd s then [] else [(a, fst s)]) @ in_use (a + fst s) ss"

lemma in_use_append: "in_use a (xs @ ys) = in_use a xs @ in_use (a + segsum xs) ys"
  by (induction xs arbitrary: a) (auto simp: add.assoc)

lemma in_use_range: "(b, n) \<in> set (in_use a ss) \<Longrightarrow> a \<le> b \<and> b + n \<le> a + segsum ss"
  by (induction ss arbitrary: a) (force split: if_splits)+

text \<open>
  C15: when a free block holds the request, and the heap from the remainder of the block chosen
  on is no shorter than the request (\<open>\<not> overruns\<close>: the code is not safe otherwise, as shown
  below), the payload \<open>new_alloc\<close> returns lies inside the heap and overlaps no block that was in
  use before the call, header or payload, and all those blocks are still in use.
\<close>

theorem new_alloc_disjoint:
  assumes "heap_rep h ss" and "0 < unat sz" and "unat sz + 17 \<le> 0x10000000" and "heap_room 1 h"
    and "\<exists>s \<in> set ss. fits (unat sz + 17) s" and "\<not> overruns (unat sz + 17) ss"
  shows "\<exists>h' ss' p. new_alloc sz h = Some (heap_start h + of_nat p, h') \<and> heap_rep h' ss'
    \<and> p + unat sz \<le> unat (heap_size h')
    \<and> (\<forall>(a, n) \<in> set (in_use 0 ss). p + unat sz \<le> a \<or> a + n \<le> p)
    \<and> set (in_use 0 ss) \<subseteq> set (in_use 0 ss')"
proof -
  let ?k = "unat sz + 17"
  obtain off ss' where spec: "seg_alloc ?k ss = Some (off, ss')"
    using assms(5) seg_alloc_None [of ?k ss] by (cases "seg_alloc ?k ss") auto
  have room: "heap_room (Suc 0) h" using assms(4) by simp
  obtain h' where h': "new_alloc sz h = Some (heap_start h + of_nat (off + 17), h')" "heap_rep h' ss'"
    using serve [OF assms(1,2) refl assms(3) spec assms(6) room] by blast
  obtain pre n post where ss: "ss = pre @ (n, True) # post" "?k \<le> n" "off = segsum pre"
    "ss' = pre @ carve ?k n (post = []) @ post"
    by (rule seg_alloc_SomeD [OF spec])
  have len: "post \<noteq> [] \<longrightarrow> segsum (carve ?k n (post = [])) = n" and fit: "?k \<le> segsum (carve ?k n (post = []))"
    using ss(2) by (auto simp: carve_def)
  have "off + 17 + unat sz \<le> unat (heap_size h')"
    using heap_rep_bounds(3) [OF h'(2)] fit by (simp add: ss(3,4))
  moreover have "\<forall>(a, m) \<in> set (in_use 0 ss). off + 17 + unat sz \<le> a \<or> a + m \<le> off + 17"
    using in_use_range [of _ _ 0 pre] in_use_range [of _ _ "segsum pre + n" post] ss(2)
    by (fastforce simp: ss(1,3) in_use_append)
  moreover have "set (in_use 0 ss) \<subseteq> set (in_use 0 ss')"
    using len by (cases "post = []") (auto simp: ss(1,4) in_use_append)
  ultimately show ?thesis using h' by blast
qed

text \<open>
  giving back the last allocation at once restores the heap: when a free block was
  split without a page more, \<open>free_alloc\<close> of the pointer \<open>new_alloc\<close> returned leads back to
  the same blocks.
\<close>

theorem alloc_free_roundtrip:
  assumes "heap_rep h (pre @ (n, True) # post)" and "0 < unat sz" and "unat sz + 17 \<le> 0x10000000"
    and "heap_room 1 h" and "\<forall>s \<in> set pre. \<not> fits (unat sz + 17) s"
    and "unat sz + 17 + 17 \<le> n" and "unat sz + 17 \<le> n - (unat sz + 17) + segsum post"
  shows "\<exists>p h1 h2. new_alloc sz h = Some (p, h1) \<and> free_alloc p h1 = Some h2
    \<and> heap_rep h2 (pre @ (n, True) # post)"
proof -
  have room: "heap_room (Suc 0) h" using assms(4) by simp
  show ?thesis using alloc_free_core [OF assms(1-3) room assms(5-7)] by blast
qed

theorem alloc_free_roundtrip_witness:
  "\<exists>h p h1 h2. init_alloc 0xFFFFFFFF80110000 no_heap = Some h \<and> new_alloc 100 h = Some (p, h1)
     \<and> free_alloc p h1 = Some h2 \<and> heap_rep h2 [(0x1000, True)]"
proof -
  obtain h where h: "init_alloc 0xFFFFFFFF80110000 no_heap = Some h" "heap_rep h [(0x1000, True)]" "heap_room 8 h"
    using kernel_heap by blast
  have room: "heap_room 1 h" using h(3) by (simp add: heap_room_def)
  from alloc_free_roundtrip [of h "[]" "0x1000" "[]" 100, OF _ _ _ room] h(1,2) show ?thesis by auto
qed

theorem new_alloc_disjoint_witness:
  "\<exists>h h' p. init_alloc 0xFFFFFFFF80110000 no_heap = Some h \<and> new_alloc 100 h = Some (heap_start h + of_nat p, h')
     \<and> p + 100 \<le> unat (heap_size h')"
proof -
  obtain h where h: "init_alloc 0xFFFFFFFF80110000 no_heap = Some h" "heap_rep h [(0x1000, True)]" "heap_room 8 h"
    using kernel_heap by blast
  have room: "heap_room 1 h" using h(3) by (simp add: heap_room_def)
  from new_alloc_disjoint [of h "[(0x1000, True)]" 100, OF _ _ _ room] h(1,2)
  show ?thesis by (auto simp: fits_def)
qed

text \<open>
  C28: when no block fits and the last block is free, \<open>new_alloc\<close> adds exactly as many pages
  as the last block lacks and serves the request from it.
\<close>

theorem new_alloc_grows:
  assumes "heap_rep h (pre @ [(n, True)])" and "0 < unat sz" and "unat sz + 17 \<le> 0x10000000"
    and "\<forall>s \<in> set pre. \<not> fits (unat sz + 17) s" and "unat sz + 17 \<le> n + j * 0x1000" and "heap_room (Suc j) h"
  shows "\<exists>i h'. new_alloc sz h = Some (heap_start h + of_nat (segsum pre + 17), h')
    \<and> heap_rep h' (pre @ carve (unat sz + 17) (n + i * 0x1000) True)
    \<and> unat sz + 17 \<le> n + i * 0x1000 \<and> (0 < i \<longrightarrow> n + (i - 1) * 0x1000 < unat sz + 17)"
  using grow [OF assms(2) refl assms(3,4,1,5,6)] by blast

theorem new_alloc_grows_witness:
  "\<exists>h h'. init_alloc 0xFFFFFFFF80110000 no_heap = Some h
     \<and> new_alloc 5000 h = Some (0xFFFFFFFF80110011, h')"
proof -
  obtain h where h: "init_alloc 0xFFFFFFFF80110000 no_heap = Some h" "heap_rep h [(0x1000, True)]"
    "heap_start h = 0xFFFFFFFF80110000" "heap_room 8 h"
    using kernel_heap by blast
  have room: "heap_room (Suc 1) h" using h(4) by (simp add: heap_room_def)
  from new_alloc_grows [of h "[]" "0x1000" 5000 1, OF _ _ _ _ _ room] h(1-3) show ?thesis by auto
qed

section \<open>Where allocation goes wrong\<close>

text \<open>
  C38: when no block fits and the last block is in use, \<open>new_alloc\<close> never returns a pointer:
  each page it maps is added to the size of the block in use, and it calls itself again.
\<close>

theorem new_alloc_last_in_use:
  assumes "heap_rep h ss" and "\<not> snd (last ss)" and "\<forall>s \<in> set ss. \<not> fits (unat sz + 17) s"
    and "0 < unat sz" and "unat sz + 17 \<le> 0x10000000"
  shows "new_alloc sz h = None"
proof -
  have "sz \<noteq> 0" using assms(4) by auto
  then show ?thesis by (rule stuck_None [OF rep_stuck [OF assms(1-3) refl assms(5)]])
qed

theorem new_alloc_last_in_use_witness:
  "\<exists>h p h1. init_alloc 0xFFFFFFFF80110000 no_heap = Some h \<and> new_alloc 4079 h = Some (p, h1)
     \<and> new_alloc 1 h1 = None"
proof -
  obtain h where h: "init_alloc 0xFFFFFFFF80110000 no_heap = Some h" "heap_rep h [(0x1000, True)]" "heap_room 8 h"
    using kernel_heap by blast
  have room: "heap_room (Suc 0) h" using h(3) by (simp add: heap_room_def)
  obtain p h1 where h1: "new_alloc 4079 h = Some (p, h1)" "heap_rep h1 [(4096, False)]"
    using serve [OF h(2), of 4079 4096 0 "[(4096, False)]" 0] room by (auto simp: fits_def carve_def)
  from new_alloc_last_in_use [OF h1(2), of 1] h(1) h1(1) show ?thesis by (auto simp: fits_def)
qed

text \<open>
  C39: when the free block that is chosen is not the last one and the heap behind the new
  block is shorter than the block, \<open>new_alloc\<close> takes the page it adds for the remainder:
  the remainder is entered as a free block that reaches to the end of the heap, over all
  the blocks that follow, in use or not.
\<close>

theorem new_alloc_overlap:
  assumes "heap_rep h ((n, True) # post)" and "0 < unat sz" and "unat sz + 17 \<le> 0x10000000"
    and "heap_room 1 h" and "unat sz + 17 \<le> n" and "overruns (unat sz + 17) ((n, True) # post)"
  shows "\<exists>h'. new_alloc sz h = Some (heap_start h + 17, h')
    \<and> blocks h' (heap_start h + of_nat (unat sz + 17)) =
        Some \<lparr>bsize = of_nat (n - (unat sz + 17) + segsum post + 0x1000), available = 1,
              bnext = heap_start h + of_nat n\<rparr>"
proof -
  let ?k = "unat sz + 17"
  note b = heap_rep_bounds [OF assms(1)]
  define S where "S = unat (heap_start h)"
  define m where "m = n - ?k"
  have o: "post \<noteq> []" "17 \<le> m" "m + segsum post < ?k" and n: "n = ?k + m"
    using assms(5,6) by (auto simp: m_def fits_def)
  have S: "0 < S" "S < 2 ^ 64" "heap_start h = of_nat S" "S + 2 * ?k < 2 ^ 64" using b assms(3) by (simp_all add: S_def)
  have k: "sz + 17 = of_nat ?k" "?k < 2 ^ 64" "?k + m \<le> 0x10000000" using assms(3) b n by simp_all
  let ?e = "S + unat (heap_size h)"
  have e1: "heap_start h + heap_size h = of_nat ?e" by (simp add: S_def)
  have e2: "?e < 2 ^ 64" "?e < S + 2 * ?k" using b o n by (simp_all add: S_def)
  note e = e1 e2
  have "\<exists>ps. page_mapv (heap_start h + heap_size h) 0x1000 heap_flags (pages h) = Some ps"
    using extend_pages [OF assms(1), of 0] assms(4) by auto
  then obtain ps where ps: "page_mapv (heap_start h + heap_size h) 0x1000 heap_flags (pages h) = Some ps" by blast
  have blk: "blocks h (of_nat S) = Some (header_of (n, True) (of_nat (S + n)))"
    using b(7) o(1) by (simp add: S_def)
  have r: "(of_nat ?e + 0x1000 - of_nat (S + ?k) :: qword) = of_nat (m + segsum post + 0x1000)"
  proof -
    have "?e = S + ?k + (m + segsum post)" using b(3) n by simp
    then show ?thesis by (simp only: of_nat_add) simp
  qed
  have r': "unat (ucast (of_nat (m + segsum post + 0x1000) :: qword) :: dword) = m + segsum post + 0x1000"
    unfolding ucast_of_nat_qword using o(3) assms(3)
    by (simp only: unsigned_of_nat of_nat_id) (simp add: take_bit_nat_eq_self)
  note split = split_nums [OF _ k(3,1) o(2) S(4) e(1,2), of "of_nat (S + n)"]
  let ?h' = "split_headers S ?k (m + segsum post + 0x1000) (of_nat (S + n))
     (h\<lparr>pages := ps, heap_size := heap_size h + 0x1000\<rparr>)"
  have "alloc_split sz (of_nat S) (header_of (n, True) (of_nat (S + n))) h = Some (of_nat S + 17, ?h')"
    using split unfolding if_P [OF e(3)] ps bind.bind_lunit Let_def r r' n [symmetric] by simp
  then have "alloc_scan sz (of_nat S) 0 h = Some (Inl (of_nat S + 17), ?h')"
    using block_step(3) [OF blk S(1,2) _ k(2,1), of 0] n o(2) k(3) by simp
  moreover have "sz \<noteq> 0" using assms(2) by auto
  ultimately have run: "new_alloc sz h = Some (heap_start h + 17, ?h')"
    by (subst new_alloc.simps) (simp add: S(3))
  have "(of_nat (S + ?k) :: qword) \<noteq> of_nat S" using of_nat_qword_inject [of "S + ?k" S] S by simp
  then have "blocks ?h' (of_nat (S + ?k)) = Some (header_of (m + segsum post + 0x1000, True) (of_nat (S + n)))"
    unfolding split_headers_simps by (simp only: fun_upd_other fun_upd_same not_False_eq_True)
  then show ?thesis
    using run by (simp add: S(3) m_def header_of_def)
qed

text \<open>Three allocations and two releases lead to such a heap.\<close>

theorem new_alloc_overlap_witness:
  "\<exists>h h' a. heap_rep h [(2500, True), (1596, False)] \<and> heap_start h = a
     \<and> new_alloc 2083 h = Some (a + 17, h')
     \<and> blocks h' (a + 2100) = Some \<lparr>bsize = 6092, available = 1, bnext = a + 2500\<rparr>"
proof -
  obtain h0 where h0: "heap_rep h0 [(0x1000, True)]" "heap_room (Suc 3) h0"
    using kernel_heap by (auto simp: heap_room_def)
  obtain h1 where h1: "heap_rep h1 [(1000, False), (3096, True)]" "heap_room 3 h1"
    using serve [OF h0(1), of 983 1000 0 "[(1000, False), (3096, True)]" 3] h0(2)
    by (auto simp: fits_def carve_def)
  have "heap_room (Suc 2) h1" using h1(2) by (simp add: heap_room_def)
  then obtain h2 where h2: "heap_rep h2 [(1000, False), (1500, False), (1596, True)]" "heap_room 2 h2"
    using serve [OF h1(1), of 1483 1500 1000 "[(1000, False), (1500, False), (1596, True)]" 2]
    by (auto simp: fits_def carve_def)
  have "heap_room (Suc 1) h2" using h2(2) by (simp add: heap_room_def)
  then obtain h3 where h3: "heap_rep h3 [(1000, False), (1500, False), (1596, False)]" "heap_room 1 h3"
    using serve [OF h2(1), of 1579 1596 2500 "[(1000, False), (1500, False), (1596, False)]" 1]
    by (auto simp: fits_def carve_def)
  obtain h4 where h4: "heap_rep h4 [(1000, False), (1500, True), (1596, False)]" "heap_room 1 h4"
    using free_rep [of h3 "[(1000, False)]" 1500 False "[(1596, False)]"] h3
    by (auto simp: seg_free_def heap_room_def)
  obtain h5 where h5: "heap_rep h5 [(2500, True), (1596, False)]" "heap_room 1 h5"
    using free_rep [of h4 "[]" 1000 False "[(1500, True), (1596, False)]"] h4
    by (auto simp: seg_free_def heap_room_def)
  from new_alloc_overlap [OF h5(1) _ _ h5(2), of 2083] h5(1) show ?thesis by (auto simp: fits_def)
qed

end
