(* ===== verification/Fat_Props.thy ===== *)
theory Fat_Props
  imports Fat Heap_Props
begin

text \<open>
  The properties of the FAT16 code: conversion of names to the 8.3 form, lookup, the
  cluster chain, and reading.  The heap enters through the interface \<open>heap_scratch\<close>.
\<close>

section \<open>Names\<close>

definition pad :: "nat \<Rightarrow> byte list \<Rightarrow> byte list" where
  "pad n s = take n (s @ replicate n 0x20)"

lemma length_pad [simp]: "length (pad n s) = n"
  by (simp add: pad_def)

lemma upper_char_eq_iff: "upper_char x = 0 \<longleftrightarrow> x = 0" "upper_char x = 46 \<longleftrightarrow> x = 46"
proof -
  have "x = c - 65 + 97" if "x - 97 + 65 = c" for c :: byte
    using that by (simp add: algebra_simps)
  then have "x - 97 + 65 = 0 \<Longrightarrow> x = 32" "x - 97 + 65 = 46 \<Longrightarrow> x = 78" by fastforce+
  then show "upper_char x = 0 \<longleftrightarrow> x = 0" "upper_char x = 46 \<longleftrightarrow> x = 46"
    by (auto simp: upper_char_def)
qed

lemma strupper_NUL:
  "0 \<notin> set s \<Longrightarrow> length s < 2 ^ 32 \<Longrightarrow> strupper (s @ 0 # r) = Some (map upper_char s @ 0 # r)"
  using char_loop_cstr by (simp add: strupper_def)

lemma base_loop_ok:
  assumes "i \<le> 8" and "\<forall>j < i. int j < dot \<longrightarrow> j < length fn"
  shows "base_loop i fn dot (replicate 11 0x20) =
    Some (map (\<lambda>j. if int j \<ge> dot then 0x20 else fn ! j) [0..<i] @ replicate (11 - i) 0x20)"
  using assms
proof (induction i)
  case (Suc i)
  have r: "replicate (11 - i) (0x20 :: byte) = 0x20 # replicate (11 - Suc i) 0x20"
    using Suc.prems(1) by (simp add: replicate_Suc [symmetric] Suc_diff_le del: replicate_Suc)
  show ?case
    using Suc by (simp add: r list_update_append)
qed simp

lemma ext_loop_ok:
  assumes "i \<le> 3" and "pos + i \<le> length fn" and "length a = 8"
  shows "ext_loop i fn pos (a @ replicate 3 0x20) =
    Some (a @ map (\<lambda>j. fn ! (pos + j)) [0..<i] @ replicate (3 - i) 0x20)"
  using assms
proof (induction i)
  case (Suc i)
  have r: "replicate (3 - i) (0x20 :: byte) = 0x20 # replicate (3 - Suc i) 0x20"
    using Suc.prems(1) by (simp add: replicate_Suc [symmetric] Suc_diff_le del: replicate_Suc)
  show ?case
    using Suc by (simp add: r list_update_append)
qed simp

lemma dot_index_first:
  assumes "46 \<notin> set s"
  shows "dot_index (s @ 46 # t @ r) (length s + 1 + length t) = int (length s)"
proof -
  have "find (\<lambda>i. (s @ 46 # t @ r) ! i = 46) [0..<length s + 1 + length t] = Some (length s)"
    unfolding find_upt_Some using assms by (auto simp: nth_append in_set_conv_nth)
  then show ?thesis by (simp add: dot_index_def)
qed

lemma dot_index_none:
  assumes "46 \<notin> set s"
  shows "dot_index (s @ r) (length s) = - 1"
proof -
  have "find (\<lambda>i. (s @ r) ! i = 46) [0..<length s] = None"
    unfolding find_upt_None using assms by (auto simp: nth_append in_set_conv_nth)
  then show ?thesis by (simp add: dot_index_def)
qed

lemma base_pad:
  assumes "fn = s @ r"
  shows "map (\<lambda>j. if int j \<ge> int (length s) then 0x20 else fn ! j) [0..<8] = pad 8 s"
  by (rule nth_equalityI) (auto simp: pad_def nth_append assms)

lemma ext_pad:
  assumes "fn = p @ s @ r" and "length s \<le> 3"
  shows "map (\<lambda>j. fn ! (length p + j)) [0..<length s] @ replicate (3 - length s) 0x20 = pad 3 s"
proof -
  have "map (\<lambda>j. fn ! (length p + j)) [0..<length s] = s"
    by (rule nth_equalityI) (auto simp: nth_append assms(1))
  then show ?thesis using assms(2) by (simp add: pad_def min_def)
qed

lemma convert_exact:
  assumes "0 \<notin> set base" and "46 \<notin> set base" and "0 \<notin> set extn" and "length extn \<le> 3"
    and "length base + length extn + 1 < 2 ^ 32" and "11 \<le> length base + length extn + 2 + length rest"
  shows "convert_name_to_fat16name (base @ 46 # extn @ 0 # rest) =
    Some (pad 8 (map upper_char base) @ pad 3 (map upper_char extn)
      @ drop 11 (map upper_char base @ 46 # map upper_char extn @ 0 # rest))"
proof -
  let ?b = "map upper_char base" and ?e = "map upper_char extn"
  let ?fn = "?b @ 46 # ?e @ 0 # rest"
  have up46: "upper_char 46 = 46" using upper_char_eq_iff(2) by blast
  have nul: "0 \<notin> set (?b @ 46 # ?e)" and dot: "46 \<notin> set ?b"
  proof -
    have "\<forall>x \<in> set base. upper_char x \<noteq> 0 \<and> upper_char x \<noteq> 46" "\<forall>x \<in> set extn. upper_char x \<noteq> 0"
      using assms(1-3) upper_char_eq_iff by metis+
    then show "0 \<notin> set (?b @ 46 # ?e)" "46 \<notin> set ?b" by force+
  qed
  have "0 \<notin> set (base @ 46 # extn)" "length (base @ 46 # extn) < 2 ^ 32" using assms by simp_all
  from strupper_NUL [OF this, of rest] have up: "strupper (base @ 46 # extn @ 0 # rest) = Some ?fn"
    by (simp add: up46)
  have size: "strsize ?fn = Some (length base + 1 + length extn)"
    using strsize_NUL [OF nul, of rest] by simp
  have di: "dot_index ?fn (length base + 1 + length extn) = int (length base)"
    using dot_index_first [OF dot, of ?e "0 # rest"] by simp
  have out1: "base_loop 8 ?fn (int (length base)) (replicate 11 0x20) = Some (pad 8 ?b @ replicate 3 0x20)"
    using base_loop_ok [of 8 "int (length base)" ?fn] base_pad [of ?fn ?b "46 # ?e @ 0 # rest"] by simp
  have drop: "drop (length base + 1) ?fn = ?e @ 0 # rest" by simp
  have size2: "strsize (drop (length base + 1) ?fn) = Some (length extn)"
    unfolding drop using strsize_NUL [of ?e rest] nul by simp
  have out2: "ext_loop (length extn) ?fn (length base + 1) (pad 8 ?b @ replicate 3 0x20) = Some (pad 8 ?b @ pad 3 ?e)"
    using ext_loop_ok [of "length extn" "length base + 1" ?fn "pad 8 ?b"] assms(4)
      ext_pad [of ?fn "?b @ [46]" ?e "0 # rest"] by simp
  show ?thesis
    using assms(6) unfolding convert_name_to_fat16name_def up bind.bind_lunit size di Let_def out1
    by (simp add: out2 [simplified] size2 [simplified] nat_add_distrib)
qed

text \<open>
  \<open>convert_name_to_fat16name\<close> turns \<open>base.ext\<close>, with an extension of at most three
  characters, into the eleven characters of the 8.3 form: the base in upper case, cut or
  padded to eight, and the extension padded to three.
\<close>

theorem convert_name_correct:
  assumes "0 \<notin> set base" and "46 \<notin> set base" and "0 \<notin> set extn" and "length extn \<le> 3"
    and "length base + length extn + 1 < 2 ^ 32" and "11 \<le> length base + length extn + 2 + length rest"
  shows "convert_name_to_fat16name (base @ 46 # extn @ 0 # rest) =
    Some (pad 8 (map upper_char base) @ pad 3 (map upper_char extn)
      @ drop 11 (map upper_char base @ 46 # map upper_char extn @ 0 # rest))"
  by (rule convert_exact [OF assms])

lemma pad_Cons: "pad (Suc n) (c # s) = c # pad n s" "pad (Suc n) [] = 0x20 # pad n []" "pad 0 s = []"
  by (simp_all add: pad_def min_def replicate_append_same [symmetric])

theorem convert_name_correct_witness:
  "convert_name_to_fat16name [107, 46, 99, 0, 1, 2, 3, 4, 5, 6, 7, 9]
     = Some [75, 32, 32, 32, 32, 32, 32, 32, 67, 32, 32, 9]"
proof -
  have "pad 8 [75] = [75, 32, 32, 32, 32, 32, 32, 32]" "pad 3 [67] = [67, 32, 32]"
    by (simp_all only: numeral_nat pad_Cons)
  moreover have "upper_char 107 = 75" "upper_char 99 = 67" by (simp_all add: upper_char_def)
  ultimately show ?thesis
    using convert_name_correct [of "[107]" "[99]" "[1, 2, 3, 4, 5, 6, 7, 9]"] by simp
qed

lemma ext_loop_overflow:
  assumes "length a = 8"
  shows "ext_loop (4 + i) fn pos (a @ replicate 3 0x20) = None"
proof (induction i)
  case 0
  have "ext_loop 3 fn pos (a @ replicate 3 0x20) = None
      \<or> (\<exists>out. ext_loop 3 fn pos (a @ replicate 3 0x20) = Some out \<and> length out = 11)"
    using assms by (auto simp: eval_nat_numeral bind_eq_Some_conv buf_set_def buf_get_def split: bind_splits if_splits)
  then show ?case
    by (auto simp: eval_nat_numeral buf_set_def buf_get_def split: bind_splits)
next
  case (Suc i)
  have "4 + Suc i = Suc (4 + i)" by simp
  then show ?case using Suc by (simp only: ext_loop.simps bind.bind_lzero)
qed

text \<open>
  a name without a dot and of more than three characters makes
  \<open>convert_name_to_fat16name\<close> write past the eleven bytes of its local array: without a
  dot the whole name is taken for the extension.
\<close>

theorem convert_name_overflow:
  assumes "0 \<notin> set s" and "46 \<notin> set s" and "3 < length s" and "length s < 2 ^ 32"
  shows "convert_name_to_fat16name (s @ 0 # rest) = None"
proof -
  let ?s = "map upper_char s"
  have ne: "0 \<notin> set ?s" "46 \<notin> set ?s"
  proof -
    have "\<forall>x \<in> set s. upper_char x \<noteq> 0 \<and> upper_char x \<noteq> 46" using assms(1,2) upper_char_eq_iff by metis
    then show "0 \<notin> set ?s" "46 \<notin> set ?s" by force+
  qed
  have size: "strsize (?s @ 0 # rest) = Some (length s)" using strsize_NUL [OF ne(1), of rest] by simp
  have dot: "dot_index (?s @ 0 # rest) (length s) = - 1" using dot_index_none [OF ne(2)] by simp
  have "base_loop 8 (?s @ 0 # rest) (- 1) (replicate 11 0x20) = Some (replicate 8 0x20 @ replicate 3 0x20)"
    using base_loop_ok [of 8 "- 1" "?s @ 0 # rest"] by (simp add: map_replicate_trivial)
  moreover have "ext_loop (length s) (?s @ 0 # rest) 0 (replicate 8 0x20 @ replicate 3 0x20) = None"
    using ext_loop_overflow [of "replicate 8 0x20" "length s - 4"] assms(3) by simp
  ultimately show ?thesis
    using strupper_NUL [OF assms(1,4), of rest] size
    by (simp add: convert_name_to_fat16name_def dot)
qed

theorem convert_name_overflow_witness:
  "convert_name_to_fat16name ([98, 111, 111, 116] @ 0 # replicate 59 0) = None"
  by (rule convert_name_overflow) simp_all

section \<open>Lookup\<close>

lemma find_sector_ok:
  assumes "length b = 512" and "11 \<le> length fname" and "j + n \<le> 16"
  shows "find_in_sector b fname j n =
    Some (map_option (\<lambda>i. fat_filedirectory_of (take 32 (drop (32 * i) b)))
      (find (\<lambda>i. take 11 (drop (32 * i) b) = take 11 fname) [j..<j + n]))"
  using assms
proof (induction n arbitrary: j)
  case (Suc n)
  have len: "11 \<le> length (drop (32 * j) b)" using Suc.prems by simp
  have up: "[j..<j + Suc n] = j # [Suc j..<Suc j + n]" by (simp add: upt_rec)
  show ?case
    unfolding up using Suc by (simp add: strncmp_take [OF len])
qed simp

text \<open>Entry \<open>k\<close> of the directory that starts at a sector.\<close>

definition dir_entry_at :: "disk \<Rightarrow> dword \<Rightarrow> nat \<Rightarrow> byte list" where
  "dir_entry_at d start k = disk_bytes d start (32 * k) 32"

definition root_entry :: "fs \<Rightarrow> nat \<Rightarrow> byte list" where
  "root_entry s k = disk_bytes (fdisk s) (root_dirs_start s) (32 * k) 32"

text \<open>The first entry with the eleven characters \<open>nm\<close>.\<close>

definition dir_find :: "disk \<Rightarrow> dword \<Rightarrow> byte list \<Rightarrow> nat \<Rightarrow> fat_filedirectory_t option" where
  "dir_find d start nm sectors = map_option (\<lambda>k. fat_filedirectory_of (dir_entry_at d start k))
     (find (\<lambda>k. take 11 (dir_entry_at d start k) = nm) [0..<16 * sectors])"

lemma read_sector_ok:
  assumes "disk_ok d" and "unat sz \<le> length buf"
  shows "ata_read_disk d lba 0 buf 0 sz = Some (disk_bytes d lba 0 (unat sz) @ drop (unat sz) buf)"
  using read_loop_ok [OF assms(1), of 0 0 "unat sz" buf lba] assms(2)
  by (simp add: ata_read_disk_def patch_def)

lemma disk_bytes_shift: "disk_bytes d lba (512 * i + k) n = disk_bytes d (lba + of_nat i) k n"
proof (induction i arbitrary: lba)
  case (Suc i)
  have "disk_bytes d lba (512 * Suc i + k) n = disk_bytes d (lba + 1) (512 * i + k) n"
    using disk_bytes_next [of d lba "512 * i + k" n] by (simp add: add.assoc)
  then show ?case using Suc by (simp add: add.assoc)
qed simp

lemma take_disk_bytes: "m \<le> n \<Longrightarrow> take m (disk_bytes d lba k n) = disk_bytes d lba k m"
  by (simp add: disk_bytes_def take_map)

lemma drop_disk_bytes: "drop m (disk_bytes d lba k n) = disk_bytes d lba (k + m) (n - m)"
  by (rule nth_equalityI) (auto simp: disk_bytes_def add.assoc)

lemma find_append: "find P (xs @ ys) = (case find P xs of None \<Rightarrow> find P ys | Some x \<Rightarrow> Some x)"
  by (induction xs) auto

lemma find_map_add: "find P [a..<a + n] = map_option (\<lambda>j. a + j) (find (\<lambda>j. P (a + j)) [0..<n])"
proof (induction n)
  case (Suc n)
  then show ?case by (auto simp: find_append split: option.splits)
qed simp

lemma find_root_ok:
  assumes disk: "disk_ok d" and fname: "11 \<le> length fname"
  shows "find_in_root d start fname i n =
    Some (map_option (\<lambda>k. fat_filedirectory_of (dir_entry_at d start k))
      (find (\<lambda>k. take 11 (dir_entry_at d start k) = take 11 fname) [16 * i..<16 * (i + n)]))"
proof (induction n arbitrary: i)
  case (Suc n)
  let ?b = "disk_bytes d (start + of_nat i) 0 512"
  have read: "ata_read_disk d (start + of_nat i) 0 (replicate 512 0) 0 512 = Some ?b"
    using read_sector_ok [OF disk, of 512 "replicate 512 0"] by simp
  have entry: "take 32 (drop (32 * j) ?b) = dir_entry_at d start (16 * i + j)"
    "take 11 (drop (32 * j) ?b) = take 11 (dir_entry_at d start (16 * i + j))" if "j < 16" for j
  proof -
    have e: "512 * i + 32 * j = 32 * (16 * i + j)" by simp
    have "disk_bytes d (start + of_nat i) (32 * j) m
        = disk_bytes d start (32 * (16 * i + j)) m" for m
      unfolding e [symmetric] disk_bytes_shift ..
    then show "take 32 (drop (32 * j) ?b) = dir_entry_at d start (16 * i + j)"
      "take 11 (drop (32 * j) ?b) = take 11 (dir_entry_at d start (16 * i + j))"
      using that by (simp_all add: drop_disk_bytes take_disk_bytes dir_entry_at_def)
  qed
  have sector: "find_in_sector ?b fname 0 16 =
    Some (map_option (\<lambda>k. fat_filedirectory_of (dir_entry_at d start k))
      (find (\<lambda>k. take 11 (dir_entry_at d start k) = take 11 fname) [16 * i..<16 * i + 16]))"
  proof -
    have "find (\<lambda>j. take 11 (drop (32 * j) ?b) = take 11 fname) [0..<16]
      = find (\<lambda>j. take 11 (dir_entry_at d start (16 * i + j)) = take 11 fname) [0..<16]"
      by (rule find_cong) (auto simp: entry)
    moreover have "find P [0..<16] = Some j \<Longrightarrow> j < 16" for P j
      unfolding find_upt_Some by simp
    ultimately show ?thesis
      using find_sector_ok [of ?b fname 0 16] fname
      by (auto simp: find_map_add [of _ "16 * i" 16] entry option.map_comp comp_def intro!: option.map_cong)
  qed
  have split: "[16 * i..<16 * (i + Suc n)] = [16 * i..<16 * i + 16] @ [16 * (i + 1)..<16 * (i + 1 + n)]"
    using upt_add_eq_append [of "16 * i" "16 * i + 16" "16 * n"] by (simp add: algebra_simps)
  show ?case
    unfolding split find_append using read sector Suc [of "i + 1"]
    by (auto split: option.splits)
qed simp

definition root_lookup :: "fs \<Rightarrow> byte list \<Rightarrow> nat \<Rightarrow> fat_filedirectory_t option" where
  "root_lookup s nm sectors = map_option (\<lambda>k. fat_filedirectory_of (root_entry s k))
     (find (\<lambda>k. take 11 (root_entry s k) = nm) [0..<16 * sectors])"

lemma root_lookup_dir: "root_lookup s nm n = dir_find (fdisk s) (root_dirs_start s) nm n"
  by (simp add: root_lookup_def dir_find_def root_entry_def dir_entry_at_def)

text \<open>Collecting the characters of a name without a separator.\<close>

lemma find_path_collect:
  assumes "i \<le> length nm" and "0 \<notin> set nm" and "47 \<notin> set nm" and "length nm < 64"
    and "length fname = 64" and "take i fname = take i nm" and "i = 0 \<or> fname ! i = 0" and "nm \<noteq> []"
  shows "\<exists>fname'. find_path convert d root sectors (nm @ 0 # r) i (length nm) fname i
      = find_path convert d root sectors (nm @ 0 # r) (length nm) (length nm) fname' (length nm)
    \<and> length fname' = 64 \<and> take (length nm) fname' = nm \<and> fname' ! length nm = 0"
  using assms
proof (induction "length nm - i" arbitrary: i fname)
  case 0
  then have "i = length nm" by simp
  then show ?case using 0 by (intro exI [of _ fname]) auto
next
  case (Suc k)
  then have i: "i < length nm" by simp
  let ?c = "nm ! i"
  let ?f = "fname[i := ?c, i + 1 := 0]"
  have c: "?c \<noteq> 0" "?c \<noteq> 47" using Suc.prems(2,3) i by (metis nth_mem)+
  have step: "find_path convert d root sectors (nm @ 0 # r) i (length nm) fname i
      = find_path convert d root sectors (nm @ 0 # r) (i + 1) (length nm) ?f (i + 1)"
    using i c Suc.prems(4,5) by (subst find_path.simps) (simp add: nth_append)
  have take: "take (i + 1) ?f = take (i + 1) nm"
    using i Suc.prems(4-6) by (simp add: take_Suc_conv_app_nth)
  have "\<exists>fname'. find_path convert d root sectors (nm @ 0 # r) (i + 1) (length nm) ?f (i + 1)
      = find_path convert d root sectors (nm @ 0 # r) (length nm) (length nm) fname' (length nm)
    \<and> length fname' = 64 \<and> take (length nm) fname' = nm \<and> fname' ! length nm = 0"
    by (rule Suc.hyps(1)) (use Suc.prems Suc.hyps(2) i take in auto)
  then show ?case using step by simp
qed

definition fat16_name :: "byte list \<Rightarrow> byte list \<Rightarrow> byte list" where
  "fat16_name base extn = pad 8 (map upper_char base) @ pad 3 (map upper_char extn)"

lemma convert_core:
  assumes "0 \<notin> set base" and "46 \<notin> set base" and "0 \<notin> set extn" and "length extn \<le> 3"
    and "length base + length extn + 1 < 2 ^ 32" and "11 \<le> length base + length extn + 2 + length rest"
  shows "\<exists>r. convert_name_to_fat16name (base @ 46 # extn @ 0 # rest) = Some (fat16_name base extn @ r)
    \<and> length r = length base + length extn + 2 + length rest - 11"
  using convert_exact [OF assms] by (auto simp: fat16_name_def)


text \<open>
  The walk for a name without a separator: the conversion of the collected name is looked up
  in the directory.
\<close>

lemma find_path_lookup:
  assumes disk: "disk_ok d" and nm: "0 \<notin> set nm" "47 \<notin> set nm" "length nm < 64" "nm \<noteq> []"
    and fname0: "length fname0 = 64" and len11: "length name11 = 11"
    and conv: "\<And>rest. length rest = 63 - length nm \<Longrightarrow>
      \<exists>c. convert (nm @ 0 # rest) = Some (name11 @ c) \<and> length c = 53"
  shows "find_path convert d root n (nm @ 0 # r) 0 (length nm) fname0 0
    = Some (dir_find d root name11 (unat n), [name11 @ [0]])"
proof -
  obtain f where f: "find_path convert d root n (nm @ 0 # r) 0 (length nm) fname0 0
      = find_path convert d root n (nm @ 0 # r) (length nm) (length nm) f (length nm)"
    "length f = 64" "take (length nm) f = nm" "f ! length nm = 0"
    using find_path_collect [of 0 nm fname0 convert d root n r] nm fname0 by auto
  have "f = take (length nm) f @ f ! length nm # drop (Suc (length nm)) f"
    using nm(3) f(2) by (simp add: id_take_nth_drop [symmetric])
  then have rest: "f = nm @ 0 # drop (Suc (length nm)) f" by (simp only: f(3,4))
  have "length (drop (Suc (length nm)) f) = 63 - length nm" using f(2) nm(3) by simp
  from conv [OF this, folded rest] obtain c where c: "convert f = Some (name11 @ c)" "length c = 53" by blast
  let ?f2 = "(name11 @ c)[11 := 0]"
  have take11: "take 11 ?f2 = name11" by (simp add: len11)
  have "take 12 ?f2 = take 11 ?f2 @ [?f2 ! 11]" using take_Suc_conv_app_nth [of 11 ?f2] c(2) len11 by simp
  then have take12: "take 12 ?f2 = name11 @ [0]" unfolding take11 using c(2) len11 by simp
  have root: "find_in_root d root ?f2 0 (unat n) = Some (dir_find d root name11 (unat n))"
    using find_root_ok [OF disk, of ?f2 root 0 "unat n"] c(2) take11 by (simp add: dir_find_def len11)
  have "find_path convert d root n (nm @ 0 # r) (Suc (length nm)) (length nm) (?f2[0 := 0]) 0 = Some (None, [])"
    by (subst find_path.simps) simp
  then have "find_path convert d root n (nm @ 0 # r) (length nm) (length nm) f (length nm)
      = Some (dir_find d root name11 (unat n), [name11 @ [0]])"
    using c root len11 take12 by (subst find_path.simps) (auto simp: nth_append split: option.splits)
  then show ?thesis using f(1) by simp
qed

lemma find_file_core:
  assumes disk: "disk_ok (fdisk s)" and sectors: "root_dir_sectors s = Some n"
    and base: "0 \<notin> set base" "46 \<notin> set base" "47 \<notin> set base"
    and extn: "0 \<notin> set extn" "47 \<notin> set extn" "length extn \<le> 3"
    and len: "length base + length extn < 62" and fname0: "length fname0 = 64"
  shows "fat_findFile fname0 (base @ 46 # extn @ 0 # r) s =
    Some (case root_lookup s (fat16_name base extn) (unat n) of
        Some dir \<Rightarrow> (dir, [(searching, fat16_name base extn @ [0]), (is_found, fat16_name base extn @ [0])])
      | None \<Rightarrow> (no_file, [(searching, fat16_name base extn @ [0])]))"
proof -
  let ?nm = "base @ 46 # extn"
  have nm: "0 \<notin> set ?nm" "47 \<notin> set ?nm" "length ?nm < 64" "?nm \<noteq> []" using base extn len by auto
  have size: "strsize (base @ 46 # extn @ 0 # r) = Some (length ?nm)" using strsize_NUL [OF nm(1), of r] by simp
  have conv: "\<exists>c. convert_name_to_fat16name (?nm @ 0 # rest) = Some (fat16_name base extn @ c) \<and> length c = 53"
    if "length rest = 63 - length ?nm" for rest
    using convert_core [OF base(1,2) extn(1,3), of rest] that len by auto
  have len11: "length (fat16_name base extn) = 11" by (simp add: fat16_name_def)
  have "find_path convert_name_to_fat16name (fdisk s) (root_dirs_start s) n (?nm @ 0 # r) 0 (length ?nm) fname0 0
      = Some (root_lookup s (fat16_name base extn) (unat n), [fat16_name base extn @ [0]])"
    unfolding root_lookup_dir
    by (rule find_path_lookup [OF disk nm fname0 len11]) (rule conv)
  then show ?thesis using size sectors by (simp add: fat_findFile_def split: option.split)
qed

text \<open>The entry alone.\<close>

lemma find_file_entry:
  assumes "disk_ok (fdisk s)" and "root_dir_sectors s = Some n"
    and "0 \<notin> set base" and "46 \<notin> set base" and "47 \<notin> set base"
    and "0 \<notin> set extn" and "47 \<notin> set extn" and "length extn \<le> 3"
    and "length base + length extn < 62" and "length fname0 = 64"
  shows "map_option fst (fat_findFile fname0 (base @ 46 # extn @ 0 # r) s) =
    Some (case root_lookup s (fat16_name base extn) (unat n) of Some dir \<Rightarrow> dir | None \<Rightarrow> no_file)"
  using find_file_core [OF assms, of r] by (simp split: option.split)

text \<open>
  C25: \<open>fat_findFile\<close> of a plain name \<open>base.ext\<close> returns the first of the \<open>16 * n\<close> entries of
  the root directory whose name is its 8.3 form, and a zero entry when there is none; it prints
  the 8.3 form once, and a second time when the entry is there.
\<close>

theorem fat_findFile_correct:
  assumes "disk_ok (fdisk s)" and "root_dir_sectors s = Some n"
    and "0 \<notin> set base" and "46 \<notin> set base" and "47 \<notin> set base"
    and "0 \<notin> set extn" and "47 \<notin> set extn" and "length extn \<le> 3"
    and "length base + length extn < 62" and "length fname0 = 64"
  shows "fat_findFile fname0 (base @ 46 # extn @ 0 # r) s =
    Some (case find (\<lambda>k. take 11 (root_entry s k) = fat16_name base extn) [0..<16 * unat n] of
            Some k \<Rightarrow> (fat_filedirectory_of (root_entry s k),
              [(searching, fat16_name base extn @ [0]), (is_found, fat16_name base extn @ [0])])
          | None \<Rightarrow> (no_file, [(searching, fat16_name base extn @ [0])]))"
  using find_file_core [OF assms, of r] by (auto simp: root_lookup_def split: option.splits)

text \<open>
  opening a file that is not in the root directory does not give the pointer with
  \<open>0xFFFFFFFF\<close> that the comment promises: the zero entry of \<open>fat_findFile\<close> has no directory
  attribute, so the result is an open file at cluster 0.
\<close>

theorem fat_fileOpen_missing:
  assumes "disk_ok (fdisk s)" and "root_dir_sectors s = Some n"
    and "0 \<notin> set base" and "46 \<notin> set base" and "47 \<notin> set base"
    and "0 \<notin> set extn" and "47 \<notin> set extn" and "length extn \<le> 3"
    and "length base + length extn < 62" and "length fname0 = 64"
    and "\<forall>k < 16 * unat n. take 11 (root_entry s k) \<noteq> fat16_name base extn"
  shows "fat_fileOpen fname0 (base @ 46 # extn @ 0 # r) s =
    Some (\<lparr>current_cluster = 0, next_cluster = 0, cluster = 0, offset = 0\<rparr>, [(searching, fat16_name base extn @ [0])])"
proof -
  have "root_lookup s (fat16_name base extn) (unat n) = None"
    using assms(11) by (simp add: root_lookup_def find_upt_None)
  then show ?thesis
    using find_file_core [OF assms(1-10), of r]
    by (simp add: fat_fileOpen_def no_file_def fat_filedirectory_of_def file_cluster_def le16_def Let_def)
qed

end
