(* ===== verification/Fat_Read.thy ===== *)
theory Fat_Read
  imports Fat_Props
begin

text \<open>
  Reading along the cluster chain, seeking, and the partition table.  A buffer for a
  cluster is taken from the heap through \<open>heap_scratch\<close>.
\<close>

section \<open>Clusters\<close>

lemma read_sectors_ok:
  assumes "disk_ok d" and "pos + 512 * n \<le> length buf"
  shows "read_sectors d lba 512 n buf pos = Some (patch pos (disk_bytes d lba 0 (512 * n)) buf)"
  using assms(2)
proof (induction n)
  case 0
  then show ?case by (simp add: disk_bytes_def)
next
  case (Suc n)
  let ?b = "patch pos (disk_bytes d lba 0 (512 * n)) buf"
  have len: "length ?b = length buf" using Suc.prems by simp
  have shift: "disk_bytes d (lba + of_nat n) 0 512 = disk_bytes d lba (512 * n) 512"
    using disk_bytes_shift [of d lba n 0 512] by simp
  have "ata_read_disk d (lba + of_nat n) 0 ?b (pos + n * 512) 512
      = Some (patch (pos + n * 512) (disk_bytes d lba (512 * n) 512) ?b)"
    using read_loop_ok [OF assms(1), of 0 "pos + n * 512" 512 ?b "lba + of_nat n"] Suc.prems len shift
    by (simp add: ata_read_disk_def)
  also have "\<dots> = Some (patch pos (disk_bytes d lba 0 (512 * n) @ disk_bytes d lba (512 * n) 512) buf)"
    using patch_patch [of pos "disk_bytes d lba 0 (512 * n)" "disk_bytes d lba (512 * n) 512" buf] Suc.prems
    by (simp add: mult.commute)
  also have "disk_bytes d lba 0 (512 * n) @ disk_bytes d lba (512 * n) 512 = disk_bytes d lba 0 (512 * Suc n)"
    using disk_bytes_add [of d lba 0 "512 * n" 512] by (simp add: add.commute)
  finally show ?case using Suc by simp
qed

definition cluster_data :: "fs \<Rightarrow> dword \<Rightarrow> dword \<Rightarrow> byte list" where
  "cluster_data s ds c = disk_bytes (fdisk s) (cluster_lba s ds c) 0 (512 * spc s)"

definition file_data :: "fs \<Rightarrow> dword \<Rightarrow> dword list \<Rightarrow> byte list" where
  "file_data s ds cs = concat (map (cluster_data s ds) cs)"

lemma length_cluster_data [simp]: "length (cluster_data s ds c) = 512 * spc s"
  by (simp add: cluster_data_def)

lemma length_file_data [simp]: "length (file_data s ds cs) = 512 * spc s * length cs"
  by (induction cs) (simp_all add: file_data_def)

lemma file_data_Cons [simp]: "file_data s ds (c # cs) = cluster_data s ds c @ file_data s ds cs"
  "file_data s ds [] = []"
  by (simp_all add: file_data_def)

text \<open>
  The volume itself, in numbers: sectors count from the start of the drive, the table of
  clusters is an array of 16-bit entries, \<open>data_sector\<close> is where cluster 2 lies.
\<close>

definition fat_sector :: "fs \<Rightarrow> nat" where
  "fat_sector s = unat (fat_lba_start s) + unat (reserved_sector (fat_hdr s))"

definition data_sector :: "fs \<Rightarrow> nat" where
  "data_sector s = fat_sector s + unat (fat_number (fat_hdr s)) * unat (sector_per_fat (fat_hdr s))
     + unat (root_dir_entries (fat_hdr s)) div (unat (bytes_per_sector (fat_hdr s)) div 32)"

definition fat_entry :: "fs \<Rightarrow> dword \<Rightarrow> dword" where
  "fat_entry s c = (let byte_at = \<lambda>k. unat (disk_byte (fdisk s) (of_nat (fat_sector s)) k)
     in of_nat (byte_at (2 * unat c) + 256 * byte_at (2 * unat c + 1)))"

definition volume_cluster :: "fs \<Rightarrow> dword \<Rightarrow> byte list" where
  "volume_cluster s c = disk_bytes (fdisk s) (word_of_int (int (data_sector s) + (int (unat c) - 2) * int (spc s))) 0 (512 * spc s)"

definition first_cluster :: "fat_filedirectory_t \<Rightarrow> dword" where
  "first_cluster f = of_nat (unat (low_cluster f) + 65536 * unat (high_cluster f))"

text \<open>The chain from cluster \<open>c\<close> to the end mark.\<close>

primrec fat_chain :: "fs \<Rightarrow> dword \<Rightarrow> dword list \<Rightarrow> bool" where
  "fat_chain s c [] \<longleftrightarrow> \<not> c < FAT16_NOCLUSTER"
| "fat_chain s c (x # xs) \<longleftrightarrow> c = x \<and> c < FAT16_NOCLUSTER \<and> fat_chain s (fat_entry s c) xs"

text \<open>What the code computes from the header of the volume and reads from the table.\<close>

lemma fat_start_eq: "fat_start s = of_nat (fat_sector s)"
proof -
  have "fat_lba_start s + ucast (reserved_sector (fat_hdr s)) = of_nat (fat_sector s)"
    by (simp add: fat_sector_def)
  then show ?thesis by (simp only: fat_start_def ucast_of_nat_qword)
qed

lemma data_start_eq:
  assumes "32 \<le> unat (bytes_per_sector (fat_hdr s))"
  shows "data_start s = Some (of_nat (data_sector s))"
proof -
  let ?per = "(ucast (bytes_per_sector (fat_hdr s)) :: qword) div 32"
    and ?n = "(ucast (root_dir_entries (fat_hdr s)) :: qword)"
  have up: "unat (ucast (w :: word16) :: qword) = unat w" for w
    by (simp add: unsigned_ucast_eq take_bit_nat_eq_self less_le_trans [OF unsigned_less])
  have per: "unat ?per = unat (bytes_per_sector (fat_hdr s)) div 32" by (simp add: unat_div up)
  then have "?per \<noteq> 0" using assms by (auto simp: unat_eq_zero [symmetric])
  moreover have "unat (?n div ?per) = unat (root_dir_entries (fat_hdr s)) div (unat (bytes_per_sector (fat_hdr s)) div 32)"
    unfolding unat_div [of ?n] per up ..
  then have "(ucast (?n div ?per) :: dword) = of_nat (unat (root_dir_entries (fat_hdr s)) div (unat (bytes_per_sector (fat_hdr s)) div 32))"
    by (metis of_nat_unat)
  ultimately show ?thesis
    by (simp add: data_start_def root_dir_sectors_def root_dirs_start_def fat_start_eq data_sector_def Let_def)
qed

lemma cluster_data_eq:
  assumes "data_start s = Some ds" and "32 \<le> unat (bytes_per_sector (fat_hdr s))"
  shows "cluster_data s ds = volume_cluster s"
proof
  fix c
  have "ds = of_nat (data_sector s)" using assms(1) data_start_eq [OF assms(2)] by simp
  then have "cluster_lba s ds c = word_of_int (int (data_sector s) + (int (unat c) - 2) * int (spc s))"
    by (simp add: cluster_lba_def spc_def)
  then show "cluster_data s ds c = volume_cluster s c" by (simp only: cluster_data_def volume_cluster_def)
qed

lemma file_cluster_eq: "file_cluster f = first_cluster f"
proof -
  have "file_cluster f = ucast (low_cluster f) + push_bit 16 (ucast (high_cluster f))"
    unfolding file_cluster_def by (rule disjunctive_add [symmetric]) (auto simp: bit_simps dest: bit_imp_le_length)
  then show ?thesis by (simp add: first_cluster_def push_bit_eq_mult mult.commute)
qed

lemma getNext_eq:
  assumes "disk_ok (fdisk s)"
  shows "fat_getNextCluster c s = Some (fat_entry s c)"
proof -
  let ?i = "unat c div 256" and ?j = "unat c mod 256"
  let ?b = "disk_bytes (fdisk s) (fat_start s + c div 256) 0 512"
  have lba: "fat_start s + c div 256 = fat_start s + of_nat ?i"
  proof -
    have "unat (c div 256) = ?i" by (simp add: unat_div)
    then show ?thesis by (metis of_nat_unat ucast_id)
  qed
  have j: "unat (c mod 256) = ?j" by (simp add: unat_mod)
  have at: "?b ! k = disk_byte (fdisk s) (fat_start s) (512 * ?i + k)" if "k < 512" for k
  proof -
    have "?b = disk_bytes (fdisk s) (fat_start s) (512 * ?i + 0) 512" unfolding lba disk_bytes_shift ..
    then show ?thesis using that by (simp add: disk_bytes_def)
  qed
  have split: "512 * ?i + 2 * ?j = 2 * unat c" using div_mult_mod_eq [of "unat c" 256] by linarith
  have "?j < 256" by simp
  then have b: "2 * ?j < 512" "2 * ?j + 1 < 512" by linarith+
  have bytes: "?b ! (2 * ?j) = disk_byte (fdisk s) (fat_start s) (2 * unat c)"
    "?b ! (2 * ?j + 1) = disk_byte (fdisk s) (fat_start s) (2 * unat c + 1)"
    using at [OF b(1)] at [OF b(2)] unfolding add.assoc [symmetric] split by simp_all
  have le: "(ucast (le16 d k) :: dword) = of_nat (unat (d ! k) + 256 * unat (d ! (k + 1)))" for d k
  proof -
    have "le16 d k = ucast (d ! k) + push_bit 8 (ucast (d ! (k + 1)))"
      unfolding le16_def by (rule disjunctive_add [symmetric]) (auto simp: bit_simps dest: bit_imp_le_length)
    then have "le16 d k = of_nat (unat (d ! k) + 256 * unat (d ! (k + 1)))"
      by (simp add: push_bit_eq_mult mult.commute)
    moreover have "unat (d ! k) + 256 * unat (d ! (k + 1)) < 65536"
      using unsigned_less [of "d ! k", where ?'a = nat] unsigned_less [of "d ! (k + 1)", where ?'a = nat] by simp
    ultimately have "unat (le16 d k) = unat (d ! k) + 256 * unat (d ! (k + 1))"
      by (simp only: unsigned_of_nat) (simp add: take_bit_nat_eq_self)
    then show ?thesis by (metis of_nat_unat)
  qed
  have "(ucast (le16 ?b (2 * ?j)) :: dword) = fat_entry s c"
    unfolding le bytes fat_entry_def Let_def fat_start_eq [symmetric] ..
  moreover have "ata_read_disk (fdisk s) (fat_start s + c div 256) 0 (replicate 512 0) 0 512 = Some ?b"
    using read_sector_ok [OF assms, of 512 "replicate 512 0"] by simp
  ultimately show ?thesis
    unfolding fat_getNextCluster_def j by simp
qed

text \<open>
  The loop that reads a chain, whatever the volume: \<open>lba\<close> is the first sector of a cluster,
  \<open>n\<close> the number of its sectors and \<open>nxt\<close> the look-up in the table.  The kernel and the
  boot stages have the same loop.
\<close>

primrec chain :: "(dword \<Rightarrow> dword option) \<Rightarrow> dword \<Rightarrow> dword list \<Rightarrow> bool" where
  "chain nxt c [] \<longleftrightarrow> \<not> c < FAT16_NOCLUSTER"
| "chain nxt c (x # xs) \<longleftrightarrow> c = x \<and> c < FAT16_NOCLUSTER
     \<and> (case nxt c of None \<Rightarrow> False | Some c' \<Rightarrow> chain nxt c' xs)"

locale chain_reader =
  fixes d :: disk and lba :: "dword \<Rightarrow> dword" and n :: nat and nxt :: "dword \<Rightarrow> dword option"
    and loop :: "dword \<Rightarrow> buffer \<Rightarrow> nat \<Rightarrow> buffer option"
  assumes loop_step: "loop c buf pos = (if c < FAT16_NOCLUSTER
    then do { buf' \<leftarrow> read_sectors d (lba c) 512 n buf pos; c' \<leftarrow> nxt c; loop c' buf' (pos + n * 512) }
    else Some buf)"
begin

lemma loop_reads:
  assumes disk: "disk_ok d"
  shows "chain nxt c cs \<Longrightarrow> pos + 512 * n * length cs \<le> length buf \<Longrightarrow>
    loop c buf pos = Some (patch pos (concat (map (\<lambda>c. disk_bytes d (lba c) 0 (512 * n)) cs)) buf)"
proof (induction cs arbitrary: c buf pos)
  case Nil
  then show ?case by (subst loop_step) simp
next
  case (Cons x cs)
  let ?data = "\<lambda>c. disk_bytes d (lba c) 0 (512 * n)"
  obtain c' where c': "nxt c = Some c'" "chain nxt c' cs" "c = x" "c < FAT16_NOCLUSTER"
    using Cons.prems(1) by (auto split: option.splits)
  let ?b = "patch pos (?data c) buf" and ?rest = "concat (map ?data cs)"
  have read: "read_sectors d (lba c) 512 n buf pos = Some ?b"
    using read_sectors_ok [OF disk, of pos n buf] Cons.prems(2) by simp
  have "length ?b = length buf" using Cons.prems(2) by simp
  then have "loop c' ?b (pos + n * 512) = Some (patch (pos + n * 512) ?rest ?b)"
    using Cons.IH [OF c'(2)] Cons.prems(2) by (simp add: algebra_simps)
  also have "patch (pos + n * 512) ?rest ?b = patch pos (?data c @ ?rest) buf"
  proof -
    have "length ?rest = 512 * n * length cs" by (induction cs) simp_all
    then show ?thesis
      using patch_patch [of pos "?data c" ?rest buf] Cons.prems(2) by (simp add: algebra_simps)
  qed
  finally show ?case using c' read by (subst loop_step) simp
qed

end

interpretation kernel_reader: chain_reader "fdisk s" "cluster_lba s ds" "spc s" "\<lambda>c. fat_getNextCluster c s" "readFile_loop s ds"
  for s ds by unfold_locales (rule readFile_loop.simps)

lemma fat_chain_eq: "disk_ok (fdisk s) \<Longrightarrow> fat_chain s c cs \<longleftrightarrow> chain (\<lambda>c. fat_getNextCluster c s) c cs"
  by (induction cs arbitrary: c) (simp_all add: getNext_eq)

lemma readFile_loop_ok:
  assumes "disk_ok (fdisk s)" and "fat_chain s c cs" and "pos + 512 * spc s * length cs \<le> length buf"
  shows "readFile_loop s ds c buf pos = Some (patch pos (file_data s ds cs) buf)"
  using kernel_reader.loop_reads [OF assms(1) assms(2) [unfolded fat_chain_eq [OF assms(1)]] assms(3), of ds]
  by (simp add: file_data_def cluster_data_def [abs_def])

text \<open>
  C14: \<open>fat_readFile\<close> follows the cluster chain of a directory entry to its end and leaves
  the contents of its clusters, in order, at the start of the buffer, provided the buffer
  holds whole clusters; it writes nothing behind them.  The chain and the place of a cluster
  are those of the volume: entry \<open>c\<close> of the table is the word at byte \<open>2 * c\<close> from its first
  sector on, cluster 2 lies behind the root directory.
\<close>

theorem fat_readFile_correct:
  assumes "disk_ok (fdisk s)" and "32 \<le> unat (bytes_per_sector (fat_hdr s))" and "fat_chain s (first_cluster file) cs"
    and "512 * spc s * length cs \<le> length buf"
  shows "fat_readFile file buf s =
    Some (concat (map (volume_cluster s) cs) @ drop (512 * spc s * length cs) buf)"
proof -
  note ds = data_start_eq [OF assms(2)]
  have "concat (map (volume_cluster s) cs) = file_data s (of_nat (data_sector s)) cs"
    by (simp add: file_data_def cluster_data_eq [OF ds assms(2)])
  then show ?thesis
    using readFile_loop_ok [OF assms(1,3), of 0 buf "of_nat (data_sector s)"] assms(4)
    by (simp add: fat_readFile_def ds file_cluster_eq patch_def)
qed

section \<open>Reading part of a file\<close>

lemma copy_bytes_ok:
  assumes "a + n \<le> length src" and "pos + n \<le> length buf"
  shows "copy_bytes n src a buf pos = Some (patch pos (take n (drop a src)) buf)"
  using assms
proof (induction n)
  case (Suc n)
  let ?b = "patch pos (take n (drop a src)) buf"
  have len: "length ?b = length buf" using Suc.prems by simp
  have "take (Suc n) (drop a src) = take n (drop a src) @ [src ! (a + n)]"
    using Suc.prems by (simp add: take_Suc_conv_app_nth)
  moreover have "?b[pos + n := src ! (a + n)] = patch (pos + n) [src ! (a + n)] ?b"
    using Suc.prems len by (simp add: patch_def upd_conv_take_nth_drop)
  moreover have "patch (pos + n) [src ! (a + n)] ?b = patch pos (take n (drop a src) @ [src ! (a + n)]) buf"
    using patch_patch [of pos "take n (drop a src)" "[src ! (a + n)]" buf] Suc.prems by simp
  ultimately show ?case using Suc len by simp
qed simp

text \<open>A path of clusters, whether or not the chain goes on behind it.\<close>

primrec fat_path :: "fs \<Rightarrow> dword \<Rightarrow> dword list \<Rightarrow> bool" where
  "fat_path s c [] \<longleftrightarrow> True"
| "fat_path s c (x # xs) \<longleftrightarrow> c = x \<and> (xs = [] \<or> fat_path s (fat_entry s c) xs)"

definition plain_fat :: "fs \<Rightarrow> bool" where
  "plain_fat s \<longleftrightarrow> disk_ok (fdisk s) \<and> bytes_per_sector (fat_hdr s) = 512 \<and> 0 < spc s \<and> spc s \<le> 128"

lemma size_sector:
  assumes "plain_fat s"
  shows "unat (fat_sizeSector s) = 512 * spc s" and "unat (ucast (fat_sizeSector s) :: qword) = 512 * spc s"
proof -
  show "unat (fat_sizeSector s) = 512 * spc s"
    using assms by (simp add: fat_sizeSector_def plain_fat_def spc_def unat_word_ariths unsigned_ucast_eq take_bit_nat_eq_self)
  then show "unat (ucast (fat_sizeSector s) :: qword) = 512 * spc s"
    using assms by (simp add: unsigned_ucast_eq take_bit_nat_eq_self plain_fat_def)
qed

lemma offset_wraps:
  assumes "plain_fat s"
  shows "(ucast (of_nat (512 * spc s) :: word16) :: dword) mod fat_sizeSector s = 0"
proof -
  have le: "512 * spc s \<le> 65536" using assms by (simp add: plain_fat_def)
  have "unat (ucast (of_nat n :: word16) :: dword) = n mod 65536" for n
    by (simp add: unsigned_ucast_eq unsigned_of_nat take_bit_eq_mod)
  then have "unat ((ucast (of_nat (512 * spc s) :: word16) :: dword) mod fat_sizeSector s)
      = 512 * spc s mod 65536 mod (512 * spc s)"
    by (simp only: unat_mod size_sector(1) [OF assms])
  also have "\<dots> = 0"
    using le by (cases "512 * spc s = 65536") simp_all
  finally show ?thesis by (simp add: unat_eq_zero)
qed

lemma read_cluster:
  assumes "plain_fat s" and "length tmp = 512 * spc s"
  shows "read_sectors (fdisk s) (cluster_lba s ds c) (ucast (bytes_per_sector (fat_hdr s))) (spc s) tmp 0
    = Some (cluster_data s ds c)"
  using read_sectors_ok [of "fdisk s" 0 "spc s" tmp] assms
  by (simp add: plain_fat_def cluster_data_def patch_def)

lemma read_loop_ok':
  assumes fat: "plain_fat s"
  shows "fat_path s (cluster fptr) cs \<Longrightarrow> length cs = k \<Longrightarrow> next_cluster fptr = cluster fptr \<Longrightarrow>
    offset fptr = 0 \<Longrightarrow> sz \<le> k * (512 * spc s) \<Longrightarrow> (k - 1) * (512 * spc s) < sz \<Longrightarrow>
    pos + sz \<le> length buf \<Longrightarrow> length tmp = 512 * spc s \<Longrightarrow>
    0 < k \<Longrightarrow>
    read_loop k ds fptr buf pos sz tmp s
      = Some (fptr\<lparr>offset := of_nat (sz - (k - 1) * (512 * spc s)), next_cluster := last cs, cluster := last cs\<rparr>,
          patch pos (take sz (file_data s ds cs)) buf)"
proof (induction k arbitrary: fptr cs buf pos sz tmp)
  case 0
  then show ?case by simp
next
  case (Suc k)
  let ?ss = "512 * spc s"
  obtain xs where cs: "cs = cluster fptr # xs" "length xs = k"
    using Suc.prems(1,2) by (cases cs) auto
  note tmp = read_cluster [OF fat Suc.prems(8), of ds "cluster fptr"]
  let ?data = "cluster_data s ds (cluster fptr)"
  show ?case
  proof (cases k)
    case 0
    have "copy_bytes sz ?data 0 buf pos = Some (patch pos (take sz ?data) buf)"
      using copy_bytes_ok [of 0 sz ?data pos buf] Suc.prems(5,7) 0 by simp
    moreover have "fptr\<lparr>next_cluster := cluster fptr, cluster := cluster fptr\<rparr> = fptr" using Suc.prems(3) by simp
    then have "fptr\<lparr>offset := of_nat sz, next_cluster := cluster fptr, cluster := cluster fptr\<rparr> = fptr\<lparr>offset := of_nat sz\<rparr>"
      by (metis fat_file_ptr.update_convs(2,3,4) fat_file_ptr.surjective)
    ultimately show ?thesis using tmp cs 0 Suc.prems(4) by simp
  next
    case (Suc k')
    have big: "?ss < sz" using Suc.prems(6) Suc by simp
    obtain c' where c': "fat_getNextCluster (cluster fptr) s = Some c'" "fat_path s c' xs"
      using Suc.prems(1) cs Suc getNext_eq fat by (auto simp: plain_fat_def)
    have n: "min (unat (fat_sizeSector s) - unat (offset fptr)) sz = ?ss"
      using big Suc.prems(4) size_sector(1) [OF fat] by simp
    have copy: "copy_bytes ?ss ?data 0 buf pos = Some (patch pos ?data buf)"
      using copy_bytes_ok [of 0 ?ss ?data pos buf] Suc.prems(7) big by simp
    have off: "(ucast ((ucast (0 + of_nat ?ss :: word16) :: dword) mod fat_sizeSector s) :: word16) = 0"
      using offset_wraps [OF fat] by simp
    let ?f = "fptr\<lparr>offset := 0, next_cluster := c', cluster := c'\<rparr>"
    have "read_loop k ds ?f (patch pos ?data buf) (pos + ?ss) (sz - ?ss) ?data s
      = Some (?f\<lparr>offset := of_nat (sz - ?ss - (k - 1) * ?ss), next_cluster := last xs, cluster := last xs\<rparr>, patch (pos + ?ss) (take (sz - ?ss) (file_data s ds xs)) (patch pos ?data buf))"
      by (rule Suc.IH) (use Suc.prems cs c' big Suc in \<open>auto simp: algebra_simps\<close>)
    moreover have "patch (pos + ?ss) (take (sz - ?ss) (file_data s ds xs)) (patch pos ?data buf)
      = patch pos (take sz (file_data s ds cs)) buf"
    proof -
      have "take sz (file_data s ds cs) = ?data @ take (sz - ?ss) (file_data s ds xs)"
        using big cs by simp
      then show ?thesis
        using patch_patch [of pos ?data "take (sz - ?ss) (file_data s ds xs)" buf] Suc.prems(7) big by simp
    qed
    moreover have "next_cluster fptr = cluster fptr" using Suc.prems(3) .
    moreover have "k \<noteq> 0" "last cs = last xs" using Suc cs by auto
    moreover have "sz - ?ss - (k - 1) * ?ss = sz - k * ?ss" using Suc by simp
    ultimately show ?thesis
      unfolding read_loop.simps(2) using tmp c' copy off n Suc.prems(4) by (simp add: Let_def del: read_loop.simps)
  qed
qed

lemma ceil_div:
  fixes n m :: nat
  assumes "0 < m"
  shows "(n + (m - 1)) div m = n div m + (if n mod m > 0 then 1 else 0)"
proof -
  have "n + (m - 1) = n mod m + (m - 1) + n div m * m" by simp
  then have "(n + (m - 1)) div m = n div m + (n mod m + (m - 1)) div m"
    using assms by (metis div_mult_self1 less_not_refl)
  moreover have "(n mod m + (m - 1)) div m = (if n mod m > 0 then 1 else 0)"
  proof (cases "n mod m > 0")
    case True
    have "n mod m < m" using assms by simp
    then have "(n mod m + (m - 1)) div m = 1" using True by (intro div_nat_eqI) simp_all
    then show ?thesis using True by simp
  qed (use assms in simp)
  ultimately show ?thesis by simp
qed

lemma ceil_bounds:
  fixes n m :: nat
  assumes "0 < m" and "0 < n"
  shows "n \<le> (n + (m - 1)) div m * m \<and> ((n + (m - 1)) div m - 1) * m < n"
proof -
  have n: "n = n div m * m + n mod m" "n mod m < m" using assms(1) by simp_all
  show ?thesis
  proof (cases "n mod m > 0")
    case True
    then have "(n + (m - 1)) div m = n div m + 1" using ceil_div [OF assms(1), of n] by simp
    moreover have "(n div m + 1) * m = n div m * m + m" by simp
    ultimately show ?thesis using n True
      by (metis add_diff_cancel_right' less_add_same_cancel1 less_imp_le nat_add_left_cancel_less)
  next
    case False
    then have z: "n mod m = 0" by simp
    then have "(n + (m - 1)) div m = n div m" using ceil_div [OF assms(1), of n] by simp
    moreover have e: "n = n div m * m" using n(1) z by linarith
    moreover have "0 < n div m" using e assms(2) by (metis gr0I mult_0)
    ultimately show ?thesis using assms by (metis diff_less le_refl less_numeral_extra(1) mult_less_mono1)
  qed
qed

text \<open>
  C22: \<open>fat_read\<close> of \<open>size\<close> bytes through a pointer at the start of a cluster fills the
  buffer with the first \<open>size\<close> bytes of the clusters on the path, writes nothing else, and
  gives its heap buffer back; the pointer is then in the last cluster of the path, behind the
  bytes read there (a 16-bit offset), and the first cluster it keeps is the same.
\<close>

theorem fat_read_correct:
  assumes "plain_fat s" and "heap_ready (Suc g) (ucast (fat_sizeSector s)) (fheap s)"
    and "fat_path s (cluster fptr) cs" and "next_cluster fptr = cluster fptr" and "offset fptr = 0"
    and "0 < unat sz" and "unat sz < 2 ^ 31" and "unat sz \<le> length buf"
    and "length cs = (unat sz + (512 * spc s - 1)) div (512 * spc s)"
  shows "\<exists>h. fat_read fptr buf sz s =
      Some (\<lparr>current_cluster = current_cluster fptr, next_cluster = last cs, cluster = last cs,
          offset = of_nat (unat sz - (length cs - 1) * (512 * spc s))\<rparr>,
        take (unat sz) (concat (map (volume_cluster s) cs)) @ drop (unat sz) buf, s\<lparr>fheap := h\<rparr>)
    \<and> heap_ready g (ucast (fat_sizeSector s)) h"
proof -
  let ?ss = "512 * spc s" and ?n = "unat sz"
  have ss: "0 < ?ss" "?ss \<le> 65536" using assms(1) by (simp_all add: plain_fat_def)
  have q: "(?n + (?ss - 1)) div ?ss = ?n div ?ss + (if ?n mod ?ss > 0 then 1 else 0)"
    by (rule ceil_div [OF ss(1)])
  let ?size = "ucast (fat_sizeSector s) :: qword"
  note size = size_sector [OF assms(1)]
  have size0: "?size \<noteq> 0" using size(2) ss by auto
  have len: "unat ((ucast (sz div ?size) :: dword) + (if sz mod ?size > 0 then 1 else 0)) = length cs"
  proof -
    have d: "unat (sz div ?size) = ?n div ?ss" "unat (sz mod ?size) = ?n mod ?ss"
      by (simp_all only: unat_div unat_mod size(2))
    have small: "?n div ?ss < 2 ^ 31" using assms(7) by (meson div_le_dividend le_less_trans)
    then have "unat (ucast (sz div ?size) :: dword) = ?n div ?ss"
      by (simp add: unsigned_ucast_eq take_bit_nat_eq_self d)
    moreover have "sz mod ?size > 0 \<longleftrightarrow> ?n mod ?ss > 0" using d(2) by (simp add: word_less_nat_alt)
    ultimately show ?thesis
      using small assms(9) q by (auto simp: unat_word_ariths)
  qed
  have bounds: "?n \<le> length cs * ?ss" "(length cs - 1) * ?ss < ?n"
    unfolding assms(9) using ceil_bounds [OF ss(1) assms(6)] by blast+
  have bps: "32 \<le> unat (bytes_per_sector (fat_hdr s))" using assms(1) by (simp add: plain_fat_def)
  define ds where "ds = (of_nat (data_sector s) :: dword)"
  have start: "data_start s = Some ds" using data_start_eq [OF bps] by (simp add: ds_def)
  let ?f = "fptr\<lparr>offset := of_nat (?n - (length cs - 1) * ?ss), next_cluster := last cs, cluster := last cs\<rparr>"
  have "0 < length cs" using bounds(1) assms(6) by (cases cs) auto
  then have loop: "read_loop (length cs) ds fptr buf 0 ?n (replicate (unat (fat_sizeSector s)) 0) s
      = Some (?f, patch 0 (take ?n (file_data s ds cs)) buf)"
    using read_loop_ok' [OF assms(1,3) refl assms(4,5) bounds, of 0 buf "replicate (512 * spc s) 0" ds]
      assms(8) size(1) by auto
  obtain p h1 h2 where h: "new_alloc ?size (fheap s) = Some (p, h1)" "free_alloc p h1 = Some h2"
    "heap_ready g ?size h2"
    using heap_scratch.alloc_release [OF assms(2)] by blast
  have "patch 0 (take ?n (file_data s ds cs)) buf = take ?n (concat (map (volume_cluster s) cs)) @ drop ?n buf"
  proof -
    have "length (take ?n (file_data s ds cs)) = ?n" using bounds(1) by (simp add: mult.commute)
    then show ?thesis by (simp add: patch_def file_data_def cluster_data_eq [OF start bps])
  qed
  moreover have "?f = \<lparr>current_cluster = current_cluster fptr, next_cluster = last cs, cluster = last cs,
      offset = of_nat (?n - (length cs - 1) * ?ss)\<rparr>"
    by (rule fat_file_ptr.equality) simp_all
  ultimately show ?thesis
    using start size0 len loop h by (intro exI [of _ h2]) (simp add: fat_read_def Let_def)
qed

section \<open>Seeking\<close>

lemma seek_loop_ok:
  assumes fat: "plain_fat s"
  shows "fat_path s c (cs @ [x]) \<Longrightarrow> \<forall>y \<in> set cs. y < FAT16_BADCLUSTER \<Longrightarrow>
    seek_loop (length cs) c fptr s = Some (False, if cs = [] then fptr else fptr\<lparr>cluster := last cs\<rparr>)"
proof (induction cs arbitrary: c fptr)
  case (Cons y cs)
  have disk: "disk_ok (fdisk s)" and bps: "unat (bytes_per_sector (fat_hdr s)) = 512"
    using fat by (simp_all add: plain_fat_def)
  obtain c' where c': "c = y" "fat_getNextCluster c s = Some c'" "fat_path s c' (cs @ [x])"
    using Cons.prems(1) getNext_eq [OF disk, of c] by auto
  obtain b where b: "ata_read_disk (fdisk s) (fat_start s + c div 256) 0 (replicate 512 0) 0 512 = Some b"
    "c' = ucast (le16 b (2 * unat (c mod 256)))"
    using c'(2) by (auto simp: fat_getNextCluster_def bind_eq_Some_conv)
  have "\<not> FAT16_BADCLUSTER \<le> c" using Cons.prems(2) c'(1) by auto
  then have "seek_loop (length (y # cs)) c fptr s = seek_loop (length cs) c' (fptr\<lparr>cluster := c\<rparr>) s"
    using b by (simp add: bps)
  then show ?case using Cons.IH [OF c'(3), of "fptr\<lparr>cluster := c\<rparr>"] Cons.prems(2) c'(1) by auto
qed simp

text \<open>
  C40: \<open>fat_seek\<close> to a position in cluster number \<open>q > 0\<close> of the file stops one cluster
  short: it leaves the pointer at cluster number \<open>q - 1\<close>, with the offset of the position
  in its own cluster and with \<open>next_cluster\<close> where it was.
\<close>

theorem fat_seek_one_short:
  assumes "plain_fat s" and "heap_ready (Suc g) 512 (fheap s)"
    and "fat_path s (current_cluster fptr) cs" and "length cs = Suc q" and "0 < q"
    and "\<forall>c \<in> set cs. c < FAT16_BADCLUSTER" and "unat pos div (512 * spc s) = q"
  shows "\<exists>h. fat_seek fptr pos s =
      Some (False, fptr\<lparr>cluster := cs ! (q - 1), offset := of_nat (unat pos mod (512 * spc s))\<rparr>, s\<lparr>fheap := h\<rparr>)
    \<and> heap_ready g 512 h"
proof -
  let ?size = "ucast (fat_sizeSector s) :: qword"
  note size = size_sector [OF assms(1)]
  have ss: "0 < 512 * spc s" using assms(1) by (simp add: plain_fat_def)
  have size0: "?size \<noteq> 0" using size(2) ss by auto
  have d: "unat (pos div ?size) = q" "unat (pos mod ?size) = unat pos mod (512 * spc s)"
    using assms(7) by (simp_all only: unat_div unat_mod size(2))
  have bps: "(ucast (bytes_per_sector (fat_hdr s)) :: qword) = 512" using assms(1) by (simp add: plain_fat_def)
  obtain ds x where cs: "cs = ds @ [x]" "length ds = q"
    using assms(4) by (metis length_Suc_conv_rev)
  have "seek_loop q (current_cluster fptr) fptr s = Some (False, fptr\<lparr>cluster := last ds\<rparr>)"
    using seek_loop_ok [OF assms(1), of "current_cluster fptr" ds x fptr] assms(3,5,6) cs by auto
  moreover have "last ds = cs ! (q - 1)" using cs assms(5) by (cases ds rule: rev_cases) (auto simp: nth_append)
  moreover obtain p h1 h2 where "new_alloc 512 (fheap s) = Some (p, h1)" "free_alloc p h1 = Some h2" "heap_ready g 512 h2"
    using heap_scratch.alloc_release [OF assms(2)] by blast
  moreover have "(ucast (pos mod ?size) :: word16) = of_nat (unat pos mod (512 * spc s))"
    unfolding d(2) [symmetric] by simp
  ultimately have "fat_seek fptr pos s = Some (False, fptr\<lparr>cluster := cs ! (q - 1),
      offset := of_nat (unat pos mod (512 * spc s))\<rparr>, s\<lparr>fheap := h2\<rparr>)" and "heap_ready g 512 h2"
    using size0 d(1) by (simp_all add: fat_seek_def Let_def bps)
  then show ?thesis by blast
qed

section \<open>The partition table\<close>

text \<open>
  \<open>gpt_get_lba_start_volume\<close> returns the field \<open>lba_start\<close> of partition entry \<open>index\<close>,
  128 bytes each from sector 2 on; the heap keeps the buffer it read the sector into.
\<close>

theorem gpt_lba_correct:
  assumes "disk_ok (fdisk s)" and "gpt_table s \<noteq> None" and "new_alloc 512 (fheap s) = Some (p, h1)"
    and "0 \<le> index" and "index < 2 ^ 31"
  shows "gpt_get_lba_start_volume index s =
    Some (le64 (disk_bytes (fdisk s) 2 (128 * nat index) 128) 32, s\<lparr>fheap := h1\<rparr>)"
proof -
  let ?i = "nat index"
  have q: "index sdiv 4 = int (?i div 4)" "index smod 4 = int (?i mod 4)"
    using assms(4) by (auto simp: signed_divide_int_def signed_modulo_int_def zdiv_int zmod_int sgn_if)
  have lba: "(ucast ((2 :: qword) + word_of_int (index sdiv 4)) :: dword) = 2 + of_nat (?i div 4)"
    unfolding q using ucast_of_nat_qword [of "2 + ?i div 4"] by simp
  have off: "unat (word_of_int (index smod 4) :: dword) = ?i mod 4"
  proof -
    have "?i mod 4 < 2 ^ 32" by (rule less_trans [of _ 4]) simp_all
    then show ?thesis unfolding q by (simp add: unsigned_of_nat take_bit_nat_eq_self)
  qed
  let ?b = "disk_bytes (fdisk s) (2 + of_nat (?i div 4)) 0 512"
  have read: "ata_read_disk (fdisk s) (2 + of_nat (?i div 4)) 0 (replicate 512 0) 0 512 = Some ?b"
    using read_sector_ok [OF assms(1), of 512 "replicate 512 0"] by simp
  have at: "?i mod 4 * 128 + 32 + 8 \<le> 512" by simp
  have split: "128 * ?i = 512 * (?i div 4) + ?i mod 4 * 128"
    using div_mult_mod_eq [of ?i 4] by linarith
  have "le64 ?b (?i mod 4 * 128 + 32) = le64 (disk_bytes (fdisk s) 2 (128 * ?i) 128) 32"
    unfolding split disk_bytes_shift
    by (simp add: le64_def le32_def le16_def disk_bytes_def add_ac)
  moreover obtain t where "gpt_table s = Some t" using assms(2) by auto
  ultimately show ?thesis
    unfolding gpt_get_lba_start_volume_def Let_def lba off using assms(3) read at by simp
qed

section \<open>A volume to run on\<close>

text \<open>
  Volume at sector 10: the table of clusters in sector 11 (cluster 2 goes on in 3, where the
  file ends), the root directory in sector 12 with the one file \<open>K.C\<close>, clusters from 13 on.
\<close>

definition sample_disk :: disk where
  "sample_disk lba =
     (if lba = 11 then [0, 0, 0, 0, 3, 0, 0xFF, 0xFF] @ replicate 504 0
      else if lba = 12 then fat16_name [75] [67] @ 0x20 # replicate 14 0 @ 2 # replicate 485 0
      else replicate 512 (ucast lba))"

definition sample_fs :: "heap \<Rightarrow> fs" where
  "sample_fs h = \<lparr>fdisk = sample_disk, fheap = h, gpt_table = Some [],
     fat_hdr = \<lparr>jmp_code = [], oem_identifier = [], bytes_per_sector = 512, sector_per_cluster = 1,
       reserved_sector = 1, fat_number = 1, root_dir_entries = 16, total_sector = 100, media_type = 0,
       sector_per_fat = 1, sector_per_track = 0, heads = 0, hidden_sectors = 0, large_sectors = 0\<rparr>,
     fat_ext = \<lparr>drive_number = 0, ext_reserved = 0, ext_signature = 0, volume_id = 0, volume_label = [],
       system_identifier = []\<rparr>, fat_lba_start = 10\<rparr>"

lemma sample_disk_ok: "disk_ok sample_disk"
  by (simp add: disk_ok_def sample_disk_def fat16_name_def)

lemma sample_plain: "plain_fat (sample_fs h)"
  by (simp add: plain_fat_def sample_fs_def sample_disk_ok spc_def)

lemma sample_spc [simp]: "spc (sample_fs h) = 1"
  by (simp add: sample_fs_def spc_def)

lemma sample_geometry:
  "fat_start (sample_fs h) = 11" "root_dirs_start (sample_fs h) = 12" "root_dir_sectors (sample_fs h) = Some 1"
  "data_start (sample_fs h) = Some 13" "fat_sizeSector (sample_fs h) = 512"
  by (simp_all add: sample_fs_def fat_start_def root_dirs_start_def root_dir_sectors_def data_start_def
      fat_sizeSector_def)

lemma sample_entry: "fat_entry (sample_fs h) 2 = 3" "fat_entry (sample_fs h) 3 = 0xFFFF"
  by (simp_all add: fat_entry_def fat_sector_def sample_fs_def disk_byte_def sector_of_def sample_disk_def)

lemma sample_cluster: "cluster_data (sample_fs h) 13 c = replicate 512 (ucast (11 + c))" if "c \<in> {2, 3}"
proof -
  have "sector_of sample_disk (11 + c) = replicate 512 (ucast (11 + c))"
    using that by (auto simp: sector_of_def sample_disk_def)
  moreover have "cluster_lba (sample_fs h) 13 c = 11 + c" using that by (auto simp: cluster_lba_def sample_fs_def)
  moreover have "fdisk (sample_fs h) = sample_disk" by (simp add: sample_fs_def)
  ultimately show ?thesis
    using disk_bytes_sector [OF sample_disk_ok, of 0 512 "11 + c"] by (simp add: cluster_data_def)
qed

lemma sample_volume_cluster: "c \<in> {2, 3} \<Longrightarrow> volume_cluster (sample_fs h) c = replicate 512 (ucast (11 + c))"
  using cluster_data_eq [of "sample_fs h" 13] sample_cluster [of c h] by (simp add: sample_geometry) (simp add: sample_fs_def)

text \<open>
  A volume whose table has two sectors: a file that goes on from cluster 2 in cluster 300, whose
  entry is in the second of them.
\<close>

definition wide_disk :: disk where
  "wide_disk lba =
     (if lba = 11 then [0, 0, 0, 0, 0x2C, 1] @ replicate 506 0
      else if lba = 12 then replicate 88 0 @ [0xFF, 0xFF] @ replicate 422 0
      else replicate 512 (ucast lba))"

definition wide_fs :: fs where
  "wide_fs = (sample_fs no_heap)\<lparr>fdisk := wide_disk, fat_hdr := (fat_hdr (sample_fs no_heap))\<lparr>sector_per_fat := 2\<rparr>\<rparr>"

lemma wide_fs_ok: "disk_ok (fdisk wide_fs)" "spc wide_fs = 1" "unat (bytes_per_sector (fat_hdr wide_fs)) = 512"
  by (simp_all add: wide_fs_def sample_fs_def disk_ok_def wide_disk_def spc_def)

lemma wide_chain: "fat_chain wide_fs 2 [2, 300]"
proof -
  have "fat_entry wide_fs 2 = 300" "fat_entry wide_fs 300 = 0xFFFF"
    by (simp_all add: fat_entry_def fat_sector_def wide_fs_def sample_fs_def disk_byte_def sector_of_def wide_disk_def nth_append)
  then show ?thesis by simp
qed

lemma wide_cluster: "volume_cluster wide_fs 2 = replicate 512 14" "volume_cluster wide_fs 300 = replicate 512 56"
proof -
  have v: "volume_cluster wide_fs c = sector_of wide_disk (word_of_int (int (unat c) + 12))" for c
  proof -
    have d: "disk_ok wide_disk" using wide_fs_ok(1) by (simp add: wide_fs_def)
    have "int (data_sector wide_fs) = 14" by (simp add: data_sector_def fat_sector_def wide_fs_def sample_fs_def)
    then have "volume_cluster wide_fs c = disk_bytes wide_disk (word_of_int (14 + (int (unat c) - 2))) 0 512"
      by (simp only: volume_cluster_def wide_fs_ok(2)) (simp add: wide_fs_def)
    also have "14 + (int (unat c) - 2) = int (unat c) + 12" by simp
    finally show ?thesis
      using disk_bytes_sector [OF d, of 0 512 "word_of_int (int (unat c) + 12)"] d by (simp add: disk_ok_def sector_of_def)
  qed
  show "volume_cluster wide_fs 2 = replicate 512 14" "volume_cluster wide_fs 300 = replicate 512 56"
    unfolding v by (simp_all add: sector_of_def wide_disk_def)
qed

theorem fat_readFile_correct_witness:
  "fat_readFile (no_file\<lparr>low_cluster := 2\<rparr>) (replicate 1025 9) wide_fs
     = Some (replicate 512 14 @ replicate 512 56 @ [9])"
proof -
  have c: "first_cluster (no_file\<lparr>low_cluster := 2\<rparr>) = 2"
    by (simp add: first_cluster_def no_file_def fat_filedirectory_of_def le16_def)
  show ?thesis
    using fat_readFile_correct [OF wide_fs_ok(1), of "no_file\<lparr>low_cluster := 2\<rparr>" "[2, 300]" "replicate 1025 9",
        unfolded c, OF _ wide_chain]
    by (simp add: wide_fs_ok wide_cluster)
qed

lemma sample_heap: "\<exists>h. heap_ready (Suc 0) 512 h"
proof -
  obtain h where h: "heap_rep h [(0x1000, True)]" "heap_room 8 h" using kernel_heap by blast
  then have "heap_rep h ([] @ (4096, True) # [])" "heap_room (Suc 0) h" by (simp_all add: heap_room_def)
  then have "heap_ready (Suc 0) 512 h"
    unfolding heap_ready_def by (intro conjI exI [of _ "[]"] exI [of _ 4096]) simp_all
  then show ?thesis by blast
qed

theorem fat_read_correct_witness:
  "\<exists>s s'. fat_read \<lparr>current_cluster = 2, next_cluster = 2, cluster = 2, offset = 0\<rparr> (replicate 601 9) 600 s
     = Some (\<lparr>current_cluster = 2, next_cluster = 3, cluster = 3, offset = 88\<rparr>, replicate 512 13 @ replicate 88 14 @ [9], s')"
proof -
  obtain h where h: "heap_ready (Suc 0) 512 h" using sample_heap by blast
  have path: "fat_path (sample_fs h) 2 [2, 3]" by (simp add: sample_entry)
  from fat_read_correct [OF sample_plain, of 0 h "\<lparr>current_cluster = 2, next_cluster = 2, cluster = 2, offset = 0\<rparr>"
      "[2, 3]" 600 "replicate 601 9"] h path
  show ?thesis
    by (auto simp: sample_geometry sample_volume_cluster) (auto simp: sample_fs_def)
qed

theorem fat_seek_one_short_witness:
  "\<exists>s s'. fat_seek \<lparr>current_cluster = 2, next_cluster = 2, cluster = 2, offset = 0\<rparr> 600 s
     = Some (False, \<lparr>current_cluster = 2, next_cluster = 2, cluster = 2, offset = 88\<rparr>, s')"
proof -
  obtain h where h: "heap_ready (Suc 0) 512 h" using sample_heap by blast
  have path: "fat_path (sample_fs h) 2 [2, 3]" by (simp add: sample_entry)
  have heap: "heap_ready (Suc 0) 512 (fheap (sample_fs h))" using h by (simp add: sample_fs_def)
  from fat_seek_one_short [OF sample_plain heap, of "\<lparr>current_cluster = 2, next_cluster = 2, cluster = 2, offset = 0\<rparr>"
      "[2, 3]" 1 600] path
  show ?thesis by auto
qed

theorem gpt_lba_correct_witness:
  "\<exists>s s'. gpt_get_lba_start_volume 5 s = Some (0x0303030303030303, s')"
proof -
  obtain h where h: "heap_ready (Suc 0) 512 h" using sample_heap by blast
  obtain p h1 where a: "new_alloc 512 h = Some (p, h1)" using heap_scratch.alloc_release [OF h] by blast
  have b: "disk_bytes sample_disk 2 (128 * nat 5) 128 = replicate 128 3"
  proof -
    have "disk_bytes sample_disk 2 (512 * 1 + 128) 128 = disk_bytes sample_disk 3 128 128"
      unfolding disk_bytes_shift by simp
    moreover have "sector_of sample_disk 3 = replicate 512 3"
      by (simp add: sector_of_def sample_disk_def)
    ultimately show ?thesis using disk_bytes_sector [OF sample_disk_ok, of 128 128 3] by simp
  qed
  have s: "fdisk (sample_fs h) = sample_disk" "fheap (sample_fs h) = h" "gpt_table (sample_fs h) \<noteq> None"
    by (simp_all add: sample_fs_def)
  have v: "le64 (replicate 128 3) 32 = 0x0303030303030303" by (simp add: le64_def le32_def le16_def)
  from gpt_lba_correct [of "sample_fs h" p h1 5] show ?thesis
    unfolding s b v using a sample_disk_ok s(3) by auto
qed

lemma sample_root: "root_entry (sample_fs h) k = take 32 (drop (32 * k) (sample_disk 12))" if "k < 16"
proof -
  have "sector_of sample_disk 12 = sample_disk 12" by (simp add: sector_of_def)
  moreover have "fdisk (sample_fs h) = sample_disk" by (simp add: sample_fs_def)
  ultimately show ?thesis
    using disk_bytes_sector [OF sample_disk_ok, of "32 * k" 32 12] that
    by (simp add: root_entry_def sample_geometry)
qed

theorem fat_findFile_correct_witness:
  "fat_findFile (replicate 64 7) [107, 46, 99, 0] (sample_fs no_heap)
     = Some (fat_filedirectory_of (take 32 (sample_disk 12)),
         [(searching, fat16_name [107] [99] @ [0]), (is_found, fat16_name [107] [99] @ [0])])"
proof -
  let ?nm = "fat16_name [107] [99]"
  have nm: "?nm = fat16_name [75] [67]" by (simp add: fat16_name_def upper_char_def)
  have "take 11 (root_entry (sample_fs no_heap) 0) = ?nm"
    by (simp add: sample_root nm sample_disk_def) (simp add: fat16_name_def)
  then have "find (\<lambda>k. take 11 (root_entry (sample_fs no_heap) k) = ?nm) [0..<16 * unat (1 :: dword)] = Some 0"
    by (simp add: find_upt_Some)
  then show ?thesis
    using fat_findFile_correct [of "sample_fs no_heap" 1 "[107]" "[99]" "replicate 64 7" "[]"]
    by (simp add: sample_geometry sample_root) (simp add: sample_fs_def sample_disk_ok)
qed

theorem fat_fileOpen_missing_witness:
  "fat_fileOpen (replicate 64 7) [107, 46, 120, 0] (sample_fs no_heap)
     = Some (\<lparr>current_cluster = 0, next_cluster = 0, cluster = 0, offset = 0\<rparr>, [(searching, fat16_name [107] [120] @ [0])])"
proof -
  have "take 11 (root_entry (sample_fs no_heap) k) \<noteq> fat16_name [107] [120]" if "k < 16" for k
  proof -
    have "fat16_name [107] [120] ! 8 = 88"
      by (simp add: fat16_name_def nth_append) (simp add: pad_def upper_char_def)
    moreover have "take 11 (root_entry (sample_fs no_heap) k) ! 8 \<noteq> 88"
    proof (cases "k = 0")
      case True
      have "fat16_name [75] [67] ! 8 = 67"
        by (simp add: fat16_name_def nth_append) (simp add: pad_def upper_char_def)
      then show ?thesis using True
        by (simp add: sample_root sample_disk_def nth_append fat16_name_def)
    next
      case False
      then have "drop (32 * k) (sample_disk 12) = replicate (512 - 32 * k) 0"
        by (simp add: sample_disk_def fat16_name_def drop_Cons')
      then show ?thesis using that by (simp add: sample_root)
    qed
    ultimately show ?thesis by metis
  qed
  then show ?thesis
    using fat_fileOpen_missing [of "sample_fs no_heap" 1 "[107]" "[120]" "replicate 64 7" "[]"]
    by (simp add: sample_geometry) (simp add: sample_fs_def sample_disk_ok)
qed

end
