(* ===== verification/Cpu.thy ===== *)
theory Cpu
  imports Prelude
begin

text \<open>
  The register frame of \<open>kernel/cpu/cpu.h\<close> as it lies on a stack: what the processor and
  the stubs of \<open>idt.asm\<close> push when an interrupt arrives, and what \<open>switch_task\<close> pops
  before \<open>iretq\<close>.  The words of the stacks are a function from addresses to 64-bit words.
\<close>

section \<open>The frame\<close>

type_synonym stack_mem = "qword \<Rightarrow> qword"

record cpu_register_t =
  cr4 :: qword
  cr3 :: qword
  cr2 :: qword
  cr0 :: qword
  rax :: qword
  rcx :: qword
  rdx :: qword
  rbx :: qword
  rsp :: qword
  rbp :: qword
  rdi :: qword
  rsi :: qword
  r8 :: qword
  r9 :: qword
  r10 :: qword
  r11 :: qword
  r12 :: qword
  r13 :: qword
  r14 :: qword
  r15 :: qword
  interrupt_code :: qword
  error_code :: qword
  rip :: qword
  code_seg :: word16
  rflags :: qword
  rsp0 :: qword
  stack_seg :: word16

definition frame_at :: "stack_mem \<Rightarrow> qword \<Rightarrow> cpu_register_t" where
  "frame_at m a =
     \<lparr>cr4 = m a, cr3 = m (a + 0x08), cr2 = m (a + 0x10), cr0 = m (a + 0x18),
      rax = m (a + 0x20), rcx = m (a + 0x28), rdx = m (a + 0x30), rbx = m (a + 0x38),
      rsp = m (a + 0x40), rbp = m (a + 0x48), rdi = m (a + 0x50), rsi = m (a + 0x58),
      r8 = m (a + 0x60), r9 = m (a + 0x68), r10 = m (a + 0x70), r11 = m (a + 0x78),
      r12 = m (a + 0x80), r13 = m (a + 0x88), r14 = m (a + 0x90), r15 = m (a + 0x98),
      interrupt_code = m (a + 0xA0), error_code = m (a + 0xA8), rip = m (a + 0xB0),
      code_seg = ucast (m (a + 0xB8)), rflags = m (a + 0xC0), rsp0 = m (a + 0xC8),
      stack_seg = ucast (m (a + 0xD0))\<rparr>"

section \<open>Pushing\<close>

definition push :: "qword \<Rightarrow> stack_mem \<times> qword \<Rightarrow> stack_mem \<times> qword" where
  "push v st = ((fst st)(snd st - 8 := v), snd st - 8)"

text \<open>
  An interrupt: the processor aligns the stack pointer and pushes \<open>ss\<close>, \<open>rsp\<close>, \<open>rflags\<close>,
  \<open>cs\<close>, \<open>rip\<close>; the stub pushes an error code, the number of the interrupt, and \<open>PUSHX64\<close>
  the registers.  The value pushed for \<open>rsp\<close> is the stack pointer at that moment.
\<close>

definition aligned_sp :: "cpu_register_t \<Rightarrow> qword" where
  "aligned_sp r = rsp r AND NOT 0xF"

definition interrupt_frame :: "cpu_register_t \<Rightarrow> qword \<Rightarrow> qword \<Rightarrow> qword list" where
  "interrupt_frame r err code =
     [ucast (stack_seg r), rsp r, rflags r, ucast (code_seg r), rip r, err, code,
      r15 r, r14 r, r13 r, r12 r, r11 r, r10 r, r9 r, r8 r, rsi r, rdi r, rbp r,
      aligned_sp r - 0x90, rbx r, rdx r, rcx r, rax r, cr0 r, cr2 r, cr3 r, cr4 r]"

definition interrupt_entry :: "cpu_register_t \<Rightarrow> qword \<Rightarrow> qword \<Rightarrow> stack_mem \<Rightarrow> stack_mem \<times> qword" where
  "interrupt_entry r err code m = fold push (interrupt_frame r err code) (m, aligned_sp r)"

section \<open>Resuming\<close>

text \<open>
  The end of \<open>switch_task\<close>: \<open>add $0x20\<close> skips the control registers, then the registers are
  popped (the slot of \<open>rsp\<close> is skipped), \<open>add $0x10\<close> skips the two codes and \<open>iretq\<close> takes
  the rest.
\<close>

definition resume_at :: "stack_mem \<Rightarrow> qword \<Rightarrow> cpu_register_t \<Rightarrow> cpu_register_t" where
  "resume_at m a r =
     (let f = frame_at m a in
      r\<lparr>rax := rax f, rcx := rcx f, rdx := rdx f, rbx := rbx f, rsp := rsp0 f, rbp := rbp f,
        rdi := rdi f, rsi := rsi f, r8 := r8 f, r9 := r9 f, r10 := r10 f, r11 := r11 f,
        r12 := r12 f, r13 := r13 f, r14 := r14 f, r15 := r15 f, rip := rip f,
        code_seg := code_seg f, rflags := rflags f, stack_seg := stack_seg f\<rparr>)"

text \<open>Two register states that agree on all that a program sees.\<close>

definition same_context :: "cpu_register_t \<Rightarrow> cpu_register_t \<Rightarrow> bool" where
  "same_context r r' \<longleftrightarrow>
     rax r = rax r' \<and> rcx r = rcx r' \<and> rdx r = rdx r' \<and> rbx r = rbx r' \<and> rsp r = rsp r'
     \<and> rbp r = rbp r' \<and> rdi r = rdi r' \<and> rsi r = rsi r' \<and> r8 r = r8 r' \<and> r9 r = r9 r'
     \<and> r10 r = r10 r' \<and> r11 r = r11 r' \<and> r12 r = r12 r' \<and> r13 r = r13 r' \<and> r14 r = r14 r'
     \<and> r15 r = r15 r' \<and> rip r = rip r' \<and> code_seg r = code_seg r' \<and> rflags r = rflags r'
     \<and> stack_seg r = stack_seg r'"

section \<open>What a sequence of pushes leaves\<close>

lemma push_sel [simp]: "fst (push v st) = (fst st)(snd st - 8 := v)" "snd (push v st) = snd st - 8"
  by (simp_all add: push_def)

lemma fold_push_sp: "snd (fold push vs st) = snd st - of_nat (8 * length vs)"
  by (induction vs arbitrary: st) (simp_all add: algebra_simps)

lemma fold_push_above:
  assumes "\<And>i. i < length vs \<Longrightarrow> a \<noteq> snd st - of_nat (8 * Suc i)"
  shows "fst (fold push vs st) a = fst st a"
  using assms
proof (induction vs arbitrary: st)
  case (Cons v vs)
  have "a \<noteq> snd (push v st) - of_nat (8 * Suc i)" if "i < length vs" for i
    using Cons.prems [of "Suc i"] that by (simp add: algebra_simps)
  moreover have "a \<noteq> snd st - 8" using Cons.prems [of 0] by simp
  ultimately show ?case using Cons.IH [of "push v st"] by simp
qed simp

lemma of_nat_8_inject:
  assumes "8 * i < 2 ^ 64" and "8 * j < 2 ^ 64" and "(of_nat (8 * i) :: qword) = of_nat (8 * j)"
  shows "i = j"
proof -
  have u: "unat (of_nat n :: qword) = n" if "n < 2 ^ 64" for n
    using that by (simp add: unsigned_of_nat take_bit_nat_eq_self)
  have "8 * i = 8 * j"
    using arg_cong [OF assms(3), of unat] unfolding u [OF assms(1)] u [OF assms(2)] .
  then show ?thesis by simp
qed

lemma fold_push_nth:
  assumes "i < length vs" and "8 * length vs < 2 ^ 64"
  shows "fst (fold push vs st) (snd st - of_nat (8 * Suc i)) = vs ! i"
  using assms
proof (induction vs arbitrary: st i)
  case (Cons v vs)
  show ?case
  proof (cases i)
    case 0
    have "snd st - 8 \<noteq> snd (push v st) - of_nat (8 * Suc k)" if "k < length vs" for k
    proof
      assume "snd st - 8 = snd (push v st) - of_nat (8 * Suc k)"
      then have "snd st - (8 + of_nat (8 * Suc k)) = snd st - 8" by (simp add: algebra_simps)
      then have "(of_nat (8 * 0) :: qword) = of_nat (8 * Suc k)" by (simp add: algebra_simps)
      then show False using of_nat_8_inject [of 0 "Suc k"] that Cons.prems(2) by simp
    qed
    then have "fst (fold push vs (push v st)) (snd st - 8) = fst (push v st) (snd st - 8)"
      by (rule fold_push_above)
    then show ?thesis by (simp add: 0)
  next
    case (Suc k)
    then show ?thesis
      using Cons.IH [of k "push v st"] Cons.prems by (simp add: algebra_simps)
  qed
qed simp

text \<open>The same, counted in bytes from the stack pointer the pushes leave.\<close>

lemma fold_push_slot:
  assumes "k < length vs" and "8 * length vs < 2 ^ 64"
  shows "fst (fold push vs st) (snd st - of_nat (8 * length vs) + of_nat (8 * k)) = vs ! (length vs - Suc k)"
proof -
  have "8 * length vs = 8 * Suc (length vs - Suc k) + 8 * k" using assms(1) by simp
  then have "(of_nat (8 * length vs) :: qword) = of_nat (8 * Suc (length vs - Suc k)) + of_nat (8 * k)"
    by (metis of_nat_add)
  then have e: "snd st - of_nat (8 * length vs) + of_nat (8 * k) = snd st - of_nat (8 * Suc (length vs - Suc k))"
    by (simp only: diff_diff_eq [symmetric] diff_add_cancel)
  show ?thesis unfolding e using fold_push_nth [of "length vs - Suc k" vs st] assms by simp
qed

section \<open>Interrupt and resumption\<close>

lemma length_interrupt_frame: "length (interrupt_frame r err code) = 27"
  by (simp add: interrupt_frame_def)

lemma interrupt_entry_sp: "snd (interrupt_entry r err code m) = aligned_sp r - 0xD8"
  by (simp add: interrupt_entry_def fold_push_sp length_interrupt_frame)

lemma interrupt_slot:
  assumes "k < 27"
  shows "fst (interrupt_entry r err code m) (aligned_sp r - 0xD8 + of_nat (8 * k))
     = interrupt_frame r err code ! (26 - k)"
  using fold_push_slot [of k "interrupt_frame r err code" "(m, aligned_sp r)"] assms
  by (simp add: interrupt_entry_def length_interrupt_frame)

lemma seg_slot: "(ucast (ucast (w :: word16) :: qword) :: word16) = w"
  by (rule bit_word_eqI) (simp add: bit_simps)

lemma frame_after_interrupt:
  assumes "interrupt_entry r err code m = (m', a)"
  shows "frame_at m' a = r\<lparr>interrupt_code := code, error_code := err, rsp0 := rsp r,
           rsp := aligned_sp r - 0x90\<rparr>"
proof -
  have a: "a = aligned_sp r - 0xD8" using interrupt_entry_sp [of r err code m] assms by simp
  have s: "m' (a + of_nat (8 * k)) = interrupt_frame r err code ! (26 - k)" if "k < 27" for k
    using interrupt_slot [OF that, of r err code m] assms by (simp add: a)
  show ?thesis
    using s [of 0] s [of 1] s [of 2] s [of 3] s [of 4] s [of 5] s [of 6] s [of 7] s [of 8] s [of 9]
      s [of 10] s [of 11] s [of 12] s [of 13] s [of 14] s [of 15] s [of 16] s [of 17] s [of 18] s [of 19]
      s [of 20] s [of 21] s [of 22] s [of 23] s [of 24] s [of 25] s [of 26]
    by (cases r) (simp add: frame_at_def interrupt_frame_def seg_slot)
qed

lemma resume_after_interrupt:
  assumes "interrupt_entry r err code m = (m', a)"
  shows "same_context (resume_at m' a r') r"
  using frame_after_interrupt [OF assms] by (simp add: resume_at_def same_context_def Let_def)

end
