(* ===== verification/Task.thy ===== *)
theory Task
  imports Cpu Heap
begin

text \<open>
  \<open>kernel/process/task.c\<close>, \<open>task.S\<close> and \<open>kernel/time.c\<close>: the list of tasks, their stacks,
  and the scheduler the timer interrupt runs.  The task records are a store from addresses
  to records, as the list is followed by its \<open>next\<close> pointers; the words of the stacks are
  a store of their own.  \<open>None\<close> stands for the access of a task that is not there, the halt
  on a missing predecessor, a list that does not end, and a failure of the heap or of the
  page tables.
\<close>

section \<open>State\<close>

record task_info_t =
  task_id :: qword
  stack_provider :: qword
  task_sp :: qword
  task_flags :: qword
  signal_code :: qword
  task_link :: qword

abbreviation TASK_FLAGS_RUNNING_BIT :: qword where "TASK_FLAGS_RUNNING_BIT \<equiv> 1"

record tasks =
  task_store :: "qword \<Rightarrow> task_info_t option"
  kernel_task :: qword
  task_current :: qword
  task_next :: qword
  next_id :: dword
  ticks :: dword
  stacks :: stack_mem
  task_heap :: heap

definition set_task :: "qword \<Rightarrow> task_info_t \<Rightarrow> tasks \<Rightarrow> tasks" where
  "set_task p t s = s\<lparr>task_store := (task_store s)(p := Some t)\<rparr>"

text \<open>\<open>bottom\<close> is the linker's \<open>KERNEL_STACK_BOTTOM\<close>.\<close>

definition task_init :: "qword \<Rightarrow> tasks \<Rightarrow> tasks option" where
  "task_init bottom s = do {
     t \<leftarrow> task_store s (kernel_task s);
     let t' = t\<lparr>task_sp := bottom, stack_provider := bottom, task_link := 0,
                task_flags := task_flags t OR TASK_FLAGS_RUNNING_BIT, task_id := 0\<rparr>;
     Some (set_task (kernel_task s) t' s\<lparr>task_current := kernel_task s, task_next := kernel_task s\<rparr>) }"

definition task_getid :: "tasks \<Rightarrow> dword option" where
  "task_getid s = do { t \<leftarrow> task_store s (task_current s); Some (ucast (task_id t)) }"

definition is_ctask_running :: "tasks \<Rightarrow> bool option" where
  "is_ctask_running s = do {
     t \<leftarrow> task_store s (task_current s);
     Some (task_flags t AND TASK_FLAGS_RUNNING_BIT \<noteq> 0) }"

section \<open>Creating a task\<close>

text \<open>
  The initial stack of a task: what \<open>iretq\<close> takes, the two skipped codes, the registers in
  the order of the pushes, and room for the control registers.  \<open>args\<close> are the words
  \<open>__args\<close> points to.
\<close>

definition task_frame :: "qword \<Rightarrow> qword \<Rightarrow> qword \<Rightarrow> qword \<Rightarrow> qword list \<Rightarrow> stack_mem \<Rightarrow> stack_mem \<times> qword" where
  "task_frame address old_cs old_ss sp args m =
     (let st1 = fold push [old_ss, sp - 8, 0x202, old_cs, address] (m, sp);
          st2 = fold push [0, 0, 0, 0, 0, 0, args ! 5, args ! 4, args ! 1, args ! 0, sp, 0, 0,
                           args ! 3, args ! 2, 0] (fst st1, snd st1 - 0x10)
      in (fst st2, snd st2 - 0x20))"

partial_function (option) last_task :: "qword \<Rightarrow> tasks \<Rightarrow> qword option" where
  "last_task crt s = do {
     t \<leftarrow> task_store s crt;
     if task_link t = 0 then Some crt else last_task (task_link t) s }"

text \<open>\<open>frame\<close> is what \<open>stack\<close> points to: the address, \<open>argc\<close> and the words above.\<close>

definition task_create_impl :: "qword list \<Rightarrow> qword \<Rightarrow> qword \<Rightarrow> tasks \<Rightarrow> (qword \<times> tasks) option" where
  "task_create_impl frame old_cs old_ss s = do {
     address \<leftarrow> buf_get frame 0;
     let args = drop 2 frame;
     (new_task, h1) \<leftarrow> new_alloc 48 (task_heap s);
     (provider, ps) \<leftarrow> page_alloc4K (1 OR 2) (pages h1);
     let sp = provider + 0x1000;
     let m1 = (\<lambda>a. if a - (sp - 0x1000) < 0x1000 then 0 else stacks s a);
     if length args < 6 then None
     else do {
       let (m2, sp') = task_frame address old_cs old_ss sp args m1;
       let t = \<lparr>task_id = ucast (next_id s), stack_provider = provider, task_sp = sp',
                task_flags = TASK_FLAGS_RUNNING_BIT, signal_code = 0, task_link = 0\<rparr>;
       let s1 = set_task new_task t (s\<lparr>next_id := next_id s + 1, stacks := m2,
                                       task_heap := h1\<lparr>pages := ps\<rparr>\<rparr>);
       crt \<leftarrow> last_task (kernel_task s1) s1;
       l \<leftarrow> task_store s1 crt;
       Some (new_task, set_task crt (l\<lparr>task_link := new_task\<rparr>) s1) } }"

text \<open>
  The stub \<open>task_create\<close> of \<open>task.S\<close>.  The C caller passes \<open>address\<close> in \<open>rdi\<close>, \<open>argc\<close> in
  \<open>rsi\<close> and the arguments \<open>a1\<close> to \<open>a4\<close> in \<open>rdx\<close>, \<open>rcx\<close>, \<open>r8\<close> and \<open>r9\<close>; above the pushed
  words lie the caller's \<open>rbp\<close> and the return address.
\<close>

definition create_words :: "qword \<Rightarrow> qword \<Rightarrow> qword \<Rightarrow> qword \<Rightarrow> qword \<Rightarrow> qword \<Rightarrow> qword \<Rightarrow> qword \<Rightarrow> qword list" where
  "create_words address argc a1 a2 a3 a4 saved_rbp ret =
     (if argc = 0 then [address, argc, 0, 0, 0, 0] else [address, argc, a2, a1, a3, a4])
     @ [saved_rbp, ret]"

definition task_create ::
  "qword \<Rightarrow> qword \<Rightarrow> qword \<Rightarrow> qword \<Rightarrow> qword \<Rightarrow> qword \<Rightarrow> qword \<Rightarrow> qword \<Rightarrow> qword \<Rightarrow> qword \<Rightarrow> tasks \<Rightarrow> (qword \<times> tasks) option" where
  "task_create address argc a1 a2 a3 a4 saved_rbp ret old_cs old_ss s =
     task_create_impl (create_words address argc a1 a2 a3 a4 saved_rbp ret) old_cs old_ss s"

section \<open>Switching\<close>

text \<open>
  \<open>switch_task\<close> saves the stack pointer (the address of the interrupt frame) and takes the
  one of the next task; the result is the address the registers are popped from.
\<close>

definition switch_task :: "qword \<Rightarrow> tasks \<Rightarrow> (qword \<times> tasks) option" where
  "switch_task sp s = do {
     cur \<leftarrow> task_store s (task_current s);
     let nxt = (if task_link cur = 0 then kernel_task s else task_link cur);
     let s1 = set_task (task_current s) (cur\<lparr>task_sp := sp\<rparr>) (s\<lparr>task_next := nxt\<rparr>);
     n \<leftarrow> task_store s1 nxt;
     Some (task_sp n, s1\<lparr>task_current := nxt\<rparr>) }"

definition switch_next_task_imme :: "tasks \<Rightarrow> (qword \<times> tasks) option" where
  "switch_next_task_imme s = do {
     n \<leftarrow> task_store s (task_next s);
     Some (task_sp n, s\<lparr>task_current := task_next s\<rparr>) }"

section \<open>Ending a task\<close>

text \<open>\<open>True\<close>: the task spins until the timer interrupt removes it.\<close>

definition task_exit :: "qword \<Rightarrow> tasks \<Rightarrow> (bool \<times> tasks) option" where
  "task_exit signal s = do {
     i \<leftarrow> task_getid s;
     if i = 0 then Some (False, s)
     else do {
       t \<leftarrow> task_store s (task_current s);
       Some (True, set_task (task_current s)
         (t\<lparr>signal_code := signal, task_flags := task_flags t AND NOT TASK_FLAGS_RUNNING_BIT\<rparr>) s) } }"

partial_function (option) prev_task :: "qword \<Rightarrow> qword \<Rightarrow> tasks \<Rightarrow> qword option" where
  "prev_task prev target s = do {
     t \<leftarrow> task_store s prev;
     if task_link t = target then Some prev
     else if task_link t = 0 then None
     else prev_task (task_link t) target s }"

definition task_remove :: "tasks \<Rightarrow> (qword \<times> tasks) option" where
  "task_remove s = do {
     let target = task_current s;
     t \<leftarrow> task_store s target;
     let nxt = task_link t;
     prev \<leftarrow> prev_task (kernel_task s) target s;
     p \<leftarrow> task_store s prev;
     let s1 = set_task prev (p\<lparr>task_link := nxt\<rparr>) s;
     let s2 = s1\<lparr>task_next := (if nxt = 0 then kernel_task s else nxt)\<rparr>;
     ps \<leftarrow> page_umapv (stack_provider t) 0x1000 (pages (task_heap s2));
     h \<leftarrow> free_alloc target ((task_heap s2)\<lparr>pages := ps\<rparr>);
     switch_next_task_imme (s2\<lparr>task_heap := h\<rparr>) }"

section \<open>The timer\<close>

text \<open>
  \<open>irq_time_handle\<close>: \<open>cpu\<close> is the address of the interrupt frame.  The result is the
  address the registers are popped from when the handler switches, \<open>None\<close> when it returns.
\<close>

definition irq_time_handle :: "qword \<Rightarrow> tasks \<Rightarrow> (qword option \<times> tasks) option" where
  "irq_time_handle cpu s =
     (let s1 = s\<lparr>ticks := ticks s + 1\<rparr> in
      if ticks s1 mod 1000 \<noteq> 0
      then do {
        running \<leftarrow> is_ctask_running s1;
        (sp, s2) \<leftarrow> (if \<not> running then task_remove s1 else switch_task cpu s1);
        Some (Some sp, s2) }
      else Some (None, s1))"

definition get_time :: "tasks \<Rightarrow> dword" where
  "get_time s = ticks s"

end
