(* ===== verification/Kernel.thy ===== *)
theory Kernel
  imports Term_Exec Fat_Read Task
begin

text \<open>
  The parts of the kernel together: the heap is the one of the file system, the tasks take
  it from there; programs see a flat memory, of which they may touch the mapped pages.
  \<open>kernel/cpu/syscall.c\<close> and the stubs of \<open>syscall.S\<close> over this state.  \<open>None\<close> is the access
  of an unmapped page or of a file that is not open, or a failure of the component called.
\<close>

section \<open>State\<close>

text \<open>
  \<open>k_files\<close> holds the file objects \<open>open\<close> has allocated.  \<open>k_fname\<close> is what the local array
  \<open>fname\<close> of \<open>fat_findFile\<close> holds before it is written, \<open>k_regs\<close> the argument registers
  when \<open>printf\<close> calls itself.
\<close>

record kernel =
  k_fs :: fs
  k_tasks :: tasks
  k_term :: terminal
  k_mem :: "qword \<Rightarrow> byte"
  k_files :: "qword \<Rightarrow> fat_file_ptr option"
  k_fname :: buffer
  k_regs :: "qword list"

abbreviation k_heap :: "kernel \<Rightarrow> heap" where
  "k_heap k \<equiv> fheap (k_fs k)"

definition set_heap :: "heap \<Rightarrow> kernel \<Rightarrow> kernel" where
  "set_heap h k = k\<lparr>k_fs := (k_fs k)\<lparr>fheap := h\<rparr>\<rparr>"

definition set_pages :: "pstate \<Rightarrow> kernel \<Rightarrow> kernel" where
  "set_pages ps k = set_heap ((k_heap k)\<lparr>pages := ps\<rparr>) k"

section \<open>Memory\<close>

definition mapped :: "kernel \<Rightarrow> qword \<Rightarrow> bool" where
  "mapped k a \<longleftrightarrow> vmap (pages (k_heap k)) (vpage a) AND PAGE_PRESENT \<noteq> 0"

definition all_mapped :: "kernel \<Rightarrow> qword \<Rightarrow> nat \<Rightarrow> bool" where
  "all_mapped k a n \<longleftrightarrow> list_all (\<lambda>i. mapped k (a + of_nat i)) [0..<n]"

definition mem_load :: "qword \<Rightarrow> nat \<Rightarrow> kernel \<Rightarrow> buffer option" where
  "mem_load a n k = (if all_mapped k a n then Some (map (\<lambda>i. k_mem k (a + of_nat i)) [0..<n]) else None)"

definition mem_store :: "qword \<Rightarrow> buffer \<Rightarrow> kernel \<Rightarrow> kernel option" where
  "mem_store a b k =
     (if all_mapped k a (length b)
      then Some (k\<lparr>k_mem := (\<lambda>p. if unat (p - a) < length b then b ! unat (p - a) else k_mem k p)\<rparr>)
      else None)"

text \<open>A string of a program: the memory up to an unmapped byte, at most a page of it.\<close>

definition string_at :: "qword \<Rightarrow> kernel \<Rightarrow> buffer" where
  "string_at a k = map (k_mem k) (takeWhile (mapped k) (map (\<lambda>i. a + of_nat i) [0..<4096]))"

section \<open>Services\<close>

definition k_alloc :: "qword \<Rightarrow> kernel \<Rightarrow> (qword \<times> kernel) option" where
  "k_alloc sz k = do { (p, h) \<leftarrow> new_alloc sz (k_heap k); Some (p, set_heap h k) }"

definition k_free :: "qword \<Rightarrow> kernel \<Rightarrow> kernel option" where
  "k_free p k = do { h \<leftarrow> free_alloc p (k_heap k); Some (set_heap h k) }"

abbreviation NL :: string where "NL \<equiv> [CHR 0x0A]"

definition k_printf :: "strings \<Rightarrow> string \<Rightarrow> qword list \<Rightarrow> kernel \<Rightarrow> kernel option" where
  "k_printf mem format args k = do {
     t \<leftarrow> term_printf mem (k_regs k) (lit format) args (k_term k);
     Some (k\<lparr>k_term := t\<rparr>) }"

text \<open>What \<open>fat_fileOpen\<close> prints while it looks for a file, one \<open>printf\<close> after the other.\<close>

definition say :: "message list \<Rightarrow> kernel \<Rightarrow> kernel option" where
  "say = feed (\<lambda>(format, nm). k_printf (\<lambda>p. Some nm) format [0])"

definition file_open :: "buffer \<Rightarrow> kernel \<Rightarrow> (fat_file_ptr \<times> kernel) option" where
  "file_open filename k = do {
     (f, said) \<leftarrow> fat_fileOpen (k_fname k) filename (k_fs k);
     k' \<leftarrow> say said k;
     Some (f, k') }"

text \<open>The file at pointer \<open>fp\<close>: reading to a buffer, and setting the position.\<close>

definition file_read :: "qword \<Rightarrow> buffer \<Rightarrow> qword \<Rightarrow> kernel \<Rightarrow> (buffer \<times> kernel) option" where
  "file_read fp buf sz k = do {
     f \<leftarrow> k_files k fp;
     (f', buf', fs') \<leftarrow> fat_read f buf sz (k_fs k);
     Some (buf', k\<lparr>k_files := (k_files k)(fp \<mapsto> f'), k_fs := fs'\<rparr>) }"

definition file_seek :: "qword \<Rightarrow> qword \<Rightarrow> kernel \<Rightarrow> kernel option" where
  "file_seek fp pos k = do {
     f \<leftarrow> k_files k fp;
     (bad, f', fs') \<leftarrow> fat_seek f pos (k_fs k);
     let k' = k\<lparr>k_files := (k_files k)(fp \<mapsto> f'), k_fs := fs'\<rparr>;
     if bad then k_printf (\<lambda>p. None) (''Error to read: FAT16_BADCLUSTER'' @ NL) [] k' else Some k' }"

section \<open>System calls\<close>

text \<open>\<open>Ended\<close>: the task spins in \<open>task_exit\<close> until the timer removes it.\<close>

datatype outcome = Returned qword | Ended

definition exit_task :: "qword \<Rightarrow> qword \<Rightarrow> kernel \<Rightarrow> (outcome \<times> kernel) option" where
  "exit_task signal v k = do {
     (spins, ts) \<leftarrow> task_exit signal (k_tasks k);
     Some (if spins then Ended else Returned v, k\<lparr>k_tasks := ts\<rparr>) }"

text \<open>\<open>read\<close>, \<open>open\<close> and \<open>close\<close>; a file object has 14 bytes.\<close>

definition sys_read :: "qword \<Rightarrow> qword \<Rightarrow> qword \<Rightarrow> kernel \<Rightarrow> kernel option" where
  "sys_read fp a sz k = do {
     buf \<leftarrow> mem_load a (unat sz) k;
     (buf', k1) \<leftarrow> file_read fp buf sz k;
     mem_store a buf' k1 }"

definition sys_open :: "buffer \<Rightarrow> kernel \<Rightarrow> (qword \<times> kernel) option" where
  "sys_open filename k = do {
     (fileptr, k0) \<leftarrow> file_open filename k;
     (fp, k1) \<leftarrow> k_alloc 14 k0;
     Some (fp, k1\<lparr>k_files := (k_files k1)(fp \<mapsto> fileptr)\<rparr>) }"

definition sys_close :: "qword \<Rightarrow> kernel \<Rightarrow> kernel option" where
  "sys_close fp k = do { k1 \<leftarrow> k_free fp k; Some (k1\<lparr>k_files := (k_files k1)(fp := None)\<rparr>) }"

definition syscall_handle :: "cpu_register_t \<Rightarrow> kernel \<Rightarrow> (outcome \<times> kernel) option" where
  "syscall_handle cpu k =
     (if rax cpu = 0 then do { k' \<leftarrow> sys_read (rdi cpu) (rsi cpu) (rdx cpu) k; Some (Returned (rax cpu), k') }
      else if rax cpu = 1 then Some (Returned (rax cpu), k)
      else if rax cpu = 2 then do { (fp, k') \<leftarrow> sys_open (string_at (rdi cpu) k) k; Some (Returned fp, k') }
      else if rax cpu = 3 then do { k' \<leftarrow> sys_close (rdi cpu) k; Some (Returned (rax cpu), k') }
      else if rax cpu = 4
      then do {
        v \<leftarrow> video_driver_putPixel (sint (ucast (rdi cpu) :: dword)) (sint (ucast (rsi cpu) :: dword)) (ucast (rdx cpu))
               (screen (k_term k));
        Some (Returned 0, k\<lparr>k_term := (k_term k)\<lparr>screen := v\<rparr>\<rparr>) }
      else if rax cpu = 5
      then do { t \<leftarrow> term_putc (ucast (rdi cpu)) (k_term k); Some (Returned (rax cpu), k\<lparr>k_term := t\<rparr>) }
      else if rax cpu = 6 then exit_task (rdi cpu) (rax cpu) k
      else Some (Returned (rax cpu), k))"

end
