(* ===== verification/Interrupt.thy ===== *)
theory Interrupt
  imports Cpu
begin

text \<open>
  \<open>kernel/cpu/gdt.c\<close>, \<open>idt.c\<close>, \<open>pic.c\<close> and the handlers' registration in \<open>time.c\<close> and
  \<open>keyboard_driver.c\<close>: the descriptor tables the processor reads, the interrupt controller,
  and the dispatch of exceptions and interrupts.  Writes to ports are kept in a log, oldest
  first.  Addresses of symbols (the tables, the stubs, the handlers) are arguments.  The
  reports on the screen and the serial line are lists of labels and values.
\<close>

section \<open>The global descriptor table\<close>

definition GDT_ACCESS :: "byte \<Rightarrow> byte \<Rightarrow> byte \<Rightarrow> byte \<Rightarrow> byte \<Rightarrow> byte \<Rightarrow> byte \<Rightarrow> byte" where
  "GDT_ACCESS P DPL D E DC RW A =
     push_bit 7 P OR push_bit 5 DPL OR push_bit 4 D OR push_bit 3 E OR push_bit 2 DC OR push_bit 1 RW OR A"

definition GDT_FLAGS :: "byte \<Rightarrow> byte \<Rightarrow> byte \<Rightarrow> byte" where
  "GDT_FLAGS G S L = push_bit 3 G OR push_bit 2 S OR push_bit 1 L OR 0"

abbreviation DPL_RING0 :: byte where "DPL_RING0 \<equiv> 0"
abbreviation DPL_RING3 :: byte where "DPL_RING3 \<equiv> 3"

record gdt32_entry_t =
  low_limit :: word16
  low_base :: word16
  mid_base :: byte
  access :: byte
  high_limit :: byte
  gdt_flags :: byte
  high_base :: byte

record gdt64_entry_t = gdt32_entry_t +
  offset_base3 :: dword
  gdt_reserved :: dword

text \<open>The packed structures in memory; \<open>high_limit\<close> and \<open>flags\<close> are four bits each.\<close>

definition bytes16 :: "word16 \<Rightarrow> byte list" where
  "bytes16 w = [ucast w, ucast (drop_bit 8 w)]"

definition bytes32 :: "dword \<Rightarrow> byte list" where
  "bytes32 w = [ucast w, ucast (drop_bit 8 w), ucast (drop_bit 16 w), ucast (drop_bit 24 w)]"

definition gdt32_bytes :: "'a gdt32_entry_t_scheme \<Rightarrow> byte list" where
  "gdt32_bytes e = bytes16 (low_limit e) @ bytes16 (low_base e) @
     [mid_base e, access e, (high_limit e AND 0x0F) OR push_bit 4 (gdt_flags e), high_base e]"

definition gdt64_bytes :: "gdt64_entry_t \<Rightarrow> byte list" where
  "gdt64_bytes e = gdt32_bytes e @ bytes32 (offset_base3 e) @ bytes32 (gdt_reserved e)"

text \<open>The fields of the task state segment the kernel sets; \<open>memzero\<close> clears the others.\<close>

record task_state_segment_t =
  tss_rsp0 :: qword
  tss_iopb :: word16

abbreviation TSS_SIZE :: "'a :: len word" where "TSS_SIZE \<equiv> 104"

record descriptor_tables =
  gdt_entries :: buffer
  gdt_desc :: "word16 \<times> qword"
  tss_entry :: task_state_segment_t
  gdtr :: "word16 \<times> qword"
  task_register :: word16

definition segment32 :: "byte \<Rightarrow> byte \<Rightarrow> gdt32_entry_t" where
  "segment32 acc fl = \<lparr>low_limit = 0xFFFF, low_base = 0, mid_base = 0, access = acc,
     high_limit = 0xF, gdt_flags = fl, high_base = 0\<rparr>"

definition tss_descriptor :: "qword \<Rightarrow> gdt64_entry_t" where
  "tss_descriptor tss_addr =
     (let tss_limit = TSS_SIZE - 1 :: qword in
      \<lparr>low_limit = ucast (tss_limit AND 0xFFFF), low_base = ucast (tss_addr AND 0xFFFF),
       mid_base = ucast (drop_bit 16 tss_addr AND 0xFF), access = GDT_ACCESS 1 0 0 1 0 0 1,
       high_limit = ucast (drop_bit 16 tss_limit AND 0xFF), gdt_flags = GDT_FLAGS 0 0 0,
       high_base = ucast (drop_bit 24 tss_addr AND 0xFF),
       offset_base3 = ucast (drop_bit 32 tss_addr AND 0xFFFFFFFF), gdt_reserved = 0\<rparr>)"

definition gdt_init :: "qword \<Rightarrow> qword \<Rightarrow> qword \<Rightarrow> descriptor_tables \<Rightarrow> descriptor_tables" where
  "gdt_init gdt_addr tss_addr stack_bottom s =
     (let entries = replicate 8 0
            @ gdt32_bytes (segment32 (GDT_ACCESS 1 0 1 1 0 1 0) (GDT_FLAGS 1 0 1))
            @ gdt32_bytes (segment32 (GDT_ACCESS 1 0 1 0 0 1 0) (GDT_FLAGS 1 1 0))
            @ gdt32_bytes (segment32 (GDT_ACCESS 1 DPL_RING3 1 1 0 1 0) (GDT_FLAGS 1 0 1))
            @ gdt32_bytes (segment32 (GDT_ACCESS 1 DPL_RING3 1 0 0 1 0) (GDT_FLAGS 1 1 0))
            @ gdt64_bytes (tss_descriptor tss_addr);
          desc = (56 - 1, gdt_addr)
      in s\<lparr>gdt_entries := entries, gdt_desc := desc, gdtr := desc,
           tss_entry := \<lparr>tss_rsp0 = stack_bottom, tss_iopb = TSS_SIZE\<rparr>, task_register := 0x28\<rparr>)"

section \<open>The interrupt controller\<close>

abbreviation PIC_MASTER :: word16 where "PIC_MASTER \<equiv> 0x20"
abbreviation PIC_SLAVE :: word16 where "PIC_SLAVE \<equiv> 0xA0"
abbreviation PIC_COMMAND :: word16 where "PIC_COMMAND \<equiv> 0"
abbreviation PIC_DATA :: word16 where "PIC_DATA \<equiv> 1"
abbreviation ICW1_INIT :: byte where "ICW1_INIT \<equiv> 0x10"
abbreviation ICW1_ICW4 :: byte where "ICW1_ICW4 \<equiv> 1"
abbreviation ICW3_CASCADEMODE :: byte where "ICW3_CASCADEMODE \<equiv> 4"
abbreviation ICW4_MICROPROCESSOR :: byte where "ICW4_MICROPROCESSOR \<equiv> 1"

type_synonym port_log = "(word16 \<times> byte) list"

definition pic_endofinterrupt :: "byte \<Rightarrow> port_log \<Rightarrow> port_log" where
  "pic_endofinterrupt irq log =
     log @ (if irq \<ge> 8 then [(PIC_SLAVE OR PIC_COMMAND, 0x20)] else []) @ [(PIC_MASTER OR PIC_COMMAND, 0x20)]"

definition pic_remapped :: "port_log \<Rightarrow> port_log" where
  "pic_remapped log = log @
     [(PIC_MASTER, ICW1_INIT OR ICW1_ICW4), (PIC_SLAVE, ICW1_INIT OR ICW1_ICW4),
      (PIC_MASTER OR PIC_DATA, 0x20), (PIC_SLAVE OR PIC_DATA, 0x28),
      (PIC_MASTER OR PIC_DATA, ICW3_CASCADEMODE), (PIC_SLAVE OR PIC_DATA, 2),
      (PIC_MASTER OR PIC_DATA, ICW4_MICROPROCESSOR), (PIC_SLAVE OR PIC_DATA, ICW4_MICROPROCESSOR),
      (PIC_MASTER OR PIC_DATA, 0), (PIC_SLAVE OR PIC_DATA, 0)]"

section \<open>The interrupt descriptor table\<close>

record idt_entry_t =
  low_offset :: word16
  code_sgement :: word16
  ist :: byte
  gate_type :: "4 word"
  gate_zero :: "1 word"
  dpl :: "2 word"
  present :: "1 word"
  mid_offset :: word16
  high_offset :: dword
  gate_reserved :: dword

record interrupts =
  idt_entries :: "idt_entry_t list"
  interrupt_registers :: "qword list"
  idt_desc :: "word16 \<times> qword"
  focus_interrupt :: byte
  idtr :: "word16 \<times> qword"
  interrupts_on :: bool
  ports :: port_log

abbreviation IDT_FLAGS_PRESENT :: byte where "IDT_FLAGS_PRESENT \<equiv> 0x80"
abbreviation IDT_FLAGS_32INTTER :: byte where "IDT_FLAGS_32INTTER \<equiv> 0x0E"

definition interrupt_setEntry :: "int \<Rightarrow> qword \<Rightarrow> word16 \<Rightarrow> byte \<Rightarrow> byte \<Rightarrow> interrupts \<Rightarrow> interrupts option" where
  "interrupt_setEntry index off code_segment ist_no flags s =
     (if index < 0 then None
      else do {
        es \<leftarrow> buf_set (idt_entries s) (nat index)
          \<lparr>low_offset = ucast (off AND 0xFFFF), code_sgement = code_segment, ist = ist_no AND 7,
           gate_type = ucast (flags AND 0xF), gate_zero = 0, dpl = ucast (drop_bit 5 flags AND 3),
           present = ucast (drop_bit 7 flags AND 1), mid_offset = ucast (drop_bit 16 off AND 0xFFFF),
           high_offset = ucast (drop_bit 32 off AND 0xFFFFFFFF), gate_reserved = 0\<rparr>;
        Some (s\<lparr>idt_entries := es\<rparr>) })"

definition interrupt_register :: "int \<Rightarrow> qword \<Rightarrow> interrupts \<Rightarrow> interrupts option" where
  "interrupt_register index off s =
     (if index < 0 then None
      else do {
        rs \<leftarrow> buf_set (interrupt_registers s) (nat index) off;
        Some (s\<lparr>interrupt_registers := rs\<rparr>) })"

text \<open>The first loop of \<open>idt_init\<close>: a gate for each of the 48 stubs.\<close>

primrec idt_loop :: "qword list \<Rightarrow> nat \<Rightarrow> interrupts \<Rightarrow> interrupts option" where
  "idt_loop interrupt_list 0 s = Some s"
| "idt_loop interrupt_list (Suc i) s = do {
     s1 \<leftarrow> idt_loop interrupt_list i s;
     off \<leftarrow> buf_get interrupt_list i;
     es \<leftarrow> buf_set (idt_entries s1) i
       \<lparr>low_offset = ucast (off AND 0xFFFF), code_sgement = 0x08, ist = 0,
        gate_type = ucast IDT_FLAGS_32INTTER, gate_zero = 0, dpl = ucast DPL_RING0, present = 1,
        mid_offset = ucast (drop_bit 16 off AND 0xFFFF),
        high_offset = ucast (drop_bit 32 off AND 0xFFFFFFFF), gate_reserved = 0\<rparr>;
     rs \<leftarrow> buf_set (interrupt_registers s1) i 0;
     Some (s1\<lparr>idt_entries := es, interrupt_registers := rs\<rparr>) }"

definition time_init :: "qword \<Rightarrow> interrupts \<Rightarrow> interrupts option" where
  "time_init handler s = interrupt_register 32 handler s"

definition keyboard_init :: "qword \<Rightarrow> interrupts \<Rightarrow> interrupts option" where
  "keyboard_init handler s = interrupt_register 33 handler s"

definition idt_init :: "qword list \<Rightarrow> qword \<Rightarrow> qword \<Rightarrow> qword \<Rightarrow> qword \<Rightarrow> interrupts \<Rightarrow> interrupts option" where
  "idt_init interrupt_list int_syscall idt_addr timer keyboard s = do {
     s1 \<leftarrow> idt_loop interrupt_list 48 (s\<lparr>interrupts_on := False\<rparr>);
     s2 \<leftarrow> interrupt_setEntry 0x80 int_syscall 0x08 0 (IDT_FLAGS_PRESENT OR push_bit 5 DPL_RING0 OR IDT_FLAGS_32INTTER) s1;
     let s3 = s2\<lparr>idt_desc := (256 * 16 - 1, idt_addr), ports := pic_remapped (ports s2)\<rparr>;
     s4 \<leftarrow> time_init timer s3;
     s5 \<leftarrow> keyboard_init keyboard s4;
     Some (s5\<lparr>idtr := idt_desc s5, interrupts_on := True\<rparr>) }"

text \<open>The address of a gate, as \<open>idt_init\<close> prints it.\<close>

definition gate_base :: "idt_entry_t \<Rightarrow> qword" where
  "gate_base e = push_bit 32 (ucast (high_offset e AND 0xFFFFFFFF))
     OR ucast (push_bit 16 (ucast (mid_offset e AND 0xFFFF)) :: dword) OR ucast (low_offset e AND 0xFFFF)"

section \<open>Exceptions\<close>

definition interrupt_descriptor_message :: "string list" where
  "interrupt_descriptor_message =
     [''Divide With Zero Error'', ''Debug Exceptions'', ''Non Maskable Interrupt'', ''Breakpoint'',
      ''Overflow'', ''Bounds Check'', ''Invalid Opcode'', ''Coprocessor Not Available'',
      ''Double Fault'', ''Reserved'', ''Invalid Task State Segment'', ''Segment Not Present'',
      ''Stack Exception'', ''General Protection Fault'', ''Page Fault'', ''Reserved'',
      ''Coprecessor Error''] @ replicate 15 ''Reserved''"

definition page_fault :: "qword \<Rightarrow> qword \<Rightarrow> (string \<times> qword) list" where
  "page_fault error address =
     [(''Page Fault on'', address),
      (if error AND 1 = 0 then ''Page Not Present'' else ''Page is Present'', error),
      (if error AND 2 = 0 then ''Page Is Writable'' else ''Page is Readable'', error),
      (if error AND 4 = 0 then ''Page is not for userspace (for Kernel)'' else ''Page is userspace'', error)]"

definition register_report :: "cpu_register_t \<Rightarrow> (string \<times> qword) list" where
  "register_report c =
     [(''rax'', rax c), (''rcx'', rcx c), (''rdx'', rdx c), (''rbx'', rbx c), (''rsp'', rsp c),
      (''rbp'', rbp c), (''rsi'', rsi c), (''rdi'', rdi c), (''rip'', rip c),
      (''r8'', r8 c), (''r9'', r9 c), (''r10'', r10 c), (''r11'', r11 c), (''r12'', r12 c),
      (''r13'', r13 c), (''r14'', r14 c), (''r15'', r15 c),
      (''cr0'', cr0 c), (''cr2'', cr2 c), (''cr3'', cr3 c), (''cr4'', cr4 c),
      (''interrupt code'', interrupt_code c), (''error code'', error_code c),
      (''rflags'', rflags c), (''rsp0'', rsp0 c), (''cs'', ucast (code_seg c)), (''ss'', ucast (stack_seg c))]"

text \<open>
  \<open>isr_handle\<close> reports the registers on the screen and on the serial line (the two
  components of the result) and halts; the state is the one it halts in.
\<close>

definition isr_handle :: "cpu_register_t \<Rightarrow> interrupts \<Rightarrow> ((string \<times> qword) list \<times> (string \<times> qword) list \<times> interrupts) option" where
  "isr_handle creg s = do {
     message \<leftarrow> buf_get interrupt_descriptor_message (unat (interrupt_code creg));
     let report = (message, interrupt_code creg) # register_report creg;
     Some (report @ (if interrupt_code creg = 14 then page_fault (error_code creg) (cr2 creg) else []),
           report, s\<lparr>focus_interrupt := 1\<rparr>) }"

section \<open>Interrupts\<close>

text \<open>The result is the handler \<open>irq_handle\<close> calls, if it calls one.\<close>

definition irq_handle :: "cpu_register_t \<Rightarrow> interrupts \<Rightarrow> (qword option \<times> interrupts) option" where
  "irq_handle creg s =
     (if interrupt_code creg < 32 then Some (None, s)
      else do {
        let s1 = s\<lparr>ports := pic_endofinterrupt (ucast (interrupt_code creg - 32)) (ports s)\<rparr>;
        handle \<leftarrow> buf_get (interrupt_registers s1) (unat (interrupt_code creg));
        if handle = 0 then Some (None, s1)
        else if focus_interrupt s1 \<noteq> 0 then Some (None, s1)
        else Some (Some handle, s1) })"

section \<open>The keyboard's handler\<close>

text \<open>\<open>status\<close> is what the status port of the PS/2 controller reads; the result is the new
  value of \<open>ps2_is_output_serve\<close>.\<close>

definition keyboard_handle :: "byte \<Rightarrow> byte" where
  "keyboard_handle status = status AND 1"

end
