(* ===== verification/Kernel_Main.thy ===== *)
theory Kernel_Main
  imports Kernel Interrupt
begin

text \<open>
  \<open>kernel/kernel.c\<close>: \<open>kernel_main\<close> up to \<open>term_run\<close>, which does not return, over the state of
  all components, and the first task.  The addresses that come from the linker, the processor
  or the caller are the fields of \<open>boot_symbols\<close>.  What the initialisation functions write to
  the terminal is written here, at the call; their messages on the serial line are left out.
\<close>

section \<open>State\<close>

record boot_symbols =
  sym_cr3 :: qword
  sym_gdt :: qword
  sym_tss :: qword
  sym_tss_stack :: qword
  sym_stack_bottom :: qword
  sym_interrupt_list :: "qword list"
  sym_int_syscall :: qword
  sym_idt :: qword
  sym_timer :: qword
  sym_keyboard :: qword
  sym_heap_start :: qword
  sym_test_task :: qword
  sym_rbp :: qword
  sym_ret :: qword
  sym_cs :: qword
  sym_ss :: qword

record machine =
  m_kernel :: kernel
  m_header :: kernel_header_info_t
  m_tables :: descriptor_tables
  m_ints :: interrupts

definition k_print :: "string \<Rightarrow> kernel \<Rightarrow> kernel option" where
  "k_print s k = do {
     out \<leftarrow> print (lit s);
     t \<leftarrow> term_puts out (k_term k);
     Some (k\<lparr>k_term := t\<rparr>) }"

definition set_screen :: "video \<Rightarrow> kernel \<Rightarrow> kernel" where
  "set_screen v k = k\<lparr>k_term := (k_term k)\<lparr>screen := v\<rparr>\<rparr>"

section \<open>kernel_main\<close>

text \<open>The screen and the page tables, up to \<open>term_init\<close>.\<close>

definition main_screen :: "boot_symbols \<Rightarrow> kernel_header_info_t \<Rightarrow> kernel \<Rightarrow> kernel option" where
  "main_screen y hdr k = do {
     let v = video_driver_init hdr (screen (k_term k));
     let ps = page_init (sym_cr3 y) (pages (k_heap k));
     ps \<leftarrow> video_driver_mapped v ps;
     v \<leftarrow> video_driver_clearScreen (R8G8B8 100 0 0) v;
     let k = set_screen v (set_pages ps k);
     Some (k\<lparr>k_term := term_init (k_term k)\<rparr>) }"

text \<open>\<open>gdt_init\<close>, \<open>task_init\<close> and \<open>idt_init\<close>, with what they print.\<close>

definition main_tables :: "boot_symbols \<Rightarrow> machine \<Rightarrow> machine option" where
  "main_tables y m = do {
     let gdt = gdt_init (sym_gdt y) (sym_tss y) (sym_tss_stack y) (m_tables m);
     k \<leftarrow> k_print (''Global Descriptor Table Installed!'' @ NL) (m_kernel m);
     ts \<leftarrow> task_init (sym_stack_bottom y) (k_tasks k);
     let k = k\<lparr>k_tasks := ts\<rparr>;
     ints \<leftarrow> idt_init (sym_interrupt_list y) (sym_int_syscall y) (sym_idt y) (sym_timer y) (sym_keyboard y) (m_ints m);
     k \<leftarrow> k_print (''Programmable Interrupt Controller Installed!'' @ NL) k;
     k \<leftarrow> k_printf Map.empty (''IDT Desc: Limit = %x'' @ NL) [ucast (fst (idt_desc ints))] k;
     k \<leftarrow> k_printf Map.empty (''IDT Desc: Base: %x'' @ NL) [snd (idt_desc ints)] k;
     k \<leftarrow> k_print (''Interrupt Descriptor Table Installed!'' @ NL) k;
     k \<leftarrow> k_print (''Programmable Interrupt Time Installed!'' @ NL) k;
     k \<leftarrow> k_print (''Keyboard Interrupt Installed!'' @ NL) k;
     k \<leftarrow> k_print (''Interrupt [Done]'' @ NL) k;
     Some (m\<lparr>m_kernel := k, m_tables := gdt, m_ints := ints\<rparr>) }"

text \<open>\<open>init_alloc\<close> and \<open>fat_init\<close>.\<close>

definition main_memory :: "boot_symbols \<Rightarrow> kernel \<Rightarrow> kernel option" where
  "main_memory y k = do {
     h \<leftarrow> init_alloc (sym_heap_start y) (k_heap k);
     s \<leftarrow> fat_init ((k_fs k)\<lparr>fheap := h\<rparr>);
     Some (k\<lparr>k_fs := s\<rparr>) }"

text \<open>The second \<open>clearScreen\<close>, the greeting and the first task.\<close>

definition main_first_task :: "boot_symbols \<Rightarrow> kernel \<Rightarrow> kernel option" where
  "main_first_task y k = do {
     v \<leftarrow> video_driver_clearScreen (R8G8B8 0 0 0) (screen (k_term k));
     k \<leftarrow> k_printf Map.empty (''HaOS Created By Haidir'' @ NL @ NL @ NL) [] (set_screen v k);
     (p, ts) \<leftarrow> task_create (sym_test_task y) 0 0 0 0 0 (sym_rbp y) (sym_ret y) (sym_cs y) (sym_ss y)
                  ((k_tasks k)\<lparr>task_heap := k_heap k\<rparr>);
     Some (set_heap (task_heap ts) (k\<lparr>k_tasks := ts\<rparr>)) }"

definition kernel_main :: "boot_symbols \<Rightarrow> machine \<Rightarrow> machine option" where
  "kernel_main y m = do {
     k \<leftarrow> main_screen y (m_header m) (m_kernel m);
     m \<leftarrow> main_tables y (m\<lparr>m_kernel := k\<rparr>);
     k \<leftarrow> main_memory y (m_kernel m);
     k \<leftarrow> main_first_task y k;
     Some (m\<lparr>m_kernel := k\<rparr>) }"

text \<open>\<open>test_task\<close>, the body of the first task.\<close>

definition test_task :: "kernel \<Rightarrow> (bool \<times> kernel) option" where
  "test_task k = do {
     k \<leftarrow> k_printf Map.empty (''Hello, World from Task'' @ NL) [] k;
     (spins, ts) \<leftarrow> task_exit 0xDEAD1234 (k_tasks k);
     Some (spins, k\<lparr>k_tasks := ts\<rparr>) }"

end
