(* ===== verification/Kernel_Props.thy ===== *)
theory Kernel_Props
  imports Kernel
begin

text \<open>
  The services under the loader and the system calls: scratch buffers that leave the heap
  as it is, reading within a cluster, memory of programs, and messages.
\<close>

section \<open>Scratch buffers\<close>

text \<open>In the segments \<open>ss\<close> a buffer of \<open>sz\<close> bytes is split from a segment that stays in place.\<close>

definition scratch :: "seg list \<Rightarrow> nat \<Rightarrow> bool" where
  "scratch ss sz \<longleftrightarrow> 0 < sz \<and> sz + 17 \<le> 0x10000000
     \<and> (\<exists>pre n post. ss = pre @ (n, True) # post \<and> (\<forall>s \<in> set pre. \<not> fits (sz + 17) s) \<and> 2 * (sz + 17) \<le> n)"

lemma seg_alloc_first:
  assumes "\<forall>s \<in> set pre. \<not> fits k s" and "k \<le> n"
  shows "seg_alloc k (pre @ (n, True) # post) = Some (segsum pre, pre @ carve k n (post = []) @ post)"
  using assms by (induction pre) (auto simp: fits_def)

text \<open>Taking a buffer from a segment, and giving it back, with the page tables as they were.\<close>

lemma take_buffer:
  assumes rep: "heap_rep h (pre @ (n, True) # post)" and room: "heap_room (Suc g) h"
    and fit: "\<forall>s \<in> set pre. \<not> fits (unat sz + 17) s" "2 * (unat sz + 17) \<le> n"
    and sz: "0 < unat sz" "unat sz + 17 \<le> 0x10000000"
  shows "\<exists>h1. new_alloc sz h = Some (heap_start h + of_nat (segsum pre + 17), h1)
    \<and> heap_rep h1 (pre @ (unat sz + 17, False) # (n - (unat sz + 17), True) # post)
    \<and> heap_start h1 = heap_start h \<and> pages h1 = pages h \<and> heap_room (Suc g) h1"
proof -
  let ?k = "unat sz + 17"
  have spec: "seg_alloc ?k (pre @ (n, True) # post) = Some (segsum pre, pre @ carve ?k n (post = []) @ post)"
    by (rule seg_alloc_first [OF fit(1)]) (use fit(2) in simp)
  have over: "\<not> overruns ?k (pre @ (n, True) # post)"
    using overruns_append [OF fit(1), of n post] fit(2) by auto
  have c: "carve ?k n (post = []) = [(?k, False), (n - ?k, True)]"
    using fit(2) by (auto simp: carve_def)
  have size: "unat (heap_size h) = segsum pre + n + segsum post" using rep by (simp add: heap_rep_def)
  obtain h1 where h1: "new_alloc sz h = Some (heap_start h + of_nat (segsum pre + 17), h1)"
    "heap_rep h1 (pre @ carve ?k n (post = []) @ post)" "heap_start h1 = heap_start h"
    "segsum pre + 2 * ?k \<le> unat (heap_size h) \<longrightarrow> pages h1 = pages h"
    using serve [OF rep sz(1) refl sz(2) spec over room] by blast
  have rep1: "heap_rep h1 (pre @ (?k, False) # (n - ?k, True) # post)" using h1(2) by (simp add: c)
  then have "unat (heap_size h1) = unat (heap_size h)" using size fit(2) by (simp add: heap_rep_def)
  moreover have "pages h1 = pages h" using h1(4) size fit(2) by simp
  ultimately show ?thesis using h1(1,3) rep1 room by (simp add: heap_room_def)
qed

lemma scratch_use:
  assumes rep: "heap_rep h ss" and room: "heap_room (Suc g) h" and fit: "scratch ss (unat sz)"
  shows "\<exists>p h1 h2. new_alloc sz h = Some (p, h1) \<and> free_alloc p h1 = Some h2 \<and> heap_rep h2 ss
    \<and> heap_room (Suc g) h2 \<and> heap_start h2 = heap_start h \<and> pages h2 = pages h"
proof -
  obtain pre n post where ss: "ss = pre @ (n, True) # post" "\<forall>s \<in> set pre. \<not> fits (unat sz + 17) s" "2 * (unat sz + 17) \<le> n"
    and sz: "0 < unat sz" "unat sz + 17 \<le> 0x10000000"
    using fit by (auto simp: scratch_def)
  obtain h1 where h1: "new_alloc sz h = Some (heap_start h + of_nat (segsum pre + 17), h1)"
    "heap_rep h1 (pre @ (unat sz + 17, False) # (n - (unat sz + 17), True) # post)"
    "heap_start h1 = heap_start h" "pages h1 = pages h"
    using take_buffer [OF rep [unfolded ss(1)] room ss(2,3) sz] by blast
  obtain h2 where h2: "free_alloc (heap_start h + of_nat (segsum pre + 17)) h1 = Some h2"
    "heap_rep h2 (seg_free pre (unat sz + 17) ((n - (unat sz + 17), True) # post))" "heap_start h2 = heap_start h1"
    "pages h2 = pages h1"
    using free_rep [OF h1(2)] h1(3) by auto
  have "heap_rep h2 ss" using h2(2) ss(1,3) by (simp add: seg_free_def)
  moreover from this have "unat (heap_size h2) = unat (heap_size h)" using rep by (simp add: heap_rep_def)
  ultimately show ?thesis using h1 h2 room by (auto simp: heap_room_def)
qed

section \<open>Reading within a cluster\<close>

lemma fat_read_near:
  assumes fat: "plain_fat s" and ds: "data_start s = Some ds"
    and heap: "new_alloc (ucast (fat_sizeSector s)) (fheap s) = Some (p, h1)" "free_alloc p h1 = Some h2"
    and near: "unat (offset f) + unat sz \<le> 512 * spc s" and buf: "unat sz \<le> length buf"
  shows "fat_read f buf sz s = Some (f\<lparr>offset := offset f + of_nat (unat sz)\<rparr>,
    take (unat sz) (drop (unat (offset f)) (cluster_data s ds (cluster f))) @ drop (unat sz) buf, s\<lparr>fheap := h2\<rparr>)"
proof -
  let ?size = "ucast (fat_sizeSector s) :: qword"
  note size = size_sector [OF fat]
  have size0: "?size \<noteq> 0" using size(2) fat by (auto simp: plain_fat_def)
  have read: "read_sectors (fdisk s) (cluster_lba s ds (cluster f)) (ucast (bytes_per_sector (fat_hdr s))) (spc s)
      (replicate (unat (fat_sizeSector s)) 0) 0 = Some (cluster_data s ds (cluster f))"
    by (rule read_cluster [OF fat]) (simp add: size(1))
  show ?thesis
  proof (cases "sz = 0")
    case True
    then show ?thesis using ds heap size0 by (simp add: fat_read_def Let_def)
  next
    case False
    then have pos: "0 < unat sz" by (simp add: unat_gt_0)
    have "unat (sz div ?size) = unat sz div (512 * spc s)" "unat (sz mod ?size) = unat sz mod (512 * spc s)"
      by (simp_all add: unat_div unat_mod size(2))
    moreover have "unat sz div (512 * spc s) + (if unat sz mod (512 * spc s) > 0 then 1 else 0) = 1"
    proof (cases "unat sz = 512 * spc s")
      case True
      then show ?thesis using pos by simp
    next
      case False
      then have "unat sz < 512 * spc s" using near by simp
      then show ?thesis using pos by simp
    qed
    ultimately have "unat ((ucast (sz div ?size) :: dword) + (if sz mod ?size > 0 then 1 else 0)) = 1"
      by (auto simp: word_gt_0_no word_neq_0_conv unat_eq_zero unsigned_ucast_eq word_less_nat_alt unat_word_ariths
          split: if_splits)
    moreover have "copy_bytes (unat sz) (cluster_data s ds (cluster f)) (unat (offset f)) buf 0
        = Some (patch 0 (take (unat sz) (drop (unat (offset f)) (cluster_data s ds (cluster f)))) buf)"
      by (rule copy_bytes_ok) (use near buf in simp_all)
    ultimately show ?thesis
      using ds heap size0 read near by (simp add: fat_read_def Let_def patch_def)
  qed
qed

lemma fat_seek_near:
  assumes fat: "plain_fat s" and near: "unat pos < 512 * spc s"
    and heap: "new_alloc 512 (fheap s) = Some (p, h1)" "free_alloc p h1 = Some h2"
  shows "fat_seek f pos s = Some (False, f\<lparr>offset := of_nat (unat pos)\<rparr>, s\<lparr>fheap := h2\<rparr>)"
proof -
  let ?size = "ucast (fat_sizeSector s) :: qword"
  note size = size_sector [OF fat]
  have size0: "?size \<noteq> 0" using size(2) fat by (auto simp: plain_fat_def)
  have "unat (pos div ?size) = 0" "unat (pos mod ?size) = unat pos"
    using near by (simp_all add: unat_div unat_mod size(2))
  then have "pos mod ?size = pos" "unat (pos div ?size) = 0" by (simp_all add: word_unat_eq_iff)
  moreover have "(ucast pos :: word16) = of_nat (unat pos)" by simp
  moreover have "(ucast (bytes_per_sector (fat_hdr s)) :: qword) = 512" using fat by (simp add: plain_fat_def)
  ultimately show ?thesis using size0 heap by (simp add: fat_seek_def Let_def)
qed


section \<open>Memory\<close>

lemma k_simps [simp]:
  "k_fs (set_heap h k) = (k_fs k)\<lparr>fheap := h\<rparr>" "k_term (set_heap h k) = k_term k" "k_mem (set_heap h k) = k_mem k"
  "k_files (set_heap h k) = k_files k" "k_fname (set_heap h k) = k_fname k" "k_tasks (set_heap h k) = k_tasks k"
  "k_regs (set_heap h k) = k_regs k"
  "k_fs (set_pages ps k) = (k_fs k)\<lparr>fheap := (k_heap k)\<lparr>pages := ps\<rparr>\<rparr>" "k_term (set_pages ps k) = k_term k"
  "k_mem (set_pages ps k) = k_mem k" "k_files (set_pages ps k) = k_files k" "k_fname (set_pages ps k) = k_fname k"
  "k_tasks (set_pages ps k) = k_tasks k" "k_regs (set_pages ps k) = k_regs k"
  by (simp_all add: set_heap_def set_pages_def)

lemma all_mapped_iff: "all_mapped k a n \<longleftrightarrow> (\<forall>i < n. mapped k (a + of_nat i))"
  by (auto simp: all_mapped_def list_all_iff)

lemma mapped_cong: "pages (k_heap k) = pages (k_heap k') \<Longrightarrow> mapped k = mapped k'"
  by (simp add: mapped_def fun_eq_iff)

text \<open>The bytes from \<open>a\<close> on replaced by \<open>b\<close>.\<close>

definition place :: "qword \<Rightarrow> buffer \<Rightarrow> (qword \<Rightarrow> byte) \<Rightarrow> qword \<Rightarrow> byte" where
  "place a b m p = (if unat (p - a) < length b then b ! unat (p - a) else m p)"

lemma mem_store_ok: "all_mapped k a (length b) \<Longrightarrow> mem_store a b k = Some (k\<lparr>k_mem := place a b (k_mem k)\<rparr>)"
  by (simp add: mem_store_def place_def [abs_def])

lemma place_place: "length b \<le> length c \<Longrightarrow> place a b (place a c m) = place a (b @ drop (length b) c) m"
  by (auto simp: place_def fun_eq_iff nth_append)

text \<open>The page of a byte of a range of pages.\<close>

lemma bit_page_index: "bit (x :: qword) (12 + n) = bit (drop_bit 12 x) n"
  by (simp add: bit_drop_bit_eq)

lemma vpage_cong:
  assumes "drop_bit 12 x = drop_bit 12 y"
  shows "vpage x = vpage y"
proof -
  have "drop_bit (12 + n) x = drop_bit (12 + n) y" for n
    using arg_cong [OF assms, of "drop_bit n"] by (simp add: add.commute)
  from this [of 0] this [of 9] this [of 18] this [of 27] show ?thesis
    by (simp add: vpage_def PMLT4_INDEX_def PDPT_INDEX_def PDT_INDEX_def PT_INDEX_def)
qed

lemma page_split:
  fixes v i :: nat
  assumes "k = (v mod 4096 + i) div 4096"
  shows "(v + k * 4096) div 4096 = (v + i) div 4096" and "v + i < 2 ^ 64 \<Longrightarrow> v + k * 4096 < 2 ^ 64"
proof -
  obtain q r where qr: "v = r + q * 4096" "r < 4096" by (metis add.commute div_mult_mod_eq mod_less_divisor zero_less_numeral)
  have k: "k = (r + i) div 4096" using qr by (simp add: assms)
  have d: "(v + i) div 4096 = q + k"
  proof -
    have "v + i = (r + i) + q * 4096" using qr(1) by simp
    then show ?thesis by (simp add: k)
  qed
  have e: "v + k * 4096 = r + (q + k) * 4096" using qr(1) by (simp add: add_mult_distrib)
  have "(r + (q + k) * 4096) div 4096 = q + k" using qr(2) by simp
  then show "(v + k * 4096) div 4096 = (v + i) div 4096" using d e by simp
  assume "v + i < 2 ^ 64"
  then have "(v + i) div 4096 < 2 ^ 52" by (intro less_mult_imp_div_less) simp
  then have "q + k < 2 ^ 52" using d by simp
  then show "v + k * 4096 < 2 ^ 64" unfolding e using qr(2) by simp
qed

lemma vpage_byte:
  assumes "unat virt + i < 2 ^ 64"
  shows "vpage (virt + of_nat i) = vp virt ((unat virt mod 4096 + i) div 4096)"
proof -
  define k where "k = (unat virt mod 4096 + i) div 4096"
  note s = page_split [OF k_def]
  have u: "unat (virt + of_nat j) = unat virt + j" if "unat virt + j < 2 ^ 64" for j
  proof -
    have "virt + of_nat j = of_nat (unat virt + j)" by simp
    then show ?thesis using unat_of_nat_qword [OF that] by simp
  qed
  have "unat (virt + of_nat i) div 4096 = unat (virt + of_nat (k * 4096)) div 4096"
    using s(1) u [OF assms] u [OF s(2) [OF assms]] by (simp only:)
  then have "drop_bit 12 (virt + of_nat i) = drop_bit 12 (virt + of_nat (k * 4096))"
    by (simp add: word_unat_eq_iff drop_bit_eq_div unat_div del: of_nat_mult)
  from vpage_cong [OF this] show ?thesis by (simp add: vp_def k_def)
qed


section \<open>Messages\<close>

text \<open>The pieces of a format whose output has only characters below 128.\<close>

primrec ascii_piece :: "strings \<Rightarrow> piece \<Rightarrow> bool" where
  "ascii_piece mem (Lit c) \<longleftrightarrow> c < 128"
| "ascii_piece mem (Dec v) \<longleftrightarrow> True"
| "ascii_piece mem (Hex v) \<longleftrightarrow> True"
| "ascii_piece mem (Str p) \<longleftrightarrow> (\<forall>b. mem p = Some b \<longrightarrow> (\<forall>c \<in> set (cstr b). c < 128))"
| "ascii_piece mem (Chr v) \<longleftrightarrow> (ucast v :: byte) < 128"
| "ascii_piece mem (Odd c) \<longleftrightarrow> c < 128"

definition message_ok :: "strings \<Rightarrow> piece list \<Rightarrow> bool" where
  "message_ok mem ps \<longleftrightarrow> (\<forall>p \<in> set ps. piece_ok mem p \<and> plain_piece mem p \<and> ascii_piece mem p)"

lemma digits_ascii: "c \<in> set (digits_rev v) \<Longrightarrow> c < 128"
proof (induction v rule: digits_rev.induct)
  case (1 v)
  show ?case
  proof (cases "v > 0")
    case True
    have "(word_of_int (v mod 10 + 48) :: byte) < 128"
    proof -
      have "0 \<le> v mod 10 + 48" "v mod 10 + 48 < 58" using pos_mod_bound [of 10 v] pos_mod_sign [of 10 v] by simp_all
      then have "uint (word_of_int (v mod 10 + 48) :: byte) < 58"
        by (simp only: unsigned_of_int) (simp add: take_bit_int_eq_self)
      then show ?thesis by (simp add: word_less_def)
    qed
    then show ?thesis using 1 True by (auto simp: digits_rev_pos)
  qed (use 1 in simp)
qed

lemma hexw_ascii: "c \<in> set hexw \<Longrightarrow> c < 128"
  by (auto simp: hexw_def)

lemma piece_text_ascii: "piece_text mem p t \<Longrightarrow> ascii_piece mem p \<Longrightarrow> c \<in> set t \<Longrightarrow> c < 128"
  by (cases p) (auto simp: dec_chars_def dest: digits_ascii hexw_ascii split: if_splits)

lemma list_all2_concat_ascii:
  "list_all2 (piece_text mem) ps ts \<Longrightarrow> \<forall>p \<in> set ps. ascii_piece mem p \<Longrightarrow> c \<in> set (concat ts) \<Longrightarrow> c < 128"
  by (induction ps ts rule: list_all2_induct) (auto dest: piece_text_ascii)

lemma k_printf_ok:
  assumes "term_ok (k_term k)" and "message_ok mem ps" and "lit s = format_of ps @ [0]" and "args = args_of ps"
  shows "\<exists>t. k_printf mem s args k = Some (k\<lparr>k_term := t\<rparr>) \<and> term_ok t"
proof -
  have "\<forall>p \<in> set ps. piece_ok mem p \<and> plain_piece mem p" using assms(2) by (auto simp: message_ok_def)
  from printf_pieces [OF this, of "k_regs k" "[]" "[]" "[]"]
  obtain ts where ts: "printf_impl mem (k_regs k) (lit s) args = Some (concat ts)" "list_all2 (piece_text mem) ps ts"
    by (auto simp: printf_impl_def assms(3,4))
  have "\<forall>c \<in> set (concat ts). c < 128"
    using list_all2_concat_ascii [OF ts(2)] assms(2) by (auto simp: message_ok_def)
  from tty.feed_ok [OF assms(1) this] show ?thesis using ts(1) by (auto simp: k_printf_def term_printf_def)
qed

lemma k_print_text:
  assumes "term_ok (k_term k)" and "\<forall>c \<in> set s. ascii_piece mem (Lit (of_char c)) \<and> piece_ok mem (Lit (of_char c))"
  shows "\<exists>t. k_printf mem s [] k = Some (k\<lparr>k_term := t\<rparr>) \<and> term_ok t"
proof (rule k_printf_ok [OF assms(1)])
  show "message_ok mem (map (\<lambda>c. Lit (of_char c)) s)" using assms(2) by (simp add: message_ok_def)
  show "lit s = format_of (map (\<lambda>c. Lit (of_char c)) s) @ [0]" by (simp add: lit_def format_of_def comp_def concat_map_singleton)
  show "[] = args_of (map (\<lambda>c. Lit (of_char c)) s)" by (simp add: args_of_def comp_def)
qed

lemma text_message:
  assumes "term_ok (k_term k)" and "list_all (\<lambda>c. of_char c < (128 :: byte) \<and> of_char c \<noteq> (0 :: byte) \<and> of_char c \<noteq> PERCENT) s"
  shows "\<exists>t. k_printf mem s [] k = Some (k\<lparr>k_term := t\<rparr>) \<and> term_ok t"
  using k_print_text [OF assms(1), of s mem] assms(2) by (simp add: list_all_iff)

text \<open>All of the kernel but the terminal.\<close>

definition off_screen :: "kernel \<Rightarrow> kernel" where
  "off_screen k = k\<lparr>k_term := undefined\<rparr>"

lemma off_screenD:
  assumes "off_screen k' = off_screen k"
  shows "k' = k\<lparr>k_term := k_term k'\<rparr>"
proof -
  have "k\<lparr>k_term := x\<rparr> = (off_screen k)\<lparr>k_term := x\<rparr>" for x by (simp add: off_screen_def)
  then have "k\<lparr>k_term := k_term k'\<rparr> = (off_screen k')\<lparr>k_term := k_term k'\<rparr>" using assms by simp
  then show ?thesis by (simp add: off_screen_def)
qed

text \<open>Names that can be printed: \<open>printf\<close> takes a string argument as a format.\<close>

definition name_ok :: "buffer \<Rightarrow> bool" where
  "name_ok b \<longleftrightarrow> terminated b \<and> PERCENT \<notin> set (cstr b) \<and> (\<forall>c \<in> set (cstr b). c < 128)"

text \<open>What \<open>fat_fileOpen\<close> says can be printed when the names can.\<close>

definition said_ok :: "message list \<Rightarrow> bool" where
  "said_ok said \<longleftrightarrow> (\<forall>(format, nm) \<in> set said. (format = searching \<or> format = is_found) \<and> name_ok nm)"

lemma say_one:
  assumes "term_ok (k_term k)" and "format = searching \<or> format = is_found" and "name_ok nm"
  shows "\<exists>t. k_printf (\<lambda>p. Some nm) format [0] k = Some (k\<lparr>k_term := t\<rparr>) \<and> term_ok t"
proof -
  let ?ps = "map Lit (chars ''Searching file \"'') @ [Str 0] @ map Lit (chars ''\"'' @ [0x0A])"
    and ?qs = "map Lit (chars ''[File] '') @ [Str 0] @ map Lit (chars '' is Found'' @ [0x0A])"
  have "\<exists>t. k_printf (\<lambda>p. Some nm) searching [0] k = Some (k\<lparr>k_term := t\<rparr>) \<and> term_ok t"
    by (rule k_printf_ok [OF assms(1), where ps = ?ps])
      (use assms(3) in \<open>simp_all add: message_ok_def name_ok_def lit_def format_of_def args_of_def chars_def searching_def\<close>)
  moreover have "\<exists>t. k_printf (\<lambda>p. Some nm) is_found [0] k = Some (k\<lparr>k_term := t\<rparr>) \<and> term_ok t"
    by (rule k_printf_ok [OF assms(1), where ps = ?qs])
      (use assms(3) in \<open>simp_all add: message_ok_def name_ok_def lit_def format_of_def args_of_def chars_def is_found_def\<close>)
  ultimately show ?thesis using assms(2) by blast
qed

interpretation speaker: sink "\<lambda>(format, nm). k_printf (\<lambda>p. Some nm) format [0]" "\<lambda>k. term_ok (k_term k)"
  "\<lambda>(format, nm). (format = searching \<or> format = is_found) \<and> name_ok nm" off_screen
proof
  fix k :: kernel and x :: message
  assume "term_ok (k_term k)" and "case x of (format, nm) \<Rightarrow> (format = searching \<or> format = is_found) \<and> name_ok nm"
  then show "\<exists>k'. (case x of (format, nm) \<Rightarrow> k_printf (\<lambda>p. Some nm) format [0]) k = Some k' \<and> term_ok (k_term k')
      \<and> off_screen k' = off_screen k"
    using say_one [of k "fst x" "snd x"] by (cases x) (auto simp: off_screen_def)
qed

lemma say_ok:
  assumes "term_ok (k_term k)" and "said_ok said"
  obtains t where "say said k = Some (k\<lparr>k_term := t\<rparr>)" and "term_ok t"
proof -
  obtain k' where k': "say said k = Some k'" "term_ok (k_term k')" "off_screen k' = off_screen k"
    using speaker.feed_ok [OF assms(1), of said] assms(2) by (auto simp: say_def said_ok_def)
  then show thesis using off_screenD [OF k'(3)] that by metis
qed

text \<open>The heap is not looked at when a file is opened.\<close>

lemma fat_fileOpen_heap: "fat_fileOpen fname filename (s\<lparr>fheap := h\<rparr>) = fat_fileOpen fname filename s"
proof -
  have "root_dir_sectors (s\<lparr>fheap := h\<rparr>) = root_dir_sectors s" by (simp add: root_dir_sectors_def Let_def)
  moreover have "root_dirs_start (s\<lparr>fheap := h\<rparr>) = root_dirs_start s" by (simp add: root_dirs_start_def fat_start_def)
  ultimately show ?thesis by (simp add: fat_fileOpen_def fat_findFile_def)
qed

lemma file_open_ok:
  assumes "fat_fileOpen (k_fname k) filename (k_fs k) = Some (f, said)" and "term_ok (k_term k)" and "said_ok said"
  obtains t where "file_open filename k = Some (f, k\<lparr>k_term := t\<rparr>)" and "say said k = Some (k\<lparr>k_term := t\<rparr>)" and "term_ok t"
  by (rule say_ok [OF assms(2,3)]) (use that assms(1) in \<open>auto simp: file_open_def\<close>)

end
