(* ===== verification/Elf.thy ===== *)
theory Elf
  imports Kernel
begin

text \<open>
  \<open>kernel/elf.c\<close>: the headers of an ELF file and the loader.  The program that is entered is
  the parameter \<open>run\<close> of \<open>elf64_load\<close>: what the call of the entry address does to the kernel
  state and what it returns.
\<close>

section \<open>Headers\<close>

record elf64_header_t =
  magic_number :: buffer
  machine :: byte
  endian :: byte
  header_version :: byte
  system :: byte
  e_unused :: qword
  e_type :: word16
  instruction_set :: word16
  version :: dword
  prog_entry_off :: qword
  prog_header_table_off :: qword
  sec_header_table_off :: qword
  e_flags :: dword
  header_size :: word16
  prog_header_size :: word16
  count_prog :: word16
  sec_header_size :: word16
  count_sec :: word16
  sec_index :: word16

definition elf64_header_of :: "buffer \<Rightarrow> elf64_header_t" where
  "elf64_header_of b =
     \<lparr>magic_number = take 4 b, machine = b ! 4, endian = b ! 5, header_version = b ! 6, system = b ! 7,
      e_unused = le64 b 8, e_type = le16 b 16, instruction_set = le16 b 18, version = le32 b 20,
      prog_entry_off = le64 b 24, prog_header_table_off = le64 b 32, sec_header_table_off = le64 b 40,
      e_flags = le32 b 48, header_size = le16 b 52, prog_header_size = le16 b 54, count_prog = le16 b 56,
      sec_header_size = le16 b 58, count_sec = le16 b 60, sec_index = le16 b 62\<rparr>"

record elf64_program_t =
  type_segment :: dword
  p_flags :: dword
  prog_off :: qword
  virt_addr :: qword
  phys_addr :: qword
  filesize :: qword
  memsize :: qword
  p_align :: qword

definition elf64_program_of :: "buffer \<Rightarrow> elf64_program_t" where
  "elf64_program_of b =
     \<lparr>type_segment = le32 b 0, p_flags = le32 b 4, prog_off = le64 b 8, virt_addr = le64 b 16,
      phys_addr = le64 b 24, filesize = le64 b 32, memsize = le64 b 40, p_align = le64 b 48\<rparr>"

abbreviation EPT_LOAD :: dword where "EPT_LOAD \<equiv> 1"

text \<open>\<open>programs\<close> is an array of 56-byte entries whatever \<open>prog_header_size\<close> is.\<close>

definition programs_of :: "buffer \<Rightarrow> nat \<Rightarrow> elf64_program_t list" where
  "programs_of b n = map (\<lambda>i. elf64_program_of (take 56 (drop (56 * i) b))) [0..<n]"

text \<open>A \<open>char\<close> argument of \<open>printf\<close>, extended to an \<open>int\<close>.\<close>

definition char_arg :: "byte \<Rightarrow> qword" where
  "char_arg c = ucast (scast c :: dword)"

section \<open>Reading the header\<close>

text \<open>
  The header is \<open>None\<close> when nothing has been read into the memory \<open>elf64_create\<close> returns.
\<close>

definition elf64_create :: "buffer \<Rightarrow> kernel \<Rightarrow> (qword \<times> buffer option \<times> kernel) option" where
  "elf64_create filename k = do {
     (hdr, k1) \<leftarrow> k_alloc 64 k;
     (temp, k2) \<leftarrow> k_alloc (ucast (fat_sizeSector (k_fs k1))) k1;
     (file, k2a) \<leftarrow> file_open filename k2;
     (b, k3) \<leftarrow>
       (if current_cluster file \<noteq> 0xFFFFFFFF
        then do {
          k' \<leftarrow> k_printf (\<lambda>p. Some filename) (''[Debug]: %s is found'' @ NL) [0] k2a;
          (file', b, fs') \<leftarrow> fat_read file (replicate 64 0) 64 (k_fs k');
          Some (Some b, k'\<lparr>k_fs := fs'\<rparr>) }
        else do {
          k' \<leftarrow> k_printf (\<lambda>p. Some filename) (''[Debug]: %s is \"NOT\" found'' @ NL) [0] k2a;
          Some (None, k') });
     k4 \<leftarrow> k_free temp k3;
     Some (hdr, b, k4) }"

definition elf64_verity :: "buffer \<Rightarrow> kernel \<Rightarrow> (byte \<times> kernel) option" where
  "elf64_verity b k = do {
     m \<leftarrow> buf_get b 0;
     bad \<leftarrow> (if m \<noteq> 0x7F then Some True else do { r \<leftarrow> strncmp (lit ''ELF'') (drop 1 b) 3; Some (r = 1) });
     if bad
     then do {
       k' \<leftarrow> k_printf (\<lambda>p. None) (''ELF: This is not ELF file because not following their ELF format'' @ NL) [] k;
       Some (1, k') }
     else do {
       k' \<leftarrow> k_printf (\<lambda>p. None) ''ELF Magic Number: %x'' [ucast (le32 b 0)] k;
       Some (0, k') } }"

definition elf64_showDetails :: "buffer \<Rightarrow> kernel \<Rightarrow> kernel option" where
  "elf64_showDetails b =
     (let hdr = elf64_header_of b in
      feed (\<lambda>(format, args). k_printf (\<lambda>p. None) format args)
       [(''ELF Magic Number: %x'' @ NL, [char_arg (b ! 0)]),
        (''ELF Magic Number Word: %c%c%c'' @ NL, [char_arg (b ! 1), char_arg (b ! 2), char_arg (b ! 3)]),
        (''ELF Machine: %x, ELF Endian'' @ NL, [ucast (machine hdr)]),
        (''ELF Header Version: %x'' @ NL, [ucast (machine hdr)]),
        (NL @ NL, []),
        (''Program Entry: %x'' @ NL, [prog_entry_off hdr]),
        (''Program Table Offset: %x'' @ NL, [prog_header_table_off hdr]),
        (''Number of Program Tables: %i'' @ NL, [ucast (count_prog hdr)]),
        (''Size of Program Table: %i'' @ NL @ NL, [ucast (prog_header_size hdr)]),
        (''Section Table Offset: %x'' @ NL, [sec_header_table_off hdr]),
        (''Number of Section Tables: %i'' @ NL, [ucast (count_sec hdr)]),
        (''Size of Section Table: %i'' @ NL @ NL, [ucast (sec_header_size hdr)])])"

section \<open>Segments\<close>

definition print_program :: "nat \<times> elf64_program_t \<Rightarrow> kernel \<Rightarrow> kernel option" where
  "print_program = (\<lambda>(i, prog) k.
     k_printf (\<lambda>p. None) (''%i: Virt=%x, Phys=%x, FileSize=%x, Align=%x'' @ NL)
       [of_nat i, virt_addr prog, phys_addr prog, filesize prog, p_align prog] k)"

definition mem_zero :: "qword \<Rightarrow> qword \<Rightarrow> kernel \<Rightarrow> kernel option" where
  "mem_zero a n k = mem_store a (replicate (unat n) 0) k"

definition load_segment :: "word16 \<Rightarrow> qword \<Rightarrow> elf64_program_t \<Rightarrow> kernel \<Rightarrow> kernel option" where
  "load_segment flags file prog k =
     (if type_segment prog \<noteq> EPT_LOAD then Some k
      else do {
        ps \<leftarrow> page_mapv (virt_addr prog) (memsize prog) flags (pages (k_heap k));
        k1 \<leftarrow> mem_zero (virt_addr prog) (memsize prog) (set_pages ps k);
        k2 \<leftarrow> file_seek file (prog_off prog) k1;
        sys_read file (virt_addr prog) (filesize prog) k2 })"

definition unload_segment :: "elf64_program_t \<Rightarrow> kernel \<Rightarrow> kernel option" where
  "unload_segment prog k =
     (if type_segment prog \<noteq> EPT_LOAD then Some k
      else do {
        ps \<leftarrow> page_umapv (virt_addr prog) (memsize prog) (pages (k_heap k));
        Some (set_pages ps k) })"

section \<open>Loading a program\<close>

definition load_flags :: word16 where "load_flags = 1 OR 2"
definition library_flags :: word16 where "library_flags = 1 OR 2 OR 4"

text \<open>
  The part of \<open>elf64_load\<close> behind the verification of the header: up to the call of the
  program, and after it.
\<close>

definition elf64_enter ::
  "qword \<Rightarrow> qword \<Rightarrow> elf64_header_t \<Rightarrow> kernel \<Rightarrow> (qword \<times> elf64_program_t list \<times> kernel) option" where
  "elf64_enter hdr_ptr file hdr k = do {
     let n = unat (count_prog hdr);
     (programs, k1) \<leftarrow> k_alloc (of_nat (56 * n)) k;
     k2 \<leftarrow> file_seek file (prog_header_table_off hdr) k1;
     (b, k3) \<leftarrow> file_read file (replicate (56 * n) 0) (of_nat (56 * n)) k2;
     let progs = programs_of b n;
     k4 \<leftarrow> feed print_program (zip [0..<n] progs) k3;
     k5 \<leftarrow> feed (load_segment load_flags file) progs k4;
     k6 \<leftarrow> k_printf (\<lambda>p. None) (''HDR Address: %x'' @ NL) [hdr_ptr] k5;
     Some (programs, progs, k6) }"

definition elf64_leave ::
  "qword \<Rightarrow> qword \<Rightarrow> qword \<Rightarrow> elf64_program_t list \<Rightarrow> kernel \<Rightarrow> (outcome \<times> kernel) option" where
  "elf64_leave hdr_ptr file programs progs k = do {
     k1 \<leftarrow> feed unload_segment progs k;
     k2 \<leftarrow> k_printf (\<lambda>p. None) (''[Debug elf64_load]: Deleting ELF64 Programs Lists'' @ NL) [] k1;
     k3 \<leftarrow> k_free programs k2;
     k4 \<leftarrow> k_printf (\<lambda>p. None) (''[Debug elf64_load]: Deleting ELF64 Header'' @ NL) [] k3;
     k5 \<leftarrow> k_free hdr_ptr k4;
     k6 \<leftarrow> k_printf (\<lambda>p. None) (''[Debug elf64_load]: Close file'' @ NL) [] k5;
     k7 \<leftarrow> sys_close file k6;
     k8 \<leftarrow> k_printf (\<lambda>p. None) (''[Debug elf64_load]: Clear done'' @ NL) [] k7;
     exit_task 0 0 k8 }"

definition elf64_load ::
  "(qword \<Rightarrow> kernel \<Rightarrow> (dword \<times> kernel) option) \<Rightarrow> buffer \<Rightarrow> kernel \<Rightarrow> (outcome \<times> kernel) option" where
  "elf64_load run filename k = do {
     (hdr_ptr, k1) \<leftarrow> k_alloc 64 k;
     (file, k2) \<leftarrow> sys_open filename k1;
     f \<leftarrow> k_files k2 file;
     if current_cluster f = 0xFFFFFFFF
     then do {
       k3 \<leftarrow> k_printf (\<lambda>p. Some filename) (''%s is \"NOT\" found'' @ NL) [0] k2;
       k4 \<leftarrow> sys_close file k3;
       exit_task 1 1 k4 }
     else do {
       k3 \<leftarrow> k_printf (\<lambda>p. Some filename) (''[Debug]: %s is found'' @ NL) [0] k2;
       (b, k4) \<leftarrow> file_read file (replicate 64 0) 64 k3;
       k5 \<leftarrow> k_printf (\<lambda>p. None) (''Hel'' @ NL) [] k4;
       bad \<leftarrow> (if b ! 0 \<noteq> 0x7F then Some True else do { r \<leftarrow> strncmp (lit ''ELF'') (drop 1 b) 3; Some (r = 1) });
       if bad
       then do {
         k6 \<leftarrow> k_printf (\<lambda>p. None) (''ELF Wrong Format: (Magic Number) %x '' @ [CHR 0x27] @ ''%c%c%c'' @ [CHR 0x27] @ NL)
                 [char_arg (b ! 0), char_arg (b ! 1), char_arg (b ! 2), char_arg (b ! 3)] k5;
         k7 \<leftarrow> k_printf (\<lambda>p. None) (''ELF: This is not ELF file because not following their ELF format'' @ NL) [] k6;
         k8 \<leftarrow> k_free hdr_ptr k7;
         k9 \<leftarrow> sys_close file k8;
         exit_task 2 2 k9 }
       else do {
         let hdr = elf64_header_of b;
         (programs, progs, k6) \<leftarrow> elf64_enter hdr_ptr file hdr k5;
         (value, k7) \<leftarrow> run (prog_entry_off hdr) k6;
         elf64_leave hdr_ptr file programs progs k7 } } }"

text \<open>
  \<open>elf64_loadLibrary\<close> returns \<open>NULL\<close> or the open file.  The size of its table is a product of
  \<open>int\<close>s, and the entries are 56 bytes apart.
\<close>

definition elf64_loadLibrary :: "buffer \<Rightarrow> kernel \<Rightarrow> (qword \<times> kernel) option" where
  "elf64_loadLibrary filename k = do {
     (hdr_ptr, k1) \<leftarrow> k_alloc 64 k;
     (fptr, k2) \<leftarrow> sys_open filename k1;
     f \<leftarrow> k_files k2 fptr;
     if current_cluster f = 0xFFFFFFFF
     then do {
       k3 \<leftarrow> k_printf (\<lambda>p. Some filename) (''[Error Load Library]: %s is not found'' @ NL) [0] k2;
       k4 \<leftarrow> sys_close fptr k3;
       k5 \<leftarrow> k_free hdr_ptr k4;
       Some (0, k5) }
     else do {
       (b, k3) \<leftarrow> file_read fptr (replicate 64 0) 64 k2;
       bad \<leftarrow> (if b ! 0 \<noteq> 0x7F then Some True else do { r \<leftarrow> strncmp (drop 1 b) (lit ''ELF'') 3; Some (r \<noteq> 0) });
       if bad
       then do {
         k4 \<leftarrow> k_printf (\<lambda>p. Some filename) (''[Error Load Library]: %s is not ELF file'' @ NL) [0] k3;
         k5 \<leftarrow> sys_close fptr k4;
         k6 \<leftarrow> k_free hdr_ptr k5;
         Some (0, k6) }
       else do {
         let hdr = elf64_header_of b;
         let n = unat (count_prog hdr);
         let sz = unat (prog_header_size hdr) * n;
         (programs, k4) \<leftarrow> (if sz < 2 ^ 31 then k_alloc (of_nat sz) k3 else None);
         k5 \<leftarrow> file_seek fptr (prog_header_table_off hdr) k4;
         (pb, k6) \<leftarrow> file_read fptr (replicate sz 0) (of_nat sz) k5;
         if sz < 56 * n then None
         else do {
           k7 \<leftarrow> feed (load_segment library_flags fptr) (programs_of pb n) k6;
           k8 \<leftarrow> k_free programs k7;
           k9 \<leftarrow> k_free hdr_ptr k8;
           Some (fptr, k9) } } } }"

end
