(* ===== verification/Elf_Props.thy ===== *)
theory Elf_Props
  imports Elf Kernel_Props
begin

text \<open>
  Loading a program from a file in one cluster: reading and seeking in it, a segment in
  memory, all segments, and the loader up to the entry of the program.
\<close>

section \<open>An open file\<close>

text \<open>
  \<open>data\<close> is the content of the cluster the file pointer \<open>fp\<close> stands in; the heap is in the
  state \<open>ss\<close>, from which the buffers of \<open>fat_seek\<close> and \<open>fat_read\<close> can be split, and there are
  page frames for \<open>g\<close> more pages.
\<close>

definition reader :: "seg list \<Rightarrow> nat \<Rightarrow> qword \<Rightarrow> buffer \<Rightarrow> kernel \<Rightarrow> bool" where
  "reader ss g fp data k \<longleftrightarrow> plain_fat (k_fs k) \<and> heap_rep (k_heap k) ss \<and> heap_room (Suc g) (k_heap k)
     \<and> scratch ss 512 \<and> scratch ss (512 * spc (k_fs k)) \<and> term_ok (k_term k)
     \<and> (\<exists>ds f. data_start (k_fs k) = Some ds \<and> k_files k fp = Some f \<and> data = cluster_data (k_fs k) ds (cluster f))"

definition position :: "qword \<Rightarrow> kernel \<Rightarrow> nat" where
  "position fp k = (case k_files k fp of None \<Rightarrow> 0 | Some f \<Rightarrow> unat (offset f))"

text \<open>
  What stays: all but the memory of programs, the terminal, the inside of the heap and the
  file at \<open>fp\<close>; and in \<open>same_user\<close> the memory of programs and its pages, too.
\<close>

definition but_heap :: "fs \<Rightarrow> fs" where
  "but_heap s = s\<lparr>fheap := undefined\<rparr>"

lemma but_heap_upd [simp]: "but_heap (s\<lparr>fheap := h\<rparr>) = but_heap s"
  by (simp add: but_heap_def)

definition same_sys :: "qword \<Rightarrow> kernel \<Rightarrow> kernel \<Rightarrow> bool" where
  "same_sys fp k k' \<longleftrightarrow> heap_start (k_heap k') = heap_start (k_heap k) \<and> but_heap (k_fs k') = but_heap (k_fs k)
     \<and> (\<forall>x. x \<noteq> fp \<longrightarrow> k_files k' x = k_files k x) \<and> k_tasks k' = k_tasks k \<and> k_fname k' = k_fname k \<and> k_regs k' = k_regs k"

lemma same_sys_refl [simp]: "same_sys fp k k"
  by (simp add: same_sys_def)

lemma same_sys_trans: "same_sys fp k k1 \<Longrightarrow> same_sys fp k1 k2 \<Longrightarrow> same_sys fp k k2"
  by (auto simp: same_sys_def)

lemma same_sys_upd [simp]:
  "same_sys fp k (k'\<lparr>k_mem := m\<rparr>) \<longleftrightarrow> same_sys fp k k'" "same_sys fp k (k'\<lparr>k_term := t\<rparr>) \<longleftrightarrow> same_sys fp k k'"
  "same_sys fp k (set_pages ps k') \<longleftrightarrow> same_sys fp k k'"
  by (auto simp: same_sys_def)

definition same_user :: "qword \<Rightarrow> kernel \<Rightarrow> kernel \<Rightarrow> bool" where
  "same_user fp k k' \<longleftrightarrow> k_mem k' = k_mem k \<and> pages (k_heap k') = pages (k_heap k) \<and> k_term k' = k_term k
     \<and> same_sys fp k k'"

lemma fheap_upd_simps [simp]:
  "plain_fat (s\<lparr>fheap := h\<rparr>) \<longleftrightarrow> plain_fat s" "data_start (s\<lparr>fheap := h\<rparr>) = data_start s" "spc (s\<lparr>fheap := h\<rparr>) = spc s"
  "cluster_data (s\<lparr>fheap := h\<rparr>) ds c = cluster_data s ds c" "fat_sizeSector (s\<lparr>fheap := h\<rparr>) = fat_sizeSector s"
  by (simp_all add: plain_fat_def data_start_def root_dirs_start_def root_dir_sectors_def fat_start_def spc_def
      cluster_data_def cluster_lba_def fat_sizeSector_def Let_def)

lemma reader_size: "reader ss g fp data k \<Longrightarrow> length data = 512 * spc (k_fs k) \<and> length data \<le> 65536"
  by (auto simp: reader_def plain_fat_def)

lemma file_seek_near:
  assumes r: "reader ss g fp data k" and pos: "unat pos < length data"
  shows "\<exists>k'. file_seek fp pos k = Some k' \<and> reader ss g fp data k' \<and> position fp k' = unat pos \<and> same_user fp k k'"
proof -
  obtain ds f where f: "data_start (k_fs k) = Some ds" "k_files k fp = Some f" "data = cluster_data (k_fs k) ds (cluster f)"
    and fat: "plain_fat (k_fs k)" and rep: "heap_rep (k_heap k) ss" "heap_room (Suc g) (k_heap k)" and sc: "scratch ss 512"
    using r by (auto simp: reader_def)
  obtain p h1 h2 where h: "new_alloc 512 (k_heap k) = Some (p, h1)" "free_alloc p h1 = Some h2" "heap_rep h2 ss"
    "heap_room (Suc g) h2" "pages h2 = pages (k_heap k)" "heap_start h2 = heap_start (k_heap k)"
    using scratch_use [OF rep, of 512] sc by auto
  have seek: "fat_seek f pos (k_fs k) = Some (False, f\<lparr>offset := of_nat (unat pos)\<rparr>, (k_fs k)\<lparr>fheap := h2\<rparr>)"
    by (rule fat_seek_near [OF fat _ h(1,2)]) (use pos reader_size [OF r] in simp)
  have "unat (of_nat (unat pos) :: word16) = unat pos"
    using pos reader_size [OF r] by (simp only: unsigned_of_nat) (simp add: take_bit_nat_eq_self)
  then show ?thesis
    using f(2) seek r f h by (auto simp: file_seek_def reader_def position_def same_user_def same_sys_def)
qed

lemma file_read_near:
  assumes r: "reader ss g fp data k" and near: "position fp k + unat sz \<le> length data" and buf: "unat sz \<le> length buf"
  shows "\<exists>k'. file_read fp buf sz k = Some (take (unat sz) (drop (position fp k) data) @ drop (unat sz) buf, k')
    \<and> reader ss g fp data k' \<and> same_user fp k k'"
proof -
  obtain ds f where f: "data_start (k_fs k) = Some ds" "k_files k fp = Some f" "data = cluster_data (k_fs k) ds (cluster f)"
    and fat: "plain_fat (k_fs k)" and rep: "heap_rep (k_heap k) ss" "heap_room (Suc g) (k_heap k)"
    and sc: "scratch ss (512 * spc (k_fs k))"
    using r by (auto simp: reader_def)
  have pos: "position fp k = unat (offset f)" using f(2) by (simp add: position_def)
  obtain p h1 h2 where h: "new_alloc (ucast (fat_sizeSector (k_fs k))) (k_heap k) = Some (p, h1)" "free_alloc p h1 = Some h2"
    "heap_rep h2 ss" "heap_room (Suc g) h2" "pages h2 = pages (k_heap k)" "heap_start h2 = heap_start (k_heap k)"
    using scratch_use [OF rep, of "ucast (fat_sizeSector (k_fs k))"] sc size_sector(2) [OF fat] by auto
  have read: "fat_read f buf sz (k_fs k) = Some (f\<lparr>offset := offset f + of_nat (unat sz)\<rparr>,
      take (unat sz) (drop (unat (offset f)) data) @ drop (unat sz) buf, (k_fs k)\<lparr>fheap := h2\<rparr>)"
    unfolding f(3) by (rule fat_read_near [OF fat f(1) h(1,2) _ buf]) (use near pos reader_size [OF r] in simp)
  show ?thesis
    using f(2) read r f h pos by (auto simp: file_read_def reader_def same_user_def same_sys_def)
qed

section \<open>Segments\<close>

text \<open>A segment in the cluster, in memory it can be given.\<close>

definition segment_ok :: "buffer \<Rightarrow> elf64_program_t \<Rightarrow> bool" where
  "segment_ok data p \<longleftrightarrow> unat (prog_off p) < length data \<and> unat (prog_off p) + unat (filesize p) \<le> length data
     \<and> unat (filesize p) \<le> unat (memsize p) \<and> unat (virt_addr p) + unat (memsize p) < 2 ^ 64
     \<and> unat (virt_addr p) mod 4096 + unat (memsize p) \<le> 4096 * page_count (memsize p)"

text \<open>The pages of the segment are not mapped, or present; none is the window.\<close>

definition range_ok :: "pstate \<Rightarrow> elf64_program_t \<Rightarrow> bool" where
  "range_ok s p \<longleftrightarrow> (\<forall>j < page_count (memsize p). vp (virt_addr p) j \<noteq> window_page
     \<and> (vmap s (vp (virt_addr p) j) = 0 \<or> vmap s (vp (virt_addr p) j) AND PAGE_PRESENT \<noteq> 0))"

definition segment_bytes :: "buffer \<Rightarrow> elf64_program_t \<Rightarrow> buffer" where
  "segment_bytes data p = take (unat (filesize p)) (drop (unat (prog_off p)) data)
     @ replicate (unat (memsize p) - unat (filesize p)) 0"

text \<open>More pages are mapped, and present.\<close>

definition more_pages :: "pstate \<Rightarrow> pstate \<Rightarrow> bool" where
  "more_pages s s' \<longleftrightarrow> (\<forall>v. vmap s' v = vmap s v \<or> (vmap s v = 0 \<and> vmap s' v AND PAGE_PRESENT \<noteq> 0))"

lemma more_pages_refl [simp]: "more_pages s s"
  by (simp add: more_pages_def)

lemma more_pages_trans: "more_pages s t \<Longrightarrow> more_pages t u \<Longrightarrow> more_pages s u"
  unfolding more_pages_def by metis

lemma more_pages_range: "more_pages s s' \<Longrightarrow> range_ok s p \<Longrightarrow> range_ok s' p"
  unfolding more_pages_def range_ok_def by metis

lemma present_or: "ok_flags flags \<Longrightarrow> (a OR ucast flags :: qword) AND PAGE_PRESENT \<noteq> 0"
  unfolding and_one_bit_ne by (simp add: ok_flags_def bit_simps)

definition seg_pages :: "elf64_program_t \<Rightarrow> (pt_index \<times> pt_index \<times> pt_index \<times> pt_index) set" where
  "seg_pages p = vp (virt_addr p) ` {..<page_count (memsize p)}"

text \<open>Each page of \<open>V\<close> is mapped to a data frame of its own.\<close>

definition own_frames :: "(pt_index \<times> pt_index \<times> pt_index \<times> pt_index) set \<Rightarrow> pstate \<Rightarrow> bool" where
  "own_frames V s \<longleftrightarrow> (\<exists>fr. inj_on fr V
     \<and> (\<forall>v \<in> V. vmap s v AND NOT 0x1FF = frame_of (fr v) \<and> 7 \<le> fr v \<and> data_frame s (fr v)))"

lemma own_frames_empty [simp]: "own_frames {} s"
  by (simp add: own_frames_def)

text \<open>New pages with new frames.\<close>

lemma own_frames_extend:
  assumes "own_frames V s" and "keeps s s'" and "\<forall>v \<in> V. vmap s' v = vmap s v" and "\<forall>k < n. 7 \<le> fr k \<and> \<not> used_no (bitmap s) (fr k)"
    and "\<forall>k < n. vmap s' (w k) AND NOT 0x1FF = frame_of (fr k) \<and> data_frame s' (fr k)"
    and "inj_on fr {..<n}" and "inj_on w {..<n}" and "V \<inter> w ` {..<n} = {}"
  shows "own_frames (V \<union> w ` {..<n}) s'"
proof -
  obtain f where f: "inj_on f V" "\<forall>v \<in> V. vmap s v AND NOT 0x1FF = frame_of (f v) \<and> 7 \<le> f v \<and> data_frame s (f v)"
    using assms(1) by (auto simp: own_frames_def)
  define g where "g v = (if v \<in> V then f v else fr (the_inv_into {..<n} w v))" for v
  have new: "g (w k) = fr k" if "k < n" for k
    using that assms(8) the_inv_into_f_f [OF assms(7), of k] by (auto simp: g_def)
  have g: "\<forall>v \<in> V. g v = f v" by (simp add: g_def)
  have old: "\<forall>v \<in> V. used_no (bitmap s) (f v) \<and> data_frame s' (f v)"
    using f(2) assms(2) by (auto simp: data_frame_def keeps_def)
  have "inj_on g (V \<union> w ` {..<n})"
  proof (rule inj_onI)
    fix x y
    assume xy: "x \<in> V \<union> w ` {..<n}" "y \<in> V \<union> w ` {..<n}" "g x = g y"
    have "x \<in> V \<longleftrightarrow> y \<in> V" using xy old assms(4) new by (metis (no_types, lifting) UnE imageE lessThan_iff g)
    then consider "x \<in> V" "y \<in> V" | i j where "x = w i" "y = w j" "i < n" "j < n" using xy(1,2) by auto
    then show "x = y"
    proof cases
      case 1
      then show ?thesis using xy(3) inj_onD [OF f(1)] g by simp
    next
      case 2
      then have "fr i = fr j" using xy(3) new [of i] new [of j] by simp
      then show ?thesis using inj_onD [OF assms(6), of i j] 2 by simp
    qed
  qed
  moreover have "vmap s' v AND NOT 0x1FF = frame_of (g v) \<and> 7 \<le> g v \<and> data_frame s' (g v)"
    if "v \<in> V \<union> w ` {..<n}" for v
    using that f(2) old new g assms(3,4,5) by auto
  ultimately show ?thesis unfolding own_frames_def by blast
qed

lemma vp_inj: "n \<le> 0x80000 \<Longrightarrow> inj_on (vp virt) {..<n}"
  using vp_inject [of _ _ virt] by (auto simp: inj_on_def)

definition all_pages :: "elf64_program_t list \<Rightarrow> (pt_index \<times> pt_index \<times> pt_index \<times> pt_index) set" where
  "all_pages progs = (\<Union>p \<in> {p \<in> set progs. type_segment p = EPT_LOAD}. seg_pages p)"

lemma all_pages_simps [simp]:
  "all_pages [] = {}" "all_pages (p # ps) = (if type_segment p = EPT_LOAD then seg_pages p \<union> all_pages ps else all_pages ps)"
  by (auto simp: all_pages_def)

text \<open>No two segments share a page, nor one with \<open>V\<close>.\<close>

primrec separate :: "(pt_index \<times> pt_index \<times> pt_index \<times> pt_index) set \<Rightarrow> elf64_program_t list \<Rightarrow> bool" where
  "separate V [] \<longleftrightarrow> True"
| "separate V (p # ps) \<longleftrightarrow> (if type_segment p = EPT_LOAD
     then V \<inter> seg_pages p = {} \<and> separate (V \<union> seg_pages p) ps else separate V ps)"

lemma separate_disjoint: "separate V ps \<Longrightarrow> V \<inter> all_pages ps = {}"
  by (induction ps arbitrary: V) (fastforce split: if_splits)+

text \<open>What loading segments does to the map.\<close>

definition adds :: "elf64_program_t list \<Rightarrow> pstate \<Rightarrow> pstate \<Rightarrow> bool" where
  "adds ps s s' \<longleftrightarrow> more_pages s s' \<and> (\<forall>v. v \<notin> all_pages ps \<longrightarrow> vmap s' v = vmap s v)
     \<and> (\<forall>V. own_frames V s \<longrightarrow> separate V ps \<longrightarrow> (\<forall>v \<in> all_pages ps. vmap s v = 0) \<longrightarrow> own_frames (V \<union> all_pages ps) s')"

lemma addsD: "adds ps s s' \<Longrightarrow> more_pages s s'"
  by (simp add: adds_def)

lemma adds_refl: "all_pages ps = {} \<Longrightarrow> adds ps s s"
  by (simp add: adds_def)

lemma adds_skip: "type_segment p \<noteq> EPT_LOAD \<Longrightarrow> adds (p # ps) = adds ps"
  by (simp add: adds_def fun_eq_iff)

lemma adds_trans:
  assumes "adds [p] s t" and "adds ps t u" and "type_segment p = EPT_LOAD"
  shows "adds (p # ps) s u"
  unfolding adds_def
proof (intro conjI allI impI)
  show "more_pages s u" using assms(1,2) more_pages_trans by (auto simp: adds_def)
  show "vmap u v = vmap s v" if "v \<notin> all_pages (p # ps)" for v
    using assms that by (simp add: adds_def del: split_paired_All)
  fix V
  assume V: "own_frames V s" "separate V (p # ps)" "\<forall>v \<in> all_pages (p # ps). vmap s v = 0"
  have "own_frames (V \<union> seg_pages p) t" using assms(1,3) V by (simp add: adds_def)
  moreover have "separate (V \<union> seg_pages p) ps" using V(2) assms(3) by simp
  moreover from separate_disjoint [OF this] have "\<forall>v \<in> all_pages ps. vmap t v = 0"
    using assms(1,3) V(3) by (auto simp: adds_def simp del: split_paired_All)
  ultimately have "own_frames ((V \<union> seg_pages p) \<union> all_pages ps) u" using assms(2) by (simp add: adds_def)
  then show "own_frames (V \<union> all_pages (p # ps)) u" using assms(3) by (simp add: Un_assoc)
qed

lemma map_segment:
  assumes inv: "page_inv s" and fl: "ok_flags flags" and free: "4 * page_count (memsize p) \<le> free_count s"
    and range: "range_ok s p" and load: "type_segment p = EPT_LOAD"
  shows "\<exists>s'. page_mapv (virt_addr p) (memsize p) flags s = Some s' \<and> page_inv s' \<and> adds [p] s s'
    \<and> free_count s \<le> free_count s' + 4 * page_count (memsize p)
    \<and> (\<forall>j < page_count (memsize p). vmap s' (vp (virt_addr p) j) AND PAGE_PRESENT \<noteq> 0)"
proof -
  let ?n = "page_count (memsize p)" and ?vp = "vp (virt_addr p)"
  have n: "?n \<le> 0x80000" using free free_count_le [of s] by simp
  moreover have "\<forall>j < ?n. ?vp j \<noteq> window_page" using range by (simp add: range_ok_def)
  ultimately obtain fr s' where s': "page_mapv (virt_addr p) (memsize p) flags s = Some s'" "page_inv s'"
    "free_count s \<le> free_count s' + 4 * ?n"
    "\<forall>j < ?n. vmap s' (?vp j) = (if vmap s (?vp j) = 0 then frame_of (fr j) OR ucast flags else vmap s (?vp j))"
    "\<forall>v. (\<forall>j < ?n. v \<noteq> ?vp j) \<longrightarrow> vmap s' v = vmap s v"
    "keeps s s'" "\<forall>j < ?n. \<not> used_no (bitmap s) (fr j) \<and> data_frame s' (fr j)" "inj_on fr {..<?n}"
    using mapv_loop [OF inv fl free, of "virt_addr p"] unfolding page_mapv_def by blast
  have same: "vmap s' v = vmap s v" if "v \<notin> seg_pages p" for v
    using s'(5) [rule_format, of v] that by (auto simp: seg_pages_def)
  have "7 \<le> fr j" if "j < ?n" for j
    using s'(7) page_inv_reserved [OF inv] that by (meson not_le)
  have own: "own_frames (V \<union> seg_pages p) s'"
    if "own_frames V s" "V \<inter> seg_pages p = {}" "\<forall>v \<in> seg_pages p. vmap s v = 0" for V
  proof -
    have "\<forall>v \<in> V. vmap s' v = vmap s v" using that(2) same by blast
    then show ?thesis
      unfolding seg_pages_def
      by (intro own_frames_extend [where fr = fr and s = s] that(1) s'(6,8) vp_inj n)
        (use that(2,3) \<open>\<And>j. j < ?n \<Longrightarrow> 7 \<le> fr j\<close> s'(4,7) frame_entry_base [OF _ fl] in \<open>auto simp: seg_pages_def data_frame_def\<close>)
  qed
  have "more_pages s s'"
    unfolding more_pages_def
  proof
    fix v
    show "vmap s' v = vmap s v \<or> (vmap s v = 0 \<and> vmap s' v AND PAGE_PRESENT \<noteq> 0)"
      using s'(4,5) present_or [OF fl] by metis
  qed
  with own same have "adds [p] s s'" using load by (simp add: adds_def)
  moreover have "\<forall>j < ?n. vmap s' (?vp j) AND PAGE_PRESENT \<noteq> 0"
    using s'(4) range present_or [OF fl] unfolding range_ok_def by metis
  ultimately show ?thesis using s'(1-3) by blast
qed

text \<open>The heap does not mind pages that are mapped for others.\<close>

lemma heap_rep_more:
  assumes "heap_rep h ss" and "more_pages (pages h) ps" and "page_inv ps"
  shows "heap_rep (h\<lparr>pages := ps\<rparr>) ss"
proof -
  have "vmap ps v \<noteq> 0" if "vmap (pages h) v \<noteq> 0" for v using assms(2) that unfolding more_pages_def by metis
  then show ?thesis using assms(1,3) by (auto simp: heap_rep_def pages_ok_def)
qed

lemma segment_mapped:
  assumes "segment_ok data p" and "\<forall>j < page_count (memsize p). vmap (pages (k_heap k)) (vp (virt_addr p) j) AND PAGE_PRESENT \<noteq> 0"
    and "n \<le> unat (memsize p)"
  shows "all_mapped k (virt_addr p) n"
  unfolding all_mapped_iff
proof (intro allI impI)
  fix i
  assume i: "i < n"
  let ?j = "(unat (virt_addr p) mod 4096 + i) div 4096"
  have "unat (virt_addr p) + i < 2 ^ 64" "unat (virt_addr p) mod 4096 + i < 4096 * page_count (memsize p)"
    using assms(1,3) i by (simp_all add: segment_ok_def)
  then have "vpage (virt_addr p + of_nat i) = vp (virt_addr p) ?j" "?j < page_count (memsize p)"
    by (simp_all add: vpage_byte less_mult_imp_div_less mult.commute)
  then show "mapped k (virt_addr p + of_nat i)" using assms(2) by (simp add: mapped_def)
qed


lemma load_segment_ok:
  assumes r: "reader ss (g + page_count (memsize p)) fp data k" and fl: "ok_flags flags" and load: "type_segment p = EPT_LOAD"
    and seg: "segment_ok data p" and range: "range_ok (pages (k_heap k)) p"
  shows "\<exists>k'. load_segment flags fp p k = Some k' \<and> reader ss g fp data k'
    \<and> k_mem k' = place (virt_addr p) (segment_bytes data p) (k_mem k)
    \<and> all_mapped k' (virt_addr p) (unat (memsize p)) \<and> adds [p] (pages (k_heap k)) (pages (k_heap k'))
    \<and> same_sys fp k k'"
proof -
  let ?n = "page_count (memsize p)" and ?v = "virt_addr p" and ?f = "unat (filesize p)" and ?m = "unat (memsize p)"
  have rep: "heap_rep (k_heap k) ss" and room: "heap_room (Suc (g + ?n)) (k_heap k)"
    using r by (simp_all add: reader_def)
  have "page_inv (pages (k_heap k))" "4 * ?n \<le> free_count (pages (k_heap k))"
    using rep room by (simp_all add: heap_rep_def pages_ok_def heap_room_def)
  from map_segment [OF this(1) fl this(2) range load]
  obtain ps where ps: "page_mapv ?v (memsize p) flags (pages (k_heap k)) = Some ps" "page_inv ps"
    "adds [p] (pages (k_heap k)) ps" "free_count (pages (k_heap k)) \<le> free_count ps + 4 * ?n"
    "\<forall>j < ?n. vmap ps (vp ?v j) AND PAGE_PRESENT \<noteq> 0"
    by blast
  let ?k0 = "set_pages ps k"
  let ?k1 = "?k0\<lparr>k_mem := place ?v (replicate ?m 0) (k_mem ?k0)\<rparr>"
  have map0: "all_mapped ?k0 ?v i" if "i \<le> ?m" for i
    by (rule segment_mapped [OF seg _ that]) (use ps(5) in simp)
  have zero: "mem_zero ?v (memsize p) ?k0 = Some ?k1"
    unfolding mem_zero_def by (subst mem_store_ok) (simp_all add: map0)
  have r1: "reader ss g fp data ?k1"
    using r room ps(4) heap_rep_more [OF rep addsD [OF ps(3)] ps(2)] by (auto simp: reader_def heap_room_def)
  obtain k2 where k2: "file_seek fp (prog_off p) ?k1 = Some k2" "reader ss g fp data k2" "position fp k2 = unat (prog_off p)"
    "same_user fp ?k1 k2"
    using file_seek_near [OF r1, of "prog_off p"] seg by (auto simp: segment_ok_def)
  have mapped: "all_mapped c ?v i" if "pages (k_heap c) = ps" "i \<le> ?m" for c i
    using map0 [OF that(2)] mapped_cong [of c ?k0] that(1) by (simp add: all_mapped_iff)
  have k2m: "k_mem k2 = place ?v (replicate ?m 0) (k_mem k)" "pages (k_heap k2) = ps" "same_sys fp k k2"
    using k2(4) same_sys_trans [of fp k ?k1 k2] by (simp_all add: same_user_def)
  have fm: "?f \<le> ?m" "unat (prog_off p) + ?f \<le> length data" using seg by (simp_all add: segment_ok_def)
  let ?buf = "map (\<lambda>i. k_mem k2 (?v + of_nat i)) [0..<?f]"
  obtain k3 where k3: "file_read fp ?buf (filesize p) k2 = Some (take ?f (drop (unat (prog_off p)) data) @ drop ?f ?buf, k3)"
    "reader ss g fp data k3" "same_user fp k2 k3"
    using file_read_near [OF k2(2), of "filesize p" ?buf] fm(2) k2(3) by auto
  let ?b = "take ?f (drop (unat (prog_off p)) data)"
  have k3m: "k_mem k3 = place ?v (replicate ?m 0) (k_mem k)" "pages (k_heap k3) = ps" "same_sys fp k k3"
    using k3(3) k2m same_sys_trans [of fp k k2 k3] by (simp_all add: same_user_def)
  have lb: "length ?b = ?f" using fm(2) by simp
  let ?k' = "k3\<lparr>k_mem := place ?v ?b (k_mem k3)\<rparr>"
  have "sys_read fp ?v (filesize p) k2 = Some ?k'"
    using mapped [OF k2m(2) fm(1)] mapped [OF k3m(2) fm(1)] k3(1) lb
    by (simp add: sys_read_def mem_load_def mem_store_ok)
  then have "load_segment flags fp p k = Some ?k'"
    using load ps(1) zero k2(1) by (simp add: load_segment_def)
  moreover have "reader ss g fp data ?k'" using k3(2) by (simp add: reader_def)
  moreover have "k_mem ?k' = place ?v (segment_bytes data p) (k_mem k)"
    using lb fm(1) by (simp add: k3m(1) place_place segment_bytes_def)
  moreover have "all_mapped ?k' ?v ?m" by (rule mapped) (simp_all add: k3m(2))
  ultimately show ?thesis using ps(3) k3m(2,3) by auto
qed

section \<open>All segments\<close>

definition pages_needed :: "elf64_program_t list \<Rightarrow> nat" where
  "pages_needed progs = sum_list (map (\<lambda>p. if type_segment p = EPT_LOAD then page_count (memsize p) else 0) progs)"

text \<open>The memory image: each loadable segment over the ones before it.\<close>

definition memory_image :: "buffer \<Rightarrow> elf64_program_t list \<Rightarrow> (qword \<Rightarrow> byte) \<Rightarrow> qword \<Rightarrow> byte" where
  "memory_image data progs m =
     fold (\<lambda>p m. if type_segment p = EPT_LOAD then place (virt_addr p) (segment_bytes data p) m else m) progs m"

definition loadable :: "buffer \<Rightarrow> pstate \<Rightarrow> elf64_program_t list \<Rightarrow> bool" where
  "loadable data s progs \<longleftrightarrow> (\<forall>p \<in> set progs. type_segment p = EPT_LOAD \<longrightarrow> segment_ok data p \<and> range_ok s p)"

lemma more_pages_mapped: "more_pages (pages (k_heap k)) (pages (k_heap k')) \<Longrightarrow> all_mapped k a n \<Longrightarrow> all_mapped k' a n"
  unfolding all_mapped_iff mapped_def more_pages_def by metis

lemma load_segments_ok:
  assumes "reader ss (g + pages_needed progs) fp data k" and fl: "ok_flags flags" and "loadable data (pages (k_heap k)) progs"
  shows "\<exists>k'. feed (load_segment flags fp) progs k = Some k' \<and> reader ss g fp data k' \<and> k_mem k' = memory_image data progs (k_mem k)
    \<and> (\<forall>p \<in> set progs. type_segment p = EPT_LOAD \<longrightarrow> all_mapped k' (virt_addr p) (unat (memsize p)))
    \<and> adds progs (pages (k_heap k)) (pages (k_heap k')) \<and> same_sys fp k k'"
  using assms(1,3)
proof (induction progs arbitrary: k)
  case (Cons p progs)
  show ?case
  proof (cases "type_segment p = EPT_LOAD")
    case True
    have "reader ss ((g + pages_needed progs) + page_count (memsize p)) fp data k"
      using Cons.prems(1) True by (simp add: pages_needed_def add_ac)
    from load_segment_ok [OF this fl True] obtain k1 where k1: "load_segment flags fp p k = Some k1"
      "reader ss (g + pages_needed progs) fp data k1" "k_mem k1 = place (virt_addr p) (segment_bytes data p) (k_mem k)"
      "all_mapped k1 (virt_addr p) (unat (memsize p))" "adds [p] (pages (k_heap k)) (pages (k_heap k1))"
      "same_sys fp k k1"
      using Cons.prems(2) True by (auto simp: loadable_def)
    have "loadable data (pages (k_heap k1)) progs"
      using Cons.prems(2) more_pages_range [OF addsD [OF k1(5)]] by (auto simp: loadable_def)
    from Cons.IH [OF k1(2) this] obtain k2 where k2: "feed (load_segment flags fp) progs k1 = Some k2"
      "reader ss g fp data k2" "k_mem k2 = memory_image data progs (k_mem k1)"
      "\<forall>p \<in> set progs. type_segment p = EPT_LOAD \<longrightarrow> all_mapped k2 (virt_addr p) (unat (memsize p))"
      "adds progs (pages (k_heap k1)) (pages (k_heap k2))" "same_sys fp k1 k2"
      by blast
    show ?thesis
      using k1 k2 True more_pages_mapped [OF addsD [OF k2(5)] k1(4)] adds_trans [OF k1(5) k2(5) True] same_sys_trans [OF k1(6) k2(6)]
      by (intro exI [of _ k2]) (simp add: memory_image_def)
  next
    case False
    then show ?thesis
      using Cons.IH [of k] Cons.prems by (auto simp: load_segment_def memory_image_def pages_needed_def loadable_def adds_skip)
  qed
qed (simp add: memory_image_def pages_needed_def adds_refl)


section \<open>The heap of the loader\<close>

text \<open>No segment but the last has room for a file object.\<close>

definition packed :: "seg list \<Rightarrow> bool" where
  "packed used \<longleftrightarrow> (\<forall>s \<in> set used. \<not> fits 31 s)"

lemma packed_fits: "packed used \<Longrightarrow> 31 \<le> m \<Longrightarrow> \<forall>s \<in> set used. \<not> fits m s"
  by (auto simp: packed_def fits_def)

lemma packed_snoc: "packed (used @ [(m, False)]) \<longleftrightarrow> packed used"
  by (simp add: packed_def fits_def)

lemma scratch_tail: "packed used \<Longrightarrow> 14 \<le> sz \<Longrightarrow> 2 * (sz + 17) \<le> n \<Longrightarrow> sz + 17 \<le> 0x10000000 \<Longrightarrow> scratch (used @ [(n, True)]) sz"
  unfolding scratch_def using packed_fits [of used "sz + 17"] by (intro conjI exI [of _ used] exI [of _ n] exI [of _ "[]"]) simp_all

definition heap_tail :: "seg list \<Rightarrow> nat \<Rightarrow> nat \<Rightarrow> heap \<Rightarrow> bool" where
  "heap_tail used n g h \<longleftrightarrow> packed used \<and> heap_rep h (used @ [(n, True)]) \<and> heap_room (Suc g) h"

lemma alloc_tail:
  assumes "heap_tail used n g (k_heap k)" and "14 \<le> unat sz" and "2 * (unat sz + 17) \<le> n"
  shows "\<exists>h. k_alloc sz k = Some (heap_start (k_heap k) + of_nat (segsum used + 17), set_heap h k)
    \<and> heap_tail (used @ [(unat sz + 17, False)]) (n - (unat sz + 17)) g h \<and> heap_start h = heap_start (k_heap k)
    \<and> pages h = pages (k_heap k)"
proof -
  have t: "packed used" "heap_rep (k_heap k) (used @ [(n, True)])" "heap_room (Suc g) (k_heap k)"
    using assms(1) by (simp_all add: heap_tail_def)
  have "n \<le> 0x10000000" using t(2) by (simp add: heap_rep_def)
  then obtain h where h: "new_alloc sz (k_heap k) = Some (heap_start (k_heap k) + of_nat (segsum used + 17), h)"
    "heap_rep h (used @ [(unat sz + 17, False), (n - (unat sz + 17), True)])" "heap_start h = heap_start (k_heap k)"
    "pages h = pages (k_heap k)" "heap_room (Suc g) h"
    using take_buffer [OF t(2,3) packed_fits [OF t(1)] assms(3)] assms(2,3) by auto
  then show ?thesis
    using t(1) by (intro exI [of _ h]) (simp add: k_alloc_def heap_tail_def packed_snoc)
qed

text \<open>Giving a buffer back.\<close>

lemma free_block:
  assumes "heap_rep h (pre @ (n, f) # post)" and "heap_room g h"
  shows "\<exists>h'. free_alloc (heap_start h + of_nat (segsum pre + 17)) h = Some h' \<and> heap_rep h' (seg_free pre n post)
    \<and> heap_start h' = heap_start h \<and> pages h' = pages h \<and> heap_room g h'"
  using free_rep [OF assms(1)] assms(2) by (auto simp: heap_room_def)

section \<open>Up to the entry of the program\<close>

lemma reader_term: "reader ss g fp data k \<Longrightarrow> term_ok t \<Longrightarrow> reader ss g fp data (k\<lparr>k_term := t\<rparr>)"
  by (simp add: reader_def)

lemma print_program_ok:
  assumes "term_ok (k_term k)" and "i < 65536"
  shows "\<exists>t. print_program (i, p) k = Some (k\<lparr>k_term := t\<rparr>) \<and> term_ok t"
proof -
  let ?ps = "[Dec (of_nat i)] @ map Lit (chars '': Virt='') @ [Hex (virt_addr p)] @ map Lit (chars '', Phys='')
    @ [Hex (phys_addr p)] @ map Lit (chars '', FileSize='') @ [Hex (filesize p)] @ map Lit (chars '', Align='')
    @ [Hex (p_align p), Lit 0x0A]"
  have "(ucast (of_nat i :: qword) :: dword) = of_nat i" by (simp add: ucast_of_nat_qword)
  then have "sint (ucast (of_nat i :: qword) :: dword) = int i" using sint_coordinate [of i] assms(2) by simp
  then have "message_ok (\<lambda>p. None) ?ps" by (simp add: message_ok_def chars_def)
  then show ?thesis
    unfolding print_program_def prod.case
    by (intro k_printf_ok [where ps = ?ps, OF assms(1)]) (simp_all add: lit_def format_of_def args_of_def chars_def)
qed

interpretation printer: sink print_program "\<lambda>k. term_ok (k_term k)" "\<lambda>(i, p). i < 65536" off_screen
proof
  fix k :: kernel and x :: "nat \<times> elf64_program_t"
  assume "term_ok (k_term k)" and "case x of (i, p) \<Rightarrow> i < 65536"
  then show "\<exists>k'. print_program x k = Some k' \<and> term_ok (k_term k') \<and> off_screen k' = off_screen k"
    using print_program_ok [of k "fst x" "snd x"] by (cases x) (auto simp: off_screen_def)
qed

lemma reader_alloc:
  assumes r: "reader (used @ [(n, True)]) g fp data k" and p: "packed used" and sz: "14 \<le> unat sz" "2 * (unat sz + 17) \<le> n"
    and rest: "2 * (512 * spc (k_fs k) + 17) \<le> n - (unat sz + 17)"
  shows "\<exists>k1. k_alloc sz k = Some (heap_start (k_heap k) + of_nat (segsum used + 17), k1) \<and> reader ((used @ [(unat sz + 17, False)]) @ [(n - (unat sz + 17), True)]) g fp data k1
    \<and> same_user fp k k1 \<and> k_files k1 = k_files k"
proof -
  have tail: "heap_tail used n g (k_heap k)" using r p by (simp add: heap_tail_def reader_def)
  obtain h where h: "k_alloc sz k = Some (heap_start (k_heap k) + of_nat (segsum used + 17), set_heap h k)"
    "heap_tail (used @ [(unat sz + 17, False)]) (n - (unat sz + 17)) g h" "pages h = pages (k_heap k)"
    "heap_start h = heap_start (k_heap k)"
    using alloc_tail [OF tail sz] by blast
  have "1 \<le> spc (k_fs k)" "spc (k_fs k) \<le> 128" using r by (auto simp: reader_def plain_fat_def)
  then have "scratch ((used @ [(unat sz + 17, False)]) @ [(n - (unat sz + 17), True)]) m"
    if "m = 512 \<or> m = 512 * spc (k_fs k)" for m
    by (intro scratch_tail) (use h(2) rest that in \<open>auto simp: heap_tail_def\<close>)
  then have "reader ((used @ [(unat sz + 17, False)]) @ [(n - (unat sz + 17), True)]) g fp data (set_heap h k)"
    using r h(2) by (auto simp: reader_def heap_tail_def)
  then show ?thesis using h(1,3,4) by (auto simp: same_user_def same_sys_def set_heap_def)
qed

lemma elf64_enter_ok:
  assumes r: "reader (used @ [(n, True)]) (g + pages_needed progs) fp data k" and p: "packed used"
    and cnt: "cnt = unat (count_prog hdr)" "0 < cnt" and off: "unat (prog_header_table_off hdr) + 56 * cnt \<le> length data"
    and progs: "progs = programs_of (take (56 * cnt) (drop (unat (prog_header_table_off hdr)) data)) cnt"
    and load: "loadable data (pages (k_heap k)) progs"
    and room: "2 * (56 * cnt + 17) \<le> n" "2 * (512 * spc (k_fs k) + 17) \<le> n - (56 * cnt + 17)"
  shows "\<exists>k'. elf64_enter hp fp hdr k = Some (heap_start (k_heap k) + of_nat (segsum used + 17), progs, k')
    \<and> adds progs (pages (k_heap k)) (pages (k_heap k')) \<and> k_mem k' = memory_image data progs (k_mem k)
    \<and> (\<forall>p \<in> set progs. type_segment p = EPT_LOAD \<longrightarrow> all_mapped k' (virt_addr p) (unat (memsize p)))
    \<and> reader ((used @ [(56 * cnt + 17, False)]) @ [(n - (56 * cnt + 17), True)]) g fp data k' \<and> same_sys fp k k'"
proof -
  let ?ss = "(used @ [(56 * cnt + 17, False)]) @ [(n - (56 * cnt + 17), True)]" and ?g = "g + pages_needed progs"
  let ?sz = "of_nat (56 * cnt) :: qword" and ?q = "heap_start (k_heap k) + of_nat (segsum used + 17)"
  have "cnt < 65536" using cnt(1) unsigned_less [of "count_prog hdr", where ?'a = nat] by simp
  then have sz: "unat ?sz = 56 * cnt" by (intro unat_of_nat_qword) simp
  obtain k1 where k1: "k_alloc ?sz k = Some (?q, k1)" "reader ?ss ?g fp data k1" "same_user fp k k1"
    using reader_alloc [OF r p, of ?sz] room cnt(2) sz by auto
  obtain k2 where k2: "file_seek fp (prog_header_table_off hdr) k1 = Some k2" "reader ?ss ?g fp data k2"
    "position fp k2 = unat (prog_header_table_off hdr)" "same_user fp k1 k2"
    using file_seek_near [OF k1(2), of "prog_header_table_off hdr"] off cnt(2) by auto
  obtain k3 where k3: "file_read fp (replicate (56 * cnt) 0) ?sz k2
      = Some (take (56 * cnt) (drop (unat (prog_header_table_off hdr)) data), k3)"
    "reader ?ss ?g fp data k3" "same_user fp k2 k3"
    using file_read_near [OF k2(2), of ?sz "replicate (56 * cnt) 0"] k2(3) off sz by auto
  have "\<forall>x \<in> set (zip [0..<cnt] progs). case x of (i, p) \<Rightarrow> i < 65536"
    using \<open>cnt < 65536\<close> by (auto dest!: set_zip_leftD)
  moreover have "term_ok (k_term k3)" using k3(2) by (simp add: reader_def)
  ultimately obtain k4 where k4: "feed print_program (zip [0..<cnt] progs) k3 = Some k4" "term_ok (k_term k4)"
    "off_screen k4 = off_screen k3"
    using printer.feed_ok by blast
  note k4eq = off_screenD [OF k4(3)]
  have r4: "reader ?ss ?g fp data k4" using reader_term [OF k3(2) k4(2)] k4eq by simp
  have same: "k_mem k4 = k_mem k" "pages (k_heap k4) = pages (k_heap k)" "same_sys fp k k4"
    using k1(3) k2(4) k3(3) same_sys_trans by (subst k4eq, force simp: same_user_def)+
  obtain k5 where k5: "feed (load_segment load_flags fp) progs k4 = Some k5" "reader ?ss g fp data k5"
    "k_mem k5 = memory_image data progs (k_mem k4)" "same_sys fp k4 k5"
    "adds progs (pages (k_heap k4)) (pages (k_heap k5))"
    "\<forall>p \<in> set progs. type_segment p = EPT_LOAD \<longrightarrow> all_mapped k5 (virt_addr p) (unat (memsize p))"
    using load_segments_ok [OF r4, of load_flags] load same(2) by (auto simp: ok_flags_def load_flags_def)
  let ?ps = "map Lit (chars ''HDR Address: '') @ [Hex hp, Lit 0x0A]"
  obtain t where t: "k_printf (\<lambda>p. None) (''HDR Address: %x'' @ NL) [hp] k5 = Some (k5\<lparr>k_term := t\<rparr>)" "term_ok t"
  proof -
    have "\<exists>t. k_printf (\<lambda>p. None) (''HDR Address: %x'' @ NL) [hp] k5 = Some (k5\<lparr>k_term := t\<rparr>) \<and> term_ok t"
      by (rule k_printf_ok [where ps = ?ps])
        (use k5(2) in \<open>simp_all add: reader_def message_ok_def lit_def format_of_def args_of_def chars_def\<close>)
    then show ?thesis using that by blast
  qed
  have "elf64_enter hp fp hdr k = Some (?q, progs, k5\<lparr>k_term := t\<rparr>)"
    using k1(1) k2(1) k3(1) k4(1) k5(1) t(1) by (simp add: elf64_enter_def Let_def progs flip: cnt(1))
  moreover have "all_mapped (k5\<lparr>k_term := t\<rparr>) a m = all_mapped k5 a m" for a m
    by (simp add: all_mapped_iff mapped_def)
  ultimately show ?thesis
    using k5(2-6) same reader_term [OF k5(2) t(2)] same_sys_trans [OF same(3) k5(4)]
    by (intro exI [of _ "k5\<lparr>k_term := t\<rparr>"]) simp
qed


section \<open>The loader\<close>

text \<open>The header object and the open file lie one after the other at the end of the heap.\<close>

lemma open_file_ok:
  assumes tail: "heap_tail used n g (k_heap k)" and f: "fat_fileOpen (k_fname k) filename (k_fs k) = Some (f, said)" and n: "162 \<le> n"
    and tok: "term_ok (k_term k)" and said: "said_ok said"
  obtains hp fp k1 h2 t where "k_alloc 64 k = Some (hp, k1)"
    and "sys_open filename k1 = Some (fp, k\<lparr>k_term := t, k_fs := (k_fs k)\<lparr>fheap := h2\<rparr>, k_files := (k_files k)(fp \<mapsto> f)\<rparr>)"
    and "term_ok t"
    and "hp = heap_start h2 + of_nat (segsum used + 17)" and "fp = heap_start h2 + of_nat (segsum used + 81 + 17)"
    and "heap_tail (used @ [(81, False), (31, False)]) (n - 112) g h2" and "pages h2 = pages (k_heap k)"
    and "heap_start h2 = heap_start (k_heap k)"
proof -
  obtain h1 where h1: "k_alloc 64 k = Some (heap_start (k_heap k) + of_nat (segsum used + 17), set_heap h1 k)"
    "heap_tail (used @ [(81, False)]) (n - 81) g h1" "heap_start h1 = heap_start (k_heap k)" "pages h1 = pages (k_heap k)"
    using alloc_tail [OF tail, of 64] n by auto
  have f1: "fat_fileOpen (k_fname (set_heap h1 k)) filename (k_fs (set_heap h1 k)) = Some (f, said)"
    using f by (simp add: fat_fileOpen_heap)
  have "term_ok (k_term (set_heap h1 k))" using tok by simp
  then obtain t where t: "file_open filename (set_heap h1 k) = Some (f, (set_heap h1 k)\<lparr>k_term := t\<rparr>)" "term_ok t"
    by (rule file_open_ok [OF f1 _ said])
  let ?k1 = "(set_heap h1 k)\<lparr>k_term := t\<rparr>"
  have "62 \<le> n - 81" using n by linarith
  obtain h2 where h2: "k_alloc 14 ?k1
      = Some (heap_start h1 + of_nat (segsum (used @ [(81, False)]) + 17), set_heap h2 ?k1)"
    "heap_tail ((used @ [(81, False)]) @ [(31, False)]) (n - 81 - 31) g h2" "heap_start h2 = heap_start h1" "pages h2 = pages h1"
    using alloc_tail [of "used @ [(81, False)]" "n - 81" g ?k1 14] h1(2) \<open>62 \<le> n - 81\<close> by auto
  show thesis
  proof (rule that [OF h1(1)])
    show "sys_open filename (set_heap h1 k) = Some (heap_start h2 + of_nat (segsum used + 81 + 17),
        k\<lparr>k_term := t, k_fs := (k_fs k)\<lparr>fheap := h2\<rparr>, k_files := (k_files k)(heap_start h2 + of_nat (segsum used + 81 + 17) \<mapsto> f)\<rparr>)"
      using h2(1,3) t(1) by (simp add: sys_open_def set_heap_def)
  qed (use h1 h2 t(2) in simp_all)
qed

lemma found_message:
  assumes "term_ok (k_term k)" and "name_ok filename"
  shows "\<exists>t. k_printf (\<lambda>p. Some filename) (''[Debug]: %s is found'' @ NL) [0] k = Some (k\<lparr>k_term := t\<rparr>) \<and> term_ok t"
    and "\<exists>t. k_printf (\<lambda>p. Some filename) (''%s is \"NOT\" found'' @ NL) [0] k = Some (k\<lparr>k_term := t\<rparr>) \<and> term_ok t"
  by (rule k_printf_ok [OF assms(1), where ps = "map Lit (chars ''[Debug]: '') @ [Str 0] @ map Lit (chars '' is found'' @ [0x0A])"];
      use assms(2) in \<open>simp add: message_ok_def name_ok_def lit_def format_of_def args_of_def chars_def\<close>)
    (rule k_printf_ok [OF assms(1), where ps = "[Str 0] @ map Lit (chars '' is \"NOT\" found'' @ [0x0A])"];
      use assms(2) in \<open>simp add: message_ok_def name_ok_def lit_def format_of_def args_of_def chars_def\<close>)

end
