(* ===== verification/Task_Props.thy ===== *)
theory Task_Props
  imports Task Heap_Props
begin

text \<open>
  The scheduler: the list of tasks as a chain in the store, the round-robin order of
  \<open>switch_task\<close> (the interface \<open>ring_scheduler\<close>, which \<open>switch_task\<close> provides), saving and
  restoring the registers of a task, creating, ending and removing tasks, and the timer.
\<close>

section \<open>The list of tasks\<close>

primrec task_chain :: "(qword \<Rightarrow> task_info_t option) \<Rightarrow> qword \<Rightarrow> qword list \<Rightarrow> bool" where
  "task_chain st p [] \<longleftrightarrow> p = 0"
| "task_chain st p (a # as) \<longleftrightarrow> p = a \<and> a \<noteq> 0 \<and> (\<exists>t. st a = Some t \<and> task_chain st (task_link t) as)"

definition tasks_ok :: "tasks \<Rightarrow> qword list \<Rightarrow> bool" where
  "tasks_ok s ts \<longleftrightarrow> task_chain (task_store s) (kernel_task s) ts \<and> distinct ts \<and> ts \<noteq> []
     \<and> task_current s \<in> set ts"

lemma set_task_sel [simp]:
  "task_store (set_task p t s) = (task_store s)(p := Some t)" "kernel_task (set_task p t s) = kernel_task s"
  "task_current (set_task p t s) = task_current s" "task_next (set_task p t s) = task_next s"
  "stacks (set_task p t s) = stacks s" "task_heap (set_task p t s) = task_heap s"
  "ticks (set_task p t s) = ticks s" "next_id (set_task p t s) = next_id s"
  by (simp_all add: set_task_def)

text \<open>The record of a task without its link.\<close>

definition record_of :: "tasks \<Rightarrow> qword \<Rightarrow> task_info_t option" where
  "record_of s q = map_option (\<lambda>t. t\<lparr>task_link := 0\<rparr>) (task_store s q)"

lemma chain_other: "p \<notin> set ts \<Longrightarrow> task_chain (st(p := v)) q ts = task_chain st q ts"
  by (induction ts arbitrary: q) auto

lemma chain_same_link:
  assumes "st p = Some t" and "task_link t' = task_link t"
  shows "task_chain (st(p := Some t')) q ts = task_chain st q ts"
  using assms by (induction ts arbitrary: q) auto

lemma chain_nth:
  assumes "task_chain st p ts" and "i < length ts"
  shows "\<exists>t. st (ts ! i) = Some t \<and> ts ! i \<noteq> 0 \<and> task_link t = (if Suc i < length ts then ts ! Suc i else 0)"
  using assms
proof (induction ts arbitrary: p i)
  case (Cons a as)
  then obtain t where t: "st a = Some t" "task_chain st (task_link t) as" "a \<noteq> 0" by auto
  show ?case
  proof (cases i)
    case 0
    then show ?thesis using t by (cases as) auto
  next
    case (Suc k)
    then show ?thesis using Cons.IH [OF t(2), of k] Cons.prems(2) by auto
  qed
qed simp

lemma chain_hd: "task_chain st p ts \<Longrightarrow> ts \<noteq> [] \<Longrightarrow> p = hd ts"
  by (cases ts) auto

lemma tasks_ok_current:
  assumes "tasks_ok s ts"
  obtains i where "i < length ts" and "task_current s = ts ! i"
  using assms by (auto simp: tasks_ok_def in_set_conv_nth)

section \<open>Round robin\<close>

text \<open>One switch after the other; the result is that of the last one.\<close>

primrec switch_seq :: "('a \<Rightarrow> 's \<Rightarrow> ('b \<times> 's) option) \<Rightarrow> 'a \<Rightarrow> 'a list \<Rightarrow> 's \<Rightarrow> ('b \<times> 's) option" where
  "switch_seq switch a [] s = switch a s"
| "switch_seq switch a (b # bs) s = do { (r, s') \<leftarrow> switch a s; switch_seq switch b bs s' }"

text \<open>
  The contract of a scheduler: with the tasks in the ring \<open>ts\<close>, one switch goes from the
  running task to the next one and keeps the ring.
\<close>

locale ring_scheduler =
  fixes switch :: "'a \<Rightarrow> 's \<Rightarrow> ('b \<times> 's) option"
    and ring :: "'s \<Rightarrow> 't list \<Rightarrow> bool"
    and running :: "'s \<Rightarrow> 't"
  assumes switch_step: "ring s ts \<Longrightarrow> i < length ts \<Longrightarrow> running s = ts ! i \<Longrightarrow>
    \<exists>r s'. switch a s = Some (r, s') \<and> ring s' ts \<and> running s' = ts ! (Suc i mod length ts)"
begin

lemma switch_seq_ring:
  assumes "ring s ts" and "i < length ts" and "running s = ts ! i"
  shows "\<exists>r s'. switch_seq switch a as s = Some (r, s') \<and> ring s' ts
    \<and> running s' = ts ! ((i + Suc (length as)) mod length ts)"
  using assms
proof (induction as arbitrary: a s i)
  case Nil
  then show ?case using switch_step [OF Nil, of a] by simp
next
  case (Cons b bs)
  obtain r s1 where s1: "switch a s = Some (r, s1)" "ring s1 ts" "running s1 = ts ! (Suc i mod length ts)"
    using switch_step [OF Cons.prems, of a] by auto
  have "Suc i mod length ts < length ts" using Cons.prems(2) by (intro mod_less_divisor) auto
  from Cons.IH [OF s1(2) this s1(3), of b] s1(1) mod_add_left_eq [of "Suc i" "length ts" "Suc (length bs)"]
  show ?case by auto
qed

end

text \<open>The state after the switch from task \<open>i\<close> of the ring, whose record was \<open>t\<close>.\<close>

definition switched :: "qword list \<Rightarrow> nat \<Rightarrow> task_info_t \<Rightarrow> qword \<Rightarrow> tasks \<Rightarrow> tasks" where
  "switched ts i t sp s =
     (set_task (ts ! i) (t\<lparr>task_sp := sp\<rparr>) (s\<lparr>task_next := ts ! (Suc i mod length ts)\<rparr>))
       \<lparr>task_current := ts ! (Suc i mod length ts)\<rparr>"

lemma switched_sel [simp]:
  "task_store (switched ts i t sp s) = (task_store s)(ts ! i := Some (t\<lparr>task_sp := sp\<rparr>))"
  "task_current (switched ts i t sp s) = ts ! (Suc i mod length ts)"
  "kernel_task (switched ts i t sp s) = kernel_task s" "stacks (switched ts i t sp s) = stacks s"
  by (simp_all add: switched_def)

lemma switch_task_next:
  assumes "tasks_ok s ts" and "i < length ts" and "task_current s = ts ! i"
  shows "\<exists>t n. task_store s (ts ! i) = Some t
    \<and> task_store (switched ts i t sp s) (ts ! (Suc i mod length ts)) = Some n
    \<and> switch_task sp s = Some (task_sp n, switched ts i t sp s)
    \<and> tasks_ok (switched ts i t sp s) ts"
proof -
  let ?j = "Suc i mod length ts"
  have c: "task_chain (task_store s) (kernel_task s) ts" and ne: "ts \<noteq> []"
    using assms(1) by (auto simp: tasks_ok_def)
  obtain t where t: "task_store s (ts ! i) = Some t"
    "task_link t = (if Suc i < length ts then ts ! Suc i else 0)" "ts ! i \<noteq> 0"
    using chain_nth [OF c assms(2)] by blast
  have j: "?j < length ts" using ne by simp
  obtain u where u: "task_store s (ts ! ?j) = Some u" using chain_nth [OF c j] by blast
  have nz: "ts ! Suc i \<noteq> 0" if "Suc i < length ts" using chain_nth [OF c that] by blast
  have nxt: "(if task_link t = 0 then kernel_task s else task_link t) = ts ! ?j"
  proof (cases "Suc i < length ts")
    case True
    then show ?thesis using t(2) nz by simp
  next
    case False
    then have "Suc i = length ts" using assms(2) by simp
    then show ?thesis using t(2) chain_hd [OF c ne] ne by (simp add: hd_conv_nth)
  qed
  let ?s1 = "switched ts i t sp s"
  obtain n where n: "task_store ?s1 (ts ! ?j) = Some n" using u by (cases "ts ! ?j = ts ! i") auto
  have run: "switch_task sp s = Some (task_sp n, ?s1)"
  proof -
    have "task_store (set_task (ts ! i) (t\<lparr>task_sp := sp\<rparr>) (s\<lparr>task_next := ts ! ?j\<rparr>)) (ts ! ?j) = Some n"
      using n by simp
    then show ?thesis
      using t(1) assms(3) nxt unfolding switch_task_def Let_def by (auto simp: switched_def split: if_splits)
  qed
  have "tasks_ok ?s1 ts"
    using assms(1) j chain_same_link [where st = "task_store s" and p = "ts ! i" and t = t and t' = "t\<lparr>task_sp := sp\<rparr>"] t(1)
    by (simp add: tasks_ok_def)
  with t(1) n run show ?thesis by blast
qed

interpretation task_ring: ring_scheduler switch_task tasks_ok task_current
proof
  fix s :: tasks and ts i sp
  assume "tasks_ok s ts" and "i < length ts" and "task_current s = ts ! i"
  from switch_task_next [OF this, of sp]
  show "\<exists>r s'. switch_task sp s = Some (r, s') \<and> tasks_ok s' ts
    \<and> task_current s' = ts ! (Suc i mod length ts)"
    by auto
qed

definition switch_tasks :: "qword \<Rightarrow> qword list \<Rightarrow> tasks \<Rightarrow> (qword \<times> tasks) option" where
  "switch_tasks = switch_seq switch_task"

lemma switch_tasks_simps [simp]:
  "switch_tasks a [] s = switch_task a s"
  "switch_tasks a (b # bs) s = do { (r, s') \<leftarrow> switch_task a s; switch_tasks b bs s' }"
  by (simp_all add: switch_tasks_def)

text \<open>A task that does not run keeps its saved stack pointer until its turn comes.\<close>

lemma saved_sp_waits:
  assumes "tasks_ok s ts" and "j < length ts" and "task_current s = ts ! j" and "i < length ts"
    and "task_store s (ts ! i) = Some t" and "Suc (length bs) < length ts"
    and "(j + Suc (length bs)) mod length ts = i"
  shows "\<exists>s'. switch_tasks b bs s = Some (task_sp t, s')"
  using assms
proof (induction bs arbitrary: s j b)
  case Nil
  have ne: "ts ! j \<noteq> ts ! i"
    using Nil by (auto simp: tasks_ok_def nth_eq_iff_index_eq mod_if split: if_splits)
  show ?case using switch_task_next [OF Nil.prems(1-3), of b] Nil.prems ne by auto
next
  case (Cons c cs)
  let ?n = "length ts"
  have "j \<noteq> i" using Cons.prems(2,4,6,7) by (auto simp: mod_if split: if_splits)
  then have ne: "ts ! j \<noteq> ts ! i" using Cons.prems(1,2,4) by (simp add: tasks_ok_def nth_eq_iff_index_eq)
  obtain u and n :: task_info_t where s1: "switch_task b s = Some (task_sp n, switched ts j u b s)" "tasks_ok (switched ts j u b s) ts"
    using switch_task_next [OF Cons.prems(1-3), of b] by blast
  have "(Suc j mod ?n + Suc (length cs)) mod ?n = i"
    using Cons.prems(7) mod_add_left_eq [of "Suc j" ?n "Suc (length cs)"] by simp
  moreover have "Suc j mod ?n < ?n" using Cons.prems(2) by (intro mod_less_divisor) auto
  ultimately obtain s' where "switch_tasks c cs (switched ts j u b s) = Some (task_sp t, s')"
    using Cons.IH [OF s1(2)] Cons.prems(4-6) ne by fastforce
  then show ?case using s1(1) by simp
qed

text \<open>
  C16: \<open>switch_task\<close> is fair: starting from task \<open>i\<close> of the list, any sequence of \<open>k\<close> switches
  succeeds, keeps the list of tasks, and leaves task \<open>i + k\<close>, counted round the list,
  running; so every task runs again within as many switches as there are tasks.
\<close>

theorem switch_task_round_robin:
  assumes "tasks_ok s ts" and "i < length ts" and "task_current s = ts ! i"
  shows "\<exists>r s'. switch_tasks sp sps s = Some (r, s') \<and> tasks_ok s' ts
    \<and> task_current s' = ts ! ((i + Suc (length sps)) mod length ts)"
  unfolding switch_tasks_def by (rule task_ring.switch_seq_ring [OF assms])

text \<open>
  C13: a task that the timer interrupts with registers \<open>r\<close> gets them back: after one switch
  for every task of the list, the stack pointer of its frame is the one taken, and popping
  that frame restores every general register, the stack pointer, the flags, the segments
  and the instruction pointer, provided the other tasks left the words of the frame alone.
\<close>

theorem preempted_task_resumes:
  assumes "tasks_ok s ts" and "i < length ts" and "task_current s = ts ! i"
    and "interrupt_entry r err code m = (stacks s, a)" and "Suc (length sps) = length ts"
    and "\<forall>k < 27. m' (a + of_nat (8 * k)) = stacks s (a + of_nat (8 * k))"
  shows "\<exists>s'. switch_tasks a sps s = Some (a, s') \<and> task_current s' = ts ! i
    \<and> same_context (resume_at m' a r') r"
proof -
  have "frame_at m' a = frame_at (stacks s) a"
  proof -
    have e: "m' (a + of_nat (8 * k)) = stacks s (a + of_nat (8 * k))" if "k < 27" for k
      using assms(6) that by blast
    show ?thesis
      using e [of 0] e [of 1] e [of 2] e [of 3] e [of 4] e [of 5] e [of 6] e [of 7] e [of 8] e [of 9]
        e [of 10] e [of 11] e [of 12] e [of 13] e [of 14] e [of 15] e [of 16] e [of 17] e [of 18] e [of 19]
        e [of 20] e [of 21] e [of 22] e [of 23] e [of 24] e [of 25] e [of 26]
      by (simp add: frame_at_def)
  qed
  then have ctx: "same_context (resume_at m' a r') r"
    using resume_after_interrupt [OF assms(4), of r'] by (simp add: resume_at_def)
  obtain t n where t: "task_store (switched ts i t a s) (ts ! (Suc i mod length ts)) = Some n"
    "switch_task a s = Some (task_sp n, switched ts i t a s)" "tasks_ok (switched ts i t a s) ts"
    using switch_task_next [OF assms(1-3), of a] by blast
  have home: "(i + Suc (length sps)) mod length ts = i" using assms(2,5) by simp
  have "\<exists>s'. switch_tasks a sps s = Some (a, s')"
  proof (cases sps)
    case Nil
    then have "length ts = 1" "i = 0" using assms(2,5) by auto
    then show ?thesis using t Nil by auto
  next
    case (Cons b bs)
    have "Suc i mod length ts < length ts" using assms(2) by (intro mod_less_divisor) auto
    moreover have "(Suc i mod length ts + Suc (length bs)) mod length ts = i"
      using home mod_add_left_eq [of "Suc i" "length ts" "Suc (length bs)"] Cons by simp
    moreover have "Suc (length bs) < length ts" using assms(5) Cons by simp
    ultimately obtain s' where "switch_tasks b bs (switched ts i t a s) = Some (task_sp (t\<lparr>task_sp := a\<rparr>), s')"
      using saved_sp_waits [OF t(3) _ _ assms(2)] by fastforce
    then show ?thesis using t(2) Cons by simp
  qed
  moreover obtain q s'' where "switch_tasks a sps s = Some (q, s'')"
    "task_current s'' = ts ! ((i + Suc (length sps)) mod length ts)"
    unfolding switch_tasks_def using task_ring.switch_seq_ring [OF assms(1-3), of a sps] by blast
  ultimately show ?thesis using ctx unfolding home by auto
qed

section \<open>Creating a task\<close>

lemma last_task_chain:
  assumes "task_chain (task_store s) p ts" and "ts \<noteq> []"
  shows "last_task p s = Some (last ts)"
  using assms
proof (induction ts arbitrary: p)
  case (Cons a as)
  then obtain t where t: "p = a" "a \<noteq> 0" "task_store s a = Some t" "task_chain (task_store s) (task_link t) as"
    by auto
  show ?case
  proof (cases "as = []")
    case True
    then show ?thesis using t by (simp add: last_task.simps)
  next
    case False
    then have "task_link t \<noteq> 0" using t(4) by (cases as) auto
    then show ?thesis using t Cons.IH [OF t(4) False] False by (subst last_task.simps) simp
  qed
qed simp

lemma chain_append:
  assumes "task_chain st p ts" and "ts \<noteq> []" and "distinct ts" and "q \<notin> set ts" and "q \<noteq> 0"
    and "st (last ts) = Some l" and "task_link t = 0"
  shows "task_chain (st(q := Some t, last ts := Some (l\<lparr>task_link := q\<rparr>))) p (ts @ [q])"
  using assms
proof (induction ts arbitrary: p)
  case (Cons a as)
  then obtain u where u: "p = a" "a \<noteq> 0" "st a = Some u" "task_chain st (task_link u) as" by auto
  show ?case
  proof (cases "as = []")
    case True
    then show ?thesis using Cons.prems u by simp
  next
    case False
    then have "a \<noteq> last as" using Cons.prems(3) last_in_set [OF False] by auto
    then show ?thesis using Cons.IH [OF u(4) False] Cons.prems u False by auto
  qed
qed simp

text \<open>The registers a new task starts with.\<close>

lemma task_frame_start:
  fixes r :: cpu_register_t
  assumes "task_frame address cs ss sp args m = (m', a)"
  defines "q \<equiv> resume_at m' a r"
  shows "rip q = address" "rsp q = sp - 8" "rflags q = 0x202" "code_seg q = ucast cs" "stack_seg q = ucast ss"
    and "rdi q = args ! 0" "rsi q = args ! 1" "rcx q = args ! 2" "rdx q = args ! 3" "r8 q = args ! 4"
    and "r9 q = args ! 5" "rbp q = sp" "rax q = 0"
proof -
  have fr: "m' = fst (task_frame address cs ss sp args m)" "a = snd (task_frame address cs ss sp args m)"
    using assms(1) by simp_all
  note unfold = q_def resume_at_def Let_def frame_at_def fr task_frame_def push_def
  show "rip q = address" "rsp q = sp - 8" "rflags q = 0x202" "code_seg q = ucast cs" "stack_seg q = ucast ss"
    and "rdi q = args ! 0" "rsi q = args ! 1" "rcx q = args ! 2" "rdx q = args ! 3" "r8 q = args ! 4"
    and "r9 q = args ! 5" "rbp q = sp" "rax q = 0"
    by (simp_all add: unfold)
qed

lemma task_create_run:
  assumes "tasks_ok s ts" and "new_alloc 48 (task_heap s) = Some (p, h1)"
    and "page_alloc4K (1 OR 2) (pages h1) = Some (provider, ps)" and "p \<noteq> 0" and "p \<notin> set ts"
  shows "\<exists>s' t m. task_create address argc a1 a2 a3 a4 bp ret cs ss s = Some (p, s') \<and> tasks_ok s' (ts @ [p])
    \<and> task_current s' = task_current s \<and> task_store s' p = Some t
    \<and> task_id t = ucast (next_id s) \<and> next_id s' = next_id s + 1 \<and> task_flags t = TASK_FLAGS_RUNNING_BIT
    \<and> stack_provider t = provider \<and> task_heap s' = h1\<lparr>pages := ps\<rparr> \<and> ticks s' = ticks s
    \<and> kernel_task s' = kernel_task s
    \<and> (\<forall>q. q \<noteq> p \<longrightarrow> record_of s' q = record_of s q)
    \<and> task_frame address cs ss (provider + 0x1000) (drop 2 (create_words address argc a1 a2 a3 a4 bp ret)) m
        = (stacks s', task_sp t)"
proof -
  let ?frame = "create_words address argc a1 a2 a3 a4 bp ret"
  let ?m = "\<lambda>a. if a - (provider + 0x1000 - 0x1000) < 0x1000 then 0 else stacks s a"
  obtain m' a where fr: "task_frame address cs ss (provider + 0x1000) (drop 2 ?frame) ?m = (m', a)" by fastforce
  let ?t = "\<lparr>task_id = ucast (next_id s), stack_provider = provider, task_sp = a,
     task_flags = TASK_FLAGS_RUNNING_BIT, signal_code = 0, task_link = 0\<rparr>"
  let ?s1 = "set_task p ?t (s\<lparr>next_id := next_id s + 1, stacks := m', task_heap := h1\<lparr>pages := ps\<rparr>\<rparr>)"
  have c: "task_chain (task_store s) (kernel_task s) ts" "distinct ts" "ts \<noteq> []" "task_current s \<in> set ts"
    using assms(1) by (auto simp: tasks_ok_def)
  have last: "last_task (kernel_task ?s1) ?s1 = Some (last ts)"
    by (rule last_task_chain) (use c assms(5) in \<open>simp_all add: chain_other\<close>)
  obtain l where l: "task_store s (last ts) = Some l"
    using chain_nth [OF c(1), of "length ts - 1"] c(3) by (auto simp: last_conv_nth)
  have ne: "last ts \<noteq> p" using assms(5) c(3) last_in_set by metis
  let ?s2 = "set_task (last ts) (l\<lparr>task_link := p\<rparr>) ?s1"
  have words: "buf_get ?frame 0 = Some address" "\<not> length (drop 2 ?frame) < 6"
    by (auto simp: create_words_def)
  have run: "task_create address argc a1 a2 a3 a4 bp ret cs ss s = Some (p, ?s2)"
    unfolding task_create_def task_create_impl_def Let_def words(1) assms(2,3) bind.bind_lunit prod.case
      if_not_P [OF words(2)] fr last
    using l ne by simp
  have "tasks_ok ?s2 (ts @ [p])"
    using c assms(4,5) chain_append [OF c(1,3,2) assms(5,4) l, of ?t] by (simp add: tasks_ok_def)
  then show ?thesis using run fr ne l by (intro exI [of _ ?s2] exI [of _ ?t] exI [of _ ?m]) (simp add: record_of_def)
qed

text \<open>
  C23: \<open>task_create\<close> appends the new task to the list and leaves the running one; the first
  switch to it starts at \<open>address\<close> with interrupts enabled, in the creator's segments, on
  the page \<open>page_alloc4K\<close> gave it, with the stack pointer one word below its end.
\<close>

theorem task_create_correct:
  assumes "tasks_ok s ts" and "new_alloc 48 (task_heap s) = Some (p, h1)"
    and "page_alloc4K (1 OR 2) (pages h1) = Some (provider, ps)" and "p \<noteq> 0" and "p \<notin> set ts"
  shows "\<exists>s' t. task_create address argc a1 a2 a3 a4 bp ret cs ss s = Some (p, s') \<and> tasks_ok s' (ts @ [p])
    \<and> task_current s' = task_current s \<and> task_store s' p = Some t
    \<and> task_id t = ucast (next_id s) \<and> next_id s' = next_id s + 1
    \<and> (\<forall>r. let q = resume_at (stacks s') (task_sp t) r in
         rip q = address \<and> rflags q = 0x202 \<and> code_seg q = ucast cs \<and> stack_seg q = ucast ss
         \<and> rsp q = provider + 0x1000 - 8)"
proof -
  obtain s' t m where s': "task_create address argc a1 a2 a3 a4 bp ret cs ss s = Some (p, s')"
    "tasks_ok s' (ts @ [p])" "task_current s' = task_current s" "task_store s' p = Some t"
    "task_id t = ucast (next_id s)" "next_id s' = next_id s + 1" and
    fr: "task_frame address cs ss (provider + 0x1000) (drop 2 (create_words address argc a1 a2 a3 a4 bp ret)) m
        = (stacks s', task_sp t)"
    using task_create_run [OF assms] by blast
  note start = task_frame_start [OF fr]
  show ?thesis unfolding Let_def
    by (intro exI [of _ s'] exI [of _ t] conjI allI s' start(1,3,4,5)) (rule start(2))
qed

text \<open>
  the arguments reach the new task in the wrong registers: called as
  \<open>task_create(f, n, a1, a2, a3, a4)\<close> with \<open>n \<noteq> 0\<close>, the task runs \<open>f(a2, a1, a4, a3)\<close>, and its
  fifth and sixth argument are the creator's saved \<open>rbp\<close> and return address.  In particular
  \<open>task_create(elf64_load, 1, name)\<close> does not pass \<open>name\<close> as the first argument.
\<close>

theorem task_create_swaps_arguments:
  assumes "tasks_ok s ts" and "new_alloc 48 (task_heap s) = Some (p, h1)"
    and "page_alloc4K (1 OR 2) (pages h1) = Some (provider, ps)" and "p \<noteq> 0" and "p \<notin> set ts"
    and "argc \<noteq> 0"
  shows "\<exists>s' t. task_create address argc a1 a2 a3 a4 bp ret cs ss s = Some (p, s') \<and> task_store s' p = Some t
    \<and> (\<forall>r. let q = resume_at (stacks s') (task_sp t) r in
         rdi q = a2 \<and> rsi q = a1 \<and> rdx q = a4 \<and> rcx q = a3 \<and> r8 q = bp \<and> r9 q = ret)"
proof -
  obtain s' t m where s': "task_create address argc a1 a2 a3 a4 bp ret cs ss s = Some (p, s')"
    "task_store s' p = Some t" and
    fr: "task_frame address cs ss (provider + 0x1000) (drop 2 (create_words address argc a1 a2 a3 a4 bp ret)) m
        = (stacks s', task_sp t)"
    using task_create_run [OF assms(1-5)] by blast
  have "drop 2 (create_words address argc a1 a2 a3 a4 bp ret) = [a2, a1, a3, a4, bp, ret]"
    using assms(6) by (simp add: create_words_def)
  with s' task_frame_start(6-11) [OF fr] show ?thesis by (auto simp: Let_def)
qed

end
