(* ===== verification/Task_End.thy ===== *)
theory Task_End
  imports Task_Props
begin

text \<open>
  Ending a task: \<open>task_exit\<close>, the timer interrupt that removes the task, and what becomes of
  its record, its stack page and the list; a task from its creation to its end on the
  kernel's first heap.
\<close>

section \<open>Heap and page tables together\<close>

lemma heap_rep_pages:
  assumes "heap_rep h ss" and "page_inv ps"
    and "\<forall>k. k * 4096 < unat (heap_size h) \<longrightarrow> vmap ps (vp (heap_start h) k) \<noteq> 0"
  shows "heap_rep (h\<lparr>pages := ps\<rparr>) ss"
  using assms by (simp add: heap_rep_def pages_ok_def)

text \<open>The heap lies in the kernel's half, the identity-mapped frames in the other.\<close>

lemma heap_page_high:
  assumes "heap_rep h ss" and "k * 4096 < unat (heap_size h)" and "n < 32768"
  shows "vp (heap_start h) k \<noteq> vpage (frame_of n)"
proof
  assume e: "vp (heap_start h) k = vpage (frame_of n)"
  note b = heap_rep_bounds [OF assms(1)]
  let ?v = "heap_start h + of_nat k * PAGE_SIZE"
  have "unat (of_nat k * PAGE_SIZE :: qword) = k * 4096"
    using assms(2) b(3,4) by (simp add: unat_word_ariths unsigned_of_nat take_bit_nat_eq_self)
  then have "unat ?v = unat (heap_start h) + k * 4096"
    using assms(2) b(2,3,4) by (simp add: unat_word_ariths)
  then have "0xFFFF800000000000 \<le> ?v" using b(1) by (simp add: word_le_nat_alt)
  then have "bit ?v 47" by (rule upper_half_bit)
  then have "bit (PMLT4_INDEX ?v) 8" unfolding PMLT4_INDEX_def by (simp add: bit_simps)
  then have "bit (PMLT4_INDEX (frame_of n)) 8" using e by (simp add: vp_def vpage_def)
  then have "bit (frame_of n) 47" unfolding PMLT4_INDEX_def by (simp add: bit_simps)
  then show False using not_bit_nat [of n 15 35] assms(3) by (simp add: bit_frame_of)
qed

section \<open>Removing a task\<close>

lemma prev_task_chain:
  assumes "task_chain (task_store s) p (pre @ target # post)" and "pre \<noteq> []" and "target \<notin> set pre"
    and "distinct pre"
  shows "prev_task p target s = Some (last pre)"
  using assms
proof (induction pre arbitrary: p)
  case (Cons a as)
  then obtain t where t: "p = a" "task_store s a = Some t"
    "task_chain (task_store s) (task_link t) (as @ target # post)"
    by auto
  show ?case
  proof (cases "as = []")
    case True
    then have "task_link t = target" using t(3) by simp
    then show ?thesis using t True by (simp add: prev_task.simps)
  next
    case False
    then have "task_link t = hd as" "hd as \<in> set as" "hd as \<noteq> 0" using t(3) by (cases as; auto)+
    then have "task_link t \<noteq> target" "task_link t \<noteq> 0" using Cons.prems(3) by auto
    then show ?thesis using t Cons False by (subst prev_task.simps) simp
  qed
qed simp

lemma chain_remove:
  assumes "task_chain st p (pre @ target # post)" and "pre \<noteq> []" and "distinct (pre @ target # post)"
    and "st (last pre) = Some l" and "st target = Some t"
  shows "task_chain (st(last pre := Some (l\<lparr>task_link := task_link t\<rparr>))) p (pre @ post)"
  using assms
proof (induction pre arbitrary: p)
  case (Cons a as)
  then obtain u where u: "p = a" "a \<noteq> 0" "st a = Some u" "task_chain st (task_link u) (as @ target # post)" by auto
  show ?case
  proof (cases "as = []")
    case True
    then have "task_chain (st(a := Some (l\<lparr>task_link := task_link t\<rparr>))) (task_link t) post"
      using Cons.prems u chain_other [of a post st] by auto
    then show ?thesis using Cons.prems u True by (simp del: fun_upd_apply add: fun_upd_same)
  next
    case False
    then have "a \<noteq> last as" using Cons.prems(3) last_in_set [OF False] by auto
    then show ?thesis using Cons.IH [OF u(4) False] Cons.prems u False by auto
  qed
qed simp

text \<open>The task that runs after \<open>target\<close> has been removed.\<close>

definition successor :: "qword \<Rightarrow> qword list \<Rightarrow> qword" where
  "successor k post = (if post = [] then k else hd post)"

lemma task_remove_run:
  assumes ok: "tasks_ok s (pre @ target # post)" and ne: "pre \<noteq> []" and cur: "task_current s = target"
    and t: "task_store s target = Some t"
    and ps: "page_umapv (stack_provider t) 0x1000 (pages (task_heap s)) = Some ps"
    and h: "free_alloc target ((task_heap s)\<lparr>pages := ps\<rparr>) = Some h"
  shows "\<exists>s' n. task_remove s = Some (task_sp n, s') \<and> tasks_ok s' (pre @ post) \<and> kernel_task s' = kernel_task s
    \<and> task_current s' = successor (kernel_task s) post \<and> task_store s' (task_current s') = Some n
    \<and> task_heap s' = h \<and> (\<forall>q. record_of s' q = record_of s q)"
proof -
  have c: "task_chain (task_store s) (kernel_task s) (pre @ target # post)" "distinct (pre @ target # post)"
    using ok by (auto simp: tasks_ok_def)
  have prev: "prev_task (kernel_task s) target s = Some (last pre)"
    by (rule prev_task_chain [OF c(1) ne]) (use c(2) in auto)
  obtain l where l: "task_store s (last pre) = Some l"
  proof -
    have "(pre @ target # post) ! (length pre - 1) = last pre" using ne by (simp add: last_conv_nth nth_append)
    moreover have "length pre - 1 < length (pre @ target # post)" by simp
    ultimately show ?thesis using that chain_nth [OF c(1)] by metis
  qed
  have nxt: "task_link t = (if post = [] then 0 else hd post)" "post \<noteq> [] \<longrightarrow> hd post \<noteq> 0"
  proof -
    obtain t' where t': "task_store s target = Some t'"
      "task_link t' = (if post = [] then 0 else (pre @ target # post) ! Suc (length pre))"
      using chain_nth [OF c(1), of "length pre"] by (auto split: if_splits)
    show "task_link t = (if post = [] then 0 else hd post)"
      using t t' by (cases post) (auto simp: nth_append)
    show "post \<noteq> [] \<longrightarrow> hd post \<noteq> 0"
      using chain_nth [OF c(1), of "Suc (length pre)"] by (cases post) (auto simp: nth_append)
  qed
  have kern: "kernel_task s = hd pre" using chain_hd [OF c(1)] ne by simp
  define q where "q = successor (kernel_task s) post"
  have q: "(if task_link t = 0 then kernel_task s else task_link t) = q" using nxt by (simp add: q_def successor_def)
  have q_in: "q \<in> set (pre @ post)" using kern ne by (auto simp: q_def successor_def)
  let ?s1 = "set_task (last pre) (l\<lparr>task_link := task_link t\<rparr>) s"
  let ?s2 = "?s1\<lparr>task_next := q, task_heap := h\<rparr>"
  have chain: "task_chain (task_store ?s1) (kernel_task s) (pre @ post)"
    using chain_remove [OF c(1) ne c(2) l t] by simp
  obtain n where n: "task_store ?s1 q = Some n"
    using chain_nth [OF chain] q_in by (metis in_set_conv_nth)
  have run: "task_remove s = Some (task_sp n, ?s2\<lparr>task_current := q\<rparr>)"
    unfolding task_remove_def Let_def cur t bind.bind_lunit prev l q
    using ps h n by (simp add: switch_next_task_imme_def)
  have "tasks_ok (?s2\<lparr>task_current := q\<rparr>) (pre @ post)"
    using chain c(2) ne q_in by (simp add: tasks_ok_def)
  then show ?thesis using run n
    using l by (intro exI [of _ "?s2\<lparr>task_current := q\<rparr>"] exI [of _ n]) (simp add: q_def record_of_def)
qed

text \<open>
  C17: a task that calls \<open>task_exit\<close> is gone after the next timer interrupt (unless the tick is
  a multiple of 1000): it is unlinked, the task after it runs, its record is a free block of
  the heap again, its stack page is unmapped and its frame free for \<open>page_getframe\<close>.
\<close>

theorem exited_task_is_removed:
  assumes "tasks_ok s (pre @ target # post)" and "pre \<noteq> []" and "task_current s = target"
    and "task_store s target = Some t" and "(ucast (task_id t) :: dword) \<noteq> 0" and "(ticks s + 1) mod 1000 \<noteq> 0"
    and "heap_rep (task_heap s) (hpre @ (65, False) # hpost)"
    and "target = heap_start (task_heap s) + of_nat (segsum hpre + 17)"
    and "stack_provider t = frame_of n" and "data_frame (pages (task_heap s)) n" and "7 \<le> n"
    and "vmap (pages (task_heap s)) (vpage (frame_of n)) AND NOT 0x1FF = frame_of n"
  shows "\<exists>s1 s2 sp. task_exit signal s = Some (True, s1) \<and> irq_time_handle cpu s1 = Some (Some sp, s2)
    \<and> tasks_ok s2 (pre @ post) \<and> task_current s2 = successor (kernel_task s) post
    \<and> heap_rep (task_heap s2) (seg_free hpre 65 hpost)
    \<and> \<not> used_no (bitmap (pages (task_heap s2))) n \<and> vmap (pages (task_heap s2)) (vpage (frame_of n)) = 0"
proof -
  let ?t = "t\<lparr>signal_code := signal, task_flags := task_flags t AND NOT TASK_FLAGS_RUNNING_BIT\<rparr>"
  let ?s1 = "set_task target ?t s"
  let ?s2 = "?s1\<lparr>ticks := ticks s + 1\<rparr>"
  let ?h = "task_heap s"
  have n: "n < 32768" using assms(10) by (simp add: data_frame_def)
  have exit: "task_exit signal s = Some (True, ?s1)"
    using assms(3-5) by (simp add: task_exit_def task_getid_def)
  have ok: "tasks_ok ?s2 (pre @ target # post)"
    using assms(1,3,4) chain_same_link [where st = "task_store s" and p = target and t = t and t' = ?t]
    by (simp add: tasks_ok_def)
  obtain ps where ps: "page_umapv_page (frame_of n) (pages ?h) = Some ps" "page_inv ps"
    "vmap ps = (vmap (pages ?h))(vpage (frame_of n) := 0)" "bitmap ps = unmark n (bitmap (pages ?h))"
    using umapv_page_ok [OF _ frame_not_window [OF n] assms(12,11,10)] assms(7)
    by (auto simp: heap_rep_def pages_ok_def)
  have "page_count 0x1000 = 1" by (simp add: page_count_def)
  then have umap: "page_umapv (stack_provider ?t) 0x1000 (pages (task_heap ?s2)) = Some ps"
    using ps(1) assms(9) by (simp add: page_umapv_def)
  have "\<forall>k. k * 4096 < unat (heap_size ?h) \<longrightarrow> vmap ps (vp (heap_start ?h) k) \<noteq> 0"
  proof (intro allI impI)
    fix k assume k: "k * 4096 < unat (heap_size ?h)"
    have "vmap (pages ?h) (vp (heap_start ?h) k) \<noteq> 0" using assms(7) k by (simp add: heap_rep_def pages_ok_def)
    then show "vmap ps (vp (heap_start ?h) k) \<noteq> 0" using heap_page_high [OF assms(7) k n] by (simp add: ps(3))
  qed
  from free_rep [OF heap_rep_pages [OF assms(7) ps(2) this]]
  obtain h where h: "free_alloc target (?h\<lparr>pages := ps\<rparr>) = Some h" "heap_rep h (seg_free hpre 65 hpost)" "pages h = ps"
    using assms(8) by auto
  have t: "task_store ?s2 target = Some ?t" by simp
  have h': "free_alloc target ((task_heap ?s2)\<lparr>pages := ps\<rparr>) = Some h" using h(1) by simp
  obtain s2 and q :: task_info_t where s2: "task_remove ?s2 = Some (task_sp q, s2)" "tasks_ok s2 (pre @ post)"
    "task_current s2 = successor (kernel_task ?s2) post" "task_heap s2 = h"
    using task_remove_run [OF ok assms(2) _ t umap h'] assms(3) by auto
  have "task_flags ?t AND TASK_FLAGS_RUNNING_BIT = 0" by (simp add: and.assoc)
  then have "is_ctask_running ?s2 = Some False" using assms(3) by (simp add: is_ctask_running_def)
  then have "irq_time_handle cpu ?s1 = Some (Some (task_sp q), s2)"
    using assms(6) s2(1) by (simp add: irq_time_handle_def Let_def)
  then show ?thesis using exit s2 h ps by (auto simp: used_no_unmark)
qed

section \<open>A first task\<close>

text \<open>The state after \<open>task_init\<close>, with the kernel's task at an address of the kernel image.\<close>

definition static_task :: task_info_t where
  "static_task = \<lparr>task_id = 0, stack_provider = 0, task_sp = 0, task_flags = 0, signal_code = 0, task_link = 0\<rparr>"

definition static_tasks :: "heap \<Rightarrow> tasks" where
  "static_tasks h = \<lparr>task_store = [0xFFFFFFFF80108000 \<mapsto> static_task], kernel_task = 0xFFFFFFFF80108000,
     task_current = 0, task_next = 0, next_id = 1, ticks = 0, stacks = (\<lambda>_. 0), task_heap = h\<rparr>"

lemma task_init_ok:
  assumes "task_store s (kernel_task s) = Some t" and "kernel_task s \<noteq> 0"
  shows "\<exists>s'. task_init bottom s = Some s' \<and> tasks_ok s' [kernel_task s] \<and> kernel_task s' = kernel_task s
    \<and> task_current s' = kernel_task s \<and> task_heap s' = task_heap s \<and> next_id s' = next_id s \<and> ticks s' = ticks s"
  using assms by (simp add: task_init_def tasks_ok_def)

text \<open>The heap and the page tables a first task is created from.\<close>

lemma first_task_resources:
  "\<exists>h h1 n ps. init_alloc 0xFFFFFFFF80110000 no_heap = Some h
     \<and> new_alloc 48 h = Some (0xFFFFFFFF80110011, h1) \<and> page_alloc4K (1 OR 2) (pages h1) = Some (frame_of n, ps)
     \<and> heap_rep (h1\<lparr>pages := ps\<rparr>) [(65, False), (4031, True)] \<and> heap_start h1 = 0xFFFFFFFF80110000
     \<and> data_frame ps n \<and> 7 \<le> n \<and> vmap ps (vpage (frame_of n)) AND NOT 0x1FF = frame_of n"
proof -
  obtain h where h: "init_alloc 0xFFFFFFFF80110000 no_heap = Some h" "heap_rep h [(0x1000, True)]"
    "heap_start h = 0xFFFFFFFF80110000" "heap_room (Suc 7) h"
    using kernel_heap by (auto simp: eval_nat_numeral)
  obtain h1 where h1: "new_alloc 48 h = Some (0xFFFFFFFF80110011, h1)" "heap_rep h1 [(65, False), (4031, True)]"
    "heap_start h1 = 0xFFFFFFFF80110000" "heap_room 7 h1"
    using serve [OF h(2), of 48 65 0 "[(65, False), (4031, True)]" 7] h(3,4) by (auto simp: fits_def carve_def)
  have inv: "page_inv (pages h1)" using h1(2) by (simp add: heap_rep_def pages_ok_def)
  have fl: "ok_flags (1 OR 2)" by (simp add: ok_flags_def)
  obtain n ps where ps: "page_alloc4K (1 OR 2) (pages h1) = Some (frame_of n, ps)" "page_inv ps" "n < 32768"
    "\<not> used_no (bitmap (pages h1)) n" "data_frame ps n"
    "vmap ps = (vmap (pages h1))(vpage (frame_of n) := frame_of n OR ucast (1 OR 2 :: word16))"
    using alloc4K_ok [OF inv fl] h1(4) by (auto simp: heap_room_def)
  have n7: "7 \<le> n" using page_inv_reserved [OF inv, of n] ps(4) by (cases "n < 7") auto
  have "heap_rep (h1\<lparr>pages := ps\<rparr>) [(65, False), (4031, True)]"
  proof (rule heap_rep_pages [OF h1(2) ps(2)], intro allI impI)
    fix k assume k: "k * 4096 < unat (heap_size h1)"
    have "vmap (pages h1) (vp (heap_start h1) k) \<noteq> 0" using h1(2) k by (simp add: heap_rep_def pages_ok_def)
    then show "vmap ps (vp (heap_start h1) k) \<noteq> 0" using heap_page_high [OF h1(2) k ps(3)] by (simp add: ps(6))
  qed
  moreover have "vmap ps (vpage (frame_of n)) AND NOT 0x1FF = frame_of n"
    unfolding ps(6) fun_upd_same by (rule frame_entry_base [OF ps(3) fl])
  ultimately show ?thesis using h(1) h1(1,3) ps(1,5) n7 by blast
qed

definition first_tasks :: "heap \<Rightarrow> tasks" where
  "first_tasks h = the (task_init 0xFFFFFFFF80107000 (static_tasks h))"

lemma first_tasks_ok:
  "tasks_ok (first_tasks h) [0xFFFFFFFF80108000]" "kernel_task (first_tasks h) = 0xFFFFFFFF80108000"
  "task_current (first_tasks h) = 0xFFFFFFFF80108000" "task_heap (first_tasks h) = h"
  "next_id (first_tasks h) = 1" "ticks (first_tasks h) = 0"
  using task_init_ok [of "static_tasks h" static_task "0xFFFFFFFF80107000"]
  by (auto simp: first_tasks_def static_tasks_def)

theorem switch_task_round_robin_witness:
  "\<exists>r s'. switch_tasks 0x7000 [0x7000, 0x7000] (first_tasks no_heap) = Some (r, s')
     \<and> task_current s' = 0xFFFFFFFF80108000"
  using switch_task_round_robin [OF first_tasks_ok(1), of 0 no_heap "0x7000" "[0x7000, 0x7000]"]
  by (auto simp: first_tasks_ok)

theorem preempted_task_resumes_witness:
  "\<forall>r. \<exists>s m a s' r'. fst (interrupt_entry r 0 32 m) = stacks s \<and> switch_tasks a [] s = Some (a, s')
     \<and> same_context (resume_at (stacks s) a r') r"
proof
  fix r :: cpu_register_t
  obtain m' a where e: "interrupt_entry r 0 32 (\<lambda>_. 0) = (m', a)" by fastforce
  define s where "s = first_tasks no_heap\<lparr>stacks := m'\<rparr>"
  have ok: "tasks_ok s [0xFFFFFFFF80108000]" and cur: "task_current s = [0xFFFFFFFF80108000] ! 0" and st: "stacks s = m'"
    using first_tasks_ok [of no_heap] by (simp_all add: s_def tasks_ok_def)
  have "interrupt_entry r 0 32 (\<lambda>_. 0) = (stacks s, a)" using e st by simp
  from preempted_task_resumes [OF ok _ cur this, of "[]" "stacks s" r]
  obtain s' where "switch_tasks a [] s = Some (a, s')" "same_context (resume_at (stacks s) a r) r" by auto
  moreover have "fst (interrupt_entry r 0 32 (\<lambda>_. 0)) = stacks s" using e st by simp
  ultimately show "\<exists>s m a s' r'. fst (interrupt_entry r 0 32 m) = stacks s \<and> switch_tasks a [] s = Some (a, s')
     \<and> same_context (resume_at (stacks s) a r') r" by blast
qed

theorem task_create_correct_witness:
  "\<exists>h s t. init_alloc 0xFFFFFFFF80110000 no_heap = Some h
     \<and> task_create 0x400000 0 0 0 0 0 0 0 8 16 (first_tasks h) = Some (0xFFFFFFFF80110011, s)
     \<and> task_store s 0xFFFFFFFF80110011 = Some t \<and> (\<forall>r. rip (resume_at (stacks s) (task_sp t) r) = 0x400000)"
proof -
  obtain h h1 n ps where r: "init_alloc 0xFFFFFFFF80110000 no_heap = Some h"
    "new_alloc 48 h = Some (0xFFFFFFFF80110011, h1)" "page_alloc4K (1 OR 2) (pages h1) = Some (frame_of n, ps)"
    using first_task_resources by blast
  have "new_alloc 48 (task_heap (first_tasks h)) = Some (0xFFFFFFFF80110011, h1)" using r(2) by (simp add: first_tasks_ok)
  from task_create_correct [OF first_tasks_ok(1) this r(3), of "0x400000" 0 0 0 0 0 0 0 8 16] r(1)
  show ?thesis by (auto simp: Let_def)
qed

theorem task_create_swaps_arguments_witness:
  "\<exists>h s t. init_alloc 0xFFFFFFFF80110000 no_heap = Some h
     \<and> task_create 0x400000 1 0xAAAA 0xBBBB 0 0 0 0 8 16 (first_tasks h) = Some (0xFFFFFFFF80110011, s)
     \<and> task_store s 0xFFFFFFFF80110011 = Some t \<and> (\<forall>r. rdi (resume_at (stacks s) (task_sp t) r) = 0xBBBB)"
proof -
  obtain h h1 n ps where r: "init_alloc 0xFFFFFFFF80110000 no_heap = Some h"
    "new_alloc 48 h = Some (0xFFFFFFFF80110011, h1)" "page_alloc4K (1 OR 2) (pages h1) = Some (frame_of n, ps)"
    using first_task_resources by blast
  have "new_alloc 48 (task_heap (first_tasks h)) = Some (0xFFFFFFFF80110011, h1)" using r(2) by (simp add: first_tasks_ok)
  from task_create_swaps_arguments [OF first_tasks_ok(1) this r(3), of 1 "0x400000" "0xAAAA" "0xBBBB" 0 0 0 0 8 16] r(1)
  show ?thesis by (auto simp: Let_def)
qed

text \<open>A task from its creation to its end.\<close>

theorem exited_task_is_removed_witness:
  "\<exists>h s1 s2 s3 s4 a sp. init_alloc 0xFFFFFFFF80110000 no_heap = Some h
     \<and> task_create 0x400000 0 0 0 0 0 0 0 8 16 (first_tasks h) = Some (0xFFFFFFFF80110011, s1)
     \<and> switch_task 0x7000 s1 = Some (a, s2) \<and> task_current s2 = 0xFFFFFFFF80110011
     \<and> task_exit 0xDEAD1234 s2 = Some (True, s3) \<and> irq_time_handle 0x8000 s3 = Some (Some sp, s4)
     \<and> tasks_ok s4 [0xFFFFFFFF80108000] \<and> task_current s4 = 0xFFFFFFFF80108000
     \<and> heap_rep (task_heap s4) [(0x1000, True)]"
proof -
  let ?k = "0xFFFFFFFF80108000 :: qword" and ?p = "0xFFFFFFFF80110011 :: qword"
  obtain h h1 n ps where r: "init_alloc 0xFFFFFFFF80110000 no_heap = Some h"
    "new_alloc 48 h = Some (?p, h1)" "page_alloc4K (1 OR 2) (pages h1) = Some (frame_of n, ps)"
    "heap_rep (h1\<lparr>pages := ps\<rparr>) [(65, False), (4031, True)]" "heap_start h1 = 0xFFFFFFFF80110000"
    "data_frame ps n" "7 \<le> n" "vmap ps (vpage (frame_of n)) AND NOT 0x1FF = frame_of n"
    using first_task_resources by blast
  have "new_alloc 48 (task_heap (first_tasks h)) = Some (?p, h1)" using r(2) by (simp add: first_tasks_ok)
  from task_create_run [OF first_tasks_ok(1) this r(3), of "0x400000" 0 0 0 0 0 0 0 8 16]
  obtain s1 t where s1: "task_create 0x400000 0 0 0 0 0 0 0 8 16 (first_tasks h) = Some (?p, s1)"
    "tasks_ok s1 [?k, ?p]" "task_current s1 = ?k" "task_store s1 ?p = Some t" "task_id t = 1"
    "stack_provider t = frame_of n" "task_heap s1 = h1\<lparr>pages := ps\<rparr>" "ticks s1 = 0" "kernel_task s1 = ?k"
    by (auto simp: first_tasks_ok)
  obtain a u where s2: "switch_task 0x7000 s1 = Some (a, switched [?k, ?p] 0 u 0x7000 s1)"
    "tasks_ok (switched [?k, ?p] 0 u 0x7000 s1) [?k, ?p]"
    using switch_task_next [OF s1(2), of 0 "0x7000"] s1(3) by auto
  let ?s2 = "switched [?k, ?p] 0 u 0x7000 s1"
  have st: "task_store ?s2 ?p = Some t" "task_current ?s2 = ?p" "task_heap ?s2 = h1\<lparr>pages := ps\<rparr>"
    "ticks ?s2 = 0" "kernel_task ?s2 = ?k"
    using s1(4,7-9) by (simp_all add: switched_def)
  have ok: "tasks_ok ?s2 ([?k] @ ?p # [])" using s2(2) by simp
  have t1: "(ucast (task_id t) :: dword) \<noteq> 0" by (simp add: s1(5))
  have tick: "(ticks ?s2 + 1) mod 1000 \<noteq> 0" by (simp add: st(4))
  have rep: "heap_rep (task_heap ?s2) ([] @ (65, False) # [(4031, True)])" using r(4) by (simp add: st(3))
  have p: "?p = heap_start (task_heap ?s2) + of_nat (segsum [] + 17)" by (simp add: st(3) r(5))
  have d: "data_frame (pages (task_heap ?s2)) n" "vmap (pages (task_heap ?s2)) (vpage (frame_of n)) AND NOT 0x1FF = frame_of n"
    using r(6,8) by (simp_all add: st(3))
  from exited_task_is_removed [OF ok _ st(2,1) t1 tick rep p s1(6) d(1) r(7) d(2), of "0xDEAD1234" "0x8000"]
  show ?thesis using r(1) s1(1) s2(1) st(2,5) by (auto simp: seg_free_def successor_def)
qed

end
