(* ===== verification/Elf_Load.thy ===== *)
theory Elf_Load
  imports Elf_Props Task_End
begin

text \<open>
  The loader as a whole: a valid file is loaded, entered and removed again; the other ends of
  \<open>elf64_load\<close>.
\<close>

section \<open>Unloading\<close>

lemma unmap_segment:
  assumes inv: "page_inv s" and own: "own_frames V s" and sub: "seg_pages p \<subseteq> V" "window_page \<notin> V"
    and n: "page_count (memsize p) \<le> 0x80000"
  shows "\<exists>s'. page_umapv (virt_addr p) (memsize p) s = Some s' \<and> page_inv s' \<and> own_frames (V - seg_pages p) s'
    \<and> (\<forall>v. vmap s' v = (if v \<in> seg_pages p then 0 else vmap s v)) \<and> free_count s \<le> free_count s'"
proof -
  let ?n = "page_count (memsize p)" and ?vp = "vp (virt_addr p)"
  obtain f where f: "inj_on f V" "\<forall>v \<in> V. vmap s v AND NOT 0x1FF = frame_of (f v) \<and> 7 \<le> f v \<and> data_frame s (f v)"
    using own by (auto simp: own_frames_def)
  have V: "\<forall>k < ?n. ?vp k \<in> V" using sub(1) by (auto simp: seg_pages_def)
  have "inj_on (f \<circ> ?vp) {..<?n}"
    by (intro comp_inj_on vp_inj n inj_on_subset [OF f(1)]) (use V in auto)
  moreover have "\<forall>k < ?n. ?vp k \<noteq> window_page" using V sub(2) by metis
  ultimately obtain s' where s': "page_umapv (virt_addr p) (memsize p) s = Some s'" "page_inv s'"
    "\<forall>v. vmap s' v = (if \<exists>k < ?n. v = ?vp k then 0 else vmap s v)"
    "\<forall>m. used_no (bitmap s') m \<longleftrightarrow> used_no (bitmap s) m \<and> (\<forall>k < ?n. m \<noteq> f (?vp k))"
    "\<forall>q. length q \<le> 3 \<longrightarrow> tab s' q = tab s q"
    using umapv_loop [OF inv n, of "virt_addr p" "f \<circ> ?vp"] f(2) V unfolding page_umapv_def comp_def by blast
  have map': "vmap s' v = (if v \<in> seg_pages p then 0 else vmap s v)" for v
  proof -
    have "(\<exists>k < ?n. v = ?vp k) \<longleftrightarrow> v \<in> seg_pages p" by (auto simp: seg_pages_def)
    then show ?thesis using s'(3) [rule_format, of v] by simp
  qed
  have "data_frame s' (f v)" if "v \<in> V - seg_pages p" for v
  proof -
    have "\<forall>k < ?n. f v \<noteq> f (?vp k)"
      using that V inj_onD [OF f(1)] unfolding seg_pages_def by (metis DiffD1 DiffD2 imageI lessThan_iff)
    then show ?thesis using that f(2) s'(4,5) by (auto simp: data_frame_def)
  qed
  then have "own_frames (V - seg_pages p) s'"
    unfolding own_frames_def using f inj_on_subset [OF f(1), of "V - seg_pages p"] map' by (intro exI [of _ f]) auto
  moreover have "free_count s \<le> free_count s'"
    unfolding free_count_def by (intro card_mono) (use s'(4) in auto)
  ultimately show ?thesis using s'(1,2) map' by blast
qed

lemma set_pages_id [simp]: "set_pages (pages (k_heap k)) k = k"
  by (simp add: set_pages_def set_heap_def)

lemma set_pages_twice [simp]: "set_pages ps (set_pages qs k) = set_pages ps k"
  by (simp add: set_pages_def set_heap_def)

lemma unload_segments_ok:
  assumes "page_inv (pages (k_heap k))" and "own_frames V (pages (k_heap k))" and "all_pages progs \<subseteq> V" and "window_page \<notin> V"
    and "separate W progs" and "\<forall>p \<in> set progs. type_segment p = EPT_LOAD \<longrightarrow> page_count (memsize p) \<le> 0x80000"
  shows "\<exists>ps. feed unload_segment progs k = Some (set_pages ps k) \<and> page_inv ps
    \<and> (\<forall>v. vmap ps v = (if v \<in> all_pages progs then 0 else vmap (pages (k_heap k)) v))
    \<and> free_count (pages (k_heap k)) \<le> free_count ps"
  using assms
proof (induction progs arbitrary: k V W)
  case Nil
  then show ?case by (intro exI [of _ "pages (k_heap k)"]) simp
next
  case (Cons p progs)
  show ?case
  proof (cases "type_segment p = EPT_LOAD")
    case True
    obtain s1 where s1: "page_umapv (virt_addr p) (memsize p) (pages (k_heap k)) = Some s1" "page_inv s1"
      "own_frames (V - seg_pages p) s1" "\<forall>v. vmap s1 v = (if v \<in> seg_pages p then 0 else vmap (pages (k_heap k)) v)"
      "free_count (pages (k_heap k)) \<le> free_count s1"
      using unmap_segment [OF Cons.prems(1,2) _ Cons.prems(4), of p] Cons.prems(3,6) True by auto
    have sep: "separate (W \<union> seg_pages p) progs" using Cons.prems(5) True by simp
    have "all_pages progs \<subseteq> V - seg_pages p" using separate_disjoint [OF sep] Cons.prems(3) True by auto
    from Cons.IH [of "set_pages s1 k", OF _ _ this _ sep] obtain s2 where
      s2: "feed unload_segment progs (set_pages s1 k) = Some (set_pages s2 k)" "page_inv s2"
        "\<forall>v. vmap s2 v = (if v \<in> all_pages progs then 0 else vmap s1 v)" "free_count s1 \<le> free_count s2"
      using s1(2,3) Cons.prems(4,6) by auto
    have "unload_segment p k = Some (set_pages s1 k)" using s1(1) True by (simp add: unload_segment_def)
    then show ?thesis
      using s2 s1(4,5) True by (intro exI [of _ s2]) (simp del: split_paired_All)
  next
    case False
    then have "unload_segment p k = Some k" by (simp add: unload_segment_def)
    then show ?thesis using Cons.IH [OF Cons.prems(1,2) _ Cons.prems(4), of W] Cons.prems(3,5,6) False by simp
  qed
qed

section \<open>Up to the entry of the program\<close>

text \<open>A program file: its header and its table lie in the cluster \<open>data\<close>.\<close>

definition elf_file :: "buffer \<Rightarrow> elf64_header_t \<Rightarrow> elf64_program_t list \<Rightarrow> bool" where
  "elf_file data hdr progs \<longleftrightarrow> 64 \<le> length data \<and> take 4 data = 0x7F # chars ''ELF'' \<and> hdr = elf64_header_of (take 64 data)
     \<and> 0 < unat (count_prog hdr) \<and> unat (prog_header_table_off hdr) + 56 * unat (count_prog hdr) \<le> length data
     \<and> progs = programs_of (take (56 * unat (count_prog hdr)) (drop (unat (prog_header_table_off hdr)) data)) (unat (count_prog hdr))"

text \<open>
  The file can be opened, with messages that can be printed on the way; \<open>data\<close> is its first
  cluster, and the end of the heap is free.
\<close>

definition file_ready :: "seg list \<Rightarrow> nat \<Rightarrow> nat \<Rightarrow> buffer \<Rightarrow> buffer \<Rightarrow> kernel \<Rightarrow> bool" where
  "file_ready used n g filename data k \<longleftrightarrow> plain_fat (k_fs k) \<and> heap_tail used n g (k_heap k) \<and> term_ok (k_term k) \<and> name_ok filename
     \<and> (\<exists>f said ds. fat_fileOpen (k_fname k) filename (k_fs k) = Some (f, said) \<and> said_ok said \<and> current_cluster f \<noteq> 0xFFFFFFFF
          \<and> data_start (k_fs k) = Some ds \<and> data = cluster_data (k_fs k) ds (cluster f))"

text \<open>The heap has room for the objects of the loader and the buffers of the file system.\<close>

definition loader_room :: "nat \<Rightarrow> nat \<Rightarrow> kernel \<Rightarrow> bool" where
  "loader_room cnt n k \<longleftrightarrow> 2 * (56 * cnt + 512 * spc (k_fs k) + 100) \<le> n"

lemma loader_roomD:
  assumes "loader_room cnt n k"
  shows "2 * (56 * cnt + 17) \<le> n - 112" and "2 * (512 * spc (k_fs k) + 17) \<le> n - 112 - (56 * cnt + 17)"
  using assms by (simp_all add: loader_room_def)

lemma open_offset: "fat_fileOpen fname0 filename s = Some (f, said) \<Longrightarrow> offset f = 0"
  by (auto simp: fat_fileOpen_def Let_def bind_eq_Some_conv split: if_splits)

text \<open>
  The header has been read.  \<open>hp\<close> and \<open>fp\<close> are the addresses of the header and of the file.
\<close>

definition header_at :: "seg list \<Rightarrow> kernel \<Rightarrow> qword" where
  "header_at used k = heap_start (k_heap k) + of_nat (segsum used + 17)"

definition file_at :: "seg list \<Rightarrow> kernel \<Rightarrow> qword" where
  "file_at used k = heap_start (k_heap k) + of_nat (segsum used + 81 + 17)"

lemma header_read:
  assumes ready: "file_ready used n g filename data k" and room: "loader_room 0 n k"
  shows "\<exists>k2 k3 k4 k5 f. k_alloc 64 k = Some (header_at used k, k2) \<and> sys_open filename k2 = Some (file_at used k, k3)
    \<and> k_files k3 (file_at used k) = Some f \<and> current_cluster f \<noteq> 0xFFFFFFFF
    \<and> k_printf (\<lambda>p. Some filename) (''[Debug]: %s is found'' @ NL) [0] k3 = Some k4
    \<and> file_read (file_at used k) (replicate 64 0) 64 k4 = Some (take 64 data, k5)
    \<and> reader ((used @ [(81, False), (31, False)]) @ [(n - 112, True)]) g (file_at used k) data k5
    \<and> same_sys (file_at used k) k k5 \<and> k_mem k5 = k_mem k \<and> pages (k_heap k5) = pages (k_heap k)"
proof -
  let ?used = "used @ [(81, False), (31, False)]"
  obtain f said ds where f: "fat_fileOpen (k_fname k) filename (k_fs k) = Some (f, said)" "current_cluster f \<noteq> 0xFFFFFFFF" "said_ok said"
    and ds: "data_start (k_fs k) = Some ds" "data = cluster_data (k_fs k) ds (cluster f)"
    and k: "plain_fat (k_fs k)" "heap_tail used n g (k_heap k)" "term_ok (k_term k)" "name_ok filename"
    using ready unfolding file_ready_def by blast
  have spc: "1 \<le> spc (k_fs k)" "spc (k_fs k) \<le> 128" using k(1) by (auto simp: plain_fat_def)
  have n: "162 \<le> n" using room by (simp add: loader_room_def)
  obtain hp fp k2 h2 t0 where o: "k_alloc 64 k = Some (hp, k2)"
    "sys_open filename k2 = Some (fp, k\<lparr>k_term := t0, k_fs := (k_fs k)\<lparr>fheap := h2\<rparr>, k_files := (k_files k)(fp \<mapsto> f)\<rparr>)"
    "term_ok t0"
    "hp = heap_start h2 + of_nat (segsum used + 17)" "fp = heap_start h2 + of_nat (segsum used + 81 + 17)"
    "heap_tail ?used (n - 112) g h2" "pages h2 = pages (k_heap k)" "heap_start h2 = heap_start (k_heap k)"
    by (rule open_file_ok [OF k(2) f(1) n k(3) f(3)])
  let ?k3 = "k\<lparr>k_term := t0, k_fs := (k_fs k)\<lparr>fheap := h2\<rparr>, k_files := (k_files k)(fp \<mapsto> f)\<rparr>"
  have "packed ?used" using o(6) by (simp add: heap_tail_def)
  then have sc: "scratch (?used @ [(n - 112, True)]) m" if "m = 512 \<or> m = 512 * spc (k_fs k)" for m
    using that room spc by (intro scratch_tail) (auto simp: loader_room_def)
  have r3: "reader (?used @ [(n - 112, True)]) g fp data ?k3" "position fp ?k3 = 0"
  proof -
    have "heap_rep h2 (?used @ [(n - 112, True)])" "heap_room (Suc g) h2" using o(6) by (simp_all only: heap_tail_def)
    then show "reader (?used @ [(n - 112, True)]) g fp data ?k3"
      unfolding reader_def using k(1) o(3) sc ds by (intro conjI) simp_all
    show "position fp ?k3 = 0" using open_offset [OF f(1)] by (simp add: position_def)
  qed
  obtain t where t: "k_printf (\<lambda>p. Some filename) (''[Debug]: %s is found'' @ NL) [0] ?k3 = Some (?k3\<lparr>k_term := t\<rparr>)" "term_ok t"
    using found_message(1) [of ?k3, OF _ k(4)] o(3) by auto
  let ?k4 = "?k3\<lparr>k_term := t\<rparr>"
  have r4: "reader (?used @ [(n - 112, True)]) g fp data ?k4" "position fp ?k4 = 0"
    using reader_term [OF r3(1) t(2)] r3(2) by (simp_all add: position_def)
  obtain k5 where k5: "file_read fp (replicate 64 0) 64 ?k4 = Some (take 64 data, k5)"
    "reader (?used @ [(n - 112, True)]) g fp data k5" "same_user fp ?k4 k5"
    using file_read_near [OF r4(1), of 64 "replicate 64 0"] r4(2) reader_size [OF r4(1)] spc by auto
  have "same_sys fp k ?k4" using o(8) by (simp add: same_sys_def)
  then have "same_sys fp k k5" "k_mem k5 = k_mem k" "pages (k_heap k5) = pages (k_heap k)"
    using k5(3) same_sys_trans [of fp k ?k4 k5] o(7) by (auto simp: same_user_def)
  moreover have "hp = header_at used k" "fp = file_at used k"
    using o(4,5,8) by (simp_all add: header_at_def file_at_def)
  ultimately show ?thesis using o(1,2) f(2) t(1) k5(1,2) by fastforce
qed

text \<open>The test of the magic number.\<close>

lemma magic_test:
  assumes "64 \<le> length data"
  shows "(if take 64 data ! 0 \<noteq> 0x7F then Some True else do { r \<leftarrow> strncmp (lit ''ELF'') (drop 1 (take 64 data)) 3; Some (r = 1) })
    = Some (take 4 data \<noteq> 0x7F # chars ''ELF'')"
proof -
  have "strncmp (lit ''ELF'') (drop 1 (take 64 data)) 3 = Some (if chars ''ELF'' = take 3 (drop 1 data) then 0 else 1)"
    using assms by (subst strncmp_take) (simp_all add: lit_def chars_def take_drop min_def)
  moreover have "take 4 data = data ! 0 # take 3 (drop 1 data)"
    using assms by (cases data) simp_all
  ultimately show ?thesis using assms by auto
qed

definition programs_at :: "seg list \<Rightarrow> kernel \<Rightarrow> qword" where
  "programs_at used k = heap_start (k_heap k) + of_nat (segsum used + 112 + 17)"

text \<open>The segments of the heap while the program runs.\<close>

definition loader_segs :: "seg list \<Rightarrow> nat \<Rightarrow> nat \<Rightarrow> seg list" where
  "loader_segs used cnt n = used @ [(81, False), (31, False), (56 * cnt + 17, False), (n - (56 * cnt + 129), True)]"

lemma elf64_load_ok:
  assumes ready: "file_ready used n (g + pages_needed progs) filename data k" and elf: "elf_file data hdr progs"
    and load: "loadable data (pages (k_heap k)) progs" and room: "loader_room (unat (count_prog hdr)) n k"
  shows "\<exists>k'. (\<forall>run. elf64_load run filename k
        = do { (v, k7) \<leftarrow> run (prog_entry_off hdr) k'; elf64_leave (header_at used k) (file_at used k) (programs_at used k) progs k7 })
    \<and> k_mem k' = memory_image data progs (k_mem k)
    \<and> (\<forall>p \<in> set progs. type_segment p = EPT_LOAD \<longrightarrow> all_mapped k' (virt_addr p) (unat (memsize p)))
    \<and> reader (loader_segs used (unat (count_prog hdr)) n) g (file_at used k) data k' \<and> adds progs (pages (k_heap k)) (pages (k_heap k'))
    \<and> same_sys (file_at used k) k k'"
proof -
  let ?cnt = "unat (count_prog hdr)" and ?used = "used @ [(81, False), (31, False)]" and ?fp = "file_at used k"
  have "loader_room 0 n k" using room by (simp add: loader_room_def)
  from header_read [OF ready this] obtain k2 k3 k4 k5 f where
    pre: "k_alloc 64 k = Some (header_at used k, k2)" "sys_open filename k2 = Some (?fp, k3)"
      "k_files k3 ?fp = Some f" "current_cluster f \<noteq> 0xFFFFFFFF"
      "k_printf (\<lambda>p. Some filename) (''[Debug]: %s is found'' @ NL) [0] k3 = Some k4"
      "file_read ?fp (replicate 64 0) 64 k4 = Some (take 64 data, k5)"
    and r5: "reader (?used @ [(n - 112, True)]) (g + pages_needed progs) ?fp data k5"
    and same: "same_sys ?fp k k5" "k_mem k5 = k_mem k" "pages (k_heap k5) = pages (k_heap k)"
    by metis
  have len: "64 \<le> length data" using elf by (simp add: elf_file_def)
  have "term_ok (k_term k5)" using r5 by (simp add: reader_def)
  then obtain t where t: "k_printf (\<lambda>p. None) (''Hel'' @ NL) [] k5 = Some (k5\<lparr>k_term := t\<rparr>)" "term_ok t"
    using text_message [of k5 "''Hel'' @ NL" "\<lambda>p. None"] by auto
  let ?k6 = "k5\<lparr>k_term := t\<rparr>"
  have "packed used" using ready by (simp add: file_ready_def heap_tail_def)
  then have "packed ?used" by (simp add: packed_def fits_def)
  moreover have "spc (k_fs k5) = spc (k_fs k)"
    using same(1) by (metis fheap_upd_simps(3) same_sys_def but_heap_def)
  moreover have "2 * (56 * ?cnt + 17) \<le> n - 112" "2 * (512 * spc (k_fs k) + 17) \<le> n - 112 - (56 * ?cnt + 17)"
    by (rule loader_roomD [OF room])+
  moreover have e: "0 < ?cnt" "unat (prog_header_table_off hdr) + 56 * ?cnt \<le> length data"
    "progs = programs_of (take (56 * ?cnt) (drop (unat (prog_header_table_off hdr)) data)) ?cnt"
    using elf unfolding elf_file_def by blast+
  ultimately obtain k' where k': "elf64_enter (header_at used k) ?fp hdr ?k6
      = Some (heap_start (k_heap ?k6) + of_nat (segsum ?used + 17), progs, k')"
    "adds progs (pages (k_heap ?k6)) (pages (k_heap k'))" "k_mem k' = memory_image data progs (k_mem ?k6)"
    "\<forall>p \<in> set progs. type_segment p = EPT_LOAD \<longrightarrow> all_mapped k' (virt_addr p) (unat (memsize p))"
    "reader ((?used @ [(56 * ?cnt + 17, False)]) @ [(n - 112 - (56 * ?cnt + 17), True)]) g ?fp data k'" "same_sys ?fp ?k6 k'"
    using elf64_enter_ok [OF reader_term [OF r5 t(2)] _ refl e] load same(3) by (simp del: append_assoc) blast
  have addr: "heap_start (k_heap ?k6) + of_nat (segsum ?used + 17) = programs_at used k"
    using same(1) by (simp add: same_sys_def programs_at_def add_ac)
  have "elf64_load run filename k
      = do { (v, k7) \<leftarrow> run (prog_entry_off hdr) k'; elf64_leave (header_at used k) ?fp (programs_at used k) progs k7 }" for run
    unfolding elf64_load_def pre Option.bind.bind_lunit t(1)
    using pre(3,4) magic_test [OF len] elf k'(1) addr t(1) pre(5,6)
    by (simp add: elf_file_def pre(1,2) Let_def)
  moreover have "same_sys ?fp k k'" using same_sys_trans [OF same(1), of k'] k'(6) by (simp add: same_sys_def)
  moreover have "reader (loader_segs used ?cnt n) g ?fp data k'" using k'(5) by (simp add: loader_segs_def add_ac)
  ultimately show ?thesis using k'(2-4) same(2,3) by auto
qed

section \<open>After the program\<close>

lemma but_heap_eq: "but_heap s = but_heap s' \<Longrightarrow> s = s'\<lparr>fheap := fheap s\<rparr>"
  by (cases s, cases s') (simp add: but_heap_def)

lemma print_line:
  assumes "term_ok (k_term k)" and "list_all (\<lambda>c. of_char c < (128 :: byte) \<and> of_char c \<noteq> (0 :: byte) \<and> of_char c \<noteq> PERCENT) s"
  obtains t where "k_printf mem s [] k = Some (k\<lparr>k_term := t\<rparr>)" and "term_ok t"
  using text_message [OF assms] by blast

text \<open>Giving back the table of programs, the header and the file.\<close>

lemma release_objects:
  assumes rep: "heap_rep h (loader_segs used cnt n)" and room: "heap_room g h" and n: "56 * cnt + 129 \<le> n" and packed: "packed used"
  shows "\<exists>h1 h2 h3. free_alloc (heap_start h + of_nat (segsum used + 112 + 17)) h = Some h1
    \<and> free_alloc (heap_start h + of_nat (segsum used + 17)) h1 = Some h2
    \<and> free_alloc (heap_start h + of_nat (segsum used + 81 + 17)) h2 = Some h3
    \<and> heap_rep h3 (used @ [(81, True), (n - 81, True)]) \<and> heap_room g h3 \<and> heap_start h3 = heap_start h \<and> pages h3 = pages h"
proof -
  obtain h1 where h1: "free_alloc (heap_start h + of_nat (segsum used + 112 + 17)) h = Some h1"
    "heap_rep h1 (used @ (81, False) # [(31, False), (n - 112, True)])" "heap_start h1 = heap_start h" "pages h1 = pages h" "heap_room g h1"
    using free_block [of h "used @ [(81, False), (31, False)]" "56 * cnt + 17" False "[(n - (56 * cnt + 129), True)]" g] rep room n
    by (auto simp: loader_segs_def seg_free_def add_ac)
  obtain h2 where h2: "free_alloc (heap_start h + of_nat (segsum used + 17)) h1 = Some h2"
    "heap_rep h2 ((used @ [(81, True)]) @ (31, False) # [(n - 112, True)])" "heap_start h2 = heap_start h" "pages h2 = pages h" "heap_room g h2"
    using free_block [OF h1(2,5)] h1(3,4) by (auto simp: seg_free_def)
  obtain h3 where h3: "free_alloc (heap_start h + of_nat (segsum used + 81 + 17)) h2 = Some h3"
    "heap_rep h3 (used @ [(81, True), (n - 81, True)])" "heap_start h3 = heap_start h" "pages h3 = pages h" "heap_room g h3"
    using free_block [OF h2(2,5)] h2(3,4) n by (auto simp: seg_free_def add_ac)
  show ?thesis using h1(1) h2(1) h3 by blast
qed

lemma elf64_leave_ok:
  assumes rep: "heap_rep (k_heap k) (loader_segs used cnt n)" and room: "heap_room g (k_heap k)" and n: "56 * cnt + 129 \<le> n"
    and packed: "packed used" and tok: "term_ok (k_term k)" and own: "own_frames (all_pages progs) (pages (k_heap k))"
    and sep: "separate {} progs" and pgs: "window_page \<notin> all_pages progs" "\<forall>p \<in> set progs. type_segment p = EPT_LOAD \<longrightarrow> page_count (memsize p) \<le> 0x80000"
    and heap: "\<forall>j. j * 4096 < unat (heap_size (k_heap k)) \<longrightarrow> vp (heap_start (k_heap k)) j \<notin> all_pages progs"
    and ex: "task_exit 0 (k_tasks k) = Some (spins, ts)"
  shows "\<exists>k'. elf64_leave (header_at used k) (file_at used k) (programs_at used k) progs k
      = Some (if spins then Ended else Returned 0, k')
    \<and> heap_rep (k_heap k') (used @ [(81, True), (n - 81, True)]) \<and> heap_room g (k_heap k') \<and> term_ok (k_term k')
    \<and> (\<forall>v. vmap (pages (k_heap k')) v = (if v \<in> all_pages progs then 0 else vmap (pages (k_heap k)) v))
    \<and> k_files k' = (k_files k)(file_at used k := None) \<and> k_tasks k' = ts \<and> k_mem k' = k_mem k
    \<and> but_heap (k_fs k') = but_heap (k_fs k)"
proof -
  let ?h = "k_heap k"
  have inv: "page_inv (pages ?h)" using rep by (simp add: heap_rep_def pages_ok_def)
  obtain ps where ps: "feed unload_segment progs k = Some (set_pages ps k)" "page_inv ps"
    "\<forall>v. vmap ps v = (if v \<in> all_pages progs then 0 else vmap (pages ?h) v)" "free_count (pages ?h) \<le> free_count ps"
    using unload_segments_ok [OF inv own subset_refl pgs(1) sep pgs(2)] by blast
  have "\<forall>j. j * 4096 < unat (heap_size ?h) \<longrightarrow> vmap ps (vp (heap_start ?h) j) \<noteq> 0"
    using heap ps(3) rep by (auto simp: heap_rep_def pages_ok_def simp del: split_paired_All)
  then have rep1: "heap_rep (?h\<lparr>pages := ps\<rparr>) (loader_segs used cnt n)" by (rule heap_rep_pages [OF rep ps(2)])
  have room1: "heap_room g (?h\<lparr>pages := ps\<rparr>)" using room ps(4) by (simp add: heap_room_def)
  obtain h1 h2 h3 where h: "free_alloc (programs_at used k) (?h\<lparr>pages := ps\<rparr>) = Some h1" "free_alloc (header_at used k) h1 = Some h2"
    "free_alloc (file_at used k) h2 = Some h3" "heap_rep h3 (used @ [(81, True), (n - 81, True)])" "heap_room g h3" "pages h3 = ps"
    using release_objects [OF rep1 room1 n packed] by (auto simp: programs_at_def header_at_def file_at_def)
  let ?k1 = "set_pages ps k"
  obtain t2 where t2: "k_printf (\<lambda>p. None) (''[Debug elf64_load]: Deleting ELF64 Programs Lists'' @ NL) [] ?k1 = Some (?k1\<lparr>k_term := t2\<rparr>)"
    "term_ok t2" using print_line [of ?k1 "''[Debug elf64_load]: Deleting ELF64 Programs Lists'' @ NL" "\<lambda>p. None"] tok by auto
  let ?k3 = "set_heap h1 (?k1\<lparr>k_term := t2\<rparr>)"
  obtain t4 where t4: "k_printf (\<lambda>p. None) (''[Debug elf64_load]: Deleting ELF64 Header'' @ NL) [] ?k3 = Some (?k3\<lparr>k_term := t4\<rparr>)"
    "term_ok t4" using print_line [of ?k3 "''[Debug elf64_load]: Deleting ELF64 Header'' @ NL" "\<lambda>p. None"] t2(2) by auto
  let ?k5 = "set_heap h2 (?k3\<lparr>k_term := t4\<rparr>)"
  obtain t6 where t6: "k_printf (\<lambda>p. None) (''[Debug elf64_load]: Close file'' @ NL) [] ?k5 = Some (?k5\<lparr>k_term := t6\<rparr>)"
    "term_ok t6" using print_line [of ?k5 "''[Debug elf64_load]: Close file'' @ NL" "\<lambda>p. None"] t4(2) by auto
  let ?k7 = "(set_heap h3 (?k5\<lparr>k_term := t6\<rparr>))\<lparr>k_files := (k_files k)(file_at used k := None)\<rparr>"
  obtain t8 where t8: "k_printf (\<lambda>p. None) (''[Debug elf64_load]: Clear done'' @ NL) [] ?k7 = Some (?k7\<lparr>k_term := t8\<rparr>)"
    "term_ok t8" using print_line [of ?k7 "''[Debug elf64_load]: Clear done'' @ NL" "\<lambda>p. None"] t6(2) by auto
  have "elf64_leave (header_at used k) (file_at used k) (programs_at used k) progs k
      = Some (if spins then Ended else Returned 0, ?k7\<lparr>k_term := t8, k_tasks := ts\<rparr>)"
    using ps(1) t2(1) t4(1) t6(1) t8(1) h(1-3) ex
    by (simp add: elf64_leave_def k_free_def sys_close_def exit_task_def)
  then show ?thesis using h(4-6) t8(2) ps(3) by (intro exI conjI) (assumption | simp del: split_paired_All)+
qed

section \<open>A program from start to end\<close>

text \<open>A program that returns and changes nothing but its memory and the text on the screen.\<close>

definition plain_program :: "(qword \<Rightarrow> kernel \<Rightarrow> (dword \<times> kernel) option) \<Rightarrow> qword \<Rightarrow> bool" where
  "plain_program run entry \<longleftrightarrow>
     (\<forall>k. term_ok (k_term k) \<longrightarrow> (\<exists>v m t. run entry k = Some (v, k\<lparr>k_mem := m, k_term := t\<rparr>) \<and> term_ok t))"

text \<open>The pages of the segments are not mapped, and no two segments share one.\<close>

definition own_pages :: "pstate \<Rightarrow> elf64_program_t list \<Rightarrow> bool" where
  "own_pages s progs \<longleftrightarrow> separate {} progs \<and> (\<forall>v \<in> all_pages progs. vmap s v = 0)"

lemma loadable_window: "loadable data s progs \<Longrightarrow> window_page \<notin> all_pages progs"
  by (fastforce simp: loadable_def range_ok_def all_pages_def seg_pages_def)

lemma pages_needed_le: "p \<in> set progs \<Longrightarrow> type_segment p = EPT_LOAD \<Longrightarrow> page_count (memsize p) \<le> pages_needed progs"
  by (induction progs) (auto simp: pages_needed_def)

lemma elf64_load_run_ok:
  assumes ready: "file_ready used n (g + pages_needed progs) filename data k" and elf: "elf_file data hdr progs"
    and load: "loadable data (pages (k_heap k)) progs" and room: "loader_room (unat (count_prog hdr)) n k"
    and own: "own_pages (pages (k_heap k)) progs" and run: "plain_program run (prog_entry_off hdr)"
    and ex: "task_exit 0 (k_tasks k) = Some (spins, ts)"
  shows "\<exists>k'. elf64_load run filename k = Some (if spins then Ended else Returned 0, k')
    \<and> vmap (pages (k_heap k')) = vmap (pages (k_heap k)) \<and> heap_rep (k_heap k') (used @ [(81, True), (n - 81, True)])
    \<and> k_files k' = (k_files k)(file_at used k := None) \<and> k_tasks k' = ts \<and> term_ok (k_term k')
    \<and> but_heap (k_fs k') = but_heap (k_fs k)"
proof -
  let ?cnt = "unat (count_prog hdr)" and ?fp = "file_at used k"
  obtain k1 where k1: "\<forall>run. elf64_load run filename k
      = do { (v, k7) \<leftarrow> run (prog_entry_off hdr) k1; elf64_leave (header_at used k) ?fp (programs_at used k) progs k7 }"
    "reader (loader_segs used ?cnt n) g ?fp data k1" "adds progs (pages (k_heap k)) (pages (k_heap k1))" "same_sys ?fp k k1"
    using elf64_load_ok [OF ready elf load room] by blast
  have "term_ok (k_term k1)" using k1(2) by (simp add: reader_def)
  then obtain v m t where r: "run (prog_entry_off hdr) k1 = Some (v, k1\<lparr>k_mem := m, k_term := t\<rparr>)" "term_ok t"
    using run unfolding plain_program_def by blast
  let ?k2 = "k1\<lparr>k_mem := m, k_term := t\<rparr>"
  have rep: "heap_rep (k_heap ?k2) (loader_segs used ?cnt n)" and room2: "heap_room (Suc g) (k_heap ?k2)"
    using k1(2) by (simp_all add: reader_def)
  have tail: "packed used" "heap_rep (k_heap k) (used @ [(n, True)])" "heap_room (Suc (g + pages_needed progs)) (k_heap k)"
    using ready by (simp_all add: file_ready_def heap_tail_def)
  have n: "56 * ?cnt + 129 \<le> n" using room by (simp add: loader_room_def)
  have o: "separate {} progs" "\<forall>v \<in> all_pages progs. vmap (pages (k_heap k)) v = 0"
    using own unfolding own_pages_def by blast+
  have frames: "own_frames (all_pages progs) (pages (k_heap ?k2))"
    using k1(3) o own_frames_empty [of "pages (k_heap k)"] unfolding adds_def by fastforce
  have "pages_needed progs \<le> 0x80000"
    using tail(3) free_count_le [of "pages (k_heap k)"] by (simp add: heap_room_def)
  then have cnt: "\<forall>p \<in> set progs. type_segment p = EPT_LOAD \<longrightarrow> page_count (memsize p) \<le> 0x80000"
    using pages_needed_le le_trans by blast
  have h: "heap_start (k_heap k1) = heap_start (k_heap k)" "k_tasks k1 = k_tasks k" using k1(4) by (simp_all add: same_sys_def)
  have size: "heap_size (k_heap k1) = heap_size (k_heap k)"
    using rep tail(2) n by (simp add: heap_rep_def loader_segs_def word_unat_eq_iff)
  have "\<forall>j. j * 4096 < unat (heap_size (k_heap k)) \<longrightarrow> vp (heap_start (k_heap k)) j \<notin> all_pages progs"
    using tail(2) o(2) by (auto simp: heap_rep_def pages_ok_def)
  then have hp: "\<forall>j. j * 4096 < unat (heap_size (k_heap ?k2)) \<longrightarrow> vp (heap_start (k_heap ?k2)) j \<notin> all_pages progs"
    by (simp add: h size)
  have at: "header_at used ?k2 = header_at used k" "file_at used ?k2 = ?fp" "programs_at used ?k2 = programs_at used k"
    by (simp_all add: header_at_def file_at_def programs_at_def h)
  have ex2: "task_exit 0 (k_tasks ?k2) = Some (spins, ts)" using ex by (simp add: h)
  from elf64_leave_ok [OF rep room2 n tail(1) _ frames o(1) loadable_window [OF load] cnt hp ex2] r(2)
  obtain k' where k': "elf64_leave (header_at used k) ?fp (programs_at used k) progs ?k2 = Some (if spins then Ended else Returned 0, k')"
    "heap_rep (k_heap k') (used @ [(81, True), (n - 81, True)])" "term_ok (k_term k')"
    "\<forall>v. vmap (pages (k_heap k')) v = (if v \<in> all_pages progs then 0 else vmap (pages (k_heap ?k2)) v)"
    "k_files k' = (k_files ?k2)(?fp := None)" "k_tasks k' = ts" "but_heap (k_fs k') = but_heap (k_fs ?k2)"
    unfolding at by auto
  have "vmap (pages (k_heap k')) v = vmap (pages (k_heap k)) v" for v
    using k'(4) [rule_format, of v] k1(3) o(2) by (auto simp: adds_def simp del: split_paired_All)
  moreover have "k_files k' = (k_files k)(?fp := None)" using k'(5) k1(4) by (auto simp: same_sys_def fun_eq_iff)
  moreover have "but_heap (k_fs k') = but_heap (k_fs k)" using k'(7) k1(4) by (simp add: same_sys_def)
  ultimately show ?thesis using k1(1) r(1) k'(1-3,6) by (intro exI [of _ k']) auto
qed

section \<open>Other ends\<close>

lemma char_arg_byte: "(ucast (char_arg c) :: byte) = c"
  by (rule bit_word_eqI) (auto simp: char_arg_def bit_simps)

lemma format_message:
  assumes "term_ok (k_term k)" and "\<forall>c \<in> {c1, c2, c3}. c < 128"
  shows "\<exists>t. k_printf (\<lambda>p. None) (''ELF Wrong Format: (Magic Number) %x '' @ [CHR 0x27] @ ''%c%c%c'' @ [CHR 0x27] @ NL)
    [char_arg c0, char_arg c1, char_arg c2, char_arg c3] k = Some (k\<lparr>k_term := t\<rparr>) \<and> term_ok t"
  by (rule k_printf_ok [OF assms(1), where ps = "map Lit (chars ''ELF Wrong Format: (Magic Number) '') @ [Hex (char_arg c0)]
        @ map Lit [32, 0x27] @ [Chr (char_arg c1), Chr (char_arg c2), Chr (char_arg c3)] @ map Lit [0x27, 0x0A]"])
    (use assms(2) in \<open>simp_all add: message_ok_def lit_def format_of_def args_of_def chars_def char_arg_byte\<close>)

text \<open>The heap after a load that stopped before the table of programs.\<close>

lemma release_two:
  assumes "heap_rep h (used @ [(81, False), (31, False), (n - 112, True)])" and "heap_room g h" and "112 \<le> n"
  shows "\<exists>h1 h2. free_alloc (heap_start h + of_nat (segsum used + 17)) h = Some h1
    \<and> free_alloc (heap_start h + of_nat (segsum used + 81 + 17)) h1 = Some h2
    \<and> heap_rep h2 (used @ [(81, True), (n - 81, True)]) \<and> heap_room g h2 \<and> pages h2 = pages h"
proof -
  obtain h1 where h1: "free_alloc (heap_start h + of_nat (segsum used + 17)) h = Some h1"
    "heap_rep h1 ((used @ [(81, True)]) @ (31, False) # [(n - 112, True)])" "heap_start h1 = heap_start h" "pages h1 = pages h" "heap_room g h1"
    using free_block [of h used 81 False "[(31, False), (n - 112, True)]" g] assms(1,2) by (auto simp: seg_free_def)
  obtain h2 where "free_alloc (heap_start h + of_nat (segsum used + 81 + 17)) h1 = Some h2"
    "heap_rep h2 (used @ [(81, True), (n - 81, True)])" "pages h2 = pages h" "heap_room g h2"
    using free_block [OF h1(2,5)] h1(3,4) assms(3) by (auto simp: seg_free_def add_ac)
  then show ?thesis using h1(1) by blast
qed

lemma elf64_load_reject_ok:
  assumes ready: "file_ready used n g filename data k" and room: "loader_room 0 n k"
    and magic: "64 \<le> length data" "take 4 data \<noteq> 0x7F # chars ''ELF''" "\<forall>i \<in> {1, 2, 3}. data ! i < 128"
    and ex: "task_exit 2 (k_tasks k) = Some (spins, ts)"
  shows "\<exists>k'. (\<forall>run. elf64_load run filename k = Some (if spins then Ended else Returned 2, k')) \<and> k_mem k' = k_mem k
    \<and> pages (k_heap k') = pages (k_heap k) \<and> heap_rep (k_heap k') (used @ [(81, True), (n - 81, True)])
    \<and> k_files k' = (k_files k)(file_at used k := None) \<and> k_tasks k' = ts \<and> term_ok (k_term k')"
proof -
  let ?fp = "file_at used k"
  from header_read [OF ready room] obtain k2 k3 k4 k5 f where
    pre: "k_alloc 64 k = Some (header_at used k, k2)" "sys_open filename k2 = Some (?fp, k3)"
      "k_files k3 ?fp = Some f" "current_cluster f \<noteq> 0xFFFFFFFF"
      "k_printf (\<lambda>p. Some filename) (''[Debug]: %s is found'' @ NL) [0] k3 = Some k4"
      "file_read ?fp (replicate 64 0) 64 k4 = Some (take 64 data, k5)"
    and r5: "reader ((used @ [(81, False), (31, False)]) @ [(n - 112, True)]) g ?fp data k5"
    and same: "same_sys ?fp k k5" "k_mem k5 = k_mem k" "pages (k_heap k5) = pages (k_heap k)"
    by metis
  have "term_ok (k_term k5)" using r5 by (simp add: reader_def)
  then obtain t6 where t6: "k_printf (\<lambda>p. None) (''Hel'' @ NL) [] k5 = Some (k5\<lparr>k_term := t6\<rparr>)" "term_ok t6"
    using text_message [of k5 "''Hel'' @ NL" "\<lambda>p. None"] by auto
  let ?k6 = "k5\<lparr>k_term := t6\<rparr>"
  obtain t7 where t7: "k_printf (\<lambda>p. None) (''ELF Wrong Format: (Magic Number) %x '' @ [CHR 0x27] @ ''%c%c%c'' @ [CHR 0x27] @ NL)
      [char_arg (data ! 0), char_arg (data ! 1), char_arg (data ! 2), char_arg (data ! 3)] ?k6 = Some (?k6\<lparr>k_term := t7\<rparr>)" "term_ok t7"
    using format_message [of ?k6 "data ! 1" "data ! 2" "data ! 3" "data ! 0"] t6(2) magic(3) by auto
  let ?k7 = "?k6\<lparr>k_term := t7\<rparr>"
  obtain t8 where t8: "k_printf (\<lambda>p. None) (''ELF: This is not ELF file because not following their ELF format'' @ NL) [] ?k7
      = Some (?k7\<lparr>k_term := t8\<rparr>)" "term_ok t8"
    using print_line [of ?k7 "''ELF: This is not ELF file because not following their ELF format'' @ NL" "\<lambda>p. None"] t7(2) by auto
  have "112 \<le> n" using room by (simp add: loader_room_def)
  then obtain h1 h2 where h: "free_alloc (header_at used k) (k_heap k5) = Some h1" "free_alloc ?fp h1 = Some h2"
    "heap_rep h2 (used @ [(81, True), (n - 81, True)])" "pages h2 = pages (k_heap k)"
    using release_two [of "k_heap k5" used n "Suc g"] r5 same(1,3)
    by (auto simp: reader_def same_sys_def header_at_def file_at_def)
  let ?k' = "(set_heap h2 (k5\<lparr>k_term := t8\<rparr>))\<lparr>k_files := (k_files k5)(?fp := None), k_tasks := ts\<rparr>"
  have "elf64_load run filename k = Some (if spins then Ended else Returned 2, ?k')" for run
    unfolding elf64_load_def
    using pre magic_test [OF magic(1)] magic t6(1) t7(1) t8(1) h(1,2) ex same(1)
    by (simp add: pre(1,2) k_free_def sys_close_def exit_task_def same_sys_def set_heap_def)
  moreover have "(k_files k5)(?fp := None) = (k_files k)(?fp := None)" using same(1) by (auto simp: same_sys_def fun_eq_iff)
  ultimately show ?thesis using h(3,4) t8(2) same(2) by (intro exI [of _ ?k']) simp
qed

text \<open>A directory: the header object stays allocated.\<close>

lemma elf64_load_directory_ok:
  assumes tail: "heap_tail used n g (k_heap k)" and n: "162 \<le> n" and tok: "term_ok (k_term k)" and name: "name_ok filename"
    and f: "fat_fileOpen (k_fname k) filename (k_fs k) = Some (f, said)" "current_cluster f = 0xFFFFFFFF" "said_ok said"
    and ex: "task_exit 1 (k_tasks k) = Some (spins, ts)"
  shows "\<exists>k'. (\<forall>run. elf64_load run filename k = Some (if spins then Ended else Returned 1, k')) \<and> k_mem k' = k_mem k
    \<and> pages (k_heap k') = pages (k_heap k) \<and> heap_rep (k_heap k') (used @ [(81, False), (n - 81, True)])
    \<and> k_files k' = (k_files k)(file_at used k := None) \<and> k_tasks k' = ts \<and> term_ok (k_term k')"
proof -
  let ?fp = "file_at used k"
  obtain hp fp k2 h2 t0 where o: "k_alloc 64 k = Some (hp, k2)"
    "sys_open filename k2 = Some (fp, k\<lparr>k_term := t0, k_fs := (k_fs k)\<lparr>fheap := h2\<rparr>, k_files := (k_files k)(fp \<mapsto> f)\<rparr>)"
    "term_ok t0"
    "hp = heap_start h2 + of_nat (segsum used + 17)" "fp = heap_start h2 + of_nat (segsum used + 81 + 17)"
    "heap_tail (used @ [(81, False), (31, False)]) (n - 112) g h2" "pages h2 = pages (k_heap k)" "heap_start h2 = heap_start (k_heap k)"
    by (rule open_file_ok [OF tail f(1) n tok f(3)])
  let ?k3 = "k\<lparr>k_term := t0, k_fs := (k_fs k)\<lparr>fheap := h2\<rparr>, k_files := (k_files k)(fp \<mapsto> f)\<rparr>"
  have fp: "fp = ?fp" using o(5,8) by (simp add: file_at_def)
  obtain t where t: "k_printf (\<lambda>p. Some filename) (''%s is \"NOT\" found'' @ NL) [0] ?k3 = Some (?k3\<lparr>k_term := t\<rparr>)" "term_ok t"
    using found_message(2) [of ?k3, OF _ name] o(3) by auto
  have rep: "heap_rep h2 ((used @ [(81, False)]) @ (31, False) # [(n - 112, True)])" "heap_room (Suc g) h2"
    using o(6) by (simp_all add: heap_tail_def)
  obtain h3 where h3: "free_alloc fp h2 = Some h3" "heap_rep h3 (used @ [(81, False), (n - 81, True)])" "pages h3 = pages (k_heap k)"
    using free_block [OF rep] o(5,7) n by (auto simp: seg_free_def add_ac)
  let ?k' = "(set_heap h3 (k\<lparr>k_term := t\<rparr>))\<lparr>k_files := (k_files k)(fp := None), k_tasks := ts\<rparr>"
  have "elf64_load run filename k = Some (if spins then Ended else Returned 1, ?k')" for run
    unfolding elf64_load_def using o(1,2) f(2) t(1) h3(1) ex
    by (simp add: sys_close_def k_free_def exit_task_def set_heap_def)
  then show ?thesis using h3(2,3) t(2) fp by (intro exI [of _ ?k']) simp
qed

end
