(* ===== verification/Task_System.thy ===== *)
theory Task_System
  imports Task_End
begin

text \<open>
  The tasks as a transition system: timer interrupts, tasks that start and end, and the rest of
  the kernel taking and giving back memory, in any order.  The state stays well-formed: the list
  is in order, every task but the kernel's has its record in a block of the heap that is in use
  and a stack page of its own, and no step gets stuck.
\<close>

section \<open>Blocks in use\<close>

lemma in_use_split:
  assumes "(a, n) \<in> set (in_use b ss)"
  obtains pre post where "ss = pre @ (n, False) # post" and "a = b + segsum pre"
proof -
  have "\<exists>pre post. ss = pre @ (n, False) # post \<and> a = b + segsum pre"
    using assms
  proof (induction ss arbitrary: b)
    case (Cons s ss)
    show ?case
    proof (cases "(a, n) \<in> set (in_use (b + fst s) ss)")
      case True
      then obtain pre post where "ss = pre @ (n, False) # post" "a = b + fst s + segsum pre" using Cons.IH by blast
      then show ?thesis by (intro exI [of _ "s # pre"] exI [of _ post]) simp
    next
      case False
      then show ?thesis using Cons.prems by (intro exI [of _ "[]"] exI [of _ ss]) (cases s, auto split: if_splits)
    qed
  qed simp
  then show ?thesis using that by blast
qed

lemma in_use_long: "seg_ok ss \<Longrightarrow> (a, n) \<in> set (in_use b ss) \<Longrightarrow> 17 \<le> n"
  by (induction ss arbitrary: b) (auto split: if_splits)

lemma in_use_free:
  assumes "seg_ok (pre @ (n, False) # post)"
  shows "set (in_use 0 (seg_free pre n post)) = set (in_use 0 (pre @ (n, False) # post)) - {(segsum pre, n)}"
proof -
  let ?x = "(segsum pre, n)"
  have n: "17 \<le> n" using assms by simp
  have "?x \<notin> set (in_use 0 pre)" using in_use_range [of "segsum pre" n 0 pre] n by auto
  moreover have "?x \<notin> set (in_use (segsum pre + n) post)" using in_use_range [of "segsum pre" n "segsum pre + n" post] n by auto
  moreover have "set (in_use 0 (seg_free pre n post)) = set (in_use 0 pre) \<union> set (in_use (segsum pre + n) post)"
    by (cases post) (auto simp: seg_free_def in_use_append add.assoc split: prod.splits)
  ultimately show ?thesis by (auto simp: in_use_append)
qed

text \<open>The segments are determined by the headers.\<close>

lemma hchain_unique:
  assumes "hchain B a ss z" and "hchain B a ss' z'" and "seg_ok ss" and "seg_ok ss'" and "segsum ss = segsum ss'"
    and "segsum ss < 2 ^ 64"
  shows "ss = ss'"
  using assms
proof (induction ss arbitrary: a ss')
  case Nil
  then show ?case by (cases ss') auto
next
  case (Cons s ss)
  then obtain s' ss2 where ss': "ss' = s' # ss2" by (cases ss') auto
  have h: "header_of s (if ss = [] then z else of_nat (a + fst s)) = header_of s' (if ss2 = [] then z' else of_nat (a + fst s'))"
    using Cons.prems(1,2) by (simp add: ss')
  have lt: "fst s < 2 ^ 64" "fst s' < 2 ^ 64" using Cons.prems(5,6) by (simp_all add: ss')
  have "fst s = fst s'" using h of_nat_qword_inject [OF lt] by (simp add: header_of_def)
  moreover have "snd s = snd s'" using h by (simp add: header_of_def split: if_splits)
  ultimately have "s = s'" by (simp add: prod_eq_iff)
  then show ?case using Cons.IH [of "a + fst s" ss2] Cons.prems by (simp add: ss')
qed

lemma heap_rep_unique: "heap_rep h ss \<Longrightarrow> heap_rep h ss' \<Longrightarrow> ss = ss'"
  by (rule hchain_unique [of "blocks h" "unat (heap_start h)" _ 0 _ 0]) (auto simp: heap_rep_def)

lemma chain_unique: "task_chain st p ts \<Longrightarrow> task_chain st p ts' \<Longrightarrow> ts = ts'"
proof (induction ts arbitrary: p ts')
  case Nil
  then show ?case by (cases ts') auto
next
  case (Cons a as)
  then show ?case by (cases ts') auto
qed

section \<open>Well-formed states\<close>

text \<open>What a task's record keeps while the task is in the list.\<close>

definition static_part :: "tasks \<Rightarrow> qword \<Rightarrow> (qword \<times> qword \<times> qword) option" where
  "static_part s p = map_option (\<lambda>t. (task_id t, stack_provider t, task_flags t)) (task_store s p)"

lemma static_record: "record_of s' q = record_of s q \<Longrightarrow> static_part s' q = static_part s q"
proof -
  assume e: "record_of s' q = record_of s q"
  have "static_part u q = map_option (\<lambda>t. (task_id t, stack_provider t, task_flags t)) (record_of u q)" for u
    by (simp add: static_part_def record_of_def option.map_comp comp_def)
  then show ?thesis by (simp add: e)
qed

definition provider :: "tasks \<Rightarrow> qword \<Rightarrow> qword option" where
  "provider s p = map_option stack_provider (task_store s p)"

lemma provider_static: "static_part s' q = static_part s q \<Longrightarrow> provider s' q = provider s q"
  by (cases "task_store s q"; cases "task_store s' q") (simp_all add: static_part_def provider_def)

text \<open>The kernel's task has the number 0 and is running.\<close>

definition kernel_runs :: "tasks \<Rightarrow> bool" where
  "kernel_runs s \<longleftrightarrow> (\<exists>i v f. static_part s (kernel_task s) = Some (i, v, f)
     \<and> (ucast i :: dword) = 0 \<and> f AND TASK_FLAGS_RUNNING_BIT \<noteq> 0)"

text \<open>A stack page: a frame in use that is no table, mapped to itself.\<close>

definition stack_ok :: "pstate \<Rightarrow> nat \<Rightarrow> bool" where
  "stack_ok ps n \<longleftrightarrow> 7 \<le> n \<and> data_frame ps n \<and> vmap ps (vpage (frame_of n)) AND NOT 0x1FF = frame_of n"

definition task_block :: "heap \<Rightarrow> seg list \<Rightarrow> qword \<Rightarrow> bool" where
  "task_block h ss p \<longleftrightarrow> (\<exists>a k. (a, k) \<in> set (in_use 0 ss) \<and> p = heap_start h + of_nat (a + 17))"

definition task_memory :: "tasks \<Rightarrow> qword list \<Rightarrow> seg list \<Rightarrow> bool" where
  "task_memory s ts ss \<longleftrightarrow> inj_on (provider s) (set ts)
     \<and> (\<forall>p \<in> set ts. task_block (task_heap s) ss p
          \<and> (\<exists>n. provider s p = Some (frame_of n) \<and> stack_ok (pages (task_heap s)) n))"

text \<open>The kernel's record is a variable of the image, below the heap.\<close>

definition task_system :: "tasks \<Rightarrow> qword list \<Rightarrow> seg list \<Rightarrow> bool" where
  "task_system s ts ss \<longleftrightarrow> tasks_ok s (kernel_task s # ts) \<and> heap_rep (task_heap s) ss \<and> kernel_runs s
     \<and> unat (kernel_task s) < unat (heap_start (task_heap s)) \<and> task_memory s ts ss"

lemma stack_ok_kept:
  assumes "stack_ok ps n" and "pages_kept ps ps'"
  shows "stack_ok ps' n"
proof -
  have "n < 32768" "7 \<le> n" using assms(1) by (simp_all add: stack_ok_def data_frame_def)
  then have "frame_of n \<noteq> frame_of 0" by (simp only: frame_of_inject)
  then have "vmap ps (vpage (frame_of n)) \<noteq> 0" using assms(1) by (auto simp: stack_ok_def frame_of_def)
  then show ?thesis using assms(1) pages_keptD [OF assms(2)] by (auto simp: stack_ok_def keeps_def)
qed

text \<open>Steps that leave the list and the records.\<close>

lemma task_memory_cong:
  assumes "task_memory s ts ss" and "set ts' \<subseteq> set ts" and "\<And>q. q \<in> set ts' \<Longrightarrow> provider s' q = provider s q"
    and "\<And>q. q \<in> set ts' \<Longrightarrow> task_block (task_heap s) ss q \<Longrightarrow> task_block (task_heap s') ss' q"
    and "\<And>q n. q \<in> set ts' \<Longrightarrow> provider s q = Some (frame_of n) \<Longrightarrow> stack_ok (pages (task_heap s)) n
      \<Longrightarrow> stack_ok (pages (task_heap s')) n"
  shows "task_memory s' ts' ss'"
proof -
  have "inj_on (provider s) (set ts')" using assms(1,2) inj_on_subset by (auto simp: task_memory_def)
  then have "inj_on (provider s') (set ts')" using assms(3) inj_on_cong [of "set ts'" "provider s'" "provider s"] by blast
  moreover have "task_block (task_heap s') ss' q
      \<and> (\<exists>n. provider s' q = Some (frame_of n) \<and> stack_ok (pages (task_heap s')) n)" if q: "q \<in> set ts'" for q
  proof -
    from q assms(1,2) obtain n where "task_block (task_heap s) ss q" "provider s q = Some (frame_of n)"
      "stack_ok (pages (task_heap s)) n" unfolding task_memory_def by blast
    then show ?thesis using assms(3-5) [OF q] by auto
  qed
  ultimately show ?thesis by (simp add: task_memory_def)
qed

section \<open>Memory\<close>

text \<open>A request the heap can serve, with a page to spare.\<close>

definition room_for :: "qword \<Rightarrow> heap \<Rightarrow> bool" where
  "room_for sz h \<longleftrightarrow> 0 < unat sz \<and> unat sz + 17 \<le> 0x10000000 \<and> heap_room 2 h
     \<and> (\<exists>ss. heap_rep h ss \<and> (\<exists>g \<in> set ss. fits (unat sz + 17) g) \<and> \<not> overruns (unat sz + 17) ss)"

text \<open>A block in use that is not the record of a task.\<close>

definition other_block :: "tasks \<Rightarrow> qword \<Rightarrow> bool" where
  "other_block s p \<longleftrightarrow> (\<exists>ss ts. heap_rep (task_heap s) ss \<and> task_block (task_heap s) ss p
     \<and> tasks_ok s (kernel_task s # ts) \<and> p \<notin> set ts)"

text \<open>The block that is taken is new, and the others stay.\<close>

lemma alloc_block:
  assumes "heap_rep h ss" and "room_for sz h"
  shows "\<exists>a h' ss'. new_alloc sz h = Some (heap_start h + of_nat (a + 17), h') \<and> heap_rep h' ss'
    \<and> heap_start h' = heap_start h \<and> heap_room 1 h' \<and> pages_kept (pages h) (pages h')
    \<and> a + 17 < 0x10000000 \<and> (\<exists>k. (a, k) \<in> set (in_use 0 ss')) \<and> set (in_use 0 ss) \<subseteq> set (in_use 0 ss')
    \<and> (\<forall>k. (a, k) \<notin> set (in_use 0 ss))"
proof -
  let ?k = "unat sz + 17"
  obtain ss2 where r: "0 < unat sz" "?k \<le> 0x10000000" "heap_room (Suc 1) h" "heap_rep h ss2"
    "\<exists>g \<in> set ss2. fits ?k g" "\<not> overruns ?k ss2"
    using assms(2) unfolding room_for_def one_add_one [symmetric] plus_1_eq_Suc by blast
  then have fit: "\<exists>g \<in> set ss. fits ?k g" "\<not> overruns ?k ss" using heap_rep_unique [OF assms(1) r(4)] by auto
  obtain off ss' where spec: "seg_alloc ?k ss = Some (off, ss')"
    using fit(1) seg_alloc_None [of ?k ss] by (cases "seg_alloc ?k ss") auto
  obtain h' where h': "new_alloc sz h = Some (heap_start h + of_nat (off + 17), h')" "heap_rep h' ss'"
    "heap_start h' = heap_start h" "heap_room 1 h'" "pages_kept (pages h) (pages h')"
    using serve [OF assms(1) r(1) refl r(2) spec fit(2) r(3)] by blast
  obtain pre n post where ss: "ss = pre @ (n, True) # post" "?k \<le> n" "off = segsum pre"
    "ss' = pre @ carve ?k n (post = []) @ post"
    by (rule seg_alloc_SomeD [OF spec])
  have b: "segsum ss \<le> 0x10000000" using heap_rep_bounds(4) [OF assms(1)] .
  have new: "\<exists>k. (off, k) \<in> set (in_use 0 ss')" by (auto simp: ss(3,4) in_use_append carve_def)
  have len: "post \<noteq> [] \<longrightarrow> segsum (carve ?k n (post = [])) = n" using ss(2) by (auto simp: carve_def)
  have keep: "set (in_use 0 ss) \<subseteq> set (in_use 0 ss')"
    using len by (cases "post = []") (auto simp: ss(1,4) in_use_append)
  have fresh: "(off, k) \<notin> set (in_use 0 ss)" for k
  proof
    assume u: "(off, k) \<in> set (in_use 0 ss)"
    have "17 \<le> k" using in_use_long [OF heap_rep_bounds(5) [OF assms(1)] u] .
    then show False
      using u in_use_range [of off k 0 pre] in_use_range [of off k "segsum pre + n" post] ss(2)
      by (auto simp: ss(1,3) in_use_append)
  qed
  show ?thesis
    using h' new keep fresh b r(1) ss(2) by (intro exI [of _ off] exI [of _ h'] exI [of _ ss']) (auto simp: ss(1,3))
qed

text \<open>Giving back a block.\<close>

lemma give_block:
  assumes "heap_rep h ss" and "(a, k) \<in> set (in_use 0 ss)"
  shows "\<exists>h' ss'. free_alloc (heap_start h + of_nat (a + 17)) h = Some h' \<and> heap_rep h' ss'
    \<and> heap_start h' = heap_start h \<and> pages h' = pages h \<and> set (in_use 0 ss') = set (in_use 0 ss) - {(a, k)}"
proof -
  obtain pre post where ss: "ss = pre @ (k, False) # post" "a = segsum pre" using in_use_split [OF assms(2)] by auto
  note b = heap_rep_bounds(5) [OF assms(1)]
  show ?thesis
    using free_rep [OF assms(1) [unfolded ss(1)]] in_use_free [OF b [unfolded ss(1)]] by (auto simp: ss)
qed

text \<open>Different offsets are different addresses.\<close>

lemma block_address:
  assumes "heap_rep h ss" and "a + 17 < 0x10000000" and "b + 17 \<le> 0x10000000"
    and "heap_start h + of_nat (a + 17) = heap_start h + of_nat (b + 17)"
  shows "a = b"
proof -
  have "(of_nat (a + 17) :: qword) = of_nat (b + 17)" using assms(4) by (simp only: add_left_cancel)
  then show ?thesis using of_nat_qword_inject [of "a + 17" "b + 17"] assms(2,3) by simp
qed

lemma in_use_bound:
  assumes "heap_rep h ss" and "(a, k) \<in> set (in_use 0 ss)"
  shows "a + 17 \<le> 0x10000000"
  using in_use_range [OF assms(2)] in_use_long [OF heap_rep_bounds(5) [OF assms(1)] assms(2)] heap_rep_bounds(4) [OF assms(1)]
  by simp

lemma task_block_mono: "task_block h ss p \<Longrightarrow> set (in_use 0 ss) \<subseteq> set (in_use 0 ss') \<Longrightarrow> heap_start h' = heap_start h \<Longrightarrow> task_block h' ss' p"
  unfolding task_block_def by auto

lemma heap_address_high:
  assumes "heap_rep h ss" and "a + 17 \<le> 0x10000000"
  shows "unat (heap_start h) < unat (heap_start h + of_nat (a + 17))"
proof -
  note b = heap_rep_bounds [OF assms(1)]
  have "heap_start h + of_nat (a + 17) = of_nat (unat (heap_start h) + (a + 17))" by simp
  then show ?thesis using unat_of_nat_qword [of "unat (heap_start h) + (a + 17)"] b(2) assms(2) by simp
qed

section \<open>The steps\<close>

lemma task_systemD:
  assumes "task_system s ts ss"
  shows "tasks_ok s (kernel_task s # ts)" and "heap_rep (task_heap s) ss" and "kernel_runs s"
    and "unat (kernel_task s) < unat (heap_start (task_heap s))" and "task_memory s ts ss"
  using assms by (simp_all add: task_system_def)

lemma set_heap_sel [simp]:
  "tasks_ok (s\<lparr>task_heap := h\<rparr>) ts = tasks_ok s ts" "provider (s\<lparr>task_heap := h\<rparr>) = provider s"
  "static_part (s\<lparr>task_heap := h\<rparr>) = static_part s"
  by (auto simp: tasks_ok_def provider_def static_part_def fun_eq_iff)

lemma alloc_step:
  assumes sys: "task_system s ts ss" and room: "room_for sz (task_heap s)"
  shows "\<exists>p h ss'. new_alloc sz (task_heap s) = Some (p, h) \<and> task_system (s\<lparr>task_heap := h\<rparr>) ts ss'
    \<and> task_block h ss' p \<and> heap_room 1 h \<and> p \<notin> set ts \<and> p \<noteq> kernel_task s \<and> p \<noteq> 0"
proof -
  note S = task_systemD [OF sys]
  obtain a h ss' where h: "new_alloc sz (task_heap s) = Some (heap_start (task_heap s) + of_nat (a + 17), h)"
    "heap_rep h ss'" "heap_start h = heap_start (task_heap s)" "heap_room 1 h" "pages_kept (pages (task_heap s)) (pages h)"
    "a + 17 < 0x10000000" "\<exists>k. (a, k) \<in> set (in_use 0 ss')" "set (in_use 0 ss) \<subseteq> set (in_use 0 ss')"
    "\<forall>k. (a, k) \<notin> set (in_use 0 ss)"
    using alloc_block [OF S(2) room] by blast
  let ?p = "heap_start (task_heap s) + of_nat (a + 17)"
  have mem: "task_memory (s\<lparr>task_heap := h\<rparr>) ts ss'"
    by (rule task_memory_cong [OF S(5)]) (use h(3,8) task_block_mono stack_ok_kept [OF _ h(5)] in auto)
  have "?p \<notin> set ts"
  proof
    assume "?p \<in> set ts"
    then obtain b k where b: "(b, k) \<in> set (in_use 0 ss)" "?p = heap_start (task_heap s) + of_nat (b + 17)"
      using S(5) by (auto simp: task_memory_def task_block_def)
    then have "a = b" using block_address [OF S(2) h(6) in_use_bound [OF S(2) b(1)]] by simp
    then show False using h(9) b(1) by blast
  qed
  moreover have "unat (heap_start (task_heap s)) < unat ?p" using heap_address_high [OF S(2), of a] h(6) by simp
  then have "?p \<noteq> kernel_task s" "?p \<noteq> 0" using S(4) by auto
  moreover have "task_system (s\<lparr>task_heap := h\<rparr>) ts ss'"
    using S(1,3,4) h(2,3) mem by (simp add: task_system_def kernel_runs_def)
  moreover have "task_block h ss' ?p" using h(3,7) by (auto simp: task_block_def)
  ultimately show ?thesis using h(1,4) by blast
qed

lemma free_step:
  assumes sys: "task_system s ts ss" and other: "other_block s p"
  shows "\<exists>h ss'. free_alloc p (task_heap s) = Some h \<and> task_system (s\<lparr>task_heap := h\<rparr>) ts ss'"
proof -
  note S = task_systemD [OF sys]
  obtain ss2 ts2 where o: "heap_rep (task_heap s) ss2" "task_block (task_heap s) ss2 p"
    "tasks_ok s (kernel_task s # ts2)" "p \<notin> set ts2"
    using other by (auto simp: other_block_def)
  have "kernel_task s # ts2 = kernel_task s # ts"
    by (rule chain_unique [of "task_store s" "kernel_task s"]) (use o(3) S(1) in \<open>simp_all only: tasks_ok_def\<close>)
  then have ts: "p \<notin> set ts" using o(4) by simp
  obtain a k where a: "(a, k) \<in> set (in_use 0 ss)" "p = heap_start (task_heap s) + of_nat (a + 17)"
    using o(2) heap_rep_unique [OF S(2) o(1)] by (auto simp: task_block_def)
  obtain h ss' where h: "free_alloc p (task_heap s) = Some h" "heap_rep h ss'" "heap_start h = heap_start (task_heap s)"
    "pages h = pages (task_heap s)" "set (in_use 0 ss') = set (in_use 0 ss) - {(a, k)}"
    using give_block [OF S(2) a(1)] a(2) by blast
  have "task_memory (s\<lparr>task_heap := h\<rparr>) ts ss'"
  proof (rule task_memory_cong [OF S(5)])
    fix q assume "q \<in> set ts" and "task_block (task_heap s) ss q"
    then obtain b j where b: "(b, j) \<in> set (in_use 0 ss)" "q = heap_start (task_heap s) + of_nat (b + 17)"
      by (auto simp: task_block_def)
    have "q \<noteq> p" using ts \<open>q \<in> set ts\<close> by auto
    then have "(b, j) \<noteq> (a, k)" using a(2) b(2) by auto
    then show "task_block (task_heap (s\<lparr>task_heap := h\<rparr>)) ss' q" using b h(3,5) by (auto simp: task_block_def)
  qed (simp_all add: h(4))
  then show ?thesis using h(1-3) S(1,3,4) by (auto simp: task_system_def kernel_runs_def)
qed

lemma current_record:
  assumes "tasks_ok s ts"
  shows "\<exists>t. task_store s (task_current s) = Some t"
proof -
  have c: "task_chain (task_store s) (kernel_task s) ts" using assms by (simp add: tasks_ok_def)
  obtain i where i: "i < length ts" "task_current s = ts ! i" using tasks_ok_current [OF assms] by blast
  show ?thesis using chain_nth [OF c i(1)] i(2) by auto
qed

lemma exit_step:
  assumes sys: "task_system s ts ss"
  shows "\<exists>b s'. task_exit code s = Some (b, s') \<and> task_system s' ts ss"
proof -
  note S = task_systemD [OF sys]
  obtain t where t: "task_store s (task_current s) = Some t" using current_record [OF S(1)] by blast
  show ?thesis
  proof (cases "(ucast (task_id t) :: dword) = 0")
    case True
    then show ?thesis using t sys
      by (intro exI [of _ False] exI [of _ s]) (simp add: task_exit_def task_getid_def)
  next
    case False
    let ?t = "t\<lparr>signal_code := code, task_flags := task_flags t AND NOT TASK_FLAGS_RUNNING_BIT\<rparr>"
    let ?s = "set_task (task_current s) ?t s"
    have "task_current s \<noteq> kernel_task s" using False S(3) t by (auto simp: kernel_runs_def static_part_def)
    then have kernel: "kernel_runs ?s" using S(3) by (simp add: kernel_runs_def static_part_def)
    have "task_chain (task_store ?s) q us = task_chain (task_store s) q us" for q us
      using chain_same_link [of "task_store s" "task_current s" t ?t q us] t by simp
    then have "tasks_ok ?s (kernel_task ?s # ts)" using S(1) by (simp add: tasks_ok_def del: task_chain.simps)
    moreover have "task_memory ?s ts ss"
      by (rule task_memory_cong [OF S(5)]) (use t in \<open>simp_all add: provider_def\<close>)
    ultimately have "task_system ?s ts ss" using S(2,4) kernel by (simp add: task_system_def)
    then show ?thesis using t False by (intro exI [of _ True] exI [of _ ?s]) (simp add: task_exit_def task_getid_def)
  qed
qed

text \<open>A new stack page: no other task has it, and theirs stay.\<close>

lemma new_stack:
  assumes "page_inv ps" and "4 \<le> free_count ps"
  shows "\<exists>n ps'. page_alloc4K (1 OR 2) ps = Some (frame_of n, ps') \<and> page_inv ps' \<and> n < 32768 \<and> stack_ok ps' n
    \<and> (\<forall>m. stack_ok ps m \<longrightarrow> stack_ok ps' m \<and> frame_of m \<noteq> frame_of n)
    \<and> vmap ps' = (vmap ps)(vpage (frame_of n) := frame_of n OR 3)"
proof -
  have fl: "ok_flags (1 OR 2)" by (simp add: ok_flags_def)
  obtain n ps' where ps': "page_alloc4K (1 OR 2) ps = Some (frame_of n, ps')" "page_inv ps'" "keeps ps ps'" "n < 32768"
    "\<not> used_no (bitmap ps) n" "data_frame ps' n"
    "vmap ps' = (vmap ps)(vpage (frame_of n) := frame_of n OR ucast (1 OR 2 :: word16))"
    using alloc4K_ok [OF assms(1) fl assms(2)] by blast
  have n7: "7 \<le> n" using page_inv_reserved [OF assms(1), of n] ps'(5) by (cases "n < 7") auto
  have "vmap ps' (vpage (frame_of n)) AND NOT 0x1FF = frame_of n"
    unfolding ps'(7) fun_upd_same by (rule frame_entry_base [OF ps'(4) fl])
  then have new: "stack_ok ps' n" using n7 ps'(6) by (simp add: stack_ok_def)
  have "stack_ok ps' m \<and> frame_of m \<noteq> frame_of n" if m: "stack_ok ps m" for m
  proof -
    have lt: "m < 32768" and "m \<noteq> n" using m ps'(5) by (auto simp: stack_ok_def data_frame_def)
    then have "frame_of m \<noteq> frame_of n" "vpage (frame_of m) \<noteq> vpage (frame_of n)"
      using ps'(4) by (simp_all add: frame_of_inject vpage_frame_eq)
    then show ?thesis using m ps'(3) by (simp add: stack_ok_def ps'(7) keeps_def)
  qed
  then show ?thesis using ps'(1,2,4,7) new by (intro exI [of _ n] exI [of _ ps']) simp
qed

lemma create_step:
  assumes sys: "task_system s ts ss" and room: "room_for 48 (task_heap s)"
  shows "\<exists>p s' ss'. task_create address argc a1 a2 a3 a4 bp ret cs sel s = Some (p, s') \<and> task_system s' (ts @ [p]) ss'"
proof -
  obtain p h ss' where a: "new_alloc 48 (task_heap s) = Some (p, h)" "task_system (s\<lparr>task_heap := h\<rparr>) ts ss'"
    "task_block h ss' p" "heap_room 1 h" "p \<notin> set ts" "p \<noteq> kernel_task s" "p \<noteq> 0"
    using alloc_step [OF sys room] by blast
  note S = task_systemD [OF a(2), simplified]
  have inv: "page_inv (pages h)" "4 \<le> free_count (pages h)" using S(2) a(4) by (simp_all add: heap_rep_def pages_ok_def heap_room_def)
  obtain n ps where n: "page_alloc4K (1 OR 2) (pages h) = Some (frame_of n, ps)" "page_inv ps" "n < 32768" "stack_ok ps n"
    "\<And>m. stack_ok (pages h) m \<Longrightarrow> stack_ok ps m \<and> frame_of m \<noteq> frame_of n"
    "vmap ps = (vmap (pages h))(vpage (frame_of n) := frame_of n OR 3)"
    using new_stack [OF inv] by blast
  have rep: "heap_rep (h\<lparr>pages := ps\<rparr>) ss'"
  proof (rule heap_rep_pages [OF S(2) n(2)], intro allI impI)
    fix i assume i: "i * 4096 < unat (heap_size h)"
    have "vmap (pages h) (vp (heap_start h) i) \<noteq> 0" using S(2) i by (simp add: heap_rep_def pages_ok_def)
    then show "vmap ps (vp (heap_start h) i) \<noteq> 0" using heap_page_high [OF S(2) i n(3)] by (simp add: n(6))
  qed
  obtain s' t where s': "task_create address argc a1 a2 a3 a4 bp ret cs sel s = Some (p, s')"
    "tasks_ok s' ((kernel_task s # ts) @ [p])" "task_store s' p = Some t" "stack_provider t = frame_of n"
    "task_heap s' = h\<lparr>pages := ps\<rparr>" "kernel_task s' = kernel_task s" "\<forall>q. q \<noteq> p \<longrightarrow> record_of s' q = record_of s q"
    using task_create_run [OF S(1) a(1) n(1) a(7), of address argc a1 a2 a3 a4 bp ret cs sel] a(5,6) by auto
  have static: "static_part s' q = static_part s q" if "q \<noteq> p" for q using static_record s'(7) that by blast
  have old: "task_memory s' ts ss'"
  proof (rule task_memory_cong [OF S(5)])
    show "provider s' q = provider (s\<lparr>task_heap := h\<rparr>) q" if "q \<in> set ts" for q
      using provider_static [OF static] that a(5) by (cases "q = p") auto
  qed (use n(5) in \<open>auto simp: s'(5) task_block_def\<close>)
  have "provider s' p \<noteq> provider s' q" if "q \<in> set ts" for q
    using S(5) that n(5) s'(3,4) provider_static [OF static, of q] a(5)
    by (cases "q = p") (fastforce simp: task_memory_def provider_def)+
  then have "inj_on (provider s') (set (ts @ [p]))" using old a(5) by (auto simp: task_memory_def)
  then have "task_memory s' (ts @ [p]) ss'"
    using old a(3) n(4) s'(3,4) by (auto simp: task_memory_def s'(5) provider_def task_block_def)
  moreover have "kernel_runs s'" using S(3) static [of "kernel_task s"] a(6) by (simp add: kernel_runs_def s'(6))
  ultimately have "task_system s' (ts @ [p]) ss'" using s'(2) rep S(4) by (simp add: task_system_def s'(5,6))
  then show ?thesis using s'(1) by blast
qed


text \<open>A timer interrupt that removes the running task.\<close>

lemma remove_step:
  assumes sys: "task_system s ts ss" and cur: "task_current s \<in> set ts"
  shows "\<exists>a s' us ss'. task_remove s = Some (a, s') \<and> task_system s' us ss'"
proof -
  note S = task_systemD [OF sys]
  let ?p = "task_current s" and ?h = "task_heap s"
  obtain pre post where ts: "ts = pre @ ?p # post" using split_list [OF cur] by blast
  have ok: "tasks_ok s ((kernel_task s # pre) @ ?p # post)" using S(1) by (subst (asm) ts) simp
  have dist: "?p \<notin> set (pre @ post)" "distinct (pre @ post)" "?p \<noteq> kernel_task s"
    using ok by (auto simp: tasks_ok_def)
  obtain a k n where p: "(a, k) \<in> set (in_use 0 ss)" "?p = heap_start ?h + of_nat (a + 17)"
    "provider s ?p = Some (frame_of n)" "stack_ok (pages ?h) n"
    using S(5) cur unfolding task_memory_def task_block_def by blast
  obtain t where t: "task_store s ?p = Some t" "stack_provider t = frame_of n" using p(3) by (auto simp: provider_def)
  have n: "7 \<le> n" "n < 32768" "data_frame (pages ?h) n" "vmap (pages ?h) (vpage (frame_of n)) AND NOT 0x1FF = frame_of n"
    using p(4) by (simp_all add: stack_ok_def data_frame_def)
  have inv: "page_inv (pages ?h)" using S(2) by (simp add: heap_rep_def pages_ok_def)
  obtain ps where ps: "page_umapv_page (frame_of n) (pages ?h) = Some ps" "page_inv ps"
    "vmap ps = (vmap (pages ?h))(vpage (frame_of n) := 0)" "bitmap ps = unmark n (bitmap (pages ?h))"
    "\<forall>p. length p \<le> 3 \<longrightarrow> tab ps p = tab (pages ?h) p"
    using umapv_page_ok [OF inv frame_not_window [OF n(2)] n(4,1,3)] by blast
  have umap: "page_umapv (stack_provider t) 0x1000 (pages ?h) = Some ps"
    using ps(1) by (simp add: page_umapv_def page_count_def t(2))
  have rep: "heap_rep (?h\<lparr>pages := ps\<rparr>) ss"
  proof (rule heap_rep_pages [OF S(2) ps(2)], intro allI impI)
    fix i assume i: "i * 4096 < unat (heap_size ?h)"
    have "vmap (pages ?h) (vp (heap_start ?h) i) \<noteq> 0" using S(2) i by (simp add: heap_rep_def pages_ok_def)
    then show "vmap ps (vp (heap_start ?h) i) \<noteq> 0" using heap_page_high [OF S(2) i n(2)] by (simp add: ps(3))
  qed
  obtain h ss' where h: "free_alloc ?p (?h\<lparr>pages := ps\<rparr>) = Some h" "heap_rep h ss'" "heap_start h = heap_start ?h"
    "pages h = ps" "set (in_use 0 ss') = set (in_use 0 ss) - {(a, k)}"
    using give_block [OF rep p(1)] p(2) by auto
  obtain s' and q :: task_info_t where s': "task_remove s = Some (task_sp q, s')"
    "tasks_ok s' ((kernel_task s # pre) @ post)" "kernel_task s' = kernel_task s" "task_heap s' = h"
    "\<forall>q. record_of s' q = record_of s q"
    using task_remove_run [OF ok _ refl t(1) umap h(1)] by auto
  have static: "static_part s' q = static_part s q" for q using static_record s'(5) by blast
  have "task_memory s' (pre @ post) ss'"
  proof (rule task_memory_cong [OF S(5)])
    show "set (pre @ post) \<subseteq> set ts" by (subst ts) auto
    show "provider s' q = provider s q" for q by (rule provider_static [OF static])
  next
    fix q assume "q \<in> set (pre @ post)" and "task_block ?h ss q"
    then obtain b j where b: "(b, j) \<in> set (in_use 0 ss)" "q = heap_start ?h + of_nat (b + 17)"
      by (auto simp: task_block_def)
    have "q \<noteq> ?p" using dist(1) \<open>q \<in> set (pre @ post)\<close> by auto
    then have "(b, j) \<noteq> (a, k)" using p(2) b(2) by auto
    then show "task_block (task_heap s') ss' q" using b h(3,5) by (auto simp: task_block_def s'(4))
  next
    fix q m assume q: "q \<in> set (pre @ post)" and m: "provider s q = Some (frame_of m)" "stack_ok (pages ?h) m"
    have "q \<in> set ts" "q \<noteq> ?p" using q dist(1) by (subst ts, auto)
    then have "provider s q \<noteq> provider s ?p" using S(5) cur by (auto simp: task_memory_def inj_on_def)
    then have "m \<noteq> n" using m(1) p(3) by auto
    moreover have "m < 32768" using m(2) by (simp add: stack_ok_def data_frame_def)
    ultimately have "vpage (frame_of m) \<noteq> vpage (frame_of n)" using n(2) by (simp add: vpage_frame_eq)
    then show "stack_ok (pages (task_heap s')) m"
      using m(2) \<open>m \<noteq> n\<close> ps(5) by (simp add: stack_ok_def s'(4) h(4) ps(3,4) data_frame_def used_no_unmark)
  qed
  moreover have "kernel_runs s'" using S(3) static by (simp add: kernel_runs_def s'(3))
  ultimately have "task_system s' (pre @ post) ss'"
    using s'(2) h(2) S(4) by (simp add: task_system_def s'(3,4) h(3))
  then show ?thesis using s'(1) by blast
qed

lemma set_ticks_sel [simp]: "task_system (s\<lparr>ticks := n\<rparr>) ts ss = task_system s ts ss"
  by (simp add: task_system_def tasks_ok_def task_memory_def provider_def [abs_def] static_part_def kernel_runs_def)

lemma switch_step:
  assumes sys: "task_system s ts ss"
  shows "\<exists>a s'. switch_task cpu s = Some (a, s') \<and> task_system s' ts ss"
proof -
  note S = task_systemD [OF sys]
  let ?r = "kernel_task s # ts"
  obtain i where i: "i < length ?r" "task_current s = ?r ! i" using tasks_ok_current [OF S(1)] by blast
  obtain t and n :: task_info_t where s': "task_store s (?r ! i) = Some t" "switch_task cpu s = Some (task_sp n, switched ?r i t cpu s)"
    "tasks_ok (switched ?r i t cpu s) ?r"
    using switch_task_next [OF S(1) i, of cpu] by blast
  let ?s = "switched ?r i t cpu s"
  have static: "static_part ?s q = static_part s q" for q using s'(1) by (simp add: static_part_def)
  have heap: "task_heap ?s = task_heap s" by (simp add: switched_def)
  have "task_memory ?s ts ss"
    by (rule task_memory_cong [OF S(5)]) (simp_all add: provider_static [OF static] heap)
  moreover have "kernel_runs ?s" using S(3) by (simp add: kernel_runs_def static)
  ultimately have "task_system ?s ts ss" using s'(3) S(2,4) by (simp add: task_system_def heap)
  then show ?thesis using s'(2) by blast
qed

definition well_formed :: "tasks \<Rightarrow> bool" where
  "well_formed s \<longleftrightarrow> (\<exists>ts ss. task_system s ts ss)"

lemma well_formedI: "task_system s ts ss \<Longrightarrow> well_formed s"
  unfolding well_formed_def by blast

lemma tick_step:
  assumes sys: "task_system s ts ss"
  shows "\<exists>r s'. irq_time_handle cpu s = Some (r, s') \<and> well_formed s'"
proof (cases "(ticks s + 1) mod 1000 = 0")
  case True
  have "well_formed (s\<lparr>ticks := ticks s + 1\<rparr>)" by (rule well_formedI [of _ ts ss]) (simp add: sys)
  then show ?thesis using True by (simp add: irq_time_handle_def Let_def)
next
  case False
  let ?s = "s\<lparr>ticks := ticks s + 1\<rparr>"
  have sys': "task_system ?s ts ss" using sys by simp
  note S = task_systemD [OF sys']
  obtain t where t: "task_store s (task_current s) = Some t" using current_record [OF S(1)] by auto
  show ?thesis
  proof (cases "task_flags t AND TASK_FLAGS_RUNNING_BIT = 0")
    case True
    then have "task_current ?s \<noteq> kernel_task ?s" using S(3) t by (auto simp: kernel_runs_def static_part_def)
    then have "task_current ?s \<in> set ts" using S(1) by (auto simp: tasks_ok_def)
    from remove_step [OF sys' this] show ?thesis
      using False True t well_formedI by (fastforce simp: irq_time_handle_def Let_def is_ctask_running_def)
  next
    case running: False
    from switch_step [OF sys', of cpu] show ?thesis
      using False running t well_formedI by (fastforce simp: irq_time_handle_def Let_def is_ctask_running_def)
  qed
qed


section \<open>All runs\<close>

text \<open>
  What can happen between two states: a timer interrupt, the running task ends, a task is
  created, or a part of the kernel takes or gives back memory.
\<close>

inductive task_step :: "tasks \<Rightarrow> tasks \<Rightarrow> bool" where
  tick: "irq_time_handle cpu s = Some (r, s') \<Longrightarrow> task_step s s'"
| ends: "task_exit code s = Some (b, s') \<Longrightarrow> task_step s s'"
| create: "room_for 48 (task_heap s) \<Longrightarrow> task_create address argc a1 a2 a3 a4 bp ret cs sel s = Some (p, s') \<Longrightarrow> task_step s s'"
| take_memory: "room_for sz (task_heap s) \<Longrightarrow> new_alloc sz (task_heap s) = Some (p, h) \<Longrightarrow> task_step s (s\<lparr>task_heap := h\<rparr>)"
| give_memory: "other_block s p \<Longrightarrow> free_alloc p (task_heap s) = Some h \<Longrightarrow> task_step s (s\<lparr>task_heap := h\<rparr>)"

text \<open>A step relation that keeps an invariant keeps it on every run.\<close>

locale preserved =
  fixes step :: "'s \<Rightarrow> 's \<Rightarrow> bool" and inv :: "'s \<Rightarrow> bool"
  assumes keep: "inv s \<Longrightarrow> step s s' \<Longrightarrow> inv s'"
begin

lemma keep_run: "step\<^sup>*\<^sup>* s s' \<Longrightarrow> inv s \<Longrightarrow> inv s'"
  by (induction rule: rtranclp_induct) (auto intro: keep)

end

interpretation kernel_tasks: preserved task_step well_formed
proof
  fix s s' assume "well_formed s" and step: "task_step s s'"
  then obtain ts ss where sys: "task_system s ts ss" by (auto simp: well_formed_def)
  from step show "well_formed s'"
  proof cases
    case (tick cpu r)
    then show ?thesis using tick_step [OF sys, of cpu] by (auto intro: well_formedI)
  next
    case (ends code b)
    then show ?thesis using exit_step [OF sys, of code] by (auto intro: well_formedI)
  next
    case (create address argc a1 a2 a3 a4 bp ret cs sel p)
    then show ?thesis using create_step [OF sys create(1), of address argc a1 a2 a3 a4 bp ret cs sel]
      by (auto intro: well_formedI)
  next
    case (take_memory sz p h)
    then show ?thesis using alloc_step [OF sys take_memory(2)] by (auto intro: well_formedI)
  next
    case (give_memory p h)
    then show ?thesis using free_step [OF sys give_memory(2)] by (auto intro: well_formedI)
  qed
qed

text \<open>
  C4: from a well-formed state, whatever the order of timer interrupts, tasks that start and
  end, and allocations and releases by the rest of the kernel, the state stays well-formed
  (the list in order, every record a block in use, every stack page mapped to itself and of
  one task only), and no operation gets stuck: the timer interrupt and the end of a task
  always run to their end, and a task can be created whenever the heap has room for its record.
\<close>

theorem task_system_safe:
  assumes "well_formed s0" and "task_step\<^sup>*\<^sup>* s0 s"
  shows "well_formed s \<and> irq_time_handle cpu s \<noteq> None \<and> task_exit code s \<noteq> None
    \<and> (room_for 48 (task_heap s) \<longrightarrow> task_create address argc a1 a2 a3 a4 bp ret cs sel s \<noteq> None)
    \<and> (other_block s p \<longrightarrow> free_alloc p (task_heap s) \<noteq> None)"
proof -
  have wf: "well_formed s" by (rule kernel_tasks.keep_run [OF assms(2,1)])
  then obtain ts ss where sys: "task_system s ts ss" by (auto simp: well_formed_def)
  show ?thesis
    using wf tick_step [OF sys, of cpu] exit_step [OF sys, of code] free_step [OF sys, of p]
      create_step [OF sys, of address argc a1 a2 a3 a4 bp ret cs sel] by auto
qed

lemma task_init_runs: "task_init bottom s = Some s' \<Longrightarrow> kernel_runs s'"
  by (auto simp: task_init_def kernel_runs_def static_part_def split: bind_splits)

text \<open>A task is created on the kernel's first heap, and the timer interrupt switches to it.\<close>

lemma first_well_formed:
  assumes "heap_rep h ss" and "heap_start h = 0xFFFFFFFF80110000"
  shows "well_formed (first_tasks h)"
proof -
  have "task_init 0xFFFFFFFF80107000 (static_tasks h) = Some (first_tasks h)"
    by (simp add: first_tasks_def task_init_def static_tasks_def)
  then have "kernel_runs (first_tasks h)" by (rule task_init_runs)
  then have "task_system (first_tasks h) [] ss"
    using assms first_tasks_ok [of h] by (simp add: task_system_def task_memory_def)
  then show ?thesis by (auto simp: well_formed_def)
qed

theorem task_system_safe_witness:
  "\<exists>h s1 p. init_alloc 0xFFFFFFFF80110000 no_heap = Some h
     \<and> task_create 0x400000 0 0 0 0 0 0 0 8 16 (first_tasks h) = Some (p, s1)
     \<and> well_formed s1 \<and> irq_time_handle 0x7000 s1 \<noteq> None"
proof -
  obtain h where h: "init_alloc 0xFFFFFFFF80110000 no_heap = Some h" "heap_rep h [(0x1000, True)]"
    "heap_start h = 0xFFFFFFFF80110000" "heap_room (Suc 7) h"
    using kernel_heap by (auto simp: eval_nat_numeral)
  have wf: "well_formed (first_tasks h)" by (rule first_well_formed [OF h(2,3)])
  have room: "room_for 48 (task_heap (first_tasks h))"
    using h(2,4) first_tasks_ok(4) [of h] by (auto simp: room_for_def fits_def heap_room_def)
  obtain p s1 where s1: "task_create 0x400000 0 0 0 0 0 0 0 8 16 (first_tasks h) = Some (p, s1)"
    using task_system_safe [OF wf, of "first_tasks h" 0 0 "0x400000" 0 0 0 0 0 0 0 8 16 0] room by auto
  have "task_step\<^sup>*\<^sup>* (first_tasks h) s1" using task_step.create [OF room s1] by (rule r_into_rtranclp)
  from task_system_safe [OF wf this, of "0x7000"] h(1) s1 show ?thesis by blast
qed

end
