(* ===== verification/Interrupt_Props.thy ===== *)
theory Interrupt_Props
  imports Interrupt Task_End
begin

text \<open>
  The descriptor tables are the ones the processor needs, an interrupt reaches the handler
  registered for it after its controllers have been told, and a timer interrupt preempts
  the running task.
\<close>

section \<open>The global descriptor table\<close>

definition tss_base :: "buffer \<Rightarrow> qword" where
  "tss_base b = ucast (le16 b 2) OR push_bit 16 (ucast (b ! 4)) OR push_bit 24 (ucast (b ! 7))
     OR push_bit 32 (ucast (le32 b 8))"

lemma bit_shift_back: "bit w (k + (n - k)) \<longleftrightarrow> (if k \<le> n then bit w n else bit w k)"
  by simp

lemma word_pieces:
  "(ucast (ucast (w AND 0xFFFF) :: word16) :: qword) OR push_bit 16 (ucast (ucast (drop_bit 16 w AND 0xFF) :: byte))
     OR push_bit 24 (ucast (ucast (drop_bit 24 w AND 0xFF) :: byte))
     OR push_bit 32 (ucast (ucast (drop_bit 32 w AND 0xFFFFFFFF) :: dword)) = w"
proof -
  have m: "(0xFFFF :: qword) = mask 16" "(0xFF :: qword) = mask 8" "(0xFFFFFFFF :: qword) = mask 32"
    by (simp_all add: mask_eq_exp_minus_1)
  show ?thesis unfolding m by (rule bit_word_eqI) (auto simp: bit_simps bit_shift_back not_less split: if_splits)
qed

lemma le16_bytes: "le16 (bytes16 w) 0 = w"
  by (rule bit_word_eqI) (auto simp: le16_def bytes16_def bit_simps bit_shift_back not_less split: if_splits)

lemma le32_bytes: "le32 (bytes32 w) 0 = w"
  by (rule bit_word_eqI) (auto simp: le32_def le16_def bytes32_def bit_simps bit_shift_back not_less split: if_splits)

lemma segment_bytes:
  "gdt32_bytes (segment32 (GDT_ACCESS 1 0 1 1 0 1 0) (GDT_FLAGS 1 0 1)) = [0xFF, 0xFF, 0, 0, 0, 0x9A, 0xAF, 0]"
  "gdt32_bytes (segment32 (GDT_ACCESS 1 0 1 0 0 1 0) (GDT_FLAGS 1 1 0)) = [0xFF, 0xFF, 0, 0, 0, 0x92, 0xCF, 0]"
  "gdt32_bytes (segment32 (GDT_ACCESS 1 DPL_RING3 1 1 0 1 0) (GDT_FLAGS 1 0 1)) = [0xFF, 0xFF, 0, 0, 0, 0xFA, 0xAF, 0]"
  "gdt32_bytes (segment32 (GDT_ACCESS 1 DPL_RING3 1 0 0 1 0) (GDT_FLAGS 1 1 0)) = [0xFF, 0xFF, 0, 0, 0, 0xF2, 0xCF, 0]"
  by (simp_all add: gdt32_bytes_def segment32_def bytes16_def GDT_ACCESS_def GDT_FLAGS_def)

lemma replicate_8: "replicate 8 x = [x, x, x, x, x, x, x, x]"
  by (simp add: numeral_eq_Suc)

text \<open>
  the table \<open>gdt_init\<close> builds holds the null descriptor, the 64-bit code and data segments
  of the kernel at \<open>0x08\<close> and \<open>0x10\<close>, those of ring 3 at \<open>0x18\<close> and \<open>0x20\<close>, and at \<open>0x28\<close> an
  available 64-bit TSS whose base, put together as the processor does, is the address of the
  kernel's task state segment and whose limit is its size less one.
\<close>

theorem gdt_init_correct:
  "let s' = gdt_init gdt_addr tss_addr bottom s; g = gdt_entries s' in
    length g = 56 \<and> le64 g 0 = 0 \<and> le64 g 8 = 0x00AF9A000000FFFF \<and> le64 g 16 = 0x00CF92000000FFFF
    \<and> le64 g 24 = 0x00AFFA000000FFFF \<and> le64 g 32 = 0x00CFF2000000FFFF
    \<and> tss_base (drop 40 g) = tss_addr \<and> le16 g 40 = 103 \<and> g ! 45 = 0x89 \<and> g ! 46 = 0
    \<and> gdtr s' = (55, gdt_addr) \<and> task_register s' = 0x28 \<and> tss_rsp0 (tss_entry s') = bottom"
proof -
  define g where "g = gdt_entries (gdt_init gdt_addr tss_addr bottom s)"
  let ?d = "tss_descriptor tss_addr"
  have g: "g = [0, 0, 0, 0, 0, 0, 0, 0, 0xFF, 0xFF, 0, 0, 0, 0x9A, 0xAF, 0, 0xFF, 0xFF, 0, 0, 0, 0x92, 0xCF, 0,
      0xFF, 0xFF, 0, 0, 0, 0xFA, 0xAF, 0, 0xFF, 0xFF, 0, 0, 0, 0xF2, 0xCF, 0] @ gdt64_bytes ?d"
    unfolding g_def gdt_init_def Let_def segment_bytes replicate_8 by simp
  have b: "gdt64_bytes ?d = [103, 0] @ bytes16 (low_base ?d) @ [mid_base ?d, 0x89, 0, high_base ?d]
      @ bytes32 (offset_base3 ?d) @ [0, 0, 0, 0]"
    by (simp add: gdt64_bytes_def gdt32_bytes_def tss_descriptor_def Let_def bytes16_def bytes32_def
        GDT_ACCESS_def GDT_FLAGS_def)
  have "tss_base (drop 40 g) = ucast (le16 (bytes16 (low_base ?d)) 0) OR push_bit 16 (ucast (mid_base ?d))
      OR push_bit 24 (ucast (high_base ?d)) OR push_bit 32 (ucast (le32 (bytes32 (offset_base3 ?d)) 0))"
    by (simp add: g b tss_base_def le32_def le16_def bytes16_def bytes32_def)
  then have "tss_base (drop 40 g) = tss_addr"
    unfolding le16_bytes le32_bytes using word_pieces [of tss_addr] by (simp add: tss_descriptor_def Let_def)
  moreover have "length g = 56" "le64 g 0 = 0" "le64 g 8 = 0x00AF9A000000FFFF" "le64 g 16 = 0x00CF92000000FFFF"
    "le64 g 24 = 0x00AFFA000000FFFF" "le64 g 32 = 0x00CFF2000000FFFF" "le16 g 40 = 103" "g ! 45 = 0x89" "g ! 46 = 0"
    by (simp_all add: g b le64_def le32_def le16_def bytes16_def bytes32_def)
  ultimately show ?thesis
    unfolding g_def Let_def by (simp add: gdt_init_def Let_def)
qed

section \<open>The interrupt descriptor table\<close>

lemma gate_pieces:
  "gate_base \<lparr>low_offset = ucast (w AND 0xFFFF), code_sgement = c, ist = i, gate_type = g, gate_zero = z, dpl = d,
     present = p, mid_offset = ucast (drop_bit 16 w AND 0xFFFF), high_offset = ucast (drop_bit 32 w AND 0xFFFFFFFF),
     gate_reserved = r\<rparr> = w"
proof -
  have m: "(0xFFFF :: qword) = mask 16" "(0xFFFFFFFF :: qword) = mask 32" "(0xFFFF :: word16) = mask 16"
    "(0xFFFFFFFF :: dword) = mask 32"
    by (simp_all add: mask_eq_exp_minus_1)
  show ?thesis unfolding gate_base_def idt_entry_t.simps m
    by (rule bit_word_eqI) (auto simp: bit_simps bit_shift_back not_less split: if_splits)
qed

definition gate_ok :: "idt_entry_t \<Rightarrow> qword \<Rightarrow> bool" where
  "gate_ok e a \<longleftrightarrow> gate_base e = a \<and> present e = 1 \<and> dpl e = 0 \<and> gate_type e = 14 \<and> code_sgement e = 8 \<and> ist e = 0"

lemma idt_loop_ok:
  assumes "length xs = 48" and "length (idt_entries s) = 256" and "length (interrupt_registers s) = 256"
  shows "n \<le> 48 \<Longrightarrow> \<exists>s'. idt_loop xs n s = Some s' \<and> length (idt_entries s') = 256
    \<and> length (interrupt_registers s') = 256
    \<and> (\<forall>i < n. gate_ok (idt_entries s' ! i) (xs ! i) \<and> interrupt_registers s' ! i = 0)
    \<and> (\<forall>i. n \<le> i \<longrightarrow> idt_entries s' ! i = idt_entries s ! i \<and> interrupt_registers s' ! i = interrupt_registers s ! i)
    \<and> focus_interrupt s' = focus_interrupt s \<and> ports s' = ports s"
proof (induction n)
  case 0
  then show ?case using assms by simp
next
  case (Suc n)
  then obtain s1 where s1: "idt_loop xs n s = Some s1" "length (idt_entries s1) = 256"
    "length (interrupt_registers s1) = 256"
    "\<forall>i < n. gate_ok (idt_entries s1 ! i) (xs ! i) \<and> interrupt_registers s1 ! i = 0"
    "\<forall>i. n \<le> i \<longrightarrow> idt_entries s1 ! i = idt_entries s ! i \<and> interrupt_registers s1 ! i = interrupt_registers s ! i"
    "focus_interrupt s1 = focus_interrupt s" "ports s1 = ports s"
    by auto
  then show ?case
    using Suc.prems assms(1) by (auto simp: nth_list_update less_Suc_eq gate_ok_def gate_pieces)
qed

lemma idt_init_run:
  assumes "length xs = 48" and "length (idt_entries s) = 256" and "length (interrupt_registers s) = 256"
  shows "\<exists>s'. idt_init xs sys idt_addr timer keyboard s = Some s'
    \<and> length (idt_entries s') = 256 \<and> length (interrupt_registers s') = 256
    \<and> (\<forall>i < 48. gate_ok (idt_entries s' ! i) (xs ! i)) \<and> gate_ok (idt_entries s' ! 0x80) sys
    \<and> (\<forall>i. 48 \<le> i \<and> i \<noteq> 0x80 \<longrightarrow> idt_entries s' ! i = idt_entries s ! i)
    \<and> (\<forall>i < 48. interrupt_registers s' ! i = (if i = 32 then timer else if i = 33 then keyboard else 0))
    \<and> idtr s' = (4095, idt_addr) \<and> interrupts_on s' \<and> focus_interrupt s' = focus_interrupt s"
proof -
  let ?s0 = "s\<lparr>interrupts_on := False\<rparr>"
  obtain s1 where s1: "idt_loop xs 48 ?s0 = Some s1" "length (idt_entries s1) = 256"
    "length (interrupt_registers s1) = 256"
    "\<forall>i < 48. gate_ok (idt_entries s1 ! i) (xs ! i) \<and> interrupt_registers s1 ! i = 0"
    "\<forall>i. 48 \<le> i \<longrightarrow> idt_entries s1 ! i = idt_entries s ! i"
    "focus_interrupt s1 = focus_interrupt s"
    using idt_loop_ok [OF assms(1), of ?s0 48] assms(2,3) by auto
  show ?thesis
    unfolding idt_init_def s1(1) bind.bind_lunit
    using s1(2-6)
    by (auto simp: interrupt_setEntry_def time_init_def keyboard_init_def interrupt_register_def Let_def
        nth_list_update gate_ok_def gate_pieces)
qed

text \<open>
  C26: after \<open>idt_init\<close> the gates 0 to 47 lead to the stubs, gate \<open>0x80\<close> to the system call
  entry, all as present interrupt gates of ring 0 in the kernel's code segment; every other
  gate is as before; the timer and the keyboard have their handlers and the other lines
  none; the table is loaded with its size less one, and interrupts are on.
\<close>

theorem idt_init_correct:
  assumes "length xs = 48" and "length (idt_entries s) = 256" and "length (interrupt_registers s) = 256"
  shows "\<exists>s'. idt_init xs sys idt_addr timer keyboard s = Some s'
    \<and> (\<forall>i < 48. gate_ok (idt_entries s' ! i) (xs ! i)) \<and> gate_ok (idt_entries s' ! 0x80) sys
    \<and> (\<forall>i. 48 \<le> i \<and> i \<noteq> 0x80 \<longrightarrow> idt_entries s' ! i = idt_entries s ! i)
    \<and> (\<forall>i < 48. interrupt_registers s' ! i = (if i = 32 then timer else if i = 33 then keyboard else 0))
    \<and> idtr s' = (4095, idt_addr) \<and> interrupts_on s'"
  using idt_init_run [OF assms] by blast

definition blank_gate :: idt_entry_t where
  "blank_gate = \<lparr>low_offset = 0, code_sgement = 0, ist = 0, gate_type = 0, gate_zero = 0, dpl = 0, present = 0,
     mid_offset = 0, high_offset = 0, gate_reserved = 0\<rparr>"

definition blank_interrupts :: interrupts where
  "blank_interrupts = \<lparr>idt_entries = replicate 256 blank_gate, interrupt_registers = replicate 256 0,
     idt_desc = (0, 0), focus_interrupt = 0, idtr = (0, 0), interrupts_on = False, ports = []\<rparr>"

theorem idt_init_correct_witness:
  "\<exists>s'. idt_init (map (\<lambda>i. 0xFFFFFFFF80100000 + of_nat i * 16) [0..<48]) 0xFFFFFFFF80100400 0xFFFFFFFF80109000
       0xFFFFFFFF80100500 0xFFFFFFFF80100600 blank_interrupts = Some s'
     \<and> gate_ok (idt_entries s' ! 14) 0xFFFFFFFF801000E0 \<and> present (idt_entries s' ! 200) = 0
     \<and> interrupt_registers s' ! 32 = 0xFFFFFFFF80100500"
proof -
  define xs where "xs = map (\<lambda>i. 0xFFFFFFFF80100000 + of_nat i * 16 :: qword) [0..<48]"
  have len: "length xs = 48" "length (idt_entries blank_interrupts) = 256"
    "length (interrupt_registers blank_interrupts) = 256"
    by (simp_all add: xs_def blank_interrupts_def)
  obtain s' where s': "idt_init xs 0xFFFFFFFF80100400 0xFFFFFFFF80109000 0xFFFFFFFF80100500 0xFFFFFFFF80100600
      blank_interrupts = Some s'"
    and g: "\<forall>i < 48. gate_ok (idt_entries s' ! i) (xs ! i)"
    and o: "\<forall>i. 48 \<le> i \<and> i \<noteq> 0x80 \<longrightarrow> idt_entries s' ! i = idt_entries blank_interrupts ! i"
    and h: "\<forall>i < 48. interrupt_registers s' ! i
        = (if i = 32 then 0xFFFFFFFF80100500 else if i = 33 then 0xFFFFFFFF80100600 else 0)"
    using idt_init_correct [OF len, of "0xFFFFFFFF80100400" "0xFFFFFFFF80109000" "0xFFFFFFFF80100500" "0xFFFFFFFF80100600"]
    by blast
  have "xs ! 14 = 0xFFFFFFFF801000E0" by (simp add: xs_def)
  then have "gate_ok (idt_entries s' ! 14) 0xFFFFFFFF801000E0" using g [rule_format, of 14] by simp
  moreover have "present (idt_entries s' ! 200) = 0"
    using o [rule_format, of 200] by (simp add: blank_interrupts_def blank_gate_def)
  moreover have "interrupt_registers s' ! 32 = 0xFFFFFFFF80100500" using h [rule_format, of 32] by simp
  ultimately show ?thesis using s' unfolding xs_def by blast
qed

section \<open>Dispatch\<close>

lemma irq_handle_run:
  assumes "32 \<le> interrupt_code c" and "unat (interrupt_code c) < length (interrupt_registers s)"
  shows "irq_handle c s = Some
     (if interrupt_registers s ! unat (interrupt_code c) = 0 \<or> focus_interrupt s \<noteq> 0 then None
      else Some (interrupt_registers s ! unat (interrupt_code c)),
      s\<lparr>ports := pic_endofinterrupt (ucast (interrupt_code c - 32)) (ports s)\<rparr>)"
  using assms by (simp add: irq_handle_def Let_def not_less [symmetric])

text \<open>
  for each of the lines 0 to 15, \<open>irq_handle\<close> sends the end of interrupt to the master
  controller, and before it to the slave exactly when the line is one of the slave's; then
  it calls the registered handler, and none after an exception has been reported.
\<close>

theorem irq_handle_correct:
  assumes "interrupt_code c = 32 + of_nat line" and "line < 16" and "length (interrupt_registers s) = 256"
  shows "\<exists>s'. irq_handle c s = Some
      (let h = interrupt_registers s ! (32 + line) in if h = 0 \<or> focus_interrupt s \<noteq> 0 then None else Some h, s')
    \<and> ports s' = ports s @ (if 8 \<le> line then [(0xA0, 0x20)] else []) @ [(0x20, 0x20)]
    \<and> interrupt_registers s' = interrupt_registers s \<and> focus_interrupt s' = focus_interrupt s"
proof -
  have l: "unat (of_nat line :: qword) = line" "unat (of_nat line :: byte) = line"
    using assms(2) by (simp_all add: unsigned_of_nat take_bit_nat_eq_self)
  have u: "unat (interrupt_code c) = 32 + line" using assms(1,2) l by (simp add: unat_word_ariths)
  then have ge: "32 \<le> interrupt_code c" by (simp add: word_le_nat_alt)
  have e: "ucast (interrupt_code c - 32) = (of_nat line :: byte)"
  proof -
    have "ucast (of_nat line :: qword) = (of_nat line :: byte)" by (rule bit_word_eqI) (simp add: bit_simps)
    then show ?thesis using assms(1) by simp
  qed
  have s: "(8 :: byte) \<le> of_nat line \<longleftrightarrow> 8 \<le> line" using l(2) by (simp add: word_le_nat_alt)
  show ?thesis
    using irq_handle_run [OF ge, of s] assms(2,3) by (simp add: u e s pic_endofinterrupt_def)
qed

theorem irq_handle_correct_witness:
  "\<exists>s'. irq_handle (frame_at (\<lambda>_. 44) 0) blank_interrupts = Some (None, s')
     \<and> ports s' = [(0xA0, 0x20), (0x20, 0x20)]"
  using irq_handle_correct [of "frame_at (\<lambda>_. 44) 0" 12 blank_interrupts]
  by (auto simp: frame_at_def blank_interrupts_def)

text \<open>
  The stub of an interrupt line (\<open>irq_stub\<close> of \<open>idt.asm\<close>): the frame is pushed on the stack of
  the running task, \<open>irq_handle\<close> chooses a handler and the handler runs with the address of
  the frame.  The result is the address a switch takes the registers from, \<open>None\<close> when the
  interrupted task goes on.
\<close>

definition irq_stub :: "qword \<Rightarrow> qword \<Rightarrow> nat \<Rightarrow> cpu_register_t \<Rightarrow> interrupts \<times> tasks
    \<Rightarrow> (qword option \<times> interrupts \<times> tasks) option" where
  "irq_stub timer keyboard line r st = do {
     let (m, a) = interrupt_entry r (of_nat line) (32 + of_nat line) (stacks (snd st));
     let ts = (snd st)\<lparr>stacks := m\<rparr>;
     (handler, i) \<leftarrow> irq_handle (frame_at m a) (fst st);
     case handler of
       None \<Rightarrow> Some (None, i, ts)
     | Some f \<Rightarrow>
         if f = timer then do { (sp, ts') \<leftarrow> irq_time_handle a ts; Some (sp, i, ts') }
         else if f = keyboard then Some (None, i, ts)
         else None }"

text \<open>
  C11: after \<open>idt_init\<close>, a timer interrupt preempts the running task: unless the new tick count
  is a multiple of 1000 (when nothing is switched), the next task of the list runs, the
  registers of the interrupted one are saved in its stack and come back when it is resumed,
  and the controller has been told.
\<close>

theorem timer_interrupt_preempts:
  assumes "idt_init xs sys idt_addr timer keyboard i0 = Some i" and "length xs = 48"
    and "length (idt_entries i0) = 256" and "length (interrupt_registers i0) = 256" and "focus_interrupt i0 = 0"
    and "timer \<noteq> 0" and "tasks_ok s ts" and "j < length ts" and "task_current s = ts ! j"
    and "is_ctask_running s = Some True"
  shows "\<exists>sp i' s'. irq_stub timer keyboard 0 r (i, s) = Some (sp, i', s') \<and> tasks_ok s' ts
    \<and> ports i' = ports i @ [(0x20, 0x20)]
    \<and> (if (ticks s + 1) mod 1000 = 0 then sp = None \<and> task_current s' = ts ! j
       else task_current s' = ts ! (Suc j mod length ts)
         \<and> (\<exists>u n. task_store s' (ts ! j) = Some u \<and> same_context (resume_at (stacks s') (task_sp u) r') r
              \<and> task_store s' (task_current s') = Some n \<and> sp = Some (task_sp n)))"
proof -
  obtain m a where e: "interrupt_entry r 0 32 (stacks s) = (m, a)" by fastforce
  have i: "length (interrupt_registers i) = 256" "interrupt_registers i ! 32 = timer" "focus_interrupt i = 0"
    using idt_init_run [OF assms(2-4), of sys idt_addr timer keyboard] assms(1,5) by auto
  have code: "interrupt_code (frame_at m a) = 32" using frame_after_interrupt [OF e] by simp
  let ?i = "i\<lparr>ports := ports i @ [(0x20, 0x20)]\<rparr>"
  let ?s = "s\<lparr>stacks := m\<rparr>"
  let ?t = "?s\<lparr>ticks := ticks s + 1\<rparr>"
  have irq: "irq_handle (frame_at m a) i = Some (Some timer, ?i)"
    using irq_handle_run [of "frame_at m a" i] i assms(6) by (simp add: code pic_endofinterrupt_def)
  have ok: "tasks_ok ?t ts" "task_current ?t = ts ! j" using assms(7,9) by (simp_all add: tasks_ok_def)
  have run: "is_ctask_running ?t = Some True" using assms(10) by (simp add: is_ctask_running_def)
  have stub: "irq_stub timer keyboard 0 r (i, s) = do { (sp, ts') \<leftarrow> irq_time_handle a ?s; Some (sp, ?i, ts') }"
    by (simp add: irq_stub_def e irq)
  obtain t n where sw: "task_store (switched ts j t a ?t) (ts ! (Suc j mod length ts)) = Some n"
    "switch_task a ?t = Some (task_sp n, switched ts j t a ?t)" "tasks_ok (switched ts j t a ?t) ts"
    using switch_task_next [OF ok(1) assms(8) ok(2), of a] by blast
  show ?thesis
  proof (cases "(ticks s + 1) mod 1000 = 0")
    case True
    then have "irq_time_handle a ?s = Some (None, ?t)" by (simp add: irq_time_handle_def Let_def)
    then show ?thesis using True ok stub by auto
  next
    case False
    then have "irq_time_handle a ?s = Some (Some (task_sp n), switched ts j t a ?t)"
      using run sw(2) by (simp add: irq_time_handle_def Let_def)
    moreover have "same_context (resume_at m a r') r" by (rule resume_after_interrupt [OF e])
    ultimately show ?thesis using False sw stub by (auto split: if_splits)
  qed
qed

theorem timer_interrupt_preempts_witness:
  "\<exists>i sp i' s'. idt_init (replicate 48 0x1000) 0x2000 0x3000 0x4000 0x5000 blank_interrupts = Some i
     \<and> irq_stub 0x4000 0x5000 0 (frame_at (\<lambda>_. 0x9000) 0) (i, first_tasks no_heap) = Some (Some sp, i', s')
     \<and> task_current s' = 0xFFFFFFFF80108000"
proof -
  have len: "length (replicate 48 (0x1000 :: qword)) = 48" "length (idt_entries blank_interrupts) = 256"
    "length (interrupt_registers blank_interrupts) = 256"
    by (simp_all add: blank_interrupts_def)
  obtain i where i: "idt_init (replicate 48 0x1000) 0x2000 0x3000 0x4000 0x5000 blank_interrupts = Some i"
    using idt_init_run [OF len, of "0x2000" "0x3000" "0x4000" "0x5000"] by blast
  have run: "is_ctask_running (first_tasks no_heap) = Some True"
    by (simp add: first_tasks_def task_init_def static_tasks_def static_task_def is_ctask_running_def)
  have f: "focus_interrupt blank_interrupts = 0" by (simp add: blank_interrupts_def)
  from timer_interrupt_preempts [OF i len f _ first_tasks_ok(1) _ _ run, of 0 "frame_at (\<lambda>_. 0x9000) 0" "frame_at (\<lambda>_. 0x9000) 0"] i
  show ?thesis by (auto simp: first_tasks_ok)
qed

end
