(* ===== verification/Kernel_Main_Props.thy ===== *)
theory Kernel_Main_Props
  imports Page_Device Kernel_Main Kernel_Props Elf_Load Task_System Interrupt_Props
begin

text \<open>
  \<open>kernel_main\<close> from the tables the loader leaves to the first task: each of its parts, and the
  state in which \<open>term_run\<close> starts.
\<close>

section \<open>Addresses\<close>

lemma framebuffer_page_high:
  assumes "framebuffer_place fb n" and "k < n" and "0xFFFF800000000000 \<le> a"
  shows "vp fb k \<noteq> vpage a"
proof
  let ?x = "fb + of_nat k * PAGE_SIZE"
  assume "vp fb k = vpage a"
  then have "PMLT4_INDEX ?x = PMLT4_INDEX a" by (simp add: vp_def vpage_def)
  then have "bit (PMLT4_INDEX ?x) 8 = bit (PMLT4_INDEX a) 8" by simp
  moreover have "bit a 47" by (rule upper_half_bit [OF assms(3)])
  moreover have "\<not> bit ?x 47"
  proof -
    have "\<not> bit (unat ?x) 47" using framebuffer_byte [OF assms(1,2)] by (simp add: bit_iff_odd)
    then show ?thesis by (simp add: bit_unsigned_iff)
  qed
  ultimately show False by (simp add: PMLT4_INDEX_def bit_simps)
qed

section \<open>Messages\<close>

lemma k_print_ok:
  assumes "term_ok (k_term k)" and "list_all (\<lambda>c. of_char c \<noteq> (0 :: byte) \<and> of_char c < (128 :: byte)) s"
  shows "\<exists>t. k_print s k = Some (k\<lparr>k_term := t\<rparr>) \<and> term_ok t"
proof -
  have "0 \<notin> set (map of_char s :: byte list)" using assms(2) by (auto simp: list_all_iff image_iff dest!: bspec)
  then have "print (lit s) = Some (map of_char s)"
    using print_loop_ok [of "map of_char s" "[]" "[]"] by (simp add: print_def lit_def)
  moreover have "\<forall>c \<in> set (map of_char s). c < (128 :: byte)" using assms(2) by (auto simp: list_all_iff)
  ultimately show ?thesis using tty.feed_ok [OF assms(1), of "map of_char s"] by (auto simp: k_print_def)
qed

section \<open>The screen\<close>

abbreviation boot_video :: "kernel_header_info_t \<Rightarrow> kernel \<Rightarrow> video" where
  "boot_video hdr k \<equiv> video_driver_init hdr (screen (k_term k))"

definition fb_pages :: "video \<Rightarrow> nat" where
  "fb_pages v = page_count (of_nat (unat (video_width v) * unat (video_height v) * unat (video_bpp v)))"

text \<open>
  A framebuffer as large as the header says, with room for one character, on pages that are not
  mapped yet, and a font.
\<close>

definition screen_ready :: "kernel_header_info_t \<Rightarrow> kernel \<Rightarrow> bool" where
  "screen_ready hdr k \<longleftrightarrow> video_ok (boot_video hdr k) \<and> font_ok (boot_video hdr k)
     \<and> 8 \<le> unat (video_width (boot_video hdr k)) \<and> 16 \<le> unat (video_height (boot_video hdr k))
     \<and> framebuffer_place (hdr_framebuffer hdr) (fb_pages (boot_video hdr k))"

lemma term_init_ok:
  assumes "video_ok (screen t)" and "font_ok (screen t)"
    and "8 \<le> unat (video_width (screen t))" and "16 \<le> unat (video_height (screen t))"
  shows "term_ok (term_init t)"
proof -
  have "0 < (ucast (w div d) :: dword)" if "0 < unat d" "unat d \<le> unat w" for w d :: word16
    using that by (simp add: word_less_nat_alt unat_ucast16 unat_div div_greater_zero_iff)
  from this [of 8] this [of 16] show ?thesis
    using assms by (simp add: term_ok_def grid_ok_def term_init_def video_driver_getsize_def Let_def)
qed

lemma main_screen_ok:
  assumes "screen_ready hdr k" and "page_inv (page_init (sym_cr3 y) (pages (k_heap k)))"
    and "3 * fb_pages (boot_video hdr k) \<le> free_count (pages (k_heap k))"
    and "\<forall>i < fb_pages (boot_video hdr k). vmap (page_init (sym_cr3 y) (pages (k_heap k))) (vp (hdr_framebuffer hdr) i) = 0"
  shows "\<exists>ps t. main_screen y hdr k = Some ((set_pages ps k)\<lparr>k_term := t\<rparr>) \<and> term_ok t \<and> page_inv ps
    \<and> free_count (pages (k_heap k)) \<le> free_count ps + 3 * fb_pages (boot_video hdr k)
    \<and> framebuffer_mapped (hdr_framebuffer hdr) (fb_pages (boot_video hdr k)) ps"
proof -
  let ?v = "boot_video hdr k" and ?ps = "page_init (sym_cr3 y) (pages (k_heap k))"
  have v: "video_ok ?v" "font_ok ?v" "8 \<le> unat (video_width ?v)" "16 \<le> unat (video_height ?v)"
    "framebuffer_place (hdr_framebuffer hdr) (fb_pages ?v)" "framebuffer_address ?v = hdr_framebuffer hdr"
    using assms(1) by (simp_all add: screen_ready_def) (simp add: video_driver_init_def)
  have free: "free_count ?ps = free_count (pages (k_heap k))" by (simp add: free_count_def page_init_def)
  have fl: "ok_flags (1 OR 2)" by (simp add: ok_flags_def)
  have "fb_pages ?v \<le> 0x80000" using assms(3) free_count_le [of "pages (k_heap k)"] by simp
  then obtain ps where ps: "page_mapvp (hdr_framebuffer hdr) (hdr_framebuffer hdr)
      (of_nat (unat (video_width ?v) * unat (video_height ?v) * unat (video_bpp ?v))) (1 OR 2) ?ps = Some ps"
    "page_inv ps" "free_count ?ps \<le> free_count ps + 3 * fb_pages ?v"
    "\<forall>i < fb_pages ?v. vmap ps (vp (hdr_framebuffer hdr) i) = (hdr_framebuffer hdr + of_nat i * PAGE_SIZE) OR ucast (1 OR 2 :: word16)"
    using mapvp_loop [OF assms(2) fl, of "fb_pages ?v" "hdr_framebuffer hdr" "hdr_framebuffer hdr"] assms(3,4)
      framebuffer_page(1) [OF v(5)]
    unfolding page_mapvp_def fb_pages_def [symmetric] free by (metis (no_types, lifting))
  have mapped: "video_driver_mapped ?v ?ps = Some ps"
    using v(1,6) ps(1) by (simp add: video_driver_mapped_def video_ok_def Let_def del: or_numerals)
  obtain v' where v': "video_driver_clearScreen (R8G8B8 100 0 0) ?v = Some v'" "same_screen ?v v'"
    using clear_rows_ok [OF v(1), of "unat (video_height ?v)"] unfolding video_driver_clearScreen_def by blast
  let ?t = "term_init ((k_term k)\<lparr>screen := v'\<rparr>)"
  have "term_ok ?t"
    by (rule term_init_ok) (use v(1-4) same_screenD [OF v'(2)] in \<open>simp_all add: font_ok_def\<close>)
  moreover have "main_screen y hdr k = Some ((set_pages ps k)\<lparr>k_term := ?t\<rparr>)"
    by (simp add: main_screen_def mapped v'(1) set_screen_def set_pages_def set_heap_def)
  moreover have "framebuffer_mapped (hdr_framebuffer hdr) (fb_pages ?v) ps"
    using ps(4) by (simp add: framebuffer_mapped_def)
  ultimately show ?thesis using ps(2,3) free by auto
qed

section \<open>Tables, tasks and interrupts\<close>

text \<open>Every gate leads to its stub, the two drivers are registered, the table is loaded.\<close>

definition interrupts_ready :: "boot_symbols \<Rightarrow> interrupts \<Rightarrow> bool" where
  "interrupts_ready y s \<longleftrightarrow> (\<forall>i < 48. gate_ok (idt_entries s ! i) (sym_interrupt_list y ! i))
     \<and> gate_ok (idt_entries s ! 0x80) (sym_int_syscall y)
     \<and> interrupt_registers s ! 32 = sym_timer y \<and> interrupt_registers s ! 33 = sym_keyboard y
     \<and> idtr s = (4095, sym_idt y) \<and> interrupts_on s"

lemma main_tables_ok:
  assumes "m_kernel m = k" and "term_ok (k_term k)"
    and "task_store (k_tasks k) (kernel_task (k_tasks k)) = Some t0" and "kernel_task (k_tasks k) \<noteq> 0"
    and "length (sym_interrupt_list y) = 48" and "length (idt_entries (m_ints m)) = 256"
    and "length (interrupt_registers (m_ints m)) = 256"
  shows "\<exists>t ts ints. main_tables y m = Some (m\<lparr>m_kernel := k\<lparr>k_term := t, k_tasks := ts\<rparr>,
       m_tables := gdt_init (sym_gdt y) (sym_tss y) (sym_tss_stack y) (m_tables m), m_ints := ints\<rparr>)
    \<and> term_ok t \<and> interrupts_ready y ints \<and> tasks_ok ts [kernel_task (k_tasks k)]
    \<and> task_current ts = kernel_task (k_tasks k) \<and> kernel_task ts = kernel_task (k_tasks k)
    \<and> kernel_runs ts"
proof -
  let ?gdt = "gdt_init (sym_gdt y) (sym_tss y) (sym_tss_stack y) (m_tables m)"
  obtain ts where ts: "task_init (sym_stack_bottom y) (k_tasks k) = Some ts" "tasks_ok ts [kernel_task (k_tasks k)]"
    "task_current ts = kernel_task (k_tasks k)" "kernel_task ts = kernel_task (k_tasks k)"
    using task_init_ok [OF assms(3,4)] by blast
  note run = task_init_runs [OF ts(1)]
  obtain ints where ints: "idt_init (sym_interrupt_list y) (sym_int_syscall y) (sym_idt y) (sym_timer y) (sym_keyboard y) (m_ints m)
      = Some ints" "interrupts_ready y ints"
    using idt_init_run [OF assms(5-7), of "sym_int_syscall y" "sym_idt y" "sym_timer y" "sym_keyboard y"]
    by (auto simp: interrupts_ready_def)
  obtain t1 where t1: "k_print (''Global Descriptor Table Installed!'' @ NL) k = Some (k\<lparr>k_term := t1\<rparr>)" "term_ok t1"
    using k_print_ok [of k "''Global Descriptor Table Installed!'' @ NL"] assms(2) by auto
  let ?k = "k\<lparr>k_term := t1, k_tasks := ts\<rparr>"
  obtain t2 where t2: "k_print (''Programmable Interrupt Controller Installed!'' @ NL) ?k = Some (?k\<lparr>k_term := t2\<rparr>)" "term_ok t2"
    using k_print_ok [of ?k "''Programmable Interrupt Controller Installed!'' @ NL"] t1(2) by auto
  have hex: "\<exists>t. k_printf Map.empty (s @ ''%x'' @ NL) [a] k' = Some (k'\<lparr>k_term := t\<rparr>) \<and> term_ok t"
    if "term_ok (k_term k')" and "s \<in> {''IDT Desc: Limit = '', ''IDT Desc: Base: ''}" for s a k'
    by (rule k_printf_ok [OF that(1), where ps = "map Lit (map of_char s) @ [Hex a, Lit 0x0A]"])
      (use that(2) in \<open>auto simp: message_ok_def lit_def format_of_def args_of_def\<close>)
  let ?k2 = "?k\<lparr>k_term := t2\<rparr>"
  obtain t3 where t3: "k_printf Map.empty (''IDT Desc: Limit = %x'' @ NL) [ucast (fst (idt_desc ints))] ?k2
      = Some (?k2\<lparr>k_term := t3\<rparr>)" "term_ok t3"
    using hex [of ?k2 "''IDT Desc: Limit = ''" "ucast (fst (idt_desc ints))"] t2(2) by auto
  let ?k3 = "?k\<lparr>k_term := t3\<rparr>"
  obtain t4 where t4: "k_printf Map.empty (''IDT Desc: Base: %x'' @ NL) [snd (idt_desc ints)] ?k3
      = Some (?k3\<lparr>k_term := t4\<rparr>)" "term_ok t4"
    using hex [of ?k3 "''IDT Desc: Base: ''" "snd (idt_desc ints)"] t3(2) by auto
  let ?k4 = "?k\<lparr>k_term := t4\<rparr>"
  obtain t5 where t5: "k_print (''Interrupt Descriptor Table Installed!'' @ NL) ?k4 = Some (?k4\<lparr>k_term := t5\<rparr>)" "term_ok t5"
    using k_print_ok [of ?k4 "''Interrupt Descriptor Table Installed!'' @ NL"] t4(2) by auto
  let ?k5 = "?k\<lparr>k_term := t5\<rparr>"
  obtain t6 where t6: "k_print (''Programmable Interrupt Time Installed!'' @ NL) ?k5 = Some (?k5\<lparr>k_term := t6\<rparr>)" "term_ok t6"
    using k_print_ok [of ?k5 "''Programmable Interrupt Time Installed!'' @ NL"] t5(2) by auto
  let ?k6 = "?k\<lparr>k_term := t6\<rparr>"
  obtain t7 where t7: "k_print (''Keyboard Interrupt Installed!'' @ NL) ?k6 = Some (?k6\<lparr>k_term := t7\<rparr>)" "term_ok t7"
    using k_print_ok [of ?k6 "''Keyboard Interrupt Installed!'' @ NL"] t6(2) by auto
  let ?k7 = "?k\<lparr>k_term := t7\<rparr>"
  obtain t8 where t8: "k_print (''Interrupt [Done]'' @ NL) ?k7 = Some (?k7\<lparr>k_term := t8\<rparr>)" "term_ok t8"
    using k_print_ok [of ?k7 "''Interrupt [Done]'' @ NL"] t7(2) by auto
  have "main_tables y m = Some (m\<lparr>m_kernel := k\<lparr>k_term := t8, k_tasks := ts\<rparr>, m_tables := ?gdt, m_ints := ints\<rparr>)"
    using t1(1) t2(1) t3(1) t4(1) t5(1) t6(1) t7(1) t8(1) ts(1) ints(1) assms(1) by (simp add: main_tables_def)
  then show ?thesis using t8(2) ints(2) ts(2-4) run by blast
qed

section \<open>The heap and the volume\<close>

definition heap_place :: "qword \<Rightarrow> bool" where
  "heap_place a \<longleftrightarrow> 0xFFFF800000000000 \<le> a \<and> unat a + 0x40000000 \<le> 2 ^ 64 \<and> 4096 dvd unat a"

text \<open>The first sector of the first partition, and the header of its file system.\<close>

definition first_partition :: "disk \<Rightarrow> qword" where
  "first_partition d = le64 (disk_bytes d 2 0 128) 32"

definition boot_header :: "disk \<Rightarrow> fat_header_t" where
  "boot_header d = fat_header_of (disk_bytes d (ucast (first_partition d)) 0 36)"

text \<open>The two sector buffers of \<open>gpt.c\<close>: the first is given back, the second is not.\<close>

lemma gpt_buffers:
  assumes "heap_rep h [(0x1000, True)]" and "heap_room (Suc (Suc g)) h" and "disk_ok (fdisk s)"
    and "gpt_table s = None" and "fheap s = h"
  shows "\<exists>b h'. gpt_get_lba_start_volume 0 s = Some (first_partition (fdisk s), s\<lparr>gpt_table := Some b, fheap := h'\<rparr>)
    \<and> heap_rep h' [(529, False), (3567, True)] \<and> heap_start h' = heap_start h \<and> heap_room g h' \<and> pages h' = pages h"
proof -
  have split: "\<exists>h1. new_alloc 512 h0 = Some (heap_start h0 + of_nat 17, h1) \<and> heap_rep h1 [(529, False), (3567, True)]
      \<and> heap_start h1 = heap_start h0 \<and> heap_room n h1 \<and> pages h1 = pages h0"
    if "heap_rep h0 [(0x1000, True)]" "heap_room (Suc n) h0" for h0 n
    using serve [OF that(1), of 512 529 0 "[(529, False), (3567, True)]" n] that heap_rep_bounds(3) [OF that(1)]
    by (auto simp: fits_def carve_def)
  obtain h1 where h1: "new_alloc 512 h = Some (heap_start h + of_nat 17, h1)" "heap_rep h1 [(529, False), (3567, True)]"
    "heap_start h1 = heap_start h" "heap_room (Suc g) h1" "pages h1 = pages h"
    using split [OF assms(1,2)] by blast
  obtain h2 where h2: "free_alloc (heap_start h + of_nat 17) h1 = Some h2" "heap_rep h2 [(0x1000, True)]"
    "heap_start h2 = heap_start h" "heap_size h2 = heap_size h1" "pages h2 = pages h"
    using free_rep [of h1 "[]" 529 False "[(3567, True)]"] h1 by (auto simp: seg_free_def)
  have room: "heap_room (Suc g) h2" using h1(4,5) h2(4,5) by (simp add: heap_room_def)
  obtain h3 where h3: "new_alloc 512 h2 = Some (heap_start h2 + of_nat 17, h3)" "heap_rep h3 [(529, False), (3567, True)]"
    "heap_start h3 = heap_start h2" "heap_room g h3" "pages h3 = pages h2"
    using split [OF h2(2) room] by blast
  have read: "ata_read_disk (fdisk s) 1 0 (replicate 512 0) 0 512 = Some (disk_bytes (fdisk s) 1 0 512)"
    using read_sector_ok [OF assms(3), of 512 "replicate 512 0" 1] by simp
  let ?b = "take 92 (disk_bytes (fdisk s) 1 0 512)"
  let ?s = "s\<lparr>gpt_table := Some ?b, fheap := h2\<rparr>"
  have init: "gpt_initialize s = Some ?s" using h1(1) h2(1) read assms(5) by (simp add: gpt_initialize_def)
  have "gpt_get_lba_start_volume 0 s = gpt_get_lba_start_volume 0 ?s"
    unfolding gpt_get_lba_start_volume_def using assms(4) init by simp
  also have "\<dots> = Some (first_partition (fdisk s), ?s\<lparr>fheap := h3\<rparr>)"
    using gpt_lba_correct [of ?s "heap_start h2 + of_nat 17" h3 0] h3(1) assms(3) by (simp add: first_partition_def)
  finally show ?thesis using h3(2-5) h2(3,5) by (intro exI [of _ ?b] exI [of _ h3]) simp
qed

lemma fat_init_ok:
  assumes "gpt_get_lba_start_volume 0 s = Some (lba, s1)" and "fdisk s1 = fdisk s" and "disk_ok (fdisk s)"
    and "32 \<le> bytes_per_sector (fat_header_of (disk_bytes (fdisk s) (ucast lba) 0 36))"
  shows "\<exists>e. fat_init s = Some (s1\<lparr>fat_lba_start := lba,
    fat_hdr := fat_header_of (disk_bytes (fdisk s) (ucast lba) 0 36), fat_ext := e\<rparr>)"
proof -
  have r1: "ata_read_disk (fdisk s) (ucast lba) 0 (replicate 36 0) 0 36 = Some (disk_bytes (fdisk s) (ucast lba) 0 36)"
    using read_sector_ok [OF assms(3), of 36 "replicate 36 0"] by simp
  obtain eb where r2: "ata_read_disk (fdisk s) (ucast lba) 36 (replicate 26 0) 0 26 = Some eb"
    using read_loop_ok [OF assms(3), of 36 0 26 "replicate 26 0" "ucast lba"] by (auto simp: ata_read_disk_def)
  let ?hdr = "fat_header_of (disk_bytes (fdisk s) (ucast lba) 0 36)"
  have "(ucast (bytes_per_sector ?hdr) :: qword) div 32 \<noteq> 0"
    using assms(4) by (simp add: word_unat_eq_iff unat_div word_le_nat_alt unsigned_ucast_eq take_bit_nat_eq_self
      order.strict_trans [OF unsigned_less] div_eq_0_iff)
  then show ?thesis
    using assms(1,2) r1 r2 by (intro exI [of _ "fat_extended_of eb"])
      (simp add: fat_init_def data_start_def root_dir_sectors_def Let_def)
qed

lemma main_memory_ok:
  assumes "page_inv (pages (k_heap k))" and "20 \<le> free_count (pages (k_heap k))" and "heap_size (k_heap k) = 0"
    and "heap_place (sym_heap_start y)" and "disk_ok (fdisk (k_fs k))" and "gpt_table (k_fs k) = None"
    and "32 \<le> bytes_per_sector (boot_header (fdisk (k_fs k)))"
  shows "\<exists>s. main_memory y k = Some (k\<lparr>k_fs := s\<rparr>) \<and> heap_rep (fheap s) [(529, False), (3567, True)]
    \<and> heap_start (fheap s) = sym_heap_start y \<and> heap_room 2 (fheap s) \<and> fdisk s = fdisk (k_fs k)
    \<and> fat_lba_start s = first_partition (fdisk (k_fs k)) \<and> fat_hdr s = boot_header (fdisk (k_fs k))
    \<and> (\<forall>v. v \<noteq> vpage (sym_heap_start y) \<longrightarrow> vmap (pages (fheap s)) v = vmap (pages (k_heap k)) v)"
proof -
  obtain h where h: "init_alloc (sym_heap_start y) (k_heap k) = Some h" "heap_rep h [(0x1000, True)]"
    "heap_start h = sym_heap_start y" "free_count (pages (k_heap k)) \<le> free_count (pages h) + 4"
    "\<forall>v. v \<noteq> vpage (sym_heap_start y) \<longrightarrow> vmap (pages h) v = vmap (pages (k_heap k)) v"
    using init_alloc_ok [OF assms(1) _ assms(3), of "sym_heap_start y"] assms(2,4) by (auto simp: heap_place_def simp del: split_paired_All)
  have room: "heap_room (Suc (Suc 2)) h" using h(4) assms(2) heap_rep_bounds(3) [OF h(2)] by (simp add: heap_room_def)
  let ?s = "(k_fs k)\<lparr>fheap := h\<rparr>"
  obtain b h' where g: "gpt_get_lba_start_volume 0 ?s
      = Some (first_partition (fdisk (k_fs k)), ?s\<lparr>gpt_table := Some b, fheap := h'\<rparr>)"
    "heap_rep h' [(529, False), (3567, True)]" "heap_start h' = heap_start h" "heap_room 2 h'" "pages h' = pages h"
    using gpt_buffers [OF h(2) room, of ?s] assms(5,6) by auto
  let ?s' = "\<lambda>e. ?s\<lparr>gpt_table := Some b, fheap := h',
      fat_lba_start := first_partition (fdisk (k_fs k)), fat_hdr := boot_header (fdisk (k_fs k)), fat_ext := e\<rparr>"
  from fat_init_ok [OF g(1)] obtain e where "fat_init ?s = Some (?s' e)"
    using assms(5,7) by (auto simp: boot_header_def)
  then have "main_memory y k = Some (k\<lparr>k_fs := ?s' e\<rparr>)" using h(1) by (simp add: main_memory_def)
  then show ?thesis using h(3,5) g(2-5) by (intro exI [of _ "?s' e"]) simp
qed

section \<open>The first task\<close>

text \<open>The first time the task is switched to, the instruction pointer is its function.\<close>

definition starts_at :: "qword \<Rightarrow> qword \<Rightarrow> tasks \<Rightarrow> bool" where
  "starts_at f p s \<longleftrightarrow> (\<exists>t. task_store s p = Some t \<and> (\<forall>r. rip (resume_at (stacks s) (task_sp t) r) = f))"

lemma first_task_memory:
  assumes "heap_rep h [(529, False), (3567, True)]" and "heap_room 1 h"
  shows "\<exists>h1 n ps. new_alloc 48 h = Some (heap_start h + 546, h1) \<and> page_alloc4K (1 OR 2) (pages h1) = Some (frame_of n, ps)
    \<and> heap_rep (h1\<lparr>pages := ps\<rparr>) [(529, False), (65, False), (3502, True)] \<and> heap_start h1 = heap_start h
    \<and> heap_start h + 546 \<noteq> 0 \<and> n < 32768
    \<and> vmap ps = (vmap (pages h))(vpage (frame_of n) := frame_of n OR 3)"
proof -
  have rep: "heap_rep h ([(529, False)] @ (3567, True) # [])" using assms(1) by simp
  note b = heap_rep_bounds [OF rep]
  have room: "heap_room (Suc 0) h" using assms(2) by simp
  obtain h1 where h1: "new_alloc 48 h = Some (heap_start h + 546, h1)" "heap_rep h1 [(529, False), (65, False), (3502, True)]"
    "heap_start h1 = heap_start h" "pages h1 = pages h"
    using serve [OF rep, of 48 65 529 "[(529, False), (65, False), (3502, True)]" 0] room b(3) by (auto simp: fits_def carve_def)
  have inv: "page_inv (pages h1)" using h1(2) by (simp add: heap_rep_def pages_ok_def)
  have fl: "ok_flags (1 OR 2)" by (simp add: ok_flags_def)
  obtain n ps where ps: "page_alloc4K (1 OR 2) (pages h1) = Some (frame_of n, ps)" "page_inv ps" "n < 32768"
    "vmap ps = (vmap (pages h1))(vpage (frame_of n) := frame_of n OR ucast (1 OR 2 :: word16))"
    using alloc4K_ok [OF inv fl] room h1(4) by (auto simp: heap_room_def)
  have "heap_start h + 546 = of_nat (unat (heap_start h) + 546)" by simp
  then have "unat (heap_start h + 546) = unat (heap_start h) + 546"
    using unat_of_nat_qword [of "unat (heap_start h) + 546"] b(2) by simp
  then have p: "heap_start h + 546 \<noteq> 0" by (metis add_is_0 unat_0 zero_neq_numeral)
  have "heap_rep (h1\<lparr>pages := ps\<rparr>) [(529, False), (65, False), (3502, True)]"
  proof (rule heap_rep_pages [OF h1(2) ps(2)], intro allI impI)
    fix i assume i: "i * 4096 < unat (heap_size h1)"
    have "vmap (pages h1) (vp (heap_start h1) i) \<noteq> 0" using h1(2) i by (simp add: heap_rep_def pages_ok_def)
    then show "vmap ps (vp (heap_start h1) i) \<noteq> 0" using heap_page_high [OF h1(2) i ps(3)] by (simp add: ps(4))
  qed
  then show ?thesis using h1(1,3,4) ps(1,3,4) p by (intro exI [of _ h1] exI [of _ n] exI [of _ ps]) simp
qed

lemma clearScreen_term:
  assumes "term_ok t"
  shows "\<exists>v. video_driver_clearScreen c (screen t) = Some v \<and> term_ok (t\<lparr>screen := v\<rparr>)"
proof -
  have "video_ok (screen t)" using assms by (simp add: term_ok_def grid_ok_def)
  then obtain v where v: "video_driver_clearScreen c (screen t) = Some v" "same_screen (screen t) v"
    using clear_rows_ok [of "screen t" "unat (video_height (screen t))"] unfolding video_driver_clearScreen_def by blast
  have "term_ok (t\<lparr>screen := v\<rparr>)"
    using assms same_screenD [OF v(2)] font_same [OF v(2)] by (auto simp: term_ok_def grid_ok_def)
  then show ?thesis using v(1) by blast
qed

lemma main_first_task_ok:
  assumes "heap_rep (k_heap k) [(529, False), (3567, True)]" and "heap_room 2 (k_heap k)"
    and "tasks_ok (k_tasks k) [p0]" and "unat p0 < unat (heap_start (k_heap k))" and "term_ok (k_term k)"
    and "kernel_task (k_tasks k) = p0" and "kernel_runs (k_tasks k)"
  shows "\<exists>t ts h n. main_first_task y k = Some (set_heap h (k\<lparr>k_term := t, k_tasks := ts\<rparr>)) \<and> term_ok t
    \<and> heap_rep h [(529, False), (65, False), (3502, True)] \<and> heap_start h = heap_start (k_heap k)
    \<and> tasks_ok ts [p0, heap_start h + 546] \<and> task_current ts = task_current (k_tasks k) \<and> task_heap ts = h
    \<and> well_formed ts \<and> starts_at (sym_test_task y) (heap_start h + 546) ts \<and> n < 32768
    \<and> vmap (pages h) = (vmap (pages (k_heap k)))(vpage (frame_of n) := frame_of n OR 3)"
proof -
  let ?p = "heap_start (k_heap k) + 546"
  obtain h1 n ps where m: "new_alloc 48 (k_heap k) = Some (?p, h1)" "page_alloc4K (1 OR 2) (pages h1) = Some (frame_of n, ps)"
    "heap_rep (h1\<lparr>pages := ps\<rparr>) [(529, False), (65, False), (3502, True)]" "heap_start h1 = heap_start (k_heap k)"
    "?p \<noteq> 0" "n < 32768" "vmap ps = (vmap (pages (k_heap k)))(vpage (frame_of n) := frame_of n OR 3)"
    using first_task_memory [OF assms(1)] assms(2) by (auto simp: heap_room_def)
  obtain v where v: "video_driver_clearScreen (R8G8B8 0 0 0) (screen (k_term k)) = Some v" "term_ok ((k_term k)\<lparr>screen := v\<rparr>)"
    using clearScreen_term [OF assms(5)] by blast
  let ?k = "set_screen v k"
  obtain t where t: "k_printf Map.empty (''HaOS Created By Haidir'' @ NL @ NL @ NL) [] ?k = Some (?k\<lparr>k_term := t\<rparr>)" "term_ok t"
    using print_line [of ?k "''HaOS Created By Haidir'' @ NL @ NL @ NL" Map.empty] v(2) by (auto simp: set_screen_def)
  have "unat (heap_start (k_heap k)) < unat ?p" using heap_address_high [OF assms(1), of 529] by simp
  then have p0: "?p \<noteq> p0" using assms(4) by auto
  let ?ts = "(k_tasks k)\<lparr>task_heap := k_heap k\<rparr>"
  have tasks: "tasks_ok ?ts [p0]" "new_alloc 48 (task_heap ?ts) = Some (?p, h1)" "?p \<notin> set [p0]"
    using assms(3) m(1) p0 by (auto simp: tasks_ok_def)
  obtain ts r w where ts: "task_create (sym_test_task y) 0 0 0 0 0 (sym_rbp y) (sym_ret y) (sym_cs y) (sym_ss y) ?ts = Some (?p, ts)"
    "tasks_ok ts ([p0] @ [?p])" "task_current ts = task_current ?ts" "task_store ts ?p = Some r" "task_heap ts = h1\<lparr>pages := ps\<rparr>"
    "task_frame (sym_test_task y) (sym_cs y) (sym_ss y) (frame_of n + 0x1000)
       (drop 2 (create_words (sym_test_task y) 0 0 0 0 0 (sym_rbp y) (sym_ret y))) w = (stacks ts, task_sp r)"
    using task_create_run [OF tasks(1,2) m(2,5) tasks(3), of "sym_test_task y" 0 0 0 0 0 "sym_rbp y" "sym_ret y" "sym_cs y" "sym_ss y"]
    by auto
  have sys: "task_system ?ts [] [(529, False), (3567, True)]"
    using assms(1,4,6,7) tasks(1) by (simp add: task_system_def task_memory_def kernel_runs_def)
  have room: "room_for 48 (task_heap ?ts)"
    using assms(1,2) by (auto simp: room_for_def fits_def)
  have wf: "well_formed ts"
    using create_step [OF sys room, of "sym_test_task y" 0 0 0 0 0 "sym_rbp y" "sym_ret y" "sym_cs y" "sym_ss y"] ts(1)
      well_formedI by auto
  have "starts_at (sym_test_task y) ?p ts"
    using ts(4) task_frame_start(1) [OF ts(6)] by (auto simp: starts_at_def)
  moreover have "main_first_task y k = Some (set_heap (task_heap ts) (k\<lparr>k_term := t, k_tasks := ts\<rparr>))"
    using v(1) t(1) ts(1) by (simp add: main_first_task_def set_screen_def set_heap_def)
  ultimately show ?thesis
    using t(2) m(3,4,6,7) ts(2,3,5) wf by (intro exI [of _ t] exI [of _ ts] exI [of _ "task_heap ts"] exI [of _ n]) simp
qed

section \<open>From the loader to the first task\<close>

text \<open>
  What the linker, the loader and the machine give: tables with the framebuffer's pages unmapped
  and frames for it, the heap and the first task; a heap that was never used; a drive whose
  first partition has a FAT header; the static task record.
\<close>

definition tables_ready :: "boot_symbols \<Rightarrow> kernel_header_info_t \<Rightarrow> kernel \<Rightarrow> bool" where
  "tables_ready y hdr k \<longleftrightarrow> (let ps = page_init (sym_cr3 y) (pages (k_heap k)); n = fb_pages (boot_video hdr k) in
     page_inv ps \<and> 3 * n + 20 \<le> free_count (pages (k_heap k)) \<and> (\<forall>i < n. vmap ps (vp (hdr_framebuffer hdr) i) = 0))"

definition parts_ready :: "boot_symbols \<Rightarrow> machine \<Rightarrow> bool" where
  "parts_ready y m \<longleftrightarrow> (let k = m_kernel m; d = fdisk (k_fs k); p0 = kernel_task (k_tasks k) in
     heap_size (k_heap k) = 0 \<and> heap_place (sym_heap_start y)
     \<and> disk_ok d \<and> gpt_table (k_fs k) = None \<and> 32 \<le> bytes_per_sector (boot_header d)
     \<and> (\<exists>t. task_store (k_tasks k) p0 = Some t) \<and> p0 \<noteq> 0 \<and> unat p0 < unat (sym_heap_start y)
     \<and> length (sym_interrupt_list y) = 48 \<and> length (idt_entries (m_ints m)) = 256
     \<and> length (interrupt_registers (m_ints m)) = 256)"

definition boot_ready :: "boot_symbols \<Rightarrow> machine \<Rightarrow> bool" where
  "boot_ready y m \<longleftrightarrow> screen_ready (m_header m) (m_kernel m) \<and> tables_ready y (m_header m) (m_kernel m) \<and> parts_ready y m"

lemma framebuffer_mapped_other:
  assumes "framebuffer_mapped fb n ps" and "\<And>i. i < n \<Longrightarrow> vmap ps' (vp fb i) = vmap ps (vp fb i)"
  shows "framebuffer_mapped fb n ps'"
  using assms by (simp add: framebuffer_mapped_def)

text \<open>The kernel after \<open>kernel_main\<close>, when it was \<open>k\<close> before.\<close>

definition booted :: "boot_symbols \<Rightarrow> kernel_header_info_t \<Rightarrow> kernel \<Rightarrow> kernel \<Rightarrow> bool" where
  "booted y hdr k k' \<longleftrightarrow> term_ok (k_term k')
     \<and> framebuffer_mapped (hdr_framebuffer hdr) (fb_pages (boot_video hdr k)) (pages (k_heap k'))
     \<and> heap_rep (k_heap k') [(529, False), (65, False), (3502, True)] \<and> heap_start (k_heap k') = sym_heap_start y
     \<and> fdisk (k_fs k') = fdisk (k_fs k) \<and> fat_lba_start (k_fs k') = first_partition (fdisk (k_fs k))
     \<and> fat_hdr (k_fs k') = boot_header (fdisk (k_fs k))
     \<and> tasks_ok (k_tasks k') [kernel_task (k_tasks k), sym_heap_start y + 546]
     \<and> task_current (k_tasks k') = kernel_task (k_tasks k) \<and> task_heap (k_tasks k') = k_heap k'
     \<and> well_formed (k_tasks k') \<and> starts_at (sym_test_task y) (sym_heap_start y + 546) (k_tasks k')"

lemma kernel_main_ok:
  assumes "boot_ready y m"
  shows "\<exists>m'. kernel_main y m = Some m' \<and> booted y (m_header m) (m_kernel m) (m_kernel m') \<and> interrupts_ready y (m_ints m')
    \<and> m_tables m' = gdt_init (sym_gdt y) (sym_tss y) (sym_tss_stack y) (m_tables m)"
proof -
  let ?k = "m_kernel m" and ?hdr = "m_header m"
  let ?fb = "hdr_framebuffer ?hdr" and ?n = "fb_pages (boot_video ?hdr ?k)" and ?p0 = "kernel_task (k_tasks ?k)"
  have scr: "screen_ready ?hdr ?k" and tab: "page_inv (page_init (sym_cr3 y) (pages (k_heap ?k)))"
    "3 * ?n + 20 \<le> free_count (pages (k_heap ?k))" "\<forall>i < ?n. vmap (page_init (sym_cr3 y) (pages (k_heap ?k))) (vp ?fb i) = 0"
    and heap: "heap_size (k_heap ?k) = 0" "heap_place (sym_heap_start y)"
    and disk: "disk_ok (fdisk (k_fs ?k))" "gpt_table (k_fs ?k) = None" "32 \<le> bytes_per_sector (boot_header (fdisk (k_fs ?k)))"
    and p0: "?p0 \<noteq> 0" "unat ?p0 < unat (sym_heap_start y)"
    and len: "length (sym_interrupt_list y) = 48" "length (idt_entries (m_ints m)) = 256"
      "length (interrupt_registers (m_ints m)) = 256"
    using assms by (simp_all add: boot_ready_def tables_ready_def parts_ready_def Let_def)
  obtain t0 where t0: "task_store (k_tasks ?k) ?p0 = Some t0" using assms by (auto simp: boot_ready_def parts_ready_def Let_def)
  have place: "framebuffer_place ?fb ?n" using scr by (simp add: screen_ready_def)
  obtain ps t1 where s1: "main_screen y ?hdr ?k = Some ((set_pages ps ?k)\<lparr>k_term := t1\<rparr>)" "term_ok t1" "page_inv ps"
    "free_count (pages (k_heap ?k)) \<le> free_count ps + 3 * ?n" "framebuffer_mapped ?fb ?n ps"
    using main_screen_ok [OF scr tab(1)] tab(2,3) by fastforce
  let ?k1 = "(set_pages ps ?k)\<lparr>k_term := t1\<rparr>"
  have k1: "k_term ?k1 = t1" "k_tasks ?k1 = k_tasks ?k" by (simp_all add: set_pages_def set_heap_def)
  obtain t2 ts ints where s2: "main_tables y (m\<lparr>m_kernel := ?k1\<rparr>) = Some (m\<lparr>m_kernel := ?k1\<lparr>k_term := t2, k_tasks := ts\<rparr>,
       m_tables := gdt_init (sym_gdt y) (sym_tss y) (sym_tss_stack y) (m_tables m), m_ints := ints\<rparr>)"
    "term_ok t2" "interrupts_ready y ints" "tasks_ok ts [?p0]" "task_current ts = ?p0"
    "kernel_task ts = ?p0" "kernel_runs ts"
    using main_tables_ok [of "m\<lparr>m_kernel := ?k1\<rparr>" ?k1 t0 y] s1(2) t0 p0(1) len unfolding k1 by auto
  let ?k2 = "?k1\<lparr>k_term := t2, k_tasks := ts\<rparr>"
  have k2: "k_fs ?k2 = (k_fs ?k)\<lparr>fheap := (k_heap ?k)\<lparr>pages := ps\<rparr>\<rparr>" by (simp add: set_pages_def set_heap_def)
  have "20 \<le> free_count ps" using tab(2) s1(4) by simp
  then obtain s where s3: "main_memory y ?k2 = Some (?k2\<lparr>k_fs := s\<rparr>)" "heap_rep (fheap s) [(529, False), (3567, True)]"
    "heap_start (fheap s) = sym_heap_start y" "heap_room 2 (fheap s)" "fdisk s = fdisk (k_fs ?k)"
    "fat_lba_start s = first_partition (fdisk (k_fs ?k))" "fat_hdr s = boot_header (fdisk (k_fs ?k))"
    "\<forall>v. v \<noteq> vpage (sym_heap_start y) \<longrightarrow> vmap (pages (fheap s)) v = vmap ps v"
    using main_memory_ok [of ?k2 y] s1(3) heap disk unfolding k2 by auto
  let ?k3 = "?k2\<lparr>k_fs := s\<rparr>"
  obtain t4 ts4 h n where s4: "main_first_task y ?k3 = Some (set_heap h (?k3\<lparr>k_term := t4, k_tasks := ts4\<rparr>))" "term_ok t4"
    "heap_rep h [(529, False), (65, False), (3502, True)]" "heap_start h = sym_heap_start y"
    "tasks_ok ts4 [?p0, sym_heap_start y + 546]" "task_current ts4 = ?p0" "task_heap ts4 = h"
    "well_formed ts4" "starts_at (sym_test_task y) (sym_heap_start y + 546) ts4" "n < 32768"
    "vmap (pages h) = (vmap (pages (fheap s)))(vpage (frame_of n) := frame_of n OR 3)"
    using main_first_task_ok [of ?k3 ?p0 y] s3(2-4) s2(2,4-7) p0(2) by auto
  have "framebuffer_mapped ?fb ?n (pages h)"
  proof (rule framebuffer_mapped_other [OF s1(5)])
    fix i assume i: "i < ?n"
    have "vp ?fb i \<noteq> vpage (sym_heap_start y)" using framebuffer_page_high [OF place i] heap(2) by (simp add: heap_place_def)
    then show "vmap (pages h) (vp ?fb i) = vmap ps (vp ?fb i)"
      using framebuffer_page(2) [OF place i s4(10)] s3(8) [rule_format, of "vp ?fb i"] by (simp add: s4(11) del: split_paired_All)
  qed
  then have "booted y ?hdr ?k (set_heap h (?k3\<lparr>k_term := t4, k_tasks := ts4\<rparr>))"
    using s3(5-7) s4(2-9) by (simp add: booted_def set_heap_def)
  then show ?thesis
    using s1(1) s2(1,3) s3(1) s4(1) by (intro exI [of _ "m\<lparr>m_kernel := set_heap h (?k3\<lparr>k_term := t4, k_tasks := ts4\<rparr>),
      m_tables := gdt_init (sym_gdt y) (sym_tss y) (sym_tss_stack y) (m_tables m), m_ints := ints\<rparr>"]) (simp add: kernel_main_def)
qed

text \<open>What the first task does: it prints its line and waits to be removed, with its code set.\<close>

lemma test_task_ok:
  assumes "term_ok (k_term k)" and "task_store (k_tasks k) (task_current (k_tasks k)) = Some t"
    and "(ucast (task_id t) :: dword) \<noteq> 0"
  shows "\<exists>u. test_task k = Some (True, k\<lparr>k_term := u, k_tasks := set_task (task_current (k_tasks k))
      (t\<lparr>signal_code := 0xDEAD1234, task_flags := task_flags t AND NOT TASK_FLAGS_RUNNING_BIT\<rparr>) (k_tasks k)\<rparr>) \<and> term_ok u"
proof -
  obtain u where u: "k_printf Map.empty (''Hello, World from Task'' @ NL) [] k = Some (k\<lparr>k_term := u\<rparr>)" "term_ok u"
    using print_line [of k "''Hello, World from Task'' @ NL" Map.empty] assms(1) by auto
  then show ?thesis using assms(2,3) by (intro exI [of _ u]) (simp add: test_task_def task_exit_def task_getid_def)
qed

end
