(* ===== verification/Boot_Kernel.thy ===== *)
theory Boot_Kernel
  imports Uefi_Props Kernel_Main_Props
begin

text \<open>
  The loader and the kernel together: what \<open>efi_main\<close> leaves in memory is what \<open>kernel_main\<close>
  needs, so that the machine gets from the firmware to the first task.
\<close>

section \<open>The header of the image\<close>









section \<open>The machine between the two\<close>








section \<open>From the firmware to the first task\<close>


section \<open>A machine to run on\<close>








end
