(* ===== verification/Elf_Run.thy ===== *)
theory Elf_Run
  imports Elf_Load
begin

text \<open>
  What \<open>elf64_load\<close> does with a program, with a file of another kind and with a directory, and
  a volume on which all of them happen.
\<close>

section \<open>A volume with a program\<close>

text \<open>
  The root directory has the program \<open>K.C\<close> in cluster 2, the directory \<open>D.D\<close> and the file \<open>T.T\<close>
  in cluster 3.  The program has one segment of four bytes, to be loaded at \<open>0x400000\<close>.
\<close>

definition dir_entry :: "byte \<Rightarrow> byte \<Rightarrow> byte \<Rightarrow> byte \<Rightarrow> buffer" where
  "dir_entry nm extn attr c = fat16_name [nm] [extn] @ attr # replicate 14 0 @ c # replicate 5 0"

definition loader_dir :: buffer where
  "loader_dir = dir_entry 75 67 0x20 2 @ dir_entry 68 68 0x10 3 @ dir_entry 84 84 0x20 3 @ replicate 416 0"

definition program_image :: buffer where
  "program_image = [0x7F, 69, 76, 70] @ replicate 22 0 @ [0x40, 0, 0, 0, 0, 0] @ 64 # replicate 23 0 @ 1 # replicate 7 0
     @ 1 # replicate 7 0 @ 128 # replicate 9 0 @ 0x40 # replicate 13 0 @ 4 # replicate 7 0 @ 8 # replicate 23 0
     @ [1, 2, 3, 4] @ replicate 380 0"

definition loader_fs :: "heap \<Rightarrow> fs" where
  "loader_fs h = (sample_fs h)\<lparr>fdisk := sample_disk(12 := loader_dir, 13 := program_image)\<rparr>"

definition loader_task :: task_info_t where
  "loader_task = \<lparr>task_id = 1, stack_provider = 0, task_sp = 0, task_flags = 1, signal_code = 0, task_link = 0\<rparr>"

definition loader_tasks :: tasks where
  "loader_tasks = \<lparr>task_store = [0x5000 \<mapsto> loader_task], kernel_task = 0x5000,
     task_current = 0x5000, task_next = 0x5000, next_id = 2, ticks = 0, stacks = (\<lambda>_. 0), task_heap = no_heap\<rparr>"

definition loader_kernel :: "heap \<Rightarrow> kernel" where
  "loader_kernel h = \<lparr>k_fs = loader_fs h, k_tasks = loader_tasks, k_term = text_terminal, k_mem = (\<lambda>_. 0), k_files = (\<lambda>_. None),
     k_fname = replicate 64 7, k_regs = []\<rparr>"

lemma length_dir_entry [simp]: "length (dir_entry a b c d) = 32"
  by (simp add: dir_entry_def fat16_name_def)

lemma length_images [simp]: "length loader_dir = 512" "length program_image = 512"
  by (simp_all add: loader_dir_def program_image_def)

lemma loader_disk_ok: "disk_ok (fdisk (loader_fs h))"
  using sample_disk_ok by (simp add: disk_ok_def loader_fs_def)

lemma loader_static:
  "plain_fat (loader_fs h)" "data_start (loader_fs h) = Some 13" "spc (loader_fs h) = 1" "root_dir_sectors (loader_fs h) = Some 1"
  "root_dirs_start (loader_fs h) = 12" "fheap (loader_fs h) = h"
  using loader_disk_ok [of h] sample_plain [of h] sample_geometry [of h]
  by (simp_all add: loader_fs_def plain_fat_def data_start_def root_dirs_start_def root_dir_sectors_def fat_start_def spc_def Let_def)
     (simp_all add: sample_fs_def)

lemma loader_cluster: "cluster_data (loader_fs h) 13 2 = program_image" "cluster_data (loader_fs h) 13 3 = replicate 512 14"
proof -
  have "cluster_lba (loader_fs h) 13 2 = 13" "cluster_lba (loader_fs h) 13 3 = 14"
    by (simp_all add: cluster_lba_def loader_fs_def sample_fs_def)
  moreover have "sector_of (fdisk (loader_fs h)) 13 = program_image" "sector_of (fdisk (loader_fs h)) 14 = replicate 512 14"
    by (simp_all add: sector_of_def loader_fs_def sample_disk_def)
  ultimately show "cluster_data (loader_fs h) 13 2 = program_image" "cluster_data (loader_fs h) 13 3 = replicate 512 14"
    using disk_bytes_sector [OF loader_disk_ok [of h], of 0 512] by (simp_all add: cluster_data_def loader_static)
qed

lemma loader_root: "root_entry (loader_fs h) k = take 32 (drop (32 * k) loader_dir)" if "k < 16"
proof -
  have "sector_of (fdisk (loader_fs h)) 12 = loader_dir" by (simp add: sector_of_def loader_fs_def)
  then show ?thesis
    using disk_bytes_sector [OF loader_disk_ok [of h], of "32 * k" 32 12] that by (simp add: root_entry_def loader_static)
qed

lemma loader_entries:
  "root_entry (loader_fs h) 0 = dir_entry 75 67 0x20 2" "root_entry (loader_fs h) 1 = dir_entry 68 68 0x10 3"
  "root_entry (loader_fs h) 2 = dir_entry 84 84 0x20 3"
  by (simp_all add: loader_root) (simp_all add: loader_dir_def)

lemma name_entries:
  "fat16_name [107] [99] = fat16_name [75] [67]" "fat16_name [100] [100] = fat16_name [68] [68]"
  "fat16_name [116] [116] = fat16_name [84] [84]"
  by (simp_all add: fat16_name_def upper_char_def)

lemma first_names: "fat16_name [a] [b] ! 0 = upper_char a" "take 11 (dir_entry a b c d) = fat16_name [a] [b]"
  by (simp_all add: fat16_name_def dir_entry_def pad_def)

lemma loader_lookup:
  "root_lookup (loader_fs h) (fat16_name [75] [67]) 1 = Some (fat_filedirectory_of (dir_entry 75 67 0x20 2))"
  "root_lookup (loader_fs h) (fat16_name [68] [68]) 1 = Some (fat_filedirectory_of (dir_entry 68 68 0x10 3))"
  "root_lookup (loader_fs h) (fat16_name [84] [84]) 1 = Some (fat_filedirectory_of (dir_entry 84 84 0x20 3))"
proof -
  have ne: "fat16_name [a] [b] \<noteq> fat16_name [c] [d]" if "upper_char a \<noteq> upper_char c" for a b c d
    using first_names(1) [of a b] first_names(1) [of c d] that by auto
  have up: "[0..<16] = 0 # 1 # 2 # [3..<16]" by (simp add: upt_rec)
  show "root_lookup (loader_fs h) (fat16_name [75] [67]) 1 = Some (fat_filedirectory_of (dir_entry 75 67 0x20 2))"
    "root_lookup (loader_fs h) (fat16_name [68] [68]) 1 = Some (fat_filedirectory_of (dir_entry 68 68 0x10 3))"
    "root_lookup (loader_fs h) (fat16_name [84] [84]) 1 = Some (fat_filedirectory_of (dir_entry 84 84 0x20 3))"
    by (simp_all add: root_lookup_def up loader_entries [unfolded One_nat_def] loader_entries(2) first_names(2) ne upper_char_def)
qed

lemma ucast_twice: "(ucast (ucast (d :: byte) :: word16) :: dword) = ucast d"
  by (rule bit_word_eqI) (auto simp: bit_simps dest: bit_imp_le_length)

lemma entry_fields:
  "attributes (fat_filedirectory_of (dir_entry a b c d)) = c" "file_cluster (fat_filedirectory_of (dir_entry a b c d)) = ucast d"
  by (simp_all add: dir_entry_def fat16_name_def fat_filedirectory_of_def file_cluster_def le16_def nth_append nth_Cons' ucast_twice)

text \<open>What is said when a name is found.\<close>

definition found_said :: "buffer \<Rightarrow> message list" where
  "found_said nm = [(searching, nm @ [0]), (is_found, nm @ [0])]"

lemma name_okI: "\<forall>c \<in> set nm. c < 128 \<and> c \<noteq> PERCENT \<Longrightarrow> name_ok (nm @ [0])"
  unfolding name_ok_def cstr_def terminated_def by (auto dest!: set_takeWhileD)

lemma found_said_ok: "said_ok (found_said (fat16_name [75] [67]))" "said_ok (found_said (fat16_name [68] [68]))"
  "said_ok (found_said (fat16_name [84] [84]))"
  by (simp_all add: said_ok_def found_said_def, (rule name_okI, simp add: fat16_name_def pad_def upper_char_def)+)

lemma loader_open:
  "fat_fileOpen (replicate 64 7) [107, 46, 99, 0] (loader_fs h)
    = Some (\<lparr>current_cluster = 2, next_cluster = 2, cluster = 2, offset = 0\<rparr>, found_said (fat16_name [75] [67]))"
  "fat_fileOpen (replicate 64 7) [100, 46, 100, 0] (loader_fs h)
    = Some (\<lparr>current_cluster = 0xFFFFFFFF, next_cluster = 0xFFFFFFFF, cluster = 0xFFFFFFFF, offset = 0\<rparr>, found_said (fat16_name [68] [68]))"
  "fat_fileOpen (replicate 64 7) [116, 46, 116, 0] (loader_fs h)
    = Some (\<lparr>current_cluster = 3, next_cluster = 3, cluster = 3, offset = 0\<rparr>, found_said (fat16_name [84] [84]))"
  using find_file_core [OF loader_disk_ok [of h] loader_static(4) [of h], of "[107]" "[99]" "replicate 64 7" "[]"]
    find_file_core [OF loader_disk_ok [of h] loader_static(4) [of h], of "[100]" "[100]" "replicate 64 7" "[]"]
    find_file_core [OF loader_disk_ok [of h] loader_static(4) [of h], of "[116]" "[116]" "replicate 64 7" "[]"]
  by (simp_all add: fat_fileOpen_def name_entries loader_lookup [unfolded One_nat_def] entry_fields Let_def found_said_def)

lemma loader_heap:
  obtains h where "heap_tail [] 4096 7 h" and "vmap (pages h) (0, 0, 2, 0) = 0" and "vmap (pages h) (0, 0, 2, 1) = 0"
proof -
  obtain h where h: "heap_rep h [(0x1000, True)]" "heap_room 8 h"
    "\<forall>v. v \<noteq> vpage 0xFFFFFFFF80110000 \<longrightarrow> vmap (pages h) v = vmap boot_tables v"
    using kernel_heap by blast
  have "vpage 0xFFFFFFFF80110000 \<noteq> (0, 0, 2, i)" for i by (simp add: vpage_def PMLT4_INDEX_def PDPT_INDEX_def PDT_INDEX_def PT_INDEX_def)
  then have "vmap (pages h) (0, 0, 2, i) = 0" for i using h(3) [rule_format, OF not_sym, of "(0, 0, 2, i)"] by (simp add: boot_vmap)
  then have "vmap (pages h) (0, 0, 2, 0) = 0" "vmap (pages h) (0, 0, 2, 1) = 0" by simp_all
  moreover have "heap_tail [] 4096 7 h" using h(1,2) by (simp add: heap_tail_def packed_def)
  ultimately show ?thesis using that by blast
qed

lemma loader_names: "name_ok [107, 46, 99, 0]" "name_ok [100, 46, 100, 0]" "name_ok [116, 46, 116, 0]"
  by (simp_all add: name_ok_def terminated_def cstr_def)

definition the_program :: elf64_program_t where
  "the_program = \<lparr>type_segment = 1, p_flags = 0, prog_off = 128, virt_addr = 0x400000, phys_addr = 0, filesize = 4, memsize = 8, p_align = 0\<rparr>"

lemma loader_ready: "heap_tail [] 4096 7 h \<Longrightarrow> file_ready [] 4096 (6 + pages_needed [the_program]) [107, 46, 99, 0] program_image (loader_kernel h)"
  using loader_names loader_open(1) [of h] text_terminal_ok(1)
  by (simp add: file_ready_def loader_kernel_def loader_static loader_cluster pages_needed_def the_program_def page_count_def found_said_ok)

lemma loader_elf: "elf_file program_image (elf64_header_of (take 64 program_image)) [the_program]"
  by (simp add: elf_file_def elf64_header_of_def program_image_def le16_def le32_def le64_def nth_append nth_Cons' programs_of_def
      elf64_program_of_def the_program_def chars_def)

lemma loader_room: "loader_room (unat (count_prog (elf64_header_of (take 64 program_image)))) 4096 (loader_kernel h)"
  "loader_room 0 4096 (loader_kernel h)"
  by (simp_all add: loader_room_def loader_kernel_def loader_static elf64_header_of_def program_image_def le16_def nth_append nth_Cons')

lemma the_page: "vp 0x400000 0 = (0, 0, 2, 0)" "page_count (memsize the_program) = 1" "seg_pages the_program = {(0, 0, 2, 0)}"
proof -
  show 1: "vp 0x400000 0 = (0, 0, 2, 0)"
    by (simp add: vp_def vpage_def PMLT4_INDEX_def PDPT_INDEX_def PDT_INDEX_def PT_INDEX_def)
  show 2: "page_count (memsize the_program) = 1" by (simp add: the_program_def page_count_def)
  have "{..<1 :: nat} = {0}" by auto
  moreover have "virt_addr the_program = 0x400000" by (simp add: the_program_def)
  ultimately show "seg_pages the_program = {(0, 0, 2, 0)}" unfolding seg_pages_def 2 using 1 by simp
qed

lemma loader_loadable:
  assumes "vmap (pages h) (0, 0, 2, 0) = 0"
  shows "loadable program_image (pages (k_heap (loader_kernel h))) [the_program]"
    and "own_pages (pages (k_heap (loader_kernel h))) [the_program]"
proof -
  have "segment_ok program_image the_program" by (simp add: segment_ok_def the_page(2)) (simp add: the_program_def)
  moreover have "range_ok (pages (k_heap (loader_kernel h))) the_program"
    using assms the_page(1) by (simp add: range_ok_def the_page(2)) (simp add: the_program_def window_page_def loader_kernel_def loader_static)
  ultimately show "loadable program_image (pages (k_heap (loader_kernel h))) [the_program]" by (simp add: loadable_def)
  show "own_pages (pages (k_heap (loader_kernel h))) [the_program]"
    using assms by (simp add: own_pages_def the_page(3) loader_kernel_def loader_static)
qed

lemma loader_exit: "\<exists>ts. task_exit c (k_tasks (loader_kernel h)) = Some (True, ts)"
  by (simp add: task_exit_def task_getid_def loader_kernel_def loader_tasks_def loader_task_def)

lemma program_bytes: "segment_bytes program_image the_program = [1, 2, 3, 4, 0, 0, 0, 0]"
  by (simp add: segment_bytes_def the_program_def program_image_def) (simp add: eval_nat_numeral)

section \<open>Loading\<close>

text \<open>
  C18: \<open>elf64_load\<close> of an ELF file that lies in its first cluster allocates its objects, maps and
  fills the segments in the order of the table (file contents, then zeros up to the size in
  memory) and calls the entry address, whatever the program \<open>run\<close> does then; every byte of
  every loadable segment is mapped at that time, and nothing outside the segments is written.
\<close>

theorem elf64_load_enters:
  assumes "file_ready used n (g + pages_needed progs) filename data k" and "elf_file data hdr progs"
    and "loadable data (pages (k_heap k)) progs" and "loader_room (unat (count_prog hdr)) n k"
  shows "\<exists>k'. (\<forall>run. elf64_load run filename k
        = do { (v, k7) \<leftarrow> run (prog_entry_off hdr) k'; elf64_leave (header_at used k) (file_at used k) (programs_at used k) progs k7 })
    \<and> k_mem k' = memory_image data progs (k_mem k)
    \<and> (\<forall>p \<in> set progs. type_segment p = EPT_LOAD \<longrightarrow> all_mapped k' (virt_addr p) (unat (memsize p)))
    \<and> (\<forall>v. v \<notin> all_pages progs \<longrightarrow> vmap (pages (k_heap k')) v = vmap (pages (k_heap k)) v)"
  using elf64_load_ok [OF assms] unfolding adds_def by blast

theorem elf64_load_enters_witness:
  "\<exists>h k'. (\<forall>run. elf64_load run [107, 46, 99, 0] (loader_kernel h)
      = do { (v, k7) \<leftarrow> run 0x400000 k'; elf64_leave (header_at [] (loader_kernel h)) (file_at [] (loader_kernel h))
               (programs_at [] (loader_kernel h)) [the_program] k7 })
    \<and> map (k_mem k') [0x400000, 0x400001, 0x400003, 0x400004] = [1, 2, 4, 0]"
proof -
  obtain h where h: "heap_tail [] 4096 7 h" "vmap (pages h) (0, 0, 2, 0) = 0" by (rule loader_heap)
  have e: "prog_entry_off (elf64_header_of (take 64 program_image)) = 0x400000"
    by (simp add: elf64_header_of_def program_image_def le64_def le32_def le16_def nth_append nth_Cons')
  have t: "type_segment the_program = 1" "virt_addr the_program = 0x400000" by (simp_all add: the_program_def)
  from elf64_load_enters [OF loader_ready [OF h(1)] loader_elf loader_loadable(1) [OF h(2)] loader_room(1)]
  obtain k' where k': "\<forall>run. elf64_load run [107, 46, 99, 0] (loader_kernel h)
      = do { (v, k7) \<leftarrow> run 0x400000 k'; elf64_leave (header_at [] (loader_kernel h)) (file_at [] (loader_kernel h))
               (programs_at [] (loader_kernel h)) [the_program] k7 }"
    "k_mem k' = memory_image program_image [the_program] (k_mem (loader_kernel h))"
    unfolding e by blast
  then show ?thesis
    by (intro exI [of _ h] exI [of _ k']) (simp add: memory_image_def t program_bytes place_def)
qed

text \<open>
  C19: when the program returns and its segments lie on pages of their own that were not mapped
  before, \<open>elf64_load\<close> leaves every translation as it was, closes the file, has the whole rest
  of the heap free again and ends the task with code 0.
\<close>

theorem elf64_load_returns:
  assumes "file_ready used n (g + pages_needed progs) filename data k" and "elf_file data hdr progs"
    and "loadable data (pages (k_heap k)) progs" and "loader_room (unat (count_prog hdr)) n k"
    and "own_pages (pages (k_heap k)) progs" and "plain_program run (prog_entry_off hdr)"
    and "task_exit 0 (k_tasks k) = Some (spins, ts)"
  shows "\<exists>k'. elf64_load run filename k = Some (if spins then Ended else Returned 0, k')
    \<and> vmap (pages (k_heap k')) = vmap (pages (k_heap k)) \<and> heap_rep (k_heap k') (used @ [(81, True), (n - 81, True)])
    \<and> k_files k' = (k_files k)(file_at used k := None) \<and> k_tasks k' = ts"
  using elf64_load_run_ok [OF assms] by blast

theorem elf64_load_returns_witness:
  "\<exists>h k'. elf64_load (\<lambda>entry k. Some (7, k\<lparr>k_mem := (k_mem k)(0x400004 := 9)\<rparr>)) [107, 46, 99, 0] (loader_kernel h)
      = Some (Ended, k') \<and> heap_rep (k_heap k') [(81, True), (4015, True)] \<and> vmap (pages (k_heap k')) (0, 0, 2, 0) = 0"
proof -
  let ?run = "\<lambda>(entry :: qword) k. Some (7 :: dword, k\<lparr>k_mem := (k_mem k)(0x400004 := 9)\<rparr>)"
  obtain h where h: "heap_tail [] 4096 7 h" "vmap (pages h) (0, 0, 2, 0) = 0" by (rule loader_heap)
  have "k\<lparr>k_mem := m\<rparr> = k\<lparr>k_mem := m, k_term := k_term k\<rparr>" for k :: kernel and m by simp
  then have "plain_program ?run entry" for entry unfolding plain_program_def by blast
  moreover obtain ts where "task_exit 0 (k_tasks (loader_kernel h)) = Some (True, ts)" using loader_exit by blast
  ultimately obtain k' where "elf64_load ?run [107, 46, 99, 0] (loader_kernel h) = Some (Ended, k')"
    "vmap (pages (k_heap k')) = vmap (pages (k_heap (loader_kernel h)))" "heap_rep (k_heap k') [(81, True), (4015, True)]"
    using elf64_load_returns [OF loader_ready [OF h(1)] loader_elf loader_loadable(1) [OF h(2)] loader_room(1)
        loader_loadable(2) [OF h(2)], of ?run True ts] by auto
  then show ?thesis using h(2) by (intro exI [of _ h] exI [of _ k']) (simp add: loader_kernel_def loader_static)
qed

section \<open>Other files\<close>

text \<open>
  a file that does not start with the magic number is not run: \<open>elf64_load\<close> frees the header
  and the file, changes neither memory nor page tables and ends the task with code 2.
\<close>

theorem elf64_load_rejects:
  assumes "file_ready used n g filename data k" and "loader_room 0 n k"
    and "64 \<le> length data" and "take 4 data \<noteq> 0x7F # chars ''ELF''" and "\<forall>i \<in> {1, 2, 3}. data ! i < 128"
    and "task_exit 2 (k_tasks k) = Some (spins, ts)"
  shows "\<exists>k'. (\<forall>run. elf64_load run filename k = Some (if spins then Ended else Returned 2, k')) \<and> k_mem k' = k_mem k
    \<and> pages (k_heap k') = pages (k_heap k) \<and> heap_rep (k_heap k') (used @ [(81, True), (n - 81, True)])
    \<and> k_files k' = (k_files k)(file_at used k := None) \<and> k_tasks k' = ts"
  using elf64_load_reject_ok [OF assms] by blast

theorem elf64_load_rejects_witness:
  "\<exists>h k'. elf64_load (\<lambda>entry k. None) [116, 46, 116, 0] (loader_kernel h) = Some (Ended, k') \<and> pages (k_heap k') = pages h"
proof -
  obtain h where h: "heap_tail [] 4096 7 h" by (rule loader_heap)
  obtain ts where ts: "task_exit 2 (k_tasks (loader_kernel h)) = Some (True, ts)" using loader_exit by blast
  have "file_ready [] 4096 7 [116, 46, 116, 0] (replicate 512 14) (loader_kernel h)"
    using h loader_names loader_open(3) [of h] text_terminal_ok(1)
    by (simp add: file_ready_def loader_kernel_def loader_static loader_cluster found_said_ok)
  moreover have "take 4 (replicate 512 14 :: buffer) ! 0 \<noteq> (0x7F # chars ''ELF'') ! 0" by simp
  then have "take 4 (replicate 512 14 :: buffer) \<noteq> 0x7F # chars ''ELF''" by metis
  ultimately obtain k' where "\<forall>run. elf64_load run [116, 46, 116, 0] (loader_kernel h) = Some (if True then Ended else Returned 2, k')"
    "pages (k_heap k') = pages (k_heap (loader_kernel h))"
    using elf64_load_rejects [of "[]" 4096 7 "[116, 46, 116, 0]" "replicate 512 14" "loader_kernel h" True ts, OF _ loader_room(2)] ts
    by auto
  then show ?thesis by (intro exI [of _ h] exI [of _ k']) (simp add: loader_kernel_def loader_static)
qed

text \<open>
  \<open>elf64_load\<close> of a directory ends the task with code 1 and closes the file object, but the
  64 bytes of the header stay allocated: \<open>close\<close> is not followed by \<open>free_alloc(hdr)\<close>.
\<close>

theorem elf64_load_directory_leaks:
  assumes "heap_tail used n g (k_heap k)" and "162 \<le> n" and "term_ok (k_term k)" and "name_ok filename"
    and "fat_fileOpen (k_fname k) filename (k_fs k) = Some (f, said)" and "current_cluster f = 0xFFFFFFFF" and "said_ok said"
    and "task_exit 1 (k_tasks k) = Some (spins, ts)"
  shows "\<exists>k'. (\<forall>run. elf64_load run filename k = Some (if spins then Ended else Returned 1, k'))
    \<and> heap_rep (k_heap k') (used @ [(81, False), (n - 81, True)]) \<and> k_files k' = (k_files k)(file_at used k := None)"
  using elf64_load_directory_ok [OF assms] by blast

theorem elf64_load_directory_leaks_witness:
  "\<exists>h k'. elf64_load (\<lambda>entry k. None) [100, 46, 100, 0] (loader_kernel h) = Some (Ended, k')
    \<and> heap_rep (k_heap k') [(81, False), (4015, True)]"
proof -
  obtain h where h: "heap_tail [] 4096 7 h" by (rule loader_heap)
  obtain ts where ts: "task_exit 1 (k_tasks (loader_kernel h)) = Some (True, ts)" using loader_exit by blast
  have "heap_tail [] 4096 7 (k_heap (loader_kernel h))" "term_ok (k_term (loader_kernel h))"
    "fat_fileOpen (k_fname (loader_kernel h)) [100, 46, 100, 0] (k_fs (loader_kernel h))
      = Some (\<lparr>current_cluster = 0xFFFFFFFF, next_cluster = 0xFFFFFFFF, cluster = 0xFFFFFFFF, offset = 0\<rparr>, found_said (fat16_name [68] [68]))"
    using h loader_open(2) [of h] text_terminal_ok(1) by (simp_all add: loader_kernel_def loader_static)
  from elf64_load_directory_leaks [OF this(1) _ this(2) loader_names(2) this(3) _ found_said_ok(2) ts] show ?thesis by auto
qed

text \<open>
  \<open>page_mapv\<close> counts the pages of a segment from its size alone.  When the segment does not
  start on a page boundary and reaches over the last page counted, that page stays unmapped,
  and clearing the segment faults.
\<close>

theorem load_segment_tail_unmapped:
  assumes "page_inv (pages (k_heap k))" and "ok_flags flags" and "4 * page_count (memsize p) \<le> free_count (pages (k_heap k))"
    and "range_ok (pages (k_heap k)) p" and "type_segment p = EPT_LOAD"
    and "unat (virt_addr p) + unat (memsize p) < 2 ^ 64" and "0 < page_count (memsize p)"
    and "4096 * page_count (memsize p) < unat (virt_addr p) mod 4096 + unat (memsize p)"
    and "vmap (pages (k_heap k)) (vp (virt_addr p) (page_count (memsize p))) = 0"
  shows "load_segment flags fp p k = None"
proof -
  let ?n = "page_count (memsize p)" and ?v = "virt_addr p"
  obtain ps where ps: "page_mapv ?v (memsize p) flags (pages (k_heap k)) = Some ps" "adds [p] (pages (k_heap k)) ps"
    using map_segment [OF assms(1-5)] by blast
  have n: "?n < 0x80000" using assms(3) free_count_le [of "pages (k_heap k)"] by simp
  have "vp ?v ?n \<notin> seg_pages p" using vp_fresh(1) [OF _ n, of _ ?v] by (auto simp: seg_pages_def)
  then have 0: "vmap ps (vp ?v ?n) = 0" using ps(2) assms(5,9) by (simp add: adds_def del: split_paired_All)
  define i where "i = 4096 * ?n - unat ?v mod 4096"
  have "unat ?v mod 4096 \<le> 4096 * ?n"
  proof -
    have "unat ?v mod 4096 < 4096" by simp
    then show ?thesis using assms(7) by linarith
  qed
  then have i: "i < unat (memsize p)" "unat ?v mod 4096 + i = 4096 * ?n" using assms(8) by (simp_all add: i_def)
  have "vpage (?v + of_nat i) = vp ?v ?n" using vpage_byte [of ?v i] i assms(6) by simp
  then have "\<not> all_mapped (set_pages ps k) ?v (unat (memsize p))"
    using 0 i(1) by (auto simp: all_mapped_iff mapped_def)
  then show ?thesis using ps(1) assms(5) by (simp add: load_segment_def mem_zero_def mem_store_def)
qed

theorem load_segment_tail_unmapped_witness:
  "\<exists>k p. virt_addr p = 0x400FFC \<and> memsize p = 8 \<and> load_segment load_flags 0x5000 p k = None"
proof -
  obtain h where h: "heap_tail [] 4096 7 h" "vmap (pages h) (0, 0, 2, 0) = 0" "vmap (pages h) (0, 0, 2, 1) = 0" by (rule loader_heap)
  let ?p = "the_program\<lparr>virt_addr := 0x400FFC\<rparr>" and ?k = "loader_kernel h"
  have p: "virt_addr ?p = 0x400FFC" "memsize ?p = 8" "type_segment ?p = EPT_LOAD" "page_count 8 = 1"
    by (simp_all add: the_program_def page_count_def)
  have v: "vp 0x400FFC 0 = (0, 0, 2, 0)" "vp 0x400FFC 1 = (0, 0, 2, 1)"
    by (simp_all add: vp_def vpage_def PMLT4_INDEX_def PDPT_INDEX_def PDT_INDEX_def PT_INDEX_def)
  have k: "k_heap ?k = h" by (simp add: loader_kernel_def loader_static)
  have inv: "page_inv (pages h)" "4 * 8 \<le> free_count (pages h)"
    using h(1) by (simp_all add: heap_tail_def heap_rep_def pages_ok_def heap_room_def)
  have "range_ok (pages h) ?p" using h(2) v(1) unfolding range_ok_def p by (simp add: window_page_def)
  then have "load_segment load_flags 0x5000 ?p ?k = None"
    using load_segment_tail_unmapped [of ?k load_flags ?p "0x5000"] inv h(3) v(2) unfolding k p
    by (simp add: ok_flags_def load_flags_def)
  then show ?thesis using p(1,2) by blast
qed

end
