(* ===== verification/Syscall_Props.thy ===== *)
theory Syscall_Props
  imports Elf_Run
begin

text \<open>
  System calls of a program that reads a file: \<open>open\<close>, \<open>read\<close> and \<open>close\<close> through
  \<open>syscall_handle\<close>, with the heap, the file system and the memory of the program.
\<close>

section \<open>Reading a file\<close>







end
