(* ===== verification/Page_Show.thy ===== *)
theory Page_Show
  imports Page_Props
begin

text \<open>
  \<open>page_print\<close> of \<open>kernel/page.c\<close>: the listing of the page tables on the serial line.  The
  result is the sequence of the calls of \<open>serial_printf\<close>, each with its format and its
  arguments (\<open>Printf\<close> has the routine itself), and the state: the window is moved to every
  table that is read and is left on the last one.
\<close>

section \<open>The listing\<close>

type_synonym print_call = "string \<times> qword list"

abbreviation NEWLINE :: string where "NEWLINE \<equiv> [CHR 0x0A]"

definition PT_LINE :: string where "PT_LINE = ''------PT[%i](%x): %x'' @ NEWLINE"
definition PDT_LINE :: string where "PDT_LINE = ''----PDT[%i](%x): %x'' @ NEWLINE"
definition PDPT_LINE :: string where "PDPT_LINE = ''--PDPT[%i](%x): %x'' @ NEWLINE"
definition PMLT4_LINE :: string where "PMLT4_LINE = ''PMLT4[%i](%x): %x'' @ NEWLINE"
definition FRAME_LINE :: string where "FRAME_LINE = ''        // Private Frame Page'' @ NEWLINE"

lemma line_names [simp]:
  "PDT_LINE \<noteq> PT_LINE" "PDPT_LINE \<noteq> PT_LINE" "PMLT4_LINE \<noteq> PT_LINE" "FRAME_LINE \<noteq> PT_LINE"
  by (simp_all add: PT_LINE_def PDT_LINE_def PDPT_LINE_def PMLT4_LINE_def FRAME_LINE_def)

definition indices :: "pt_index list" where
  "indices = map of_nat [0..<512]"

primrec print_each ::
  "(pt_index \<Rightarrow> pstate \<Rightarrow> (print_call list \<times> pstate) option) \<Rightarrow> pt_index list \<Rightarrow> pstate \<Rightarrow> (print_call list \<times> pstate) option" where
  "print_each f [] s = Some ([], s)"
| "print_each f (i # is) s = do {
     (calls, s1) \<leftarrow> f i s;
     (rest, s2) \<leftarrow> print_each f is s1;
     Some (calls @ rest, s2) }"

definition print_pt :: "pt_index \<Rightarrow> pt_index \<Rightarrow> pt_index \<Rightarrow> qword \<Rightarrow> pt_index \<Rightarrow> pstate \<Rightarrow> (print_call list \<times> pstate) option" where
  "print_pt i j m pdt k s = do {
     let s1 = page_mapframe pdt s;
     e \<leftarrow> win_get k s1;
     if e = 0 then Some ([], s1) else Some ([(PT_LINE, [ucast k, PAGE_ADDRESS i j m k, e])], s1) }"

definition print_pdt :: "pt_index \<Rightarrow> pt_index \<Rightarrow> qword \<Rightarrow> pt_index \<Rightarrow> pstate \<Rightarrow> (print_call list \<times> pstate) option" where
  "print_pdt i j pdpt m s = do {
     let s1 = page_mapframe pdpt s;
     e \<leftarrow> win_get m s1;
     if e = 0 then Some ([], s1)
     else do {
       let pdt = e AND NOT 0x1FF;
       let line = (PDT_LINE, [ucast m, PAGE_ADDRESS i j m 0, e]);
       if i = 0 \<and> j = 0 \<and> m = 511 then Some ([line, (FRAME_LINE, [])], s1)
       else do {
         (calls, s2) \<leftarrow> print_each (print_pt i j m pdt) indices s1;
         Some (line # calls, s2) } } }"

definition print_pdpt :: "pt_index \<Rightarrow> pt_index \<Rightarrow> pstate \<Rightarrow> (print_call list \<times> pstate) option" where
  "print_pdpt i j s = do {
     let s1 = page_mapframe (pmem s (pmlt4 s) i AND NOT 0x1FF) s;
     e \<leftarrow> win_get j s1;
     if e = 0 then Some ([], s1)
     else do {
       (calls, s2) \<leftarrow> print_each (print_pdt i j (e AND NOT 0x1FF)) indices s1;
       Some ((PDPT_LINE, [ucast j, PAGE_ADDRESS i j 0 0, e]) # calls, s2) } }"

definition print_pmlt4 :: "pt_index \<Rightarrow> pstate \<Rightarrow> (print_call list \<times> pstate) option" where
  "print_pmlt4 i s =
     (let e = pmem s (pmlt4 s) i
      in if e = 0 then Some ([], s)
         else do {
           (calls, s1) \<leftarrow> print_each (print_pdpt i) indices s;
           Some ((PMLT4_LINE, [ucast i, PAGE_ADDRESS i 0 0 0, e]) # calls, s1) })"

definition page_print :: "pstate \<Rightarrow> (print_call list \<times> pstate) option" where
  "page_print s = print_each print_pmlt4 indices s"

section \<open>Back to the loader's root\<close>

text \<open>
  \<open>page_installMainPage\<close> goes back to the loader's root and loads it: the first component is
  the value given to \<open>page_enable\<close>, which writes \<open>cr3\<close>.
\<close>

definition page_installMainPage :: "pstate \<Rightarrow> qword \<times> pstate" where
  "page_installMainPage s = (let s1 = page_setPMLT4Default s in (pmlt4 s1, s1))"

section \<open>What a listing shows\<close>

text \<open>The tables below the leaves hold no entry that is neither empty nor present.\<close>

definition linked :: "pstate \<Rightarrow> bool" where
  "linked s \<longleftrightarrow> (\<forall>p t i. length p \<le> 2 \<longrightarrow> tab s p = Some t \<longrightarrow> pmem s t i \<noteq> 0 \<longrightarrow> pmem s t i AND 1 \<noteq> 0)"

abbreviation win :: "pstate \<Rightarrow> qword \<Rightarrow> pstate" where
  "win s v \<equiv> poke (frame_pt s) 0 v s"

definition pt_lines :: "pstate \<Rightarrow> pt_index \<Rightarrow> pt_index \<Rightarrow> pt_index \<Rightarrow> print_call list" where
  "pt_lines s a b c = [(PT_LINE, [ucast d, PAGE_ADDRESS a b c d, vmap s (a, b, c, d)]).
     d \<leftarrow> indices, (a, b, c) \<noteq> (0, 0, 511) \<and> vmap s (a, b, c, d) \<noteq> 0]"

definition lists :: "(pt_index \<Rightarrow> pstate \<Rightarrow> (print_call list \<times> pstate) option) \<Rightarrow> pstate \<Rightarrow> pt_index
    \<Rightarrow> print_call list \<Rightarrow> bool" where
  "lists f s i lines \<longleftrightarrow> (\<forall>v. \<exists>calls w. f i (win s v) = Some (calls, win s w) \<and> [c \<leftarrow> calls. fst c = PT_LINE] = lines)"

lemma print_each_lists:
  assumes "\<And>i. lists f s i (lines i)"
  shows "\<exists>calls w. print_each f is (win s v) = Some (calls, win s w)
    \<and> [c \<leftarrow> calls. fst c = PT_LINE] = concat (map lines is)"
proof (induction "is" arbitrary: v)
  case (Cons i "is")
  obtain calls w where 1: "f i (win s v) = Some (calls, win s w)" "[c \<leftarrow> calls. fst c = PT_LINE] = lines i"
    using assms unfolding lists_def by blast
  obtain rest u where "print_each f is (win s w) = Some (rest, win s u)"
    "[c \<leftarrow> rest. fst c = PT_LINE] = concat (map lines is)"
    using Cons.IH by blast
  with 1 show ?case by (intro exI [of _ "calls @ rest"] exI [of _ u]) simp
qed auto

lemma win_win: "poke (frame_pt s) 0 w (win s v) = win s w"
  by (simp add: poke_def)

lemma mapframe_win: "page_mapframe t (win s v) = win s (t OR 1 OR 2)"
  by (simp add: page_mapframe_def win_win)

lemma read_table:
  assumes inv: "page_inv s" and "tab s p = Some t" and "length p \<le> 3" and "p \<noteq> [0, 0, 511]"
  shows "win_get i (win s (t OR 1 OR 2)) = Some (pmem s t i)"
proof -
  obtain n where n: "n < 32768" "t = frame_of n" by (rule page_inv_tabD [OF inv assms(3,2)])
  have "t \<noteq> frame_pt s"
    using page_inv_inj [OF inv assms(2), of "[0, 0, 511]"] page_inv_window_tab [OF inv] assms(3,4) by auto
  then show ?thesis
    using window_mapframe [OF inv n(1)] n(2) by (simp add: win_get_def page_mapframe_def)
qed

lemma linked_child:
  assumes "linked s" and "tab s p = Some t" and "length p \<le> 2"
  shows "tab s (p @ [i]) = (if pmem s t i = 0 then None else Some (pmem s t i AND NOT 0x1FF))"
  using assms unfolding linked_def by (auto simp: tab_snoc child_def)

lemma print_pt_lists:
  assumes "page_inv s" and "tab s [a, b, c] = Some t" and "(a, b, c) \<noteq> (0, 0, 511)"
  shows "lists (print_pt a b c t) s d (if vmap s (a, b, c, d) \<noteq> 0 then [(PT_LINE, [ucast d, PAGE_ADDRESS a b c d, vmap s (a, b, c, d)])] else [])"
proof -
  have "win_get d (win s (t OR 1 OR 2)) = Some (vmap s (a, b, c, d))"
    using read_table [OF assms(1,2), of d] assms(2,3) by (auto simp: vmap_def pte_def window_page_def)
  then show ?thesis
    by (simp del: or_numerals add: lists_def print_pt_def mapframe_win Let_def) blast
qed

lemma print_each_tables:
  assumes "\<And>i. lists f s i (lines i)"
  obtains calls w where "print_each f indices (win s v) = Some (calls, win s w)"
    and "[c \<leftarrow> calls. fst c = PT_LINE] = concat (map lines indices)"
  using print_each_lists [of f s lines, OF assms] by blast

lemma pt_lines_concat:
  "(a, b, c) \<noteq> (0, 0, 511) \<Longrightarrow> pt_lines s a b c = concat (map (\<lambda>d. if vmap s (a, b, c, d) \<noteq> 0
     then [(PT_LINE, [ucast d, PAGE_ADDRESS a b c d, vmap s (a, b, c, d)])] else []) indices)"
  by (auto simp: pt_lines_def intro!: arg_cong [where f = concat])

lemma pt_lines_none:
  "tab s [a, b, c] = None \<or> (a, b, c) = (0, 0, 511) \<Longrightarrow> pt_lines s a b c = []"
  by (auto simp: pt_lines_def vmap_def pte_def)

lemma print_pdt_lists:
  assumes inv: "page_inv s" and lk: "linked s" and t: "tab s [a, b] = Some t"
  shows "lists (print_pdt a b t) s c (pt_lines s a b c)"
  unfolding lists_def
proof
  fix v
  let ?e = "pmem s t c" and ?w = "t OR 1 OR 2"
  have e: "win_get c (win s ?w) = Some ?e" by (rule read_table [OF inv t]) auto
  note child = linked_child [OF lk t, of c, simplified]
  consider "?e = 0" | "?e \<noteq> 0" "(a, b, c) = (0, 0, 511)" | "?e \<noteq> 0" "(a, b, c) \<noteq> (0, 0, 511)" by blast
  then show "\<exists>calls w. print_pdt a b t c (win s v) = Some (calls, win s w) \<and> [x \<leftarrow> calls. fst x = PT_LINE] = pt_lines s a b c"
  proof cases
    case 1
    then show ?thesis using e child by (intro exI [of _ "[]"] exI [of _ ?w])
        (simp del: or_numerals add: print_pdt_def mapframe_win Let_def pt_lines_none)
  next
    case 2
    then show ?thesis using e
      by (simp del: or_numerals add: print_pdt_def mapframe_win Let_def pt_lines_none) blast
  next
    case 3
    have t': "tab s [a, b, c] = Some (?e AND NOT 0x1FF)" using 3 child by simp
    obtain calls w where "print_each (print_pt a b c (?e AND NOT 0x1FF)) indices (win s ?w) = Some (calls, win s w)"
      "[x \<leftarrow> calls. fst x = PT_LINE] = pt_lines s a b c"
      using print_each_tables [OF print_pt_lists [OF inv t' 3(2)], of ?w] unfolding pt_lines_concat [OF 3(2)] by blast
    then show ?thesis using 3 e
      by (intro exI [of _ "(PDT_LINE, [ucast c, PAGE_ADDRESS a b c 0, ?e]) # calls"] exI [of _ w])
        (auto simp del: or_numerals simp add: print_pdt_def mapframe_win Let_def)
  qed
qed

lemma print_pdpt_lists:
  assumes inv: "page_inv s" and lk: "linked s" and nz: "pmem s (pmlt4 s) a \<noteq> 0"
  shows "lists (print_pdpt a) s b (concat (map (pt_lines s a b) indices))"
  unfolding lists_def
proof
  fix v
  let ?r = "pmem s (pmlt4 s) a"
  let ?w = "(?r AND NOT 0x1FF) OR 1 OR 2" and ?e = "pmem s (?r AND NOT 0x1FF) b"
  have t: "tab s [a] = Some (?r AND NOT 0x1FF)" using linked_child [OF lk tab_root, of a] nz by simp
  have root: "pmem (win s v) (pmlt4 s) a = ?r"
    using page_inv_inj [OF inv tab_root, of "[0, 0, 511]"] page_inv_window_tab [OF inv] by auto
  have e: "win_get b (win s ?w) = Some ?e" by (rule read_table [OF inv t]) auto
  note child = linked_child [OF lk t, of b, simplified]
  show "\<exists>calls w. print_pdpt a b (win s v) = Some (calls, win s w)
      \<and> [x \<leftarrow> calls. fst x = PT_LINE] = concat (map (pt_lines s a b) indices)"
  proof (cases "?e = 0")
    case True
    then have "pt_lines s a b = (\<lambda>_. [])" using child by (auto simp: pt_lines_def vmap_def pte_def tab_snoc [of s "[a, b]", simplified])
    then show ?thesis using True e root by (intro exI [of _ "[]"] exI [of _ ?w])
        (simp del: or_numerals add: print_pdpt_def mapframe_win Let_def map_replicate_const)
  next
    case False
    have t': "tab s [a, b] = Some (?e AND NOT 0x1FF)" using False child by simp
    obtain calls w where "print_each (print_pdt a b (?e AND NOT 0x1FF)) indices (win s ?w) = Some (calls, win s w)"
      "[x \<leftarrow> calls. fst x = PT_LINE] = concat (map (pt_lines s a b) indices)"
      by (rule print_each_tables [OF print_pdt_lists [OF inv lk t']])
    then show ?thesis using False e root
      by (intro exI [of _ "(PDPT_LINE, [ucast b, PAGE_ADDRESS a b 0 0, ?e]) # calls"] exI [of _ w])
        (auto simp del: or_numerals simp add: print_pdpt_def mapframe_win Let_def)
  qed
qed

lemma print_pmlt4_lists:
  assumes inv: "page_inv s" and lk: "linked s"
  shows "lists print_pmlt4 s a (concat (map (\<lambda>b. concat (map (pt_lines s a b) indices)) indices))"
  unfolding lists_def
proof
  fix v
  let ?r = "pmem s (pmlt4 s) a"
  have root: "pmem (win s v) (pmlt4 s) a = ?r"
    using page_inv_inj [OF inv tab_root, of "[0, 0, 511]"] page_inv_window_tab [OF inv] by auto
  show "\<exists>calls w. print_pmlt4 a (win s v) = Some (calls, win s w)
      \<and> [x \<leftarrow> calls. fst x = PT_LINE] = concat (map (\<lambda>b. concat (map (pt_lines s a b) indices)) indices)"
  proof (cases "?r = 0")
    case True
    then have "tab s [a] = None" using linked_child [OF lk tab_root, of a] by simp
    then have "pt_lines s a b = (\<lambda>_. [])" for b
      by (auto simp: pt_lines_def vmap_def pte_def tab_snoc [of s "[a, b]", simplified] tab_snoc [of s "[a]", simplified])
    then show ?thesis using True root by (intro exI [of _ "[]"] exI [of _ v])
        (simp add: print_pmlt4_def Let_def map_replicate_const)
  next
    case False
    obtain calls w where "print_each (print_pdpt a) indices (win s v) = Some (calls, win s w)"
      "[x \<leftarrow> calls. fst x = PT_LINE] = concat (map (\<lambda>b. concat (map (pt_lines s a b) indices)) indices)"
      by (rule print_each_tables [OF print_pdpt_lists [OF inv lk False]])
    then show ?thesis using False root
      by (intro exI [of _ "(PMLT4_LINE, [ucast a, PAGE_ADDRESS a 0 0 0, ?r]) # calls"] exI [of _ w])
        (auto simp add: print_pmlt4_def Let_def)
  qed
qed

section \<open>The property\<close>

text \<open>
  C5: \<open>page_print\<close> lists exactly the mapped pages: its lines for page-table entries are, in
  the order of the addresses, one for every page of the abstract map that is mapped, with its
  index, its address and its entry (the pages of the window's own table are left out).  It
  keeps the invariant and the map.
\<close>

theorem page_print_lists_vmap:
  assumes "page_inv s" and "linked s"
  shows "\<exists>calls s'. page_print s = Some (calls, s') \<and> page_inv s' \<and> vmap s' = vmap s
    \<and> [c \<leftarrow> calls. fst c = PT_LINE] =
        [(PT_LINE, [ucast d, PAGE_ADDRESS a b c d, vmap s (a, b, c, d)]).
           a \<leftarrow> indices, b \<leftarrow> indices, c \<leftarrow> indices, d \<leftarrow> indices,
           (a, b, c) \<noteq> (0, 0, 511) \<and> vmap s (a, b, c, d) \<noteq> 0]"
proof -
  have start: "s = win s (pmem s (frame_pt s) 0)" by (simp add: poke_def)
  obtain calls w where c: "print_each print_pmlt4 indices (win s (pmem s (frame_pt s) 0)) = Some (calls, win s w)"
    "[c \<leftarrow> calls. fst c = PT_LINE] = concat (map (\<lambda>a. concat (map (\<lambda>b. concat (map (pt_lines s a b) indices)) indices)) indices)"
    by (rule print_each_tables [OF print_pmlt4_lists [OF assms]])
  have "page_print s = Some (calls, win s w)" using c(1) start by (simp add: page_print_def)
  moreover have "page_inv (win s w)" "vmap (win s w) = vmap s"
    using ext_window(1) [OF assms(1), of w] by (simp_all add: ext_def)
  ultimately show ?thesis using c(2) unfolding pt_lines_def by blast
qed

lemma set_indices: "set indices = UNIV"
proof -
  have "i \<in> set indices" for i
  proof -
    have "unat i < 2 ^ LENGTH(9)" by (rule unsigned_less)
    then have "(of_nat (unat i) :: pt_index) \<in> of_nat ` {0..<512}" by (intro imageI) simp
    then show ?thesis by (simp add: indices_def)
  qed
  then show ?thesis by blast
qed

lemma boot_linked: "linked boot_tables"
  unfolding linked_def
proof (intro allI impI)
  fix p t i assume "length p \<le> 2" and p: "tab boot_tables p = Some t" and nz: "pmem boot_tables t i \<noteq> 0"
  then have l: "length p \<le> 3" and "t \<noteq> 0x4000" "t \<noteq> 0x5000" using boot_tabD [of p t] by auto
  then show "pmem boot_tables t i AND 1 \<noteq> 0"
    using nz by (auto simp: boot_tables_def boot_mem_def split: if_splits)
qed

theorem page_print_lists_vmap_witness:
  "\<exists>calls s'. page_print boot_tables = Some (calls, s') \<and> vmap s' = vmap boot_tables
    \<and> (PT_LINE, [5, 0x5000, 0x5003]) \<in> set calls \<and> (\<forall>e. (PT_LINE, [5, 0x205000, e]) \<notin> set calls)"
proof -
  obtain calls s' where c: "page_print boot_tables = Some (calls, s')" "vmap s' = vmap boot_tables"
    and "[c \<leftarrow> calls. fst c = PT_LINE] = [(PT_LINE, [ucast d, PAGE_ADDRESS a b c d, vmap boot_tables (a, b, c, d)]).
           a \<leftarrow> indices, b \<leftarrow> indices, c \<leftarrow> indices, d \<leftarrow> indices,
           (a, b, c) \<noteq> (0, 0, 511) \<and> vmap boot_tables (a, b, c, d) \<noteq> 0]"
    using page_print_lists_vmap [OF boot_inv boot_linked] by blast
  note list = this(3)
  have m: "(PT_LINE, [i, x, e]) \<in> set calls \<longleftrightarrow> (\<exists>a b c d. (a, b, c) \<noteq> (0, 0, 511) \<and> vmap boot_tables (a, b, c, d) \<noteq> 0
      \<and> i = ucast d \<and> x = PAGE_ADDRESS a b c d \<and> e = vmap boot_tables (a, b, c, d))" for i x e
    using arg_cong [OF list, of "\<lambda>l. (PT_LINE, [i, x, e]) \<in> set l"] by (simp add: set_indices)
  have "(PT_LINE, [5, 0x5000, 0x5003]) \<in> set calls"
    unfolding m by (rule exI [of _ 0] exI [of _ 5])+ (simp add: boot_vmap PAGE_ADDRESS_def)
  moreover have "(PT_LINE, [5, 0x205000, e]) \<notin> set calls" for e
    unfolding m by (auto simp: boot_vmap PAGE_ADDRESS_def split: if_splits)
  ultimately show ?thesis using c by blast
qed

end
