(* ===== verification/Stage64_Page.thy ===== *)
theory Stage64_Page
  imports Page_Boot
begin

text \<open>
  \<open>boot/stage64/page.c\<close> and the table setup of \<open>entry.asm\<close>: the second boot stage in long
  mode.  The code is an earlier form of \<open>kernel/page.c\<close> and works on the same structures,
  with its globals at other addresses, so the frame allocator and the window are those of
  \<open>Page\<close>.  It differs where it is defined anew here: the tables are always linked with
  the present and writable bits, a page that is mapped already leaves the window unmapped,
  \<open>page_mapvp\<close> marks the bitmap, and a length counts one page more than it covers.
\<close>

section \<open>Setting up\<close>

abbreviation STAGE_BITMAP :: qword where "STAGE_BITMAP \<equiv> 0x1000"
abbreviation STAGE_PMLT4 :: qword where "STAGE_PMLT4 \<equiv> 0x2000"
abbreviation STAGE_FIRST_PT :: qword where "STAGE_FIRST_PT \<equiv> 0x5000"
abbreviation STAGE_FRAME_PT :: qword where "STAGE_FRAME_PT \<equiv> 0x6000"

text \<open>
  \<open>setup_to_longmode\<close> and \<open>clear_table\<close> of \<open>entry.asm\<close>: \<open>clear_table\<close> writes 128 double
  words, the first 64 entries of a table (the first 512 bytes of the bitmap), then the
  tables are linked and the first page table is filled.
\<close>

definition clear_table :: "qword \<Rightarrow> pstate \<Rightarrow> pstate" where
  "clear_table t s = s\<lparr>pmem := (pmem s)(t := (\<lambda>i. if unat i < 64 then 0 else pmem s t i))\<rparr>"

text \<open>A \<open>mov dword\<close> to an entry writes its low half.\<close>

definition poke_low :: "qword \<Rightarrow> pt_index \<Rightarrow> dword \<Rightarrow> pstate \<Rightarrow> pstate" where
  "poke_low t i v s = poke t i ((pmem s t i AND 0xFFFFFFFF00000000) OR ucast v) s"

primrec fill_first_pt :: "nat \<Rightarrow> pstate \<Rightarrow> pstate" where
  "fill_first_pt 0 s = s"
| "fill_first_pt (Suc i) s = poke_low STAGE_FIRST_PT (of_nat i) (push_bit 12 (of_nat i) OR 3) (fill_first_pt i s)"

definition setup_tables :: "pstate \<Rightarrow> pstate" where
  "setup_tables s =
     (let s = s\<lparr>bitmap := (\<lambda>i. if i < 512 then 0 else bitmap s i), pmlt4 := STAGE_PMLT4,
                frame_pt := STAGE_FRAME_PT, bitmap_addr := STAGE_BITMAP\<rparr>;
          s = fold clear_table [0x2000, 0x3000, 0x4000, 0x5000, 0x6000] s;
          s = poke_low 0x2000 0 (0x3000 OR 3) s;
          s = poke_low 0x3000 0 (0x4000 OR 3) s;
          s = poke_low 0x4000 0 (0x5000 OR 3) s;
          s = poke_low 0x4000 511 (0x6000 OR 3) s
      in fill_first_pt 512 s)"

definition mark_frame :: "nat \<Rightarrow> pstate \<Rightarrow> pstate" where
  "mark_frame i s = s\<lparr>bitmap := (bitmap s)(i div 8 := bitmap s (i div 8) OR push_bit (i mod 8) 1)\<rparr>"

text \<open>The first loop of \<open>page_init\<close> up to an index, the second from an index on.\<close>

primrec stage_mark_loop :: "nat \<Rightarrow> pstate \<Rightarrow> pstate" where
  "stage_mark_loop 0 s = s"
| "stage_mark_loop (Suc i) s = mark_frame i (stage_mark_loop i s)"

definition stage_page_init :: "qword \<Rightarrow> pstate \<Rightarrow> pstate" where
  "stage_page_init boot_end s =
     (let fnal_index = unat (PT_INDEX boot_end);
          s1 = stage_mark_loop (fnal_index + 1) (s\<lparr>bitmap := \<lambda>_. 0\<rparr>)
      in fold (\<lambda>i. poke STAGE_FIRST_PT (of_nat i) 0) [fnal_index + 1..<512] s1)"

section \<open>The window by index\<close>

definition page_mapframei :: "qword \<Rightarrow> qword \<Rightarrow> pstate \<Rightarrow> pstate option" where
  "page_mapframei address i s =
     (if i < 512 then Some (poke (frame_pt s) (ucast i) (address OR 1 OR 2) s) else None)"

definition page_umapframei :: "qword \<Rightarrow> pstate \<Rightarrow> pstate option" where
  "page_umapframei i s = (if i < 512 then Some (poke (frame_pt s) (ucast i) 0 s) else None)"

section \<open>Mapping\<close>

text \<open>\<open>length / PAGE_SIZE + ( length + PAGE_SIZE > 0 )\<close>, and the loop with a 64-bit counter.\<close>

definition stage_count :: "qword \<Rightarrow> nat" where
  "stage_count len = unat (len div PAGE_SIZE + (if len + PAGE_SIZE > 0 then 1 else 0))"

primrec stage_loop :: "(qword \<Rightarrow> pstate \<Rightarrow> pstate option) \<Rightarrow> nat \<Rightarrow> pstate \<Rightarrow> pstate option" where
  "stage_loop f 0 s = Some s"
| "stage_loop f (Suc n) s = do { s' \<leftarrow> stage_loop f n s; f (of_nat n * PAGE_SIZE) s' }"

definition stage_mapv_page :: "qword \<Rightarrow> word16 \<Rightarrow> pstate \<Rightarrow> pstate option" where
  "stage_mapv_page virt flags s = do {
     (pt_addr, s1) \<leftarrow> page_tables virt (1 OR 2) s;
     (phy, s2) \<leftarrow> page_getframe (page_mapframe pt_addr s1);
     let s3 = page_mapframe pt_addr s2;
     e \<leftarrow> win_get (PT_INDEX virt) s3;
     if e \<noteq> 0 then Some (page_umapframe s3)
     else do { s4 \<leftarrow> win_set (PT_INDEX virt) (phy OR ucast flags) s3;
               Some (page_umapframe s4) } }"

text \<open>Only the low nine bits of the frame number reach the bitmap.\<close>

definition stage_mapvp_page :: "qword \<Rightarrow> qword \<Rightarrow> word16 \<Rightarrow> pstate \<Rightarrow> pstate option" where
  "stage_mapvp_page virt phys flags s = do {
     (pt_addr, s1) \<leftarrow> page_tables virt (1 OR 2) s;
     let s2 = page_mapframe pt_addr s1;
     e \<leftarrow> win_get (PT_INDEX virt) s2;
     if e \<noteq> 0 then Some (page_umapframe s2)
     else do { let s3 = mark_frame (unat (PT_INDEX phys)) s2;
               s4 \<leftarrow> win_set (PT_INDEX virt) (phys OR ucast flags) s3;
               Some (page_umapframe s4) } }"

definition stage_mapv :: "qword \<Rightarrow> qword \<Rightarrow> word16 \<Rightarrow> pstate \<Rightarrow> pstate option" where
  "stage_mapv virt len flags s = stage_loop (\<lambda>off. stage_mapv_page (virt + off) flags) (stage_count len) s"

definition stage_mapvp :: "qword \<Rightarrow> qword \<Rightarrow> qword \<Rightarrow> word16 \<Rightarrow> pstate \<Rightarrow> pstate option" where
  "stage_mapvp virt phys len flags s =
     stage_loop (\<lambda>off. stage_mapvp_page (virt + off) (phys + off) flags) (stage_count len) s"

section \<open>The marks\<close>

lemma mark_frame_simps [simp]:
  "pmem (mark_frame n s) = pmem s" "pmlt4 (mark_frame n s) = pmlt4 s" "frame_pt (mark_frame n s) = frame_pt s"
  "bitmap_addr (mark_frame n s) = bitmap_addr s" "ram_end (mark_frame n s) = ram_end s"
  "bitmap (mark_frame n s) = mark n (bitmap s)"
  by (simp_all add: mark_frame_def mark_def)

lemma ext_mark_frame:
  assumes "page_inv s"
  shows "ext s (mark_frame n s)" and "length p \<le> 3 \<Longrightarrow> tab (mark_frame n s) p = tab s p" and "keeps s (mark_frame n s)"
proof -
  show "ext s (mark_frame n s)" and t: "length p \<le> 3 \<Longrightarrow> tab (mark_frame n s) p = tab s p" for p
    by (rule ext_frame [OF assms]; simp add: used_no_mark)+
  show "keeps s (mark_frame n s)" by (simp add: keeps_def data_frame_def used_no_mark t)
qed

lemma free_count_mark_frame: "free_count s \<le> Suc (free_count (mark_frame n s))"
proof (cases "n < 32768 \<and> \<not> used_no (bitmap s) n")
  case True
  then show ?thesis using free_count_mark [of n s "mark_frame n s"] by simp
next
  case False
  then have "{m. m < 32768 \<and> \<not> used_no (bitmap (mark_frame n s)) m} = {m. m < 32768 \<and> \<not> used_no (bitmap s) m}"
    by (auto simp: used_no_mark)
  then show ?thesis by (simp add: free_count_def)
qed

lemma mark_frame_win:
  "page_umapframe (mark_frame n s) = mark_frame n (page_umapframe s)"
  "win_set d e (mark_frame n s) = map_option (mark_frame n) (win_set d e s)"
  by (simp_all add: page_umapframe_def mark_frame_def poke_def win_set_def window_def Let_def map_option_bind o_def)

lemma ok_flags_rw: "ok_flags (1 OR 2)"
  by (simp add: ok_flags_def)

section \<open>One page\<close>

lemma stage_mapvp_page_ok:
  assumes inv: "page_inv s" and free: "4 \<le> free_count s" and nw: "vpage virt \<noteq> window_page"
  obtains s' where "stage_mapvp_page virt phys flags s = Some s'" and "page_inv s'" and "keeps s s'"
    and "vmap s' = (if vmap s (vpage virt) = 0 then (vmap s)(vpage virt := phys OR ucast flags) else vmap s)"
    and "free_count s \<le> free_count s' + 4"
proof -
  let ?a = "PMLT4_INDEX virt" and ?b = "PDPT_INDEX virt" and ?c = "PDT_INDEX virt" and ?d = "PT_INDEX virt"
  obtain pt s1 where tables: "page_tables virt (1 OR 2) s = Some (pt, s1)" and ext1: "ext s s1"
    and k1: "keeps s s1" and pt: "tab s1 [?a, ?b, ?c] = Some pt" and fc: "free_count s \<le> free_count s1 + 3"
    using page_tables_ok [OF inv ok_flags_rw] free by fastforce
  have inv1: "page_inv s1" and vm: "vmap s1 = vmap s" using ext1 by (simp_all add: ext_def)
  have nw': "(?a, ?b, ?c, ?d) \<noteq> window_page" using nw by (simp add: vpage_def)
  note w = leaf_window [OF inv1 pt nw']
  show ?thesis
  proof (cases "vmap s (vpage virt) = 0")
    case True
    obtain s3 where s3: "win_set ?d (phys OR ucast flags) (page_mapframe pt s1) = Some s3"
      "page_inv (page_umapframe s3)" "bitmap (page_umapframe s3) = bitmap s1"
      "vmap (page_umapframe s3) = (vmap s1)((?a, ?b, ?c, ?d) := phys OR ucast flags)"
      "keeps s1 (page_umapframe s3)"
      using leaf_write [OF inv1 pt nw'] by blast
    let ?n = "unat (PT_INDEX phys)"
    note m = ext_mark_frame [OF s3(2), where n = ?n]
    have "stage_mapvp_page virt phys flags s = Some (mark_frame ?n (page_umapframe s3))"
      using True tables w(2) vm s3(1) by (simp add: stage_mapvp_page_def Let_def vpage_def mark_frame_win)
    moreover have "free_count s \<le> free_count (mark_frame ?n (page_umapframe s3)) + 4"
      using fc free_count_mark_frame [of "page_umapframe s3" ?n] free_count_cong [OF s3(3)] by simp
    ultimately show ?thesis
      using True m(1,3) s3(4) vm keeps_trans [OF keeps_trans [OF k1 s3(5)] m(3)]
      by (intro that [of "mark_frame ?n (page_umapframe s3)"]) (simp_all add: ext_def vpage_def)
  next
    case False
    have inv_w: "page_inv (page_mapframe pt s1)" using w(3) by (simp add: ext_def)
    let ?s' = "page_umapframe (page_mapframe pt s1)"
    have e: "ext s1 ?s'" using ext_trans [OF w(3) ext_mapframe(2) [OF inv_w]] .
    have bm: "bitmap ?s' = bitmap s1" by (simp add: page_umapframe_def page_mapframe_def)
    have "keeps s ?s'" using k1 keeps_mapframe(1) [OF inv1] keeps_mapframe(2) [OF inv_w] keeps_trans by blast
    then show ?thesis
      using False tables w(2) vm fc e free_count_cong [OF bm]
      by (intro that [of ?s']) (simp_all add: stage_mapvp_page_def Let_def vpage_def ext_def)
  qed
qed

lemma stage_mapv_page_ok:
  assumes inv: "page_inv s" and free: "4 \<le> free_count s" and nw: "vpage virt \<noteq> window_page"
  obtains n s' where "stage_mapv_page virt flags s = Some s'" and "page_inv s'" and "keeps s s'"
    and "n < 32768" and "\<not> used_no (bitmap s) n" and "data_frame s' n"
    and "vmap s' = (if vmap s (vpage virt) = 0 then (vmap s)(vpage virt := frame_of n OR ucast flags) else vmap s)"
    and "free_count s \<le> free_count s' + 4"
proof -
  let ?a = "PMLT4_INDEX virt" and ?b = "PDPT_INDEX virt" and ?c = "PDT_INDEX virt" and ?d = "PT_INDEX virt"
  obtain pt s1 where tables: "page_tables virt (1 OR 2) s = Some (pt, s1)" and ext1: "ext s s1"
    and k1: "keeps s s1" and pt: "tab s1 [?a, ?b, ?c] = Some pt" and fc: "free_count s \<le> free_count s1 + 3"
    using page_tables_ok [OF inv ok_flags_rw] free by fastforce
  have inv1: "page_inv s1" and mono: "\<forall>m. used_no (bitmap s) m \<longrightarrow> used_no (bitmap s1) m"
    using ext1 by (simp_all add: ext_def)
  let ?w1 = "page_mapframe pt s1"
  have extw: "ext s1 ?w1" and tw: "\<And>p. length p \<le> 3 \<Longrightarrow> tab ?w1 p = tab s1 p" using ext_mapframe [OF inv1] by simp_all
  have invw: "page_inv ?w1" using extw by (simp add: ext_def)
  have fcw: "free_count ?w1 = free_count s1" by (rule free_count_cong) (simp add: page_mapframe_def)
  obtain n s2 where get: "page_getframe ?w1 = Some (frame_of n, s2)" and fr: "fresh ?w1 n s2"
    using getframe_ok [OF invw] fc fcw free by auto
  note f = freshD [OF fr]
  have vm2: "vmap s2 = vmap s" using f(6) extw ext1 by (simp add: ext_def)
  have pt2: "tab s2 [?a, ?b, ?c] = Some pt" using pt f(9) tw by simp
  have nw': "(?a, ?b, ?c, ?d) \<noteq> window_page" using nw by (simp add: vpage_def)
  note w = leaf_window [OF f(7) pt2 nw']
  have k2: "keeps s s2" by (rule keeps_trans [OF keeps_trans [OF k1 keeps_mapframe(1) [OF inv1]] keeps_fresh [OF invw fr]])
  have unused: "\<not> used_no (bitmap s) n" using f(3) mono by (auto simp: page_mapframe_def)
  have data: "data_frame s2 n" using f(1,5,10) by (simp add: data_frame_def f(9))
  show ?thesis
  proof (cases "vmap s (vpage virt) = 0")
    case True
    obtain s3 where s3: "win_set ?d (frame_of n OR ucast flags) (page_mapframe pt s2) = Some s3"
      "page_inv (page_umapframe s3)" "bitmap (page_umapframe s3) = bitmap s2"
      "vmap (page_umapframe s3) = (vmap s2)((?a, ?b, ?c, ?d) := frame_of n OR ucast flags)"
      "keeps s2 (page_umapframe s3)"
      using leaf_write [OF f(7) pt2 nw'] by blast
    have "data_frame (page_umapframe s3) n" using s3(5) data by (simp add: keeps_def)
    then show ?thesis
      using True tables get w(2) vm2 fc fcw f(1,12) unused free_count_cong [OF s3(3)] s3(1,2,4) keeps_trans [OF k2 s3(5)]
      by (intro that [of "page_umapframe s3" n]) (simp_all add: stage_mapv_page_def Let_def vpage_def)
  next
    case False
    have inv_w: "page_inv (page_mapframe pt s2)" using w(3) by (simp add: ext_def)
    let ?s' = "page_umapframe (page_mapframe pt s2)"
    have e: "ext s2 ?s'" using ext_trans [OF w(3) ext_mapframe(2) [OF inv_w]] .
    have bm: "bitmap ?s' = bitmap s2" by (simp add: page_umapframe_def page_mapframe_def)
    have k3: "keeps s2 ?s'" using keeps_mapframe(1) [OF f(7)] keeps_mapframe(2) [OF inv_w] keeps_trans by blast
    then have "data_frame ?s' n" using data by (simp add: keeps_def)
    then show ?thesis
      using False tables get w(2) vm2 fc fcw f(1,12) unused e free_count_cong [OF bm] keeps_trans [OF k2 k3]
      by (intro that [of ?s' n]) (simp_all add: stage_mapv_page_def Let_def vpage_def ext_def)
  qed
qed

section \<open>Ranges\<close>

lemma stage_count_eq:
  assumes "unat len + 0x1000 < 2 ^ 64"
  shows "stage_count len = unat len div 0x1000 + 1"
proof -
  have "unat (len + PAGE_SIZE) = unat len + 0x1000" using assms by (subst unat_add_lem [THEN iffD1]) simp_all
  then have "len + PAGE_SIZE > 0" by (simp add: word_less_nat_alt)
  moreover have "unat (len div PAGE_SIZE + 1) = unat (len div PAGE_SIZE) + 1"
    using assms by (subst unat_add_lem [THEN iffD1]) (simp_all add: unat_div)
  ultimately show ?thesis by (simp add: stage_count_def unat_div)
qed

lemma stage_mapvp_loop:
  assumes inv: "page_inv s"
  shows "4 * n \<le> free_count s \<Longrightarrow> n \<le> 0x80000 \<Longrightarrow> \<forall>k < n. vp virt k \<noteq> window_page \<Longrightarrow>
    \<exists>s'. stage_loop (\<lambda>off. stage_mapvp_page (virt + off) (phys + off) flags) n s = Some s'
    \<and> page_inv s' \<and> keeps s s' \<and> free_count s \<le> free_count s' + 4 * n
    \<and> (\<forall>k < n. vmap s' (vp virt k) =
          (if vmap s (vp virt k) = 0 then (phys + of_nat k * PAGE_SIZE) OR ucast flags else vmap s (vp virt k)))
    \<and> (\<forall>v. (\<forall>k < n. v \<noteq> vp virt k) \<longrightarrow> vmap s' v = vmap s v)"
proof (induction n)
  case 0
  then show ?case using inv by (simp add: keeps_refl)
next
  case (Suc n)
  then obtain s1 where s1: "stage_loop (\<lambda>off. stage_mapvp_page (virt + off) (phys + off) flags) n s = Some s1"
    "page_inv s1" "keeps s s1" "free_count s \<le> free_count s1 + 4 * n"
    "\<forall>k < n. vmap s1 (vp virt k) = (if vmap s (vp virt k) = 0
       then (phys + of_nat k * PAGE_SIZE) OR ucast flags else vmap s (vp virt k))"
    "\<forall>v. (\<forall>k < n. v \<noteq> vp virt k) \<longrightarrow> vmap s1 v = vmap s v"
    by auto
  have small: "n < 0x80000" using Suc.prems by simp
  have old: "vmap s1 (vp virt n) = vmap s (vp virt n)" using s1(6) vp_fresh(1) [OF _ small] by blast
  have free: "4 \<le> free_count s1" using s1(4) Suc.prems by simp
  have nw: "vpage (virt + of_nat n * PAGE_SIZE) \<noteq> window_page" using Suc.prems by (simp add: vp_def)
  obtain s' where s': "stage_mapvp_page (virt + of_nat n * PAGE_SIZE) (phys + of_nat n * PAGE_SIZE) flags s1 = Some s'"
    "page_inv s'" "keeps s1 s'"
    "vmap s' = (if vmap s1 (vp virt n) = 0
       then (vmap s1)(vp virt n := (phys + of_nat n * PAGE_SIZE) OR ucast flags) else vmap s1)"
    "free_count s1 \<le> free_count s' + 4"
    unfolding vp_def by (rule stage_mapvp_page_ok [OF s1(2) free nw])
  have "\<forall>k < Suc n. vmap s' (vp virt k) = (if vmap s (vp virt k) = 0
       then (phys + of_nat k * PAGE_SIZE) OR ucast flags else vmap s (vp virt k))"
    using s'(4) old s1(5) vp_fresh(2) [OF _ small] by (auto simp: less_Suc_eq)
  moreover have "\<forall>v. (\<forall>k < Suc n. v \<noteq> vp virt k) \<longrightarrow> vmap s' v = vmap s v"
    using s'(4) s1(6) by (auto simp: less_Suc_eq)
  ultimately show ?case
    using s1(1,3,4) s'(1-3,5) by (intro exI [of _ s']) (auto intro: keeps_trans)
qed

end
