(* ===== verification/Stage64_Props.thy ===== *)
theory Stage64_Props
  imports Stage64_Page
begin

text \<open>
  The properties of the second boot stage's tables: the state \<open>setup_to_longmode\<close> and
  \<open>page_init\<close> leave, with and without cleared memory, and the mapping of a range.
\<close>

section \<open>The tables after the setup\<close>

definition tables_clear :: "pstate \<Rightarrow> bool" where
  "tables_clear s \<longleftrightarrow> (\<forall>t \<in> {0x2000, 0x3000, 0x4000, 0x5000, 0x6000}. \<forall>i. 64 \<le> unat i \<longrightarrow> pmem s t i = 0)"

lemma poke_low_simps [simp]:
  "bitmap (poke_low t i v s) = bitmap s" "pmlt4 (poke_low t i v s) = pmlt4 s"
  "frame_pt (poke_low t i v s) = frame_pt s" "bitmap_addr (poke_low t i v s) = bitmap_addr s"
  "ram_end (poke_low t i v s) = ram_end s"
  by (simp_all add: poke_low_def)

lemma clear_table_simps [simp]:
  "bitmap (clear_table t s) = bitmap s" "pmlt4 (clear_table t s) = pmlt4 s"
  "frame_pt (clear_table t s) = frame_pt s" "bitmap_addr (clear_table t s) = bitmap_addr s"
  "ram_end (clear_table t s) = ram_end s"
  by (simp_all add: clear_table_def)

lemma pmem_poke_low:
  "pmem (poke_low t i v s) f j
     = (if f = t \<and> j = i then (pmem s t i AND 0xFFFFFFFF00000000) OR ucast v else pmem s f j)"
  by (simp add: poke_low_def)

lemma pmem_clear_table:
  "pmem (clear_table t s) f j = (if f = t \<and> unat j < 64 then 0 else pmem s f j)"
  by (simp add: clear_table_def)

lemma fill_first_pt_simps [simp]:
  "bitmap (fill_first_pt n s) = bitmap s" "pmlt4 (fill_first_pt n s) = pmlt4 s"
  "frame_pt (fill_first_pt n s) = frame_pt s" "bitmap_addr (fill_first_pt n s) = bitmap_addr s"
  "ram_end (fill_first_pt n s) = ram_end s"
  by (induction n) simp_all

lemma index_of_nat: "n < 512 \<Longrightarrow> unat (of_nat n :: pt_index) = n"
  by (simp add: unsigned_of_nat take_bit_nat_eq_self)

lemma index_less [simp]: "unat (i :: pt_index) < 512"
proof -
  have "unat i < 2 ^ LENGTH(9)" by (rule unsigned_less)
  then show ?thesis by simp
qed

lemma index_less_Suc: "n < 512 \<Longrightarrow> unat (j :: pt_index) < Suc n \<longleftrightarrow> j = of_nat n \<or> unat j < n"
  by (auto simp: less_Suc_eq word_unat_eq_iff index_of_nat)

lemma low_entry: "ucast (push_bit 12 (ucast (i :: pt_index)) OR 3 :: dword) = (push_bit 12 (ucast i) OR 3 :: qword)"
proof (rule bit_eqI)
  have three: "(3 :: dword) = mask 2" "(3 :: qword) = mask 2" by (simp_all add: mask_eq_exp_minus_1)
  show "bit (ucast (push_bit 12 (ucast i) OR 3 :: dword) :: qword) n = bit (push_bit 12 (ucast i) OR 3 :: qword) n" for n
    unfolding three by (auto simp: bit_simps dest: bit_imp_le_length)
qed

lemma pmem_fill_first_pt:
  "n \<le> 512 \<Longrightarrow> pmem (fill_first_pt n s) f j =
     (if f = 0x5000 \<and> unat j < n then (pmem s f j AND 0xFFFFFFFF00000000) OR (push_bit 12 (ucast j) OR 3) else pmem s f j)"
proof (induction n)
  case (Suc n)
  have e: "(of_nat n :: dword) = ucast (of_nat n :: pt_index)"
    using Suc.prems by (metis Suc_le_lessD index_of_nat of_nat_unat)
  have "unat j < n" if "unat j < Suc n" "j \<noteq> of_nat n"
    using that Suc.prems index_less_Suc [of n j] by auto
  then show ?case using Suc index_of_nat [of n]
    by (auto simp: pmem_poke_low e low_entry)
qed simp

definition stage_mem :: "nat \<Rightarrow> (qword \<Rightarrow> pt_index \<Rightarrow> qword) \<Rightarrow> qword \<Rightarrow> pt_index \<Rightarrow> qword" where
  "stage_mem n m f i =
     (if f = 0x2000 then (if i = 0 then 0x3003 else 0)
      else if f = 0x3000 then (if i = 0 then 0x4003 else 0)
      else if f = 0x4000 then (if i = 0 then 0x5003 else if i = 511 then 0x6003 else 0)
      else if f = 0x5000 then (if unat i < n then push_bit 12 (ucast i) OR 3 else 0)
      else if f = 0x6000 then 0
      else m f i)"

lemma setup_tables_mem:
  assumes "tables_clear s"
  shows "pmem (setup_tables s) = stage_mem 512 (pmem s)"
proof (intro ext)
  fix f i
  have z: "t \<in> {0x2000, 0x3000, 0x4000, 0x5000, 0x6000} \<Longrightarrow> \<not> unat j < 64 \<Longrightarrow> pmem s t j = 0" for t j
    using assms unfolding tables_clear_def by (metis not_less)
  show "pmem (setup_tables s) f i = stage_mem 512 (pmem s) f i"
    by (simp add: setup_tables_def Let_def pmem_fill_first_pt pmem_poke_low pmem_clear_table stage_mem_def z)
qed

lemma setup_tables_simps [simp]:
  "pmlt4 (setup_tables s) = 0x2000" "frame_pt (setup_tables s) = 0x6000" "bitmap_addr (setup_tables s) = 0x1000"
  "ram_end (setup_tables s) = ram_end s"
  by (simp_all add: setup_tables_def Let_def)

section \<open>After page_init\<close>

lemma stage_mark_loop_simps [simp]:
  "pmem (stage_mark_loop n s) = pmem s" "pmlt4 (stage_mark_loop n s) = pmlt4 s"
  "frame_pt (stage_mark_loop n s) = frame_pt s" "bitmap_addr (stage_mark_loop n s) = bitmap_addr s"
  "ram_end (stage_mark_loop n s) = ram_end s"
  by (induction n) simp_all

lemma stage_mark_loop_used:
  "used_no (bitmap (stage_mark_loop n s)) m \<longleftrightarrow> m < n \<or> used_no (bitmap s) m"
  by (induction n) (auto simp: used_no_mark less_Suc_eq)

lemma clear_rest_mem:
  "m \<le> 512 \<Longrightarrow> pmem (fold (\<lambda>i. poke t (of_nat i) 0) [n..<m] s) f j =
      (if f = t \<and> n \<le> unat j \<and> unat j < m then 0 else pmem s f j)"
proof (induction m)
  case (Suc m)
  then show ?case using index_less_Suc [of m j] index_of_nat [of m] by (auto simp: le_Suc_eq)
qed simp

lemma clear_rest_simps [simp]:
  "bitmap (fold (\<lambda>i. poke t (of_nat i) 0) ns s) = bitmap s"
  "pmlt4 (fold (\<lambda>i. poke t (of_nat i) 0) ns s) = pmlt4 s"
  "frame_pt (fold (\<lambda>i. poke t (of_nat i) 0) ns s) = frame_pt s"
  "bitmap_addr (fold (\<lambda>i. poke t (of_nat i) 0) ns s) = bitmap_addr s"
  "ram_end (fold (\<lambda>i. poke t (of_nat i) 0) ns s) = ram_end s"
  by (induction ns arbitrary: s) simp_all

lemma stage_page_init_simps [simp]:
  "pmlt4 (stage_page_init e s) = pmlt4 s" "frame_pt (stage_page_init e s) = frame_pt s"
  "bitmap_addr (stage_page_init e s) = bitmap_addr s" "ram_end (stage_page_init e s) = ram_end s"
  by (simp_all add: stage_page_init_def Let_def)

lemma stage_page_init_used:
  "used_no (bitmap (stage_page_init e s)) n \<longleftrightarrow> n \<le> unat (PT_INDEX e)"
proof -
  have "used_no (bitmap (stage_page_init e s)) n
      \<longleftrightarrow> used_no (bitmap (stage_mark_loop (Suc (unat (PT_INDEX e))) (s\<lparr>bitmap := \<lambda>_. 0\<rparr>))) n"
    by (simp add: stage_page_init_def Let_def)
  then show ?thesis unfolding stage_mark_loop_used by (simp add: used_no_def less_Suc_eq_le)
qed

lemma stage_page_init_mem:
  "pmem (stage_page_init e s) f i = (if f = 0x5000 \<and> unat (PT_INDEX e) < unat i then 0 else pmem s f i)"
  by (simp add: stage_page_init_def Let_def clear_rest_mem Suc_le_eq)

definition stage_boot :: "qword \<Rightarrow> pstate \<Rightarrow> pstate" where
  "stage_boot boot_end s = stage_page_init boot_end (setup_tables s)"

lemma stage_boot_mem:
  assumes "tables_clear s"
  shows "pmem (stage_boot e s) = stage_mem (Suc (unat (PT_INDEX e))) (pmem s)"
  by (intro ext) (auto simp: stage_boot_def stage_page_init_mem setup_tables_mem [OF assms] stage_mem_def)

lemma stage_child:
  "child (stage_mem n m) 0x2000 i = (if i = 0 then Some 0x3000 else None)"
  "child (stage_mem n m) 0x3000 i = (if i = 0 then Some 0x4000 else None)"
  "child (stage_mem n m) 0x4000 i = (if i = 0 then Some 0x5000 else if i = 511 then Some 0x6000 else None)"
  by (simp_all add: child_def stage_mem_def)

lemma stage_boot_five:
  assumes "tables_clear s"
  shows "five_tables (stage_boot e s) (frame_of 3) (frame_of 4) (frame_of 5) (frame_of 6)"
proof -
  have root: "pmlt4 (stage_boot e s) = 0x2000" by (simp add: stage_boot_def)
  have f: "frame_of 3 = 0x3000" "frame_of 4 = 0x4000" "frame_of 5 = 0x5000" "frame_of 6 = 0x6000"
    by (simp_all add: frame_of_def)
  show ?thesis unfolding five_tables_def stage_boot_mem [OF assms] root f by (simp only: stage_child simp_thms)
qed

lemma stage_boot_ok:
  assumes "tables_clear s" and "0x8000000 \<le> ram_end s" and "6 \<le> unat (PT_INDEX e)"
  shows "page_inv (stage_boot e s)"
    and "vmap (stage_boot e s) (a, b, c, d) =
      (if a = 0 \<and> b = 0 \<and> c = 0 \<and> unat d \<le> unat (PT_INDEX e) then push_bit 12 (ucast d) OR 3 else 0)"
    and "used_no (bitmap (stage_boot e s)) n \<longleftrightarrow> n \<le> unat (PT_INDEX e)"
proof -
  note five = stage_boot_five [OF assms(1), of e]
  show used: "used_no (bitmap (stage_boot e s)) n \<longleftrightarrow> n \<le> unat (PT_INDEX e)" for n
    by (simp add: stage_boot_def stage_page_init_used)
  show "page_inv (stage_boot e s)"
    by (rule five_inv [OF five, of 2 1]; use assms(2,3) used in \<open>auto simp: stage_boot_def frame_of_def\<close>)
  show "vmap (stage_boot e s) (a, b, c, d) =
      (if a = 0 \<and> b = 0 \<and> c = 0 \<and> unat d \<le> unat (PT_INDEX e) then push_bit 12 (ucast d) OR 3 else 0)"
    unfolding five_vmap [OF five] stage_boot_mem [OF assms(1)]
    by (simp add: frame_of_def stage_mem_def less_Suc_eq_le)
qed

section \<open>The properties\<close>

text \<open>
  C6: the stage's tables, over memory whose tables are zero behind their first 64 entries: they
  satisfy the invariant of the page tables, map exactly the pages up to the one of
  \<open>__BOOTSTAGE_END\<close>, each to itself, and mark exactly their frames; the first free frame is the
  next one.
\<close>

theorem stage_boot_correct:
  assumes "tables_clear s" and "0x8000000 \<le> ram_end s" and "6 \<le> unat (PT_INDEX e)"
  shows "page_inv (stage_boot e s)
    \<and> (\<forall>a b c d. vmap (stage_boot e s) (a, b, c, d) =
        (if a = 0 \<and> b = 0 \<and> c = 0 \<and> unat d \<le> unat (PT_INDEX e) then push_bit 12 (ucast d) OR 3 else 0))
    \<and> (\<forall>n. used_no (bitmap (stage_boot e s)) n \<longleftrightarrow> n \<le> unat (PT_INDEX e))"
  using stage_boot_ok [OF assms] by blast

definition cold_ram :: "qword \<Rightarrow> pstate" where
  "cold_ram w = \<lparr>pmem = (\<lambda>_ _. w), bitmap = (\<lambda>_. ucast w), pmlt4 = 0, frame_pt = 0, bitmap_addr = 0, ram_end = 0x8000000\<rparr>"

theorem stage_boot_correct_witness:
  "page_inv (stage_boot 0x24120 (cold_ram 0)) \<and> vmap (stage_boot 0x24120 (cold_ram 0)) (0, 0, 0, 0x24) = 0x24003
    \<and> vmap (stage_boot 0x24120 (cold_ram 0)) (0, 0, 0, 0x25) = 0 \<and> used_no (bitmap (stage_boot 0x24120 (cold_ram 0))) 0x24
    \<and> \<not> used_no (bitmap (stage_boot 0x24120 (cold_ram 0))) 0x25"
proof -
  have e: "PT_INDEX 0x24120 = 0x24" by (simp add: PT_INDEX_def)
  have c: "tables_clear (cold_ram 0)" "0x8000000 \<le> ram_end (cold_ram 0)" by (simp_all add: tables_clear_def cold_ram_def)
  show ?thesis using stage_boot_correct [OF c, of "0x24120"] by (simp add: e)
qed

text \<open>
  \<open>clear_table\<close> clears an eighth of a table.  What the memory held in the entries from
  64 on is still there when paging is on: the root's and the directories' entries are followed
  as tables, and the upper halves of the identity mapping's entries are kept.
\<close>

theorem stage_boot_keeps_garbage:
  assumes "64 \<le> unat i"
  shows "tab (stage_boot e s) [i] = child (pmem s) 0x2000 i \<and> pmem (stage_boot e s) 0x3000 i = pmem s 0x3000 i
    \<and> (i \<noteq> 511 \<longrightarrow> pmem (stage_boot e s) 0x4000 i = pmem s 0x4000 i)
    \<and> (unat i \<le> unat (PT_INDEX e) \<longrightarrow>
        pmem (stage_boot e s) 0x5000 i = (pmem s 0x5000 i AND 0xFFFFFFFF00000000) OR (push_bit 12 (ucast i) OR 3))"
proof -
  have "i \<noteq> 0" using assms by auto
  moreover have "pmlt4 (stage_boot e s) = 0x2000" by (simp add: stage_boot_def)
  ultimately show ?thesis using assms
    by (simp add: tab_def child_def stage_boot_def stage_page_init_mem setup_tables_def Let_def pmem_fill_first_pt
        pmem_poke_low pmem_clear_table)
qed

theorem stage_boot_keeps_garbage_witness:
  "tab (stage_boot 0x24120 (cold_ram 0xDEAD001)) [64] = Some 0xDEAD000"
proof -
  have "64 \<le> unat (64 :: pt_index)" by simp
  from stage_boot_keeps_garbage [OF this, of "0x24120" "cold_ram 0xDEAD001"]
  show ?thesis by (simp add: child_def cold_ram_def)
qed

text \<open>
  C7: the stage's \<open>page_mapvp\<close> with four free frames per page: it maps one page more than
  the length covers (two pages for a length of \<open>0x1000\<close>), each to its physical page with the
  flags as given, keeps the invariant, and leaves mapped pages and every other page alone.
\<close>

theorem stage_mapvp_correct:
  assumes "page_inv s" and "n = unat len div 0x1000 + 1" and "4 * n \<le> free_count s"
    and "unat len + 0x1000 < 2 ^ 64" and "\<forall>k < n. vp virt k \<noteq> window_page"
  shows "\<exists>s'. stage_mapvp virt phys len flags s = Some s' \<and> page_inv s' \<and> keeps s s'
    \<and> (\<forall>k < n. vmap s' (vp virt k) =
          (if vmap s (vp virt k) = 0 then (phys + of_nat k * PAGE_SIZE) OR ucast flags else vmap s (vp virt k)))
    \<and> (\<forall>v. (\<forall>k < n. v \<noteq> vp virt k) \<longrightarrow> vmap s' v = vmap s v)"
proof -
  have "n \<le> 0x80000" using assms(3) free_count_le [of s] by simp
  then show ?thesis
    using stage_mapvp_loop [OF assms(1,3) _ assms(5)]
    unfolding stage_mapvp_def stage_count_eq [OF assms(4)] assms(2) [symmetric] by blast
qed

theorem stage_mapvp_correct_witness:
  "\<exists>s'. stage_mapvp 0x200000 0xE0000000 0x1000 3 boot_tables = Some s'
    \<and> vmap s' (0, 0, 1, 0) = 0xE0000003 \<and> vmap s' (0, 0, 1, 1) = 0xE0001003 \<and> vmap s' (0, 0, 1, 2) = 0"
proof -
  have n: "2 = unat (0x1000 :: qword) div 0x1000 + 1" by simp
  have v: "vp 0x200000 0 = (0, 0, 1, 0)" "vp 0x200000 (Suc 0) = (0, 0, 1, 1)"
    by (simp_all add: vp_def vpage_def PMLT4_INDEX_def PDPT_INDEX_def PDT_INDEX_def PT_INDEX_def)
  obtain s' where s': "stage_mapvp 0x200000 0xE0000000 0x1000 3 boot_tables = Some s'"
    "\<forall>k < 2. vmap s' (vp 0x200000 k) = (if vmap boot_tables (vp 0x200000 k) = 0
       then (0xE0000000 + of_nat k * PAGE_SIZE) OR ucast (3 :: word16) else vmap boot_tables (vp 0x200000 k))"
    "\<forall>w. (\<forall>k < 2. w \<noteq> vp 0x200000 k) \<longrightarrow> vmap s' w = vmap boot_tables w"
    using stage_mapvp_correct [OF boot_inv n, of "0x200000" "0xE0000000" 3]
    by (auto simp: v boot_free window_page_def less_2_cases_iff)
  have "vmap s' (0, 0, 1, 0) = 0xE0000003" "vmap s' (0, 0, 1, 1) = 0xE0001003"
    using s'(2) [rule_format, of 0] s'(2) [rule_format, of 1] by (simp_all add: v boot_vmap)
  moreover have "vmap s' (0, 0, 1, 2) = 0"
    using s'(3) [THEN spec, of "(0, 0, 1, 2)"] by (auto simp: v boot_vmap less_2_cases_iff)
  ultimately show ?thesis using s'(1) by blast
qed

end
