(* ===== verification/Stage64_Main.thy ===== *)
theory Stage64_Main
  imports Stage64_Props Page_Device Video_Props Interrupt
begin

text \<open>
  \<open>boot/stage64/stage.c\<close> with \<open>idt.c\<close> and \<open>video.c\<close>: the second boot stage from the tables of
  \<open>entry.asm\<close> to the \<open>return\<close> in \<open>main\<close>.  \<open>putPixel\<close>, \<open>clearScreen\<close> and \<open>drawChar\<close> of \<open>video.c\<close>
  are the text of the kernel's, so those of \<open>Video\<close> are used; messages are left out.  What
  follows the \<open>return\<close>, loading the font and the kernel, is never reached and not modelled.
\<close>

section \<open>Interrupts\<close>

text \<open>The gates of \<open>boot/stage64/cpu.h\<close> have eight bytes, those of the processor in long mode sixteen.\<close>

record stage_gate =
  sg_low_offset :: word16
  sg_code_segment :: word16
  sg_reserved :: byte
  sg_gate_type :: "4 word"
  sg_zero :: "1 word"
  sg_dpl :: "2 word"
  sg_p :: "1 word"
  sg_high_offset :: word16

definition stage_setEntry :: "nat \<Rightarrow> qword \<Rightarrow> word16 \<Rightarrow> byte \<Rightarrow> stage_gate list \<Rightarrow> stage_gate list option" where
  "stage_setEntry index off segment flags entries =
     buf_set entries index
       \<lparr>sg_low_offset = ucast (off AND 0xFFFF), sg_code_segment = segment, sg_reserved = 0,
        sg_gate_type = ucast (flags AND 0xF), sg_zero = 0, sg_dpl = ucast (drop_bit 5 flags AND 3),
        sg_p = ucast (drop_bit 7 flags AND 1), sg_high_offset = ucast (drop_bit 16 off AND 0xFFFF)\<rparr>"

text \<open>The result is the table and the register \<open>lidt\<close> loads, limit and base.\<close>

definition stage_idt_init ::
  "qword \<Rightarrow> qword \<Rightarrow> qword \<Rightarrow> stage_gate list \<Rightarrow> (stage_gate list \<times> word16 \<times> qword) option" where
  "stage_idt_init isr_divide_zero isr_page_fault idt_addr entries = do {
     let idt_desc = (of_nat (8 * length entries) - 1, idt_addr);
     es1 \<leftarrow> stage_setEntry 0 isr_divide_zero 0x08 0x8E entries;
     es2 \<leftarrow> stage_setEntry 14 isr_page_fault 0x08 0x8E es1;
     Some (es2, idt_desc) }"

definition stage_gate_bytes :: "stage_gate \<Rightarrow> byte list" where
  "stage_gate_bytes e = bytes16 (sg_low_offset e) @ bytes16 (sg_code_segment e) @
     [sg_reserved e, ucast (sg_gate_type e) OR push_bit 4 (ucast (sg_zero e)) OR push_bit 5 (ucast (sg_dpl e))
        OR push_bit 7 (ucast (sg_p e))] @ bytes16 (sg_high_offset e)"

text \<open>A gate as the processor reads it in long mode: sixteen bytes at sixteen times the vector.\<close>

record long_gate =
  lg_offset :: qword
  lg_segment :: word16
  lg_attributes :: byte

definition read_gate :: "buffer \<Rightarrow> nat \<Rightarrow> long_gate" where
  "read_gate table n = (let p = 16 * n in
     \<lparr>lg_offset = ucast (le16 table p) OR push_bit 16 (ucast (le16 table (p + 6))) OR push_bit 32 (ucast (le32 table (p + 8))),
      lg_segment = le16 table (p + 2), lg_attributes = table ! (p + 5)\<rparr>)"

section \<open>The screen\<close>





section \<open>main\<close>





section \<open>The gates\<close>

text \<open>Tables of entries of eight bytes.\<close>

lemma concat_nth_8:
  assumes "\<And>x. length (f x) = 8" and "i < length xs" and "j < 8"
  shows "concat (map f xs) ! (8 * i + j) = f (xs ! i) ! j"
  using assms(2)
proof (induction xs arbitrary: i)
  case (Cons x xs)
  show ?case
  proof (cases i)
    case 0
    then show ?thesis using assms(1,3) by (simp add: nth_append)
  next
    case (Suc k)
    then have "concat (map f (x # xs)) ! (8 * i + j) = concat (map f xs) ! (8 * k + j)"
      using assms(1) by (simp add: nth_append)
    then show ?thesis using Cons Suc by simp
  qed
qed simp

definition blank_gate :: stage_gate where
  "blank_gate = \<lparr>sg_low_offset = 0, sg_code_segment = 0, sg_reserved = 0, sg_gate_type = 0, sg_zero = 0, sg_dpl = 0,
     sg_p = 0, sg_high_offset = 0\<rparr>"

lemma length_gate [simp]: "length (stage_gate_bytes e) = 8"
  by (simp add: stage_gate_bytes_def bytes16_def)

lemma le_shift:
  assumes "\<forall>j < n. b ! (p + j) = c ! j"
  shows "j + 2 \<le> n \<Longrightarrow> le16 b (p + j) = le16 c j" and "j + 4 \<le> n \<Longrightarrow> le32 b (p + j) = le32 c j"
proof -
  show l16: "le16 b (p + j) = le16 c j" if "j + 2 \<le> n" for j
    using spec [OF assms, of j] spec [OF assms, of "j + 1"] that by (simp add: le16_def)
  show "le32 b (p + j) = le32 c j" if "j + 4 \<le> n"
    using l16 [of j] l16 [of "j + 2"] that by (simp add: le32_def)
qed

text \<open>A gate of the processor is made of two entries of the table.\<close>

lemma read_gate_pair:
  assumes "2 * n + 1 < length es"
  shows "read_gate (concat (map stage_gate_bytes es)) n
    = read_gate (stage_gate_bytes (es ! (2 * n)) @ stage_gate_bytes (es ! (2 * n + 1))) 0"
proof -
  let ?b = "concat (map stage_gate_bytes es)"
  have lo: "?b ! (16 * n + j) = stage_gate_bytes (es ! (2 * n)) ! j" if "j < 8" for j
    using concat_nth_8 [of stage_gate_bytes "2 * n" es j] that assms by simp
  have hi: "?b ! (16 * n + (8 + j)) = stage_gate_bytes (es ! (2 * n + 1)) ! j" if "j < 8" for j
    using concat_nth_8 [of stage_gate_bytes "2 * n + 1" es j] that assms by (simp add: algebra_simps)
  have b: "?b ! (16 * n + j) = (stage_gate_bytes (es ! (2 * n)) @ stage_gate_bytes (es ! (2 * n + 1))) ! j" if "j < 16" for j
    using lo [of j] hi [of "j - 8"] that by (cases "j < 8") (simp_all add: nth_append)
  then have "\<forall>j < 16. ?b ! (16 * n + j) = (stage_gate_bytes (es ! (2 * n)) @ stage_gate_bytes (es ! (2 * n + 1))) ! j"
    by blast
  note shift = le_shift [OF this]
  show ?thesis
    using shift(1) [of 0] shift(1) [of 2] shift(1) [of 6] shift(2) [of 8] b [of 5]
    by (simp add: read_gate_def Let_def numeral_2_eq_2)
qed


definition interrupt_gate :: "qword \<Rightarrow> long_gate" where
  "interrupt_gate a = \<lparr>lg_offset = take_bit 32 a, lg_segment = 8, lg_attributes = 0x8E\<rparr>"

definition no_gate :: long_gate where
  "no_gate = \<lparr>lg_offset = 0, lg_segment = 0, lg_attributes = 0\<rparr>"

text \<open>The entry \<open>interrupt_setEntry\<close> makes, in front of an empty one.\<close>

definition stage_entry :: "qword \<Rightarrow> stage_gate" where
  "stage_entry a = \<lparr>sg_low_offset = ucast (a AND 0xFFFF), sg_code_segment = 8, sg_reserved = 0, sg_gate_type = 0xE,
     sg_zero = 0, sg_dpl = 0, sg_p = 1, sg_high_offset = ucast (drop_bit 16 a AND 0xFFFF)\<rparr>"

lemma read_blank: "read_gate (stage_gate_bytes blank_gate @ stage_gate_bytes blank_gate) 0 = no_gate"
  by (simp add: read_gate_def stage_gate_bytes_def blank_gate_def no_gate_def bytes16_def le16_def le32_def Let_def)

lemma join_bytes: "(ucast (ucast (w :: word16) :: byte) :: word16) OR push_bit 8 (ucast (ucast (drop_bit 8 w) :: byte)) = w"
  by (rule bit_word_eqI, fastforce simp: bit_simps)

lemma join_halves:
  "(ucast (ucast ((a :: qword) AND 0xFFFF) :: word16) :: qword) OR push_bit 16 (ucast (ucast (drop_bit 16 a AND 0xFFFF) :: word16))
    = take_bit 32 a"
proof -
  have m: "(0xFFFF :: qword) = mask 16" by (simp add: mask_eq_exp_minus_1)
  show ?thesis unfolding m take_bit_eq_mask [symmetric] by (rule bit_word_eqI, fastforce simp: bit_simps)
qed

lemma read_entry: "read_gate (stage_gate_bytes (stage_entry a) @ stage_gate_bytes blank_gate) 0 = interrupt_gate a"
  using join_bytes [of "ucast (a AND 0xFFFF)"] join_bytes [of "ucast (drop_bit 16 a AND 0xFFFF)"] join_halves [of a]
  by (simp add: read_gate_def stage_gate_bytes_def blank_gate_def stage_entry_def interrupt_gate_def bytes16_def
      le16_def le32_def Let_def)

text \<open>
  C37: the entries are half as long as the processor's.  After \<open>idt_init\<close> of the stage, on the
  cleared table, the gate of vector 0 leads to \<open>isr_divide_zero\<close>, that of vector 14, the page
  fault, is not present, and \<open>isr_page_fault\<close> is reached by vector 7, device not available.
\<close>

theorem stage_idt_vectors:
  assumes "n < 128"
  shows "\<exists>es. stage_idt_init isr_divide_zero isr_page_fault idt_addr (replicate 256 blank_gate) = Some (es, 2047, idt_addr)
    \<and> read_gate (concat (map stage_gate_bytes es)) n =
        (if n = 0 then interrupt_gate isr_divide_zero else if n = 7 then interrupt_gate isr_page_fault else no_gate)"
proof -
  let ?es = "(replicate 256 blank_gate)[0 := stage_entry isr_divide_zero, 14 := stage_entry isr_page_fault]"
  have run: "stage_idt_init isr_divide_zero isr_page_fault idt_addr (replicate 256 blank_gate) = Some (?es, 2047, idt_addr)"
    by (simp add: stage_idt_init_def stage_setEntry_def stage_entry_def)
  have "2 * n + 1 < length ?es" using assms by simp
  note pair = read_gate_pair [OF this]
  have "?es ! k = (if k = 0 then stage_entry isr_divide_zero else if k = 14 then stage_entry isr_page_fault else blank_gate)"
    if "k < 256" for k
    using that by (simp add: nth_list_update)
  from this [of "2 * n"] this [of "2 * n + 1"] pair assms have
    "read_gate (concat (map stage_gate_bytes ?es)) n =
        (if n = 0 then interrupt_gate isr_divide_zero else if n = 7 then interrupt_gate isr_page_fault else no_gate)"
    by (auto simp: read_entry read_blank)
  then show ?thesis using run by blast
qed

theorem stage_idt_vectors_witness:
  "\<exists>es. stage_idt_init 0x8F00 0x8F20 0x9000 (replicate 256 blank_gate) = Some (es, 2047, 0x9000)
     \<and> read_gate (concat (map stage_gate_bytes es)) 14 = no_gate"
  using stage_idt_vectors [of 14 "0x8F00" "0x8F20" "0x9000"] by simp


section \<open>From the entry to the return\<close>








end
