(* ===== verification/Stage64_Io.thy ===== *)
theory Stage64_Io
  imports Printf_Props
begin

text \<open>
  \<open>boot/stage64/io.c\<close> and the parts of \<open>boot/stage64/string.c\<close> that are not the text of
  \<open>kernel/string.c\<close> (\<open>strsize\<close>, \<open>intstr\<close> and \<open>revstr\<close> are, up to the order of parameters, and
  \<open>CString\<close> has them): memory routines in C, a \<open>hexstr\<close> of fixed width, and \<open>printf\<close> on the
  serial line.
\<close>

section \<open>Memory\<close>

primrec memory_zero :: "buffer \<Rightarrow> nat \<Rightarrow> buffer option" where
  "memory_zero dest 0 = Some dest"
| "memory_zero dest (Suc i) = do { b \<leftarrow> memory_zero dest i; buf_set b i 0 }"

text \<open>Source and destination are different buffers.\<close>

primrec memory_copy :: "buffer \<Rightarrow> buffer \<Rightarrow> nat \<Rightarrow> buffer option" where
  "memory_copy dest src 0 = Some dest"
| "memory_copy dest src (Suc i) = do { b \<leftarrow> memory_copy dest src i; c \<leftarrow> buf_get src i; buf_set b i c }"

lemma buf_set_next: "length p < length b \<Longrightarrow> buf_set (p @ drop (length p) b) (length p) c = Some ((p @ [c]) @ drop (length (p @ [c])) b)"
proof -
  assume "length p < length b"
  then have "drop (length p) b = b ! length p # drop (Suc (length p)) b" by (simp add: Cons_nth_drop_Suc)
  then show ?thesis by (simp add: buf_set_def)
qed

lemma memory_zero_correct: "n \<le> length dest \<Longrightarrow> memory_zero dest n = Some (replicate n 0 @ drop n dest)"
proof (induction n)
  case (Suc n)
  then show ?case using buf_set_next [of "replicate n 0" dest 0] by (simp add: replicate_append_same)
qed simp

lemma memory_copy_correct:
  "n \<le> length dest \<Longrightarrow> n \<le> length src \<Longrightarrow> memory_copy dest src n = Some (take n src @ drop n dest)"
proof (induction n)
  case (Suc n)
  then show ?case using buf_set_next [of "take n src" dest "src ! n"] by (simp add: take_Suc_conv_app_nth)
qed simp

section \<open>Hexadecimal numbers\<close>

primrec stage_hexstr_loop :: "nat \<Rightarrow> qword \<Rightarrow> buffer \<Rightarrow> nat \<Rightarrow> (buffer \<times> nat) option" where
  "stage_hexstr_loop 0 val buf index = Some (buf, index)"
| "stage_hexstr_loop (Suc len) val buf index =
     (if val \<noteq> 0
      then do { c \<leftarrow> buf_get hexw (unat (val AND 0xF));
                buf' \<leftarrow> buf_set buf index c;
                stage_hexstr_loop len (drop_bit 4 val) buf' (index + 1) }
      else do { buf' \<leftarrow> buf_set buf index 48; stage_hexstr_loop len val buf' (index + 1) })"

definition stage_hexstr :: "buffer \<Rightarrow> qword \<Rightarrow> buffer option" where
  "stage_hexstr buf val = do {
     (b, index) \<leftarrow> stage_hexstr_loop 16 val buf 0;
     b' \<leftarrow> buf_set b index 0;
     strrev b' }"

text \<open>The digit of \<open>16 ^ k\<close>, and the sixteen digits, the highest first.\<close>

definition hex_char :: "qword \<Rightarrow> nat \<Rightarrow> byte" where
  "hex_char v k = hexw ! (unat v div 16 ^ k mod 16)"

definition hex_chars :: "qword \<Rightarrow> byte list" where
  "hex_chars v = rev (map (hex_char v) [0..<16])"

lemma hex_char_next: "hex_char (drop_bit 4 v) k = hex_char v (Suc k)"
  by (simp add: hex_char_def high_nibbles div_mult2_eq)

lemma hex_char_nonzero: "hex_char v k \<noteq> 0"
  unfolding hex_char_def by (rule hexw_digit(2)) simp

lemma stage_hexstr_loop_ok:
  "length p + n \<le> length b \<Longrightarrow> stage_hexstr_loop n v (p @ drop (length p) b) (length p)
     = Some ((p @ map (hex_char v) [0..<n]) @ drop (length p + n) b, length p + n)"
proof (induction n arbitrary: v p)
  case (Suc n)
  let ?c = "hex_char v 0"
  have c: "buf_set (p @ drop (length p) b) (length p) ?c = Some ((p @ [?c]) @ drop (length (p @ [?c])) b)"
    by (rule buf_set_next) (use Suc.prems in simp)
  have rest: "map (hex_char v) [0..<Suc n] = ?c # map (hex_char (drop_bit 4 v)) [0..<n]"
    unfolding upt_conv_Cons [OF zero_less_Suc] list.map map_Suc_upt [symmetric] map_map by (simp add: hex_char_next)
  have "(if v \<noteq> 0 then buf_get hexw (unat (v AND 0xF)) else Some 48) = Some ?c"
    by (simp add: hex_char_def low_nibble hexw_def)
  moreover have "v = 0 \<Longrightarrow> drop_bit 4 v = v" by simp
  ultimately have "stage_hexstr_loop (Suc n) v (p @ drop (length p) b) (length p)
      = stage_hexstr_loop n (drop_bit 4 v) ((p @ [?c]) @ drop (length (p @ [?c])) b) (length (p @ [?c]))"
    using c by (cases "v = 0") simp_all
  also have "\<dots> = Some (((p @ [?c]) @ map (hex_char (drop_bit 4 v)) [0..<n]) @ drop (length (p @ [?c]) + n) b, length (p @ [?c]) + n)"
    by (rule Suc.IH) (use Suc.prems in simp)
  finally show ?case unfolding rest by simp
qed simp

text \<open>
  The text has sixteen digits for every value, the leading zeros included, in a buffer of 17
  bytes.
\<close>

theorem stage_hexstr_correct:
  assumes "17 \<le> length b"
  shows "stage_hexstr b v = Some (hex_chars v @ 0 # drop 17 b)"
proof -
  let ?d = "map (hex_char v) [0..<16]"
  have "buf_set (?d @ drop (length ?d) b) (length ?d) 0 = Some ((?d @ [0]) @ drop (length (?d @ [0])) b)"
    by (rule buf_set_next) (use assms in simp)
  moreover have "strrev (?d @ 0 # drop 17 b) = Some (rev ?d @ 0 # drop 17 b)"
    by (rule strrev_append) (auto simp: hex_char_nonzero [symmetric])
  ultimately show ?thesis
    using stage_hexstr_loop_ok [of "[]" 16 b v] assms by (simp add: stage_hexstr_def hex_chars_def)
qed

theorem stage_hexstr_correct_witness:
  "\<exists>b. stage_hexstr (replicate 20 7) 0xBEEF = Some b
     \<and> cstr b = [48, 48, 48, 48, 48, 48, 48, 48, 48, 48, 48, 48, 66, 69, 69, 70]"
proof -
  have "[0..<16] = [0, 1, 2, 3, 4, 5, 6, 7, 8, 9, 10, 11, 12, 13, 14, 15]" by (simp add: upt_rec)
  then have "hex_chars 0xBEEF = [48, 48, 48, 48, 48, 48, 48, 48, 48, 48, 48, 48, 66, 69, 69, 70]"
    by (simp add: hex_chars_def hex_char_def hexw_def)
  then show ?thesis using stage_hexstr_correct [of "replicate 20 7" "0xBEEF"] by (simp add: cstr_append_NUL [of "[_]"] cstr_def)
qed

section \<open>Formatted output\<close>

text \<open>
  \<open>printf_implementation\<close>: \<open>args\<close> are the words behind the format, \<open>number_buffer\<close> is the static
  buffer that keeps the last number, and the result the characters on the serial line.  A
  \<open>%s\<close> argument is printed as it is.
\<close>

partial_function (option) stage_printf_loop ::
  "strings \<Rightarrow> buffer \<Rightarrow> nat \<Rightarrow> qword list \<Rightarrow> buffer \<Rightarrow> (byte list \<times> buffer) option" where
  "stage_printf_loop mem format idx args number_buffer = do {
     ch \<leftarrow> buf_get format idx;
     if ch = 0 then Some ([], number_buffer)
     else if ch = PERCENT
     then do {
       d \<leftarrow> buf_get format (idx + 1);
       if d = CH_s
       then do {
         p \<leftarrow> buf_get args 0;
         text \<leftarrow> mem p;
         out \<leftarrow> print text;
         (rest, nb) \<leftarrow> stage_printf_loop mem format (idx + 2) (tl args) number_buffer;
         Some (out @ rest, nb) }
       else if d = CH_i
       then do {
         v \<leftarrow> buf_get args 0;
         nb1 \<leftarrow> intstr (sint (ucast v :: dword)) number_buffer;
         out \<leftarrow> print nb1;
         (rest, nb) \<leftarrow> stage_printf_loop mem format (idx + 2) (tl args) nb1;
         Some (out @ rest, nb) }
       else if d = CH_x
       then do {
         v \<leftarrow> buf_get args 0;
         nb1 \<leftarrow> stage_hexstr number_buffer v;
         out \<leftarrow> print nb1;
         (rest, nb) \<leftarrow> stage_printf_loop mem format (idx + 2) (tl args) nb1;
         Some (out @ rest, nb) }
       else if d = CH_c
       then do {
         v \<leftarrow> buf_get args 0;
         (rest, nb) \<leftarrow> stage_printf_loop mem format (idx + 2) (tl args) number_buffer;
         Some (ucast v # rest, nb) }
       else do {
         (rest, nb) \<leftarrow> stage_printf_loop mem format (idx + 2) args number_buffer;
         Some (ch # d # rest, nb) } }
     else do {
       (rest, nb) \<leftarrow> stage_printf_loop mem format (idx + 1) args number_buffer;
       Some (ch # rest, nb) } }"

definition printf_implementation :: "strings \<Rightarrow> buffer \<Rightarrow> qword list \<Rightarrow> buffer \<Rightarrow> (byte list \<times> buffer) option" where
  "printf_implementation mem format args number_buffer = stage_printf_loop mem format 0 args number_buffer"

text \<open>What a part of the format prints here.\<close>

primrec stage_text :: "strings \<Rightarrow> piece \<Rightarrow> byte list" where
  "stage_text mem (Lit c) = [c]"
| "stage_text mem (Dec v) = dec_chars (sint (ucast v :: dword))"
| "stage_text mem (Hex v) = hex_chars v"
| "stage_text mem (Str p) = cstr (the (mem p))"
| "stage_text mem (Chr v) = [ucast v]"
| "stage_text mem (Odd c) = [PERCENT, c]"

lemma number_text:
  assumes "length nb = 32"
  shows "sint (ucast v :: dword) \<noteq> - 2147483648 \<Longrightarrow> \<exists>b. intstr (sint (ucast v :: dword)) nb = Some b \<and> length b = 32
      \<and> print b = Some (dec_chars (sint (ucast v :: dword)))"
    and "\<exists>b. stage_hexstr nb v = Some b \<and> length b = 32 \<and> print b = Some (hex_chars v)"
proof -
  have printed: "print (s @ 0 # r) = Some s" if "0 \<notin> set s" for s r
    using print_cstr(1) [of "s @ 0 # r"] that by (simp add: terminated_def cstr_append_NUL)
  show "\<exists>b. intstr (sint (ucast v :: dword)) nb = Some b \<and> length b = 32 \<and> print b = Some (dec_chars (sint (ucast v :: dword)))"
    if "sint (ucast v :: dword) \<noteq> - 2147483648"
  proof -
    let ?v = "sint (ucast v :: dword)"
    have "- 2147483648 \<le> ?v" "?v < 2147483648"
      using sint_ge [of "ucast v :: dword"] sint_lt [of "ucast v :: dword"] by simp_all
    then have r: "- 2147483648 < ?v" "?v < 2147483648" using that by linarith+
    obtain r where "intstr ?v nb = Some (dec_chars ?v @ 0 # r)" "length r + length (dec_chars ?v) + 1 = length nb"
      using intstr_core [OF r, of nb] assms by auto
    then show ?thesis using printed [OF dec_chars_no_NUL] assms by auto
  qed
  have "0 \<notin> set (hex_chars v)" by (auto simp: hex_chars_def hex_char_nonzero [symmetric])
  then show "\<exists>b. stage_hexstr nb v = Some b \<and> length b = 32 \<and> print b = Some (hex_chars v)"
    using stage_hexstr_correct [of nb v] printed [of "hex_chars v"] assms by (simp add: hex_chars_def)
qed

lemma stage_printf_pieces:
  assumes "\<forall>p \<in> set ps. piece_ok mem p" and "length nb = 32"
  shows "\<exists>nb'. stage_printf_loop mem (pre @ format_of ps @ 0 # r) (length pre) (args_of ps @ more) nb
      = Some (concat (map (stage_text mem) ps), nb') \<and> length nb' = 32"
  using assms
proof (induction ps arbitrary: pre nb)
  case Nil
  then show ?case by (subst stage_printf_loop.simps) (simp add: format_of_def)
next
  case (Cons p ps)
  let ?f = "pre @ format_of (p # ps) @ 0 # r"
  have IH: "\<exists>nb'. stage_printf_loop mem ((pre @ piece_format p) @ format_of ps @ 0 # r)
      (length (pre @ piece_format p)) (args_of ps @ more) n = Some (concat (map (stage_text mem) ps), nb') \<and> length nb' = 32"
    if "length n = 32" for n
    by (rule Cons.IH) (use Cons.prems that in simp_all)
  show ?case
  proof (cases p)
    case (Lit c)
    then show ?thesis using Cons.prems IH [of nb] by (subst stage_printf_loop.simps) (auto simp: format_Cons nth_append)
  next
    case (Dec v)
    then obtain b where "intstr (sint (ucast v :: dword)) nb = Some b" "length b = 32"
      "print b = Some (dec_chars (sint (ucast v :: dword)))"
      using number_text(1) Cons.prems by fastforce
    then show ?thesis using Dec IH [of b] by (subst stage_printf_loop.simps) (auto simp: format_Cons nth_append)
  next
    case (Hex v)
    obtain b where "stage_hexstr nb v = Some b" "length b = 32" "print b = Some (hex_chars v)"
      using number_text(2) Cons.prems by blast
    then show ?thesis using Hex IH [of b] by (subst stage_printf_loop.simps) (auto simp: format_Cons nth_append)
  next
    case (Str q)
    then obtain b where b: "mem q = Some b" "terminated b" using Cons.prems by auto
    then show ?thesis using Str IH [of nb] Cons.prems print_cstr(1) [OF b(2)]
      by (subst stage_printf_loop.simps) (auto simp: format_Cons nth_append)
  next
    case (Chr v)
    then show ?thesis using IH [of nb] Cons.prems by (subst stage_printf_loop.simps) (auto simp: format_Cons nth_append)
  next
    case (Odd c)
    then show ?thesis using Cons.prems IH [of nb] by (subst stage_printf_loop.simps) (auto simp: format_Cons nth_append)
  qed
qed

text \<open>
  The stage's \<open>printf\<close> prints the parts of the format in order, strings as they are, numbers in
  decimal or with sixteen hexadecimal digits, and stays in its buffers.
\<close>

theorem stage_printf_correct:
  assumes "\<forall>p \<in> set ps. piece_ok mem p" and "length nb = 32"
  shows "\<exists>nb'. printf_implementation mem (format_of ps @ 0 # r) (args_of ps @ more) nb
      = Some (concat (map (stage_text mem) ps), nb') \<and> length nb' = 32"
  using stage_printf_pieces [OF assms, of "[]" r more] by (simp add: printf_implementation_def)

theorem stage_printf_correct_witness:
  "\<exists>nb. printf_implementation [0x5000 \<mapsto> [37, 105, 0]] (format_of [Lit 61, Str 0x5000, Dec 7] @ [0]) [0x5000, 7] (replicate 32 0)
      = Some ([61, 37, 105, 55], nb)"
proof -
  let ?ps = "[Lit 61, Str 0x5000, Dec 7]" and ?mem = "[0x5000 \<mapsto> [37, 105, 0 :: byte]]"
  have "\<forall>p \<in> set ?ps. piece_ok ?mem p" by (simp add: terminated_def)
  from stage_printf_correct [OF this, of "replicate 32 0" "[]" "[]"]
  show ?thesis by (auto simp: args_of_def cstr_def dec_chars_def digits_rev_pos)
qed

end
