(* ===== verification/Stage64_Fat.thy ===== *)
theory Stage64_Fat
  imports Fat_Read
begin

text \<open>
  \<open>boot/stage64/disk.c\<close> and \<open>fat.c\<close>: the second boot stage's FAT16 code, an earlier form of
  \<open>kernel/fs/fat.c\<close>.  There is no partition table, the volume starts at sector 0, and the
  conversion of a name copies three characters behind the dot, whatever they are.
  \<open>boot/stage/fat.c\<close> is the same text.  What the two forms share is proved as an equality
  with the kernel's functions on a volume at sector 0; what differs is stated on its own.
  The lines the stage prints are not modelled.
\<close>

section \<open>The drive\<close>

text \<open>\<open>ata_set_lba\<close> of \<open>disk.s\<close>, for the primary bus.\<close>

definition ata_set_lba :: "dword \<Rightarrow> ata_regs" where
  "ata_set_lba lba =
     \<lparr>drive = push_bit 4 0x0E + (ucast (drop_bit 24 lba) AND 0x0F), sector_count = 1,
      lba_low = ucast lba, lba_mid = ucast (drop_bit 8 lba), lba_high = ucast (drop_bit 8 (drop_bit 8 lba))\<rparr>"

function stage_ata_read_loop :: "disk \<Rightarrow> dword \<Rightarrow> nat \<Rightarrow> buffer \<Rightarrow> nat \<Rightarrow> nat \<Rightarrow> buffer option" where
  "stage_ata_read_loop d lba off buf pos sz =
     (if sz > 0
      then case copy_sector (d (drive_lba (ata_set_lba lba))) off buf pos sz of
             None \<Rightarrow> None
           | Some (buf', pos', sz') \<Rightarrow> stage_ata_read_loop d (lba + 1) 0 buf' pos' sz'
      else Some buf)"
  by pat_completeness auto
termination
proof (relation "measure (\<lambda>(d, lba, off, buf, pos, sz). 2 * sz + (if off < 512 then 0 else 1))")
  fix d :: disk and lba off buf pos sz x xa y xb ya
  assume "0 < sz" and "copy_sector (d (drive_lba (ata_set_lba lba))) off buf pos sz = Some x" and "(xa, y) = x" and "(xb, ya) = y"
  then show "((d, lba + 1, 0, xa, xb, ya), d, lba, off, buf, pos, sz)
    \<in> measure (\<lambda>(d, lba, off, buf, pos, sz). 2 * sz + (if off < 512 then 0 else 1))"
    using copy_sector_less [of "d (drive_lba (ata_set_lba lba))" off buf pos sz xa xb ya] by auto
qed simp

declare stage_ata_read_loop.simps [simp del]

definition stage_ata_read_disk :: "disk \<Rightarrow> dword \<Rightarrow> dword \<Rightarrow> buffer \<Rightarrow> nat \<Rightarrow> dword \<Rightarrow> buffer option" where
  "stage_ata_read_disk d lba off buf pos sz =
     (if sz > 0 \<and> 0x80000000 \<le> off then None
      else stage_ata_read_loop d lba (unat off) buf pos (unat sz))"

section \<open>The volume\<close>

record stage_fs =
  sdisk :: disk
  shdr :: fat_header_t
  sext :: fat_extended_boot_t

record stage_file_ptr =
  s_current_cluster :: dword
  s_next_cluster :: dword

definition stage_fat_start :: "stage_fs \<Rightarrow> dword" where
  "stage_fat_start v = ucast (reserved_sector (shdr v))"

definition stage_root_dirs_start :: "stage_fs \<Rightarrow> dword" where
  "stage_root_dirs_start v = stage_fat_start v + ucast (fat_number (shdr v)) * ucast (sector_per_fat (shdr v))"

definition stage_root_dir_sectors :: "stage_fs \<Rightarrow> dword option" where
  "stage_root_dir_sectors v =
     (let per_sector = (ucast (bytes_per_sector (shdr v)) :: qword) div 32
      in if per_sector = 0 then None
         else Some (ucast ((ucast (root_dir_entries (shdr v)) :: qword) div per_sector)))"

definition stage_data_start :: "stage_fs \<Rightarrow> dword option" where
  "stage_data_start v = do { n \<leftarrow> stage_root_dir_sectors v; Some (stage_root_dirs_start v + n) }"

definition stage_fat_init :: "stage_fs \<Rightarrow> stage_fs option" where
  "stage_fat_init v = do {
     hb \<leftarrow> stage_ata_read_disk (sdisk v) 0 0 (replicate 36 0) 0 36;
     eb \<leftarrow> stage_ata_read_disk (sdisk v) 0 36 (replicate 26 0) 0 26;
     let v1 = v\<lparr>shdr := fat_header_of hb, sext := fat_extended_of eb\<rparr>;
     _ \<leftarrow> stage_data_start v1;
     Some v1 }"

section \<open>Names and look-up\<close>

text \<open>The local array is not initialised; the two loops write all of its eleven characters.\<close>

definition stage_convert_name :: "buffer \<Rightarrow> buffer option" where
  "stage_convert_name filename = do {
     filename1 \<leftarrow> strupper filename;
     n \<leftarrow> strsize filename1;
     let dot = dot_index filename1 n;
     out1 \<leftarrow> base_loop 8 filename1 dot (replicate 11 0x20);
     out2 \<leftarrow> ext_loop 3 filename1 (nat (dot + 1)) out1;
     if 11 \<le> length filename1 then Some (out2 @ drop 11 filename1) else None }"

definition stage_fat_findFile :: "buffer \<Rightarrow> buffer \<Rightarrow> stage_fs \<Rightarrow> fat_filedirectory_t option" where
  "stage_fat_findFile fname0 filename v = do {
     sectors \<leftarrow> stage_root_dir_sectors v;
     n \<leftarrow> strsize filename;
     (r, _) \<leftarrow> find_path stage_convert_name (sdisk v) (stage_root_dirs_start v) sectors filename 0 n fname0 0;
     Some (case r of Some dir \<Rightarrow> dir | None \<Rightarrow> no_file) }"

definition stage_fat_fileOpen :: "buffer \<Rightarrow> buffer \<Rightarrow> stage_fs \<Rightarrow> stage_file_ptr option" where
  "stage_fat_fileOpen fname0 filename v = do {
     fdir \<leftarrow> stage_fat_findFile fname0 filename v;
     let c = ucast (low_cluster fdir) OR push_bit 16 (ucast (high_cluster fdir));
     Some \<lparr>s_current_cluster = c, s_next_cluster = c\<rparr> }"

section \<open>Reading\<close>

definition stage_fat_getNextCluster :: "dword \<Rightarrow> stage_fs \<Rightarrow> dword option" where
  "stage_fat_getNextCluster c v = do {
     b \<leftarrow> stage_ata_read_disk (sdisk v) (stage_fat_start v + c div 256) 0 (replicate 512 0) 0 512;
     Some (ucast (le16 b (2 * unat (c mod 256)))) }"

primrec stage_read_sectors :: "disk \<Rightarrow> dword \<Rightarrow> nat \<Rightarrow> buffer \<Rightarrow> nat \<Rightarrow> buffer option" where
  "stage_read_sectors d lba 0 buf pos = Some buf"
| "stage_read_sectors d lba (Suc i) buf pos = do {
     buf' \<leftarrow> stage_read_sectors d lba i buf pos;
     stage_ata_read_disk d (lba + of_nat i) 0 buf' (pos + i * 512) 512 }"

definition stage_cluster_lba :: "stage_fs \<Rightarrow> dword \<Rightarrow> dword \<Rightarrow> dword" where
  "stage_cluster_lba v ds c = ds + (c - 2) * ucast (sector_per_cluster (shdr v))"

abbreviation stage_spc :: "stage_fs \<Rightarrow> nat" where
  "stage_spc v \<equiv> unat (sector_per_cluster (shdr v))"

partial_function (option) stage_readFile_loop :: "stage_fs \<Rightarrow> dword \<Rightarrow> dword \<Rightarrow> buffer \<Rightarrow> nat \<Rightarrow> buffer option" where
  "stage_readFile_loop v ds c buf pos =
     (if c < FAT16_NOCLUSTER
      then do {
        buf' \<leftarrow> stage_read_sectors (sdisk v) (stage_cluster_lba v ds c) (stage_spc v) buf pos;
        c' \<leftarrow> stage_fat_getNextCluster c v;
        stage_readFile_loop v ds c' buf' (pos + stage_spc v * 512) }
      else Some buf)"

definition stage_fat_readFile :: "fat_filedirectory_t \<Rightarrow> buffer \<Rightarrow> stage_fs \<Rightarrow> buffer option" where
  "stage_fat_readFile file buf v = do {
     ds \<leftarrow> stage_data_start v;
     stage_readFile_loop v ds (push_bit 16 (ucast (high_cluster file)) OR ucast (low_cluster file)) buf 0 }"

definition stage_fat_readSector :: "stage_file_ptr \<Rightarrow> buffer \<Rightarrow> stage_fs \<Rightarrow> (stage_file_ptr \<times> buffer) option" where
  "stage_fat_readSector fptr buf v = do {
     ds \<leftarrow> stage_data_start v;
     if s_next_cluster fptr < FAT16_NOCLUSTER
     then do {
       buf' \<leftarrow> stage_read_sectors (sdisk v) (stage_cluster_lba v ds (s_next_cluster fptr)) (stage_spc v) buf 0;
       c \<leftarrow> stage_fat_getNextCluster (s_next_cluster fptr) v;
       Some (fptr\<lparr>s_next_cluster := c\<rparr>, buf') }
     else Some (fptr, buf) }"

text \<open>\<open>fat_readFile_map\<close> reads to the 32-bit address \<open>virt\<close> of the memory \<open>mem\<close>.\<close>

primrec stage_read_map :: "disk \<Rightarrow> dword \<Rightarrow> nat \<Rightarrow> buffer \<Rightarrow> dword \<Rightarrow> (buffer \<times> dword) option" where
  "stage_read_map d lba 0 mem virt = Some (mem, virt)"
| "stage_read_map d lba (Suc i) mem virt = do {
     (mem', virt') \<leftarrow> stage_read_map d lba i mem virt;
     mem'' \<leftarrow> stage_ata_read_disk d (lba + of_nat i) 0 mem' (unat virt') 512;
     Some (mem'', virt' + 512) }"

partial_function (option) stage_readFile_map_loop :: "stage_fs \<Rightarrow> dword \<Rightarrow> dword \<Rightarrow> buffer \<Rightarrow> dword \<Rightarrow> buffer option" where
  "stage_readFile_map_loop v ds c mem virt =
     (if c < FAT16_NOCLUSTER
      then do {
        (mem', virt') \<leftarrow> stage_read_map (sdisk v) (stage_cluster_lba v ds c) (stage_spc v) mem virt;
        c' \<leftarrow> stage_fat_getNextCluster c v;
        stage_readFile_map_loop v ds c' mem' virt' }
      else Some mem)"

definition stage_fat_readFile_map :: "fat_filedirectory_t \<Rightarrow> buffer \<Rightarrow> dword \<Rightarrow> stage_fs \<Rightarrow> buffer option" where
  "stage_fat_readFile_map file mem virt v = do {
     ds \<leftarrow> stage_data_start v;
     stage_readFile_map_loop v ds (push_bit 16 (ucast (high_cluster file)) OR ucast (low_cluster file)) mem virt }"

section \<open>The kernel's functions on a volume at sector 0\<close>

definition at_sector_0 :: "stage_fs \<Rightarrow> heap \<Rightarrow> fs" where
  "at_sector_0 v h = \<lparr>fdisk = sdisk v, fheap = h, gpt_table = None, fat_hdr = shdr v, fat_ext = sext v, fat_lba_start = 0\<rparr>"

lemma at_sector_0_simps [simp]:
  "fdisk (at_sector_0 v h) = sdisk v" "fat_hdr (at_sector_0 v h) = shdr v" "fat_lba_start (at_sector_0 v h) = 0"
  by (simp_all add: at_sector_0_def)

lemma ata_set_lba_eq: "ata_set_lba lba = ata_init_pio lba"
  by (simp add: ata_set_lba_def ata_init_pio_def)

lemma stage_ata_read_loop_eq: "stage_ata_read_loop d lba off buf pos sz = ata_read_loop d lba off buf pos sz"
proof (induction d lba off buf pos sz rule: ata_read_loop.induct)
  case (1 d lba off buf pos sz)
  then show ?case
    by (subst stage_ata_read_loop.simps, subst ata_read_loop.simps)
      (auto simp: transfer_def ata_set_lba_eq split: option.split prod.split)
qed

lemma stage_ata_read_disk_eq: "stage_ata_read_disk d lba off buf pos sz = ata_read_disk d lba off buf pos (ucast sz)"
proof -
  have "unat sz < 2 ^ LENGTH(32)" by (rule unsigned_less)
  then have "unat (ucast sz :: qword) = unat sz" by (simp add: unsigned_ucast_eq take_bit_nat_eq_self)
  moreover from this have "(ucast sz :: qword) > 0 \<longleftrightarrow> sz > 0" by (simp add: word_less_nat_alt)
  ultimately show ?thesis
    unfolding stage_ata_read_disk_def ata_read_disk_def stage_ata_read_loop_eq by simp
qed

lemma geometry_eq:
  "stage_fat_start v = fat_start (at_sector_0 v h)" "stage_root_dirs_start v = root_dirs_start (at_sector_0 v h)"
  "stage_root_dir_sectors v = root_dir_sectors (at_sector_0 v h)" "stage_data_start v = data_start (at_sector_0 v h)"
  "stage_cluster_lba v ds c = cluster_lba (at_sector_0 v h) ds c" "stage_spc v = spc (at_sector_0 v h)"
proof -
  show start: "stage_fat_start v = fat_start (at_sector_0 v h)"
    by (rule bit_eqI) (auto simp: stage_fat_start_def fat_start_def bit_simps)
  show dirs: "stage_root_dirs_start v = root_dirs_start (at_sector_0 v h)"
    by (simp add: stage_root_dirs_start_def root_dirs_start_def start)
  show secs: "stage_root_dir_sectors v = root_dir_sectors (at_sector_0 v h)"
    by (simp add: stage_root_dir_sectors_def root_dir_sectors_def Let_def)
  show "stage_data_start v = data_start (at_sector_0 v h)" by (simp add: stage_data_start_def data_start_def dirs secs)
  show "stage_cluster_lba v ds c = cluster_lba (at_sector_0 v h) ds c" "stage_spc v = spc (at_sector_0 v h)"
    by (simp_all add: stage_cluster_lba_def cluster_lba_def spc_def)
qed

lemma stage_getNext_eq: "stage_fat_getNextCluster c v = fat_getNextCluster c (at_sector_0 v h)"
  by (simp add: stage_fat_getNextCluster_def fat_getNextCluster_def stage_ata_read_disk_eq geometry_eq(1) [of v h])

lemma stage_read_sectors_eq: "stage_read_sectors d lba n buf pos = read_sectors d lba 512 n buf pos"
  by (induction n) (simp_all add: stage_ata_read_disk_eq)

lemma stage_read_map_eq: "stage_read_map d lba n mem virt = read_map d lba n mem virt"
  by (induction n) (simp_all add: stage_ata_read_disk_eq)

text \<open>Two loops that end in the same steps have the same results, the missing one included.\<close>

lemma option_eqI: "(\<And>y. a = Some y \<Longrightarrow> b = Some y) \<Longrightarrow> (\<And>y. b = Some y \<Longrightarrow> a = Some y) \<Longrightarrow> a = b"
  by (cases a; cases b) auto

lemma stage_eqs:
  "stage_read_sectors d lba n buf pos = read_sectors d lba 512 n buf pos"
  "stage_read_map d lba n mem virt = read_map d lba n mem virt"
  "stage_fat_getNextCluster c v = fat_getNextCluster c (at_sector_0 v h)"
  "stage_cluster_lba v ds c = cluster_lba (at_sector_0 v h) ds c" "stage_spc v = spc (at_sector_0 v h)"
  by (rule stage_read_sectors_eq stage_read_map_eq stage_getNext_eq geometry_eq)+

lemma readFile_loop_le:
  assumes "stage_readFile_loop v ds c buf pos = Some y"
  shows "readFile_loop (at_sector_0 v h) ds c buf pos = Some y"
proof (induct rule: stage_readFile_loop.raw_induct [OF _ assms])
  case (1 f v ds c buf pos y)
  then show ?case by (subst readFile_loop.simps) (auto simp: stage_eqs(1,2) stage_eqs(3-5) [where h = h] split: if_splits bind_splits)
qed

lemma readFile_loop_ge:
  assumes "readFile_loop s ds c buf pos = Some y"
  shows "s = at_sector_0 v h \<longrightarrow> stage_readFile_loop v ds c buf pos = Some y"
proof (induct rule: readFile_loop.raw_induct [OF _ assms])
  case (1 f s ds c buf pos y)
  then show ?case by (subst stage_readFile_loop.simps) (auto simp: stage_eqs(1,2) stage_eqs(3-5) [where h = h] split: if_splits bind_splits)
qed

lemma readFile_map_loop_le:
  assumes "stage_readFile_map_loop v ds c mem virt = Some y"
  shows "readFile_map_loop (at_sector_0 v h) ds c mem virt = Some y"
proof (induct rule: stage_readFile_map_loop.raw_induct [OF _ assms])
  case (1 f v ds c mem virt y)
  then show ?case by (subst readFile_map_loop.simps) (auto simp: stage_eqs(1,2) stage_eqs(3-5) [where h = h] split: if_splits bind_splits)
qed

lemma readFile_map_loop_ge:
  assumes "readFile_map_loop s ds c mem virt = Some y"
  shows "s = at_sector_0 v h \<longrightarrow> stage_readFile_map_loop v ds c mem virt = Some y"
proof (induct rule: readFile_map_loop.raw_induct [OF _ assms])
  case (1 f s ds c mem virt y)
  then show ?case by (subst stage_readFile_map_loop.simps) (auto simp: stage_eqs(1,2) stage_eqs(3-5) [where h = h] split: if_splits bind_splits)
qed

lemma stage_loops_eq:
  "stage_readFile_loop v ds c buf pos = readFile_loop (at_sector_0 v h) ds c buf pos"
  "stage_readFile_map_loop v ds c mem virt = readFile_map_loop (at_sector_0 v h) ds c mem virt"
proof -
  show "stage_readFile_loop v ds c buf pos = readFile_loop (at_sector_0 v h) ds c buf pos"
    by (rule option_eqI) (use readFile_loop_le readFile_loop_ge in blast)+
  show "stage_readFile_map_loop v ds c mem virt = readFile_map_loop (at_sector_0 v h) ds c mem virt"
    by (rule option_eqI) (use readFile_map_loop_le readFile_map_loop_ge in blast)+
qed

text \<open>
  C24: on every volume and for every directory entry and buffer, the stage's
  \<open>fat_readFile\<close>, \<open>fat_readFile_map\<close>, \<open>fat_readSector\<close> and \<open>fat_getNextCluster\<close> do what the
  kernel's do on the same volume at sector 0, faults and endless chains included.
\<close>

theorem stage_fat_reads_like_kernel:
  "stage_fat_readFile file buf v = fat_readFile file buf (at_sector_0 v h)
   \<and> stage_fat_readFile_map file mem virt v = fat_readFile_map file mem virt (at_sector_0 v h)
   \<and> stage_fat_getNextCluster c v = fat_getNextCluster c (at_sector_0 v h)
   \<and> stage_fat_readSector \<lparr>s_current_cluster = c0, s_next_cluster = c\<rparr> buf v
     = map_option (\<lambda>(f, b). (\<lparr>s_current_cluster = current_cluster f, s_next_cluster = next_cluster f\<rparr>, b))
         (fat_readSector \<lparr>current_cluster = c0, next_cluster = c, cluster = c0, offset = 0\<rparr> buf (at_sector_0 v h))"
proof (intro conjI)
  have cl: "push_bit 16 (ucast (high_cluster file)) OR ucast (low_cluster file) = file_cluster file"
    by (simp add: file_cluster_def or.commute)
  show "stage_fat_readFile file buf v = fat_readFile file buf (at_sector_0 v h)"
    by (simp add: stage_fat_readFile_def fat_readFile_def cl geometry_eq(4) [of v h] stage_loops_eq [of _ _ _ _ _ h])
  show "stage_fat_readFile_map file mem virt v = fat_readFile_map file mem virt (at_sector_0 v h)"
    by (simp add: stage_fat_readFile_map_def fat_readFile_map_def cl geometry_eq(4) [of v h] stage_loops_eq [of _ _ _ _ _ h])
  show "stage_fat_getNextCluster c v = fat_getNextCluster c (at_sector_0 v h)" by (rule stage_getNext_eq)
  show "stage_fat_readSector \<lparr>s_current_cluster = c0, s_next_cluster = c\<rparr> buf v
     = map_option (\<lambda>(f, b). (\<lparr>s_current_cluster = current_cluster f, s_next_cluster = next_cluster f\<rparr>, b))
         (fat_readSector \<lparr>current_cluster = c0, next_cluster = c, cluster = c0, offset = 0\<rparr> buf (at_sector_0 v h))"
    by (auto simp: stage_fat_readSector_def fat_readSector_def stage_eqs(1,2) stage_eqs(3-5) [where h = h] geometry_eq(4) [of v h] map_option_bind o_def
        split: bind_splits)
qed

section \<open>Names\<close>

text \<open>The name is padded, the extension is cut from whatever follows the dot.\<close>

lemma stage_convert_ok:
  assumes "0 \<notin> set base" and "46 \<notin> set base" and "0 \<notin> set extn"
    and "length base + length extn + 1 < 2 ^ 32" and "11 \<le> length base + length extn + 2 + length rest"
    and "3 \<le> length extn + 1 + length rest"
  shows "stage_convert_name (base @ 46 # extn @ 0 # rest) =
    Some (pad 8 (map upper_char base) @ take 3 (map upper_char extn @ 0 # rest)
      @ drop 11 (map upper_char base @ 46 # map upper_char extn @ 0 # rest))"
proof -
  let ?b = "map upper_char base" and ?e = "map upper_char extn"
  let ?fn = "?b @ 46 # ?e @ 0 # rest"
  have up46: "upper_char 46 = 46" using upper_char_eq_iff(2) by blast
  have nul: "0 \<notin> set (?b @ 46 # ?e)" and dot: "46 \<notin> set ?b"
  proof -
    have "\<forall>x \<in> set base. upper_char x \<noteq> 0 \<and> upper_char x \<noteq> 46" "\<forall>x \<in> set extn. upper_char x \<noteq> 0"
      using assms(1-3) upper_char_eq_iff by metis+
    then show "0 \<notin> set (?b @ 46 # ?e)" "46 \<notin> set ?b" by force+
  qed
  have "0 \<notin> set (base @ 46 # extn)" "length (base @ 46 # extn) < 2 ^ 32" using assms by simp_all
  from strupper_NUL [OF this, of rest] have up: "strupper (base @ 46 # extn @ 0 # rest) = Some ?fn"
    by (simp add: up46)
  have size: "strsize ?fn = Some (length base + 1 + length extn)"
    using strsize_NUL [OF nul, of rest] by simp
  have di: "dot_index ?fn (length base + 1 + length extn) = int (length base)"
    using dot_index_first [OF dot, of ?e "0 # rest"] by simp
  have out1: "base_loop 8 ?fn (int (length base)) (replicate 11 0x20) = Some (pad 8 ?b @ replicate 3 0x20)"
    using base_loop_ok [of 8 "int (length base)" ?fn] base_pad [of ?fn ?b "46 # ?e @ 0 # rest"] by simp
  have "map (\<lambda>j. ?fn ! (length base + 1 + j)) [0..<3] = take 3 (?e @ 0 # rest)"
    by (rule nth_equalityI) (use assms(6) in \<open>auto simp: nth_append\<close>)
  then have out2: "ext_loop 3 ?fn (length base + 1) (pad 8 ?b @ replicate 3 0x20) = Some (pad 8 ?b @ take 3 (?e @ 0 # rest))"
    using ext_loop_ok [of 3 "length base + 1" ?fn "pad 8 ?b"] assms(6) by simp
  show ?thesis
    using assms(5) unfolding stage_convert_name_def up bind.bind_lunit size di Let_def out1
    by (simp add: out2 [simplified] nat_add_distrib)
qed

lemma stage_find_path:
  assumes disk: "disk_ok d" and base: "0 \<notin> set base" "46 \<notin> set base" "47 \<notin> set base"
    and extn: "0 \<notin> set extn" "47 \<notin> set extn" "2 \<le> length extn"
    and len: "length base + length extn < 62" and fname0: "length fname0 = 64"
  shows "find_path stage_convert_name d root n ((base @ 46 # extn) @ 0 # r) 0 (length (base @ 46 # extn)) fname0 0
    = Some (dir_find d root (pad 8 (map upper_char base) @ take 3 (map upper_char extn @ [0])) (unat n),
        [(pad 8 (map upper_char base) @ take 3 (map upper_char extn @ [0])) @ [0]])"
proof -
  let ?name = "pad 8 (map upper_char base) @ take 3 (map upper_char extn @ [0])"
  have three: "take 3 (map upper_char extn @ 0 # rest) = take 3 (map upper_char extn @ [0])" for rest
  proof -
    have "3 - length extn = 0 \<or> 3 - length extn = 1" using extn(3) by linarith
    then show ?thesis by auto
  qed
  have len11: "length ?name = 11" using extn(3) by simp
  have conv: "\<exists>c. stage_convert_name ((base @ 46 # extn) @ 0 # rest) = Some (?name @ c) \<and> length c = 53"
    if "length rest = 63 - length (base @ 46 # extn)" for rest
  proof -
    let ?full = "map upper_char base @ 46 # map upper_char extn @ 0 # rest"
    have "stage_convert_name (base @ 46 # extn @ 0 # rest) = Some (pad 8 (map upper_char base) @
        take 3 (map upper_char extn @ 0 # rest) @ drop 11 ?full)"
      by (rule stage_convert_ok [OF base(1,2) extn(1)]) (use that len extn(3) in auto)
    moreover have "length ?full = 64" using that len by simp
    then have "length (drop 11 ?full) = 53" by (simp only: length_drop)
    ultimately show ?thesis unfolding three [of rest] by (intro exI [of _ "drop 11 ?full"]) (simp only: append.assoc append_Cons simp_thms)
  qed
  show ?thesis
    by (rule find_path_lookup [OF disk _ _ _ _ fname0 len11]) (use base extn len conv in auto)
qed

lemma stage_findFile_ok:
  assumes "disk_ok (sdisk v)" and "stage_root_dir_sectors v = Some n"
    and "0 \<notin> set base" and "46 \<notin> set base" and "47 \<notin> set base"
    and "0 \<notin> set extn" and "47 \<notin> set extn" and "2 \<le> length extn"
    and "length base + length extn < 62" and "length fname0 = 64"
  shows "stage_fat_findFile fname0 (base @ 46 # extn @ 0 # r) v
    = Some (case dir_find (sdisk v) (stage_root_dirs_start v) (pad 8 (map upper_char base) @ take 3 (map upper_char extn @ [0])) (unat n)
        of Some dir \<Rightarrow> dir | None \<Rightarrow> no_file)"
proof -
  have "0 \<notin> set (base @ 46 # extn)" using assms by simp
  from strsize_NUL [OF this, of r] have size: "strsize (base @ 46 # extn @ 0 # r) = Some (length (base @ 46 # extn))" by simp
  then show ?thesis
    using stage_find_path [OF assms(1,3-10), of "stage_root_dirs_start v" n r] assms(2)
    by (simp add: stage_fat_findFile_def)
qed

section \<open>A volume with two files\<close>

text \<open>\<open>K.BIN\<close> and \<open>K.CC\<close> in the root directory, which is sector 2.\<close>

definition stage_dir :: buffer where
  "stage_dir = fat16_name [75] [66, 73, 78] @ 0x20 # replicate 14 0 @ 2 # replicate 5 0
     @ fat16_name [75] [67, 67] @ 0x20 # replicate 14 0 @ 3 # replicate 5 0 @ replicate 448 0"

definition stage_volume :: stage_fs where
  "stage_volume = \<lparr>sdisk = (\<lambda>_. replicate 512 0)(2 := stage_dir),
     shdr = (fat_header_of (replicate 36 0))\<lparr>bytes_per_sector := 512, sector_per_cluster := 1, reserved_sector := 1,
       fat_number := 1, root_dir_entries := 16, sector_per_fat := 1\<rparr>,
     sext = fat_extended_of (replicate 26 0)\<rparr>"

lemma length_fat16_name [simp]: "length (fat16_name b e) = 11"
  by (simp add: fat16_name_def)

lemma stage_volume_ok: "disk_ok (sdisk stage_volume)" "stage_root_dir_sectors stage_volume = Some 1"
  "stage_root_dirs_start stage_volume = 2"
  by (simp_all add: stage_volume_def disk_ok_def stage_dir_def stage_root_dir_sectors_def stage_root_dirs_start_def
      stage_fat_start_def Let_def)

lemma stage_volume_entry:
  assumes "k < 16"
  shows "dir_entry_at (sdisk stage_volume) 2 k = take 32 (drop (32 * k) stage_dir)"
proof -
  have "sector_of (sdisk stage_volume) 2 = stage_dir" by (simp add: sector_of_def stage_volume_def)
  then show ?thesis
    using disk_bytes_sector [OF stage_volume_ok(1), of "32 * k" 32 2] assms by (simp add: dir_entry_at_def)
qed

lemma stage_volume_names:
  "take 11 (dir_entry_at (sdisk stage_volume) 2 0) = fat16_name [75] [66, 73, 78]"
  "take 11 (dir_entry_at (sdisk stage_volume) 2 (Suc 0)) = fat16_name [75] [67, 67]"
  "2 \<le> k \<Longrightarrow> k < 16 \<Longrightarrow> take 11 (dir_entry_at (sdisk stage_volume) 2 k) = replicate 11 0"
proof -
  show "take 11 (dir_entry_at (sdisk stage_volume) 2 0) = fat16_name [75] [66, 73, 78]"
    "take 11 (dir_entry_at (sdisk stage_volume) 2 (Suc 0)) = fat16_name [75] [67, 67]"
    by (simp_all add: stage_volume_entry stage_dir_def)
  assume k: "2 \<le> k" "k < 16"
  obtain xs where xs: "stage_dir = xs @ replicate 448 0" "length xs = 64"
    by (rule that [of "take 64 stage_dir"]) (simp_all add: stage_dir_def)
  have "drop (32 * k) stage_dir = replicate (448 - (32 * k - 64)) 0"
    unfolding xs(1) drop_append using k(1) xs(2) by (simp only: drop_replicate) simp
  then show "take 11 (dir_entry_at (sdisk stage_volume) 2 k) = replicate 11 0"
    using k by (simp add: stage_volume_entry)
qed

section \<open>The properties\<close>

text \<open>
  for a name with an extension of three characters the stage's \<open>fat_findFile\<close> finds what
  the kernel's finds on the same volume at sector 0.
\<close>

theorem stage_findFile_like_kernel:
  assumes "disk_ok (sdisk v)" and "stage_root_dir_sectors v = Some n"
    and "0 \<notin> set base" and "46 \<notin> set base" and "47 \<notin> set base"
    and "0 \<notin> set extn" and "47 \<notin> set extn" and "length extn = 3"
    and "length base < 59" and "length fname0 = 64"
  shows "stage_fat_findFile fname0 (base @ 46 # extn @ 0 # r) v = map_option fst (fat_findFile fname0 (base @ 46 # extn @ 0 # r) (at_sector_0 v h))"
proof -
  let ?s = "at_sector_0 v h"
  have "map_option fst (fat_findFile fname0 (base @ 46 # extn @ 0 # r) ?s)
      = Some (case root_lookup ?s (fat16_name base extn) (unat n) of Some dir \<Rightarrow> dir | None \<Rightarrow> no_file)"
    by (rule find_file_entry) (use assms geometry_eq(3) [of v h] in auto)
  moreover have "pad 8 (map upper_char base) @ take 3 (map upper_char extn @ [0]) = fat16_name base extn"
    using assms(8) by (simp add: fat16_name_def pad_def)
  ultimately show ?thesis
    using stage_findFile_ok [OF assms(1-7) _ _ assms(10), of r] assms(8,9)
    by (simp add: root_lookup_dir geometry_eq(2) [of v h] del: map_option_eq_Some)
qed

lemma names_apart: "fat16_name [75] [66, 73, 78] \<noteq> fat16_name [75] [67, 67]"
proof -
  have "fat16_name [75] [66, 73, 78] ! 8 = upper_char 66" "fat16_name [75] [67, 67] ! 8 = upper_char 67"
    by (simp_all add: fat16_name_def pad_def nth_append)
  moreover have "upper_char 66 \<noteq> upper_char 67" by (simp add: upper_char_def)
  ultimately show ?thesis by metis
qed

lemma stage_volume_find:
  "dir_find (sdisk stage_volume) 2 (fat16_name [75] [66, 73, 78]) 1 = Some (fat_filedirectory_of (take 32 stage_dir))"
  "dir_find (sdisk stage_volume) 2 (fat16_name [75] [67, 67]) 1 = Some (fat_filedirectory_of (take 32 (drop 32 stage_dir)))"
proof -
  have up: "[0..<16] = 0 # Suc 0 # [2..<16]" by (simp add: upt_rec)
  show "dir_find (sdisk stage_volume) 2 (fat16_name [75] [66, 73, 78]) 1 = Some (fat_filedirectory_of (take 32 stage_dir))"
    "dir_find (sdisk stage_volume) 2 (fat16_name [75] [67, 67]) 1 = Some (fat_filedirectory_of (take 32 (drop 32 stage_dir)))"
    by (simp_all add: dir_find_def up stage_volume_names(1,2) names_apart) (simp_all add: stage_volume_entry)
qed

theorem stage_findFile_like_kernel_witness:
  "stage_fat_findFile (replicate 64 7) [75, 46, 66, 73, 78, 0] stage_volume
     = map_option fst (fat_findFile (replicate 64 7) [75, 46, 66, 73, 78, 0] (at_sector_0 stage_volume h))
   \<and> map_option fst (fat_findFile (replicate 64 7) [75, 46, 66, 73, 78, 0] (at_sector_0 stage_volume h))
     = Some (fat_filedirectory_of (take 32 stage_dir))"
proof
  show "stage_fat_findFile (replicate 64 7) [75, 46, 66, 73, 78, 0] stage_volume
     = map_option fst (fat_findFile (replicate 64 7) [75, 46, 66, 73, 78, 0] (at_sector_0 stage_volume h))"
    using stage_findFile_like_kernel [OF stage_volume_ok(1,2), of "[75]" "[66, 73, 78]" "replicate 64 7" "[]"] by simp
  show "map_option fst (fat_findFile (replicate 64 7) [75, 46, 66, 73, 78, 0] (at_sector_0 stage_volume h))
     = Some (fat_filedirectory_of (take 32 stage_dir))"
    using find_file_entry [of "at_sector_0 stage_volume h" 1 "[75]" "[66, 73, 78]" "replicate 64 7" "[]"] stage_volume_ok
    by (simp add: geometry_eq(2,3) [of _ h, symmetric] root_lookup_dir stage_volume_find [unfolded One_nat_def] del: map_option_eq_Some)
qed

text \<open>
  an extension of two characters is not padded: the stage looks for a name that ends in
  a NUL and misses the file, although the kernel's \<open>fat_findFile\<close> looks for the padded form.
\<close>

theorem stage_findFile_short_extension:
  assumes "disk_ok (sdisk v)" and "stage_root_dir_sectors v = Some n"
    and "0 \<notin> set base" and "46 \<notin> set base" and "47 \<notin> set base" and "base \<noteq> []"
    and "0 \<notin> set extn" and "47 \<notin> set extn" and "length extn = 2"
    and "length base < 60" and "length fname0 = 64"
    and "\<forall>k < 16 * unat n. 0 \<in> set (take 11 (dir_entry_at (sdisk v) (stage_root_dirs_start v) k))
      \<longrightarrow> dir_entry_at (sdisk v) (stage_root_dirs_start v) k ! 0 = 0"
  shows "stage_fat_findFile fname0 (base @ 46 # extn @ 0 # r) v = Some no_file"
proof -
  let ?name = "pad 8 (map upper_char base) @ take 3 (map upper_char extn @ [0])"
  let ?entry = "dir_entry_at (sdisk v) (stage_root_dirs_start v)"
  have "?name ! 0 = upper_char (hd base)" using assms(6) by (cases base) (simp_all add: pad_def nth_append)
  then have first: "?name ! 0 \<noteq> 0" using assms(3,6) upper_char_eq_iff(1) by (metis list.set_sel(1))
  have nul: "0 \<in> set ?name" using assms(9) by simp
  have "take 11 (?entry k) \<noteq> ?name" if "k < 16 * unat n" for k
  proof
    assume e: "take 11 (?entry k) = ?name"
    then have "?entry k ! 0 = 0" using assms(12) that nul by metis
    then have "?name ! 0 = 0" using e by (metis nth_take zero_less_numeral)
    then show False using first by contradiction
  qed
  then have "dir_find (sdisk v) (stage_root_dirs_start v) ?name (unat n) = None"
    by (simp add: dir_find_def find_upt_None)
  then show ?thesis using stage_findFile_ok [OF assms(1-5,7,8) _ _ assms(11), of r] assms(9,10) by simp
qed

theorem stage_findFile_short_extension_witness:
  "stage_fat_findFile (replicate 64 7) [75, 46, 67, 67, 0] stage_volume = Some no_file
   \<and> (\<forall>h. map_option fst (fat_findFile (replicate 64 7) [75, 46, 67, 67, 0] (at_sector_0 stage_volume h))
     = Some (fat_filedirectory_of (take 32 (drop 32 stage_dir))))"
proof
  have "0 \<notin> set (fat16_name [75] [66, 73, 78])" "0 \<notin> set (fat16_name [75] [67, 67])"
    by (simp_all add: fat16_name_def pad_def upper_char_def)
  then have "0 \<in> set (take 11 (dir_entry_at (sdisk stage_volume) 2 k)) \<longrightarrow> dir_entry_at (sdisk stage_volume) 2 k ! 0 = 0"
    if "k < 16" for k
  proof -
    consider "k = 0" | "k = Suc 0" | "2 \<le> k" by linarith
    then show ?thesis
    proof cases
      case 3
      have "take 11 (dir_entry_at (sdisk stage_volume) 2 k) ! 0 = 0" unfolding stage_volume_names(3) [OF 3 that] by simp
      then show ?thesis by simp
    qed (simp_all add: stage_volume_names(1,2) \<open>0 \<notin> set (fat16_name [75] [66, 73, 78])\<close> \<open>0 \<notin> set (fat16_name [75] [67, 67])\<close>)
  qed
  then show "stage_fat_findFile (replicate 64 7) [75, 46, 67, 67, 0] stage_volume = Some no_file"
    using stage_findFile_short_extension [OF stage_volume_ok(1,2), of "[75]" "[67, 67]" "replicate 64 7" "[]"]
    by (simp add: stage_volume_ok(3))
  show "\<forall>h. map_option fst (fat_findFile (replicate 64 7) [75, 46, 67, 67, 0] (at_sector_0 stage_volume h))
     = Some (fat_filedirectory_of (take 32 (drop 32 stage_dir)))"
  proof
    fix h
    show "map_option fst (fat_findFile (replicate 64 7) [75, 46, 67, 67, 0] (at_sector_0 stage_volume h))
       = Some (fat_filedirectory_of (take 32 (drop 32 stage_dir)))"
      using find_file_entry [of "at_sector_0 stage_volume h" 1 "[75]" "[67, 67]" "replicate 64 7" "[]"] stage_volume_ok
      by (simp add: geometry_eq(2,3) [of _ h, symmetric] root_lookup_dir stage_volume_find [unfolded One_nat_def] del: map_option_eq_Some)
  qed
qed

end
